(* ===== verification/Prelude.thy ===== *)
theory Prelude
  imports Main "HOL-Library.Word"
begin

unbundle bit_operations_syntax

section \<open>Prelude: bytes, strings and the lemmas the components share\<close>

text \<open>
  The base types of the development and the generic facts about them.

  \<^item> A \<open>std::string\<close> is a HOL \<open>string\<close>: its characters are bytes, so \<open>length\<close> counts bytes
    as \<open>size()\<close> does.  A \<open>std::vector<uint8_t>\<close> is a list of \<open>8 word\<close>.  \<open>bytes_of\<close> and
    \<open>string_of\<close> are the two \<open>reinterpret_cast\<close>s between them.
  \<^item> Unsigned integers keep their width (\<open>32 word\<close>); a store of a \<open>uint32_t\<close> through a
    cast pointer is the little-endian store of the x86 targets of the build files.
  \<^item> \<open>char_at\<close> is \<open>std::string::operator[]\<close>, which gives the terminating NUL at
    \<open>size()\<close>; \<open>c_str\<close> is what a reader of a NUL-terminated buffer sees.
\<close>

type_synonym byte = "8 word"
type_synonym u32 = "32 word"
type_synonym u64 = "64 word"

named_theorems bytes_simps \<open>conversions between strings, bytes and machine integers\<close>
named_theorems string_simps \<open>searching and splitting of strings\<close>

subsection \<open>Characters and bytes\<close>

abbreviation ord :: "char \<Rightarrow> nat" where
  "ord c \<equiv> of_char c"

definition byte_of :: "char \<Rightarrow> byte" where
  "byte_of c = word_of_nat (of_char c)"

definition char_of_byte :: "byte \<Rightarrow> char" where
  "char_of_byte b = char_of (unat b)"

definition bytes_of :: "string \<Rightarrow> byte list" where
  "bytes_of s = map byte_of s"

definition string_of :: "byte list \<Rightarrow> string" where
  "string_of bs = map char_of_byte bs"

lemma of_char_less_256 [simp]: "ord c < 256"
  by (metis of_char_mod_256 mod_less_divisor zero_less_numeral)

lemma unat_byte_of [simp]: "unat (byte_of c) = ord c"
  by (simp add: byte_of_def unat_of_nat)

lemma char_of_byte_of [simp]: "char_of_byte (byte_of c) = c"
  by (simp add: char_of_byte_def)

lemma byte_of_char_of_byte [simp]: "byte_of (char_of_byte b) = b"
proof -
  have "unat b < 256" using unsigned_less [of b, where 'a = nat] by simp
  then show ?thesis by (simp add: byte_of_def char_of_byte_def of_char_of)
qed

lemma byte_of_inj [simp]: "byte_of c = byte_of d \<longleftrightarrow> c = d"
  by (metis char_of_byte_of)

lemma string_of_bytes_of [simp, bytes_simps]: "string_of (bytes_of s) = s"
  by (simp add: string_of_def bytes_of_def comp_def)

lemma bytes_of_string_of [simp, bytes_simps]: "bytes_of (string_of bs) = bs"
  by (simp add: string_of_def bytes_of_def comp_def)

lemma length_bytes_of [simp]: "length (bytes_of s) = length s"
  by (simp add: bytes_of_def)

lemma length_string_of [simp]: "length (string_of bs) = length bs"
  by (simp add: string_of_def)

lemma bytes_of_Nil [simp]: "bytes_of [] = []"
  by (simp add: bytes_of_def)

lemma bytes_of_append [simp]: "bytes_of (s @ t) = bytes_of s @ bytes_of t"
  by (simp add: bytes_of_def)

lemma string_of_Nil [simp]: "string_of [] = []"
  by (simp add: string_of_def)

lemma string_of_append [simp]: "string_of (s @ t) = string_of s @ string_of t"
  by (simp add: string_of_def)

text \<open>\<open>isspace\<close> of the C locale.\<close>

definition is_space :: "char \<Rightarrow> bool" where
  "is_space c \<longleftrightarrow> c = CHR '' '' \<or> 9 \<le> ord c \<and> ord c \<le> 13"

text \<open>The value of a (signed) \<open>char\<close> promoted to \<open>int\<close>.\<close>

definition schar :: "char \<Rightarrow> int" where
  "schar c = (if ord c < 128 then int (ord c) else int (ord c) - 256)"

subsection \<open>Reading a string\<close>

definition char_at :: "string \<Rightarrow> nat \<Rightarrow> char" where
  "char_at s i = (if i < length s then s ! i else CHR 0x00)"

definition c_str :: "string \<Rightarrow> string" where
  "c_str s = takeWhile (\<lambda>c. c \<noteq> CHR 0x00) s"

lemma c_str_no_nul [simp]: "CHR 0x00 \<notin> set s \<Longrightarrow> c_str s = s"
  by (auto simp: c_str_def takeWhile_eq_all_conv)

lemma c_str_append_nul [simp]: "CHR 0x00 \<notin> set s \<Longrightarrow> c_str (s @ CHR 0x00 # t) = s"
  by (auto simp: c_str_def takeWhile_append takeWhile_eq_all_conv)

lemma char_at_append_nth [simp]: "char_at (s @ c # t) (length s) = c"
  by (simp add: char_at_def nth_append)

lemma char_at_end [simp]: "char_at s (length s) = CHR 0x00"
  by (simp add: char_at_def)

text \<open>\<open>std::string::find\<close>: the first position of a substring, \<open>None\<close> for \<open>npos\<close>.\<close>

definition has_prefix :: "'a list \<Rightarrow> 'a list \<Rightarrow> bool" where
  "has_prefix p s \<longleftrightarrow> take (length p) s = p"

lemma has_prefix_append [simp, string_simps]: "has_prefix p (p @ s)"
  by (simp add: has_prefix_def)

lemma has_prefix_Cons [simp, string_simps]:
  "has_prefix (x # p) (y # s) \<longleftrightarrow> x = y \<and> has_prefix p s"
  by (auto simp: has_prefix_def)

lemma has_prefix_Nil1 [simp, string_simps]: "has_prefix [] s"
  by (simp add: has_prefix_def)

lemma has_prefix_Nil2 [simp, string_simps]: "has_prefix p [] \<longleftrightarrow> p = []"
  by (auto simp: has_prefix_def)

fun str_find :: "'a list \<Rightarrow> 'a list \<Rightarrow> nat option" where
  "str_find p [] = (if p = [] then Some 0 else None)"
| "str_find p (c # s) =
     (if has_prefix p (c # s) then Some 0 else map_option Suc (str_find p s))"

lemma str_find_Some_split:
  "str_find p s = Some n \<Longrightarrow> s = take n s @ p @ drop (n + length p) s \<and> n \<le> length s"
proof (induction s arbitrary: n)
  case Nil
  then show ?case by (simp split: if_splits)
next
  case (Cons c s)
  show ?case
  proof (cases "has_prefix p (c # s)")
    case True
    with Cons.prems have "n = 0" by simp
    with True show ?thesis
      by (metis add_0 append_Nil append_take_drop_id has_prefix_def le0 take0)
  next
    case False
    with Cons.prems obtain m where "str_find p s = Some m" "n = Suc m"
      by (auto split: if_splits)
    with Cons.IH [of m] show ?thesis by simp
  qed
qed

text \<open>\<open>find_first_of\<close> with a single character.\<close>

fun find_char :: "'a \<Rightarrow> 'a list \<Rightarrow> nat option" where
  "find_char c [] = None"
| "find_char c (x # xs) = (if x = c then Some 0 else map_option Suc (find_char c xs))"

lemma find_char_Some:
  "find_char c s = Some n \<longleftrightarrow> n < length s \<and> s ! n = c \<and> c \<notin> set (take n s)"
proof (induction s arbitrary: n)
  case Nil
  then show ?case by simp
next
  case (Cons x s)
  then show ?case by (cases n) auto
qed

lemma find_char_None [simp]: "find_char c s = None \<longleftrightarrow> c \<notin> set s"
  by (induction s) auto

lemma find_char_append [simp, string_simps]:
  "c \<notin> set s \<Longrightarrow> find_char c (s @ c # t) = Some (length s)"
  by (induction s) auto

subsection \<open>Little-endian and big-endian words\<close>

definition le32 :: "u32 \<Rightarrow> byte list" where
  "le32 w = [ucast w, ucast (drop_bit 8 w), ucast (drop_bit 16 w), ucast (drop_bit 24 w)]"

definition rd_le32 :: "byte list \<Rightarrow> u32" where
  "rd_le32 bs = ucast (bs ! 0) OR push_bit 8 (ucast (bs ! 1)) OR
     push_bit 16 (ucast (bs ! 2)) OR push_bit 24 (ucast (bs ! 3))"

text \<open>\<open>htonl\<close>/\<open>ntohl\<close> of a little-endian host, and \<open>swap_uint32\<close> of \<open>huajiao.hpp\<close>.\<close>

definition swap_uint32 :: "u32 \<Rightarrow> u32" where
  "swap_uint32 value =
     push_bit 24 (value AND 0x000000FF) OR push_bit 8 (value AND 0x0000FF00) OR
     drop_bit 8 (value AND 0x00FF0000) OR drop_bit 24 (value AND 0xFF000000)"

definition be32 :: "u32 \<Rightarrow> byte list" where
  "be32 w = rev (le32 w)"

definition rd_be32 :: "byte list \<Rightarrow> u32" where
  "rd_be32 bs = rd_le32 (rev (take 4 bs))"

lemma length_le32 [simp]: "length (le32 w) = 4"
  by (simp add: le32_def)

lemma length_be32 [simp]: "length (be32 w) = 4"
  by (simp add: be32_def)

lemma bit_u32_bound: "bit (w :: u32) n \<Longrightarrow> n < 32"
  using bit_imp_le_length [of w n] by simp

lemma u32_byte_cases:
  assumes "n < LENGTH(32)"
  obtains "n < 8" | "8 \<le> n" "n < 16" | "16 \<le> n" "n < 24" | "24 \<le> n" "n < 32"
  using assms by (cases "n < 8"; cases "n < 16"; cases "n < 24") auto

lemmas word_bits = bit_or_iff bit_and_iff bit_xor_iff bit_push_bit_iff bit_ucast_iff
  bit_drop_bit_eq

lemma rd_le32_le32 [simp, bytes_simps]: "rd_le32 (le32 w @ bs) = w"
proof (rule bit_word_eqI)
  fix n assume "n < LENGTH(32)"
  then show "bit (rd_le32 (le32 w @ bs)) n = bit w n"
    unfolding rd_le32_def le32_def
    by (cases rule: u32_byte_cases) (auto simp: word_bits simp del: push_bit_numeral)
qed

lemma rd_le32_le32_Nil [simp, bytes_simps]: "rd_le32 (le32 w) = w"
  using rd_le32_le32 [of w "[]"] by simp

lemma bit_mask_byte:
  "bit (0x000000FF :: u32) n \<longleftrightarrow> n < 8"
  "bit (0x0000FF00 :: u32) n \<longleftrightarrow> 8 \<le> n \<and> n < 16"
  "bit (0x00FF0000 :: u32) n \<longleftrightarrow> 16 \<le> n \<and> n < 24"
  "bit (0xFF000000 :: u32) n \<longleftrightarrow> 24 \<le> n \<and> n < 32"
proof -
  have m: "(0x000000FF :: u32) = mask 8" "(0x0000FF00 :: u32) = push_bit 8 (mask 8)"
    "(0x00FF0000 :: u32) = push_bit 16 (mask 8)" "(0xFF000000 :: u32) = push_bit 24 (mask 8)"
    by (simp_all add: mask_eq_exp_minus_1)
  show "bit (0x000000FF :: u32) n \<longleftrightarrow> n < 8"
    "bit (0x0000FF00 :: u32) n \<longleftrightarrow> 8 \<le> n \<and> n < 16"
    "bit (0x00FF0000 :: u32) n \<longleftrightarrow> 16 \<le> n \<and> n < 24"
    "bit (0xFF000000 :: u32) n \<longleftrightarrow> 24 \<le> n \<and> n < 32"
    unfolding m by (auto simp: bit_push_bit_iff bit_mask_iff)
qed

text \<open>Where each bit of a byte-swapped word comes from.\<close>

lemma bit_swap_uint32:
  assumes "n < 32"
  shows "bit (swap_uint32 w) n \<longleftrightarrow>
    bit w (if n < 8 then n + 24 else if n < 16 then n + 8 else if n < 24 then n - 8 else n - 24)"
  using assms unfolding swap_uint32_def word_bits bit_mask_byte
  by (auto simp: add.commute)

lemma le32_swap_uint32 [simp, bytes_simps]: "le32 (swap_uint32 w) = be32 w"
proof -
  have "ucast (swap_uint32 w) = (ucast (drop_bit 24 w) :: byte)"
    "ucast (drop_bit 8 (swap_uint32 w)) = (ucast (drop_bit 16 w) :: byte)"
    "ucast (drop_bit 16 (swap_uint32 w)) = (ucast (drop_bit 8 w) :: byte)"
    "ucast (drop_bit 24 (swap_uint32 w)) = (ucast w :: byte)"
    by (auto intro!: bit_word_eqI simp: word_bits bit_swap_uint32 add.commute)
  then show ?thesis by (simp add: le32_def be32_def)
qed

lemma swap_uint32_swap_uint32 [simp, bytes_simps]: "swap_uint32 (swap_uint32 w) = w"
proof (rule bit_word_eqI)
  fix n assume "n < LENGTH(32)"
  then show "bit (swap_uint32 (swap_uint32 w)) n = bit w n"
    by (cases rule: u32_byte_cases) (auto simp: bit_swap_uint32)
qed

lemma rd_be32_be32 [simp, bytes_simps]: "rd_be32 (be32 w @ bs) = w"
proof -
  have "length (be32 w) = 4" by simp
  then have "rev (take 4 (be32 w @ bs)) = le32 w" by (simp add: be32_def)
  then show ?thesis by (simp only: rd_be32_def rd_le32_le32_Nil)
qed

end
