(* ===== verification/Effects.thy ===== *)
theory Effects
  imports Prelude
begin

section \<open>network: what a handler asks of the network layer, and the error macros\<close>

text \<open>
  The platform classes talk to websocketpp and to Boost.Asio, which complete operations later by
  calling the handler that was bound to them.  A handler of the model returns, beside the
  new state of its object, the list of the requests it makes, in order (\<open>effect\<close>); the
  completion handler that is bound to an asynchronous request is named by its function
  (\<open>handler\<close>).  An error code is \<open>None\<close> for success and \<open>Some\<close> of its \<open>message()\<close>
  otherwise.  The outcomes of synchronous library calls are fields of \<open>env\<close>, an argument of
  the handlers that make them.
\<close>

type_synonym hdl = nat
type_synonym error_code = "string option"

datatype opcode = CONTINUATION | TEXT | BINARY | CLOSE | PING | PONG

definition bad_message :: error_code where
  "bad_message = Some ''Bad message''"

text \<open>What ends a handler early: an exception that leaves it, or undefined behaviour.\<close>

datatype fault =
    Out_of_range            \<comment> \<open>\<open>std::vector::at\<close> throws\<close>
  | Bad_function_call       \<comment> \<open>an empty \<open>std::function\<close> is called\<close>
  | Null_pointer            \<comment> \<open>a null \<open>shared_ptr\<close> is dereferenced\<close>
  | Bad_index               \<comment> \<open>\<open>operator[]\<close> of a vector out of range\<close>
  | Bad_cast                \<comment> \<open>a floating-point value does not fit the integer type\<close>
  | Bad_read                \<comment> \<open>a read before or behind a buffer\<close>
  | Bad_write               \<comment> \<open>a write behind a buffer\<close>
  | Assertion               \<comment> \<open>an \<open>assert\<close> fails\<close>
  | Hang                    \<comment> \<open>a loop that never ends\<close>
  | Deadlock                \<comment> \<open>a thread locks a mutex it holds\<close>

text \<open>The functions and lambdas that are bound as completion handlers.\<close>

datatype handler =
    On_resolve | On_connect | Written | Handle_header | Handle_data | Handle_heartbeat_timer
  | On_http_resolve | On_http_connect | Request_written | Handle_http_read_status_line
  | Handle_http_read_header | Handle_http_read_content | On_tcp_resolve | On_tcp_connect | Data_skipped

datatype effect =
    Publish string                       \<comment> \<open>\<open>platform_base::publish\<close>\<close>
  | Close_callback string                \<comment> \<open>\<open>m_close_callback(roomstr)\<close>\<close>
  | Async_resolve string string handler  \<comment> \<open>host and service\<close>
  | Async_connect handler
  | Async_write "byte list" handler
  | Async_read nat handler               \<comment> \<open>exactly so many bytes\<close>
  | Async_read_until string handler
  | Async_read_some handler              \<comment> \<open>\<open>transfer_at_least(1)\<close>\<close>
  | Async_wait nat handler               \<comment> \<open>the heartbeat timer, in seconds\<close>
  | Socket_close
  | Timer_cancel
  | Ws_connect string
  | Ws_send "byte list" opcode
  | Ws_close
  | Ws_set_timer nat                     \<comment> \<open>in milliseconds\<close>
  | Fault fault

record env =
  expired :: "hdl \<Rightarrow> bool"                       \<comment> \<open>the handle's connection is gone\<close>
  send_ec :: "hdl \<Rightarrow> string \<Rightarrow> error_code"       \<comment> \<open>\<open>send\<close> of the handle's connection\<close>
  get_connection_ec :: error_code                \<comment> \<open>\<open>client.get_connection\<close>\<close>
  client_send_ec :: error_code                   \<comment> \<open>\<open>client.send\<close>\<close>
  client_close_ec :: error_code                  \<comment> \<open>\<open>client.close\<close>\<close>
  socket_close_ec :: error_code                  \<comment> \<open>\<open>tcp::socket::close\<close>\<close>
  draws :: "nat \<Rightarrow> int \<Rightarrow> int \<Rightarrow> int"             \<comment> \<open>integer distributions\<close>
  now :: nat                                     \<comment> \<open>\<open>time(NULL)\<close>\<close>
  tokens :: "string \<Rightarrow> string list"               \<comment> \<open>\<open>boost::tokenizer\<close>, separator \<open>/\<close>\<close>
  trim :: "string \<Rightarrow> string"                      \<comment> \<open>\<open>boost::trim\<close>\<close>
  xml_get :: "string \<Rightarrow> string list \<Rightarrow> string option"
                                                 \<comment> \<open>\<open>read_xml\<close> and \<open>get\<close> of a path; None: one of them throws\<close>
  uid_offset :: nat                              \<comment> \<open>what a draw from \<open>2e14 * [0, 1)\<close> adds\<close>

text \<open>
  What the code relies on of the two Boost string algorithms: a tokenizer with
  \<open>char_separator("/")\<close> gives the non-empty pieces between separators; \<open>trim\<close> drops white
  space at both ends and nothing else.
\<close>

definition separates :: "(string \<Rightarrow> string list) \<Rightarrow> bool" where
  "separates tok \<longleftrightarrow>
     tok [] = [] \<and> (\<forall>s. tok (CHR ''/'' # s) = tok s) \<and>
     (\<forall>w. w \<noteq> [] \<longrightarrow> CHR ''/'' \<notin> set w \<longrightarrow> tok w = [w] \<and> (\<forall>s. tok (w @ CHR ''/'' # s) = w # tok s))"

definition trims :: "(string \<Rightarrow> string) \<Rightarrow> bool" where
  "trims f \<longleftrightarrow> (\<forall>s pre post. s \<noteq> [] \<longrightarrow> \<not> is_space (hd s) \<longrightarrow> \<not> is_space (last s) \<longrightarrow>
     list_all is_space pre \<longrightarrow> list_all is_space post \<longrightarrow> f (pre @ s @ post) = s)"

text \<open>Two functions that behave so, for the concrete environment \<open>calm\<close>.\<close>

fun slash_tokens :: "string \<Rightarrow> string \<Rightarrow> string list" where
  "slash_tokens w [] = (if w = [] then [] else [w])"
| "slash_tokens w (c # s) =
     (if c = CHR ''/'' then (if w = [] then slash_tokens [] s else w # slash_tokens [] s)
      else slash_tokens (w @ [c]) s)"

definition trim_spaces :: "string \<Rightarrow> string" where
  "trim_spaces s = rev (dropWhile is_space (rev (dropWhile is_space s)))"

text \<open>An environment in which every synchronous call succeeds.\<close>

definition calm :: env where
  "calm = \<lparr>expired = (\<lambda>_. False), send_ec = (\<lambda>_ _. None), get_connection_ec = None, client_send_ec = None,
     client_close_ec = None, socket_close_ec = None, draws = (\<lambda>_ lo _. lo), now = 0,
     tokens = slash_tokens [], trim = trim_spaces, xml_get = (\<lambda>_ _. None), uid_offset = 0\<rparr>"

lemma slash_tokens_word:
  "CHR ''/'' \<notin> set w \<Longrightarrow> slash_tokens v (w @ s) = slash_tokens (v @ w) s"
  by (induction w arbitrary: v) auto

lemma separates_slash_tokens: "separates (slash_tokens [])"
  using slash_tokens_word [of _ "[]" "[]"] slash_tokens_word [of _ "[]"]
  by (auto simp: separates_def)

lemma dropWhile_stop: "xs \<noteq> [] \<Longrightarrow> \<not> p (hd xs) \<Longrightarrow> list_all p pre \<Longrightarrow> dropWhile p (pre @ xs) = xs"
  by (induction pre) (auto simp: neq_Nil_conv)

lemma trims_trim_spaces: "trims trim_spaces"
proof -
  have "trim_spaces (pre @ s @ post) = s"
    if "s \<noteq> []" "\<not> is_space (hd s)" "\<not> is_space (last s)" "list_all is_space pre" "list_all is_space post"
    for s pre post
  proof -
    have "dropWhile is_space (pre @ s @ post) = s @ post"
      using that by (intro dropWhile_stop) auto
    moreover have "dropWhile is_space (rev post @ rev s) = rev s"
      using that by (intro dropWhile_stop) (auto simp: hd_rev list_all_iff)
    ultimately show ?thesis by (simp add: trim_spaces_def)
  qed
  then show ?thesis by (simp add: trims_def)
qed

subsection \<open>The error macros\<close>

text \<open>
  \<open>CLIENT_REPORT_WHEN_ERROR\<close> tells the listeners and calls the close callback with the room
  string of the platform; \<open>CLIENT_CLOSE_AND_REPORT_WHEN_ERROR_WS\<close> also closes the websocket.
\<close>

definition roomstr_of :: "string \<Rightarrow> string \<Rightarrow> string" where
  "roomstr_of platform_name roomid = platform_name @ ''_'' @ roomid"

definition client_report :: "string \<Rightarrow> string \<Rightarrow> error_code \<Rightarrow> effect list" where
  "client_report platform_name roomid ec =
     (case ec of
        None \<Rightarrow> []
      | Some message \<Rightarrow>
          [Publish (''connection closed because:'' @ message),
           Close_callback (roomstr_of platform_name roomid)])"

definition client_close_and_report_ws :: "string \<Rightarrow> string \<Rightarrow> error_code \<Rightarrow> effect list" where
  "client_close_and_report_ws platform_name roomid ec =
     client_report platform_name roomid ec @ (if ec = None then [] else [Ws_close])"

text \<open>
  What the server side sends to its clients: a frame that was accepted, a frame that failed,
  and the closing of a connection by \<open>SERVER_CLOSE_AND_REPORT_WHEN_ERROR\<close>.
\<close>

datatype srv_event =
    Sent hdl string
  | Send_failed hdl string
  | Server_close hdl string

definition server_close_and_report :: "hdl \<Rightarrow> error_code \<Rightarrow> srv_event list" where
  "server_close_and_report h ec =
     (case ec of
        None \<Rightarrow> []
      | Some message \<Rightarrow> [Server_close h (''connection closed because:'' @ message)])"

text \<open>
  \<open>endpoint::send\<close> of websocketpp with the error code it is handed: \<open>get_con_from_hdl\<close> sets it when the
  connection is gone and leaves it alone otherwise, and when it is set nothing is sent.
\<close>

definition endpoint_send :: "env \<Rightarrow> error_code \<Rightarrow> hdl \<Rightarrow> string \<Rightarrow> error_code" where
  "endpoint_send e ec h msg =
     (let ec1 = (if expired e h then Some ''Bad Connection'' else ec)
      in if ec1 \<noteq> None then ec1 else send_ec e h msg)"

definition server_send :: "env \<Rightarrow> error_code \<Rightarrow> hdl \<Rightarrow> string \<Rightarrow> srv_event" where
  "server_send e ec h msg =
     (case endpoint_send e ec h msg of None \<Rightarrow> Sent h msg | Some _ \<Rightarrow> Send_failed h msg)"

text \<open>\<open>client.send\<close>, from a handler of the connection, which is alive.\<close>

definition client_send :: "env \<Rightarrow> error_code \<Rightarrow> byte list \<Rightarrow> opcode \<Rightarrow> effect list \<times> error_code" where
  "client_send e ec bs opc = (if ec \<noteq> None then ([], ec) else ([Ws_send bs opc], client_send_ec e))"

subsection \<open>Reading a list of effects\<close>

definition is_callback :: "effect \<Rightarrow> bool" where
  "is_callback f = (case f of Close_callback _ \<Rightarrow> True | _ \<Rightarrow> False)"

definition is_fault :: "effect \<Rightarrow> bool" where
  "is_fault f = (case f of Fault _ \<Rightarrow> True | _ \<Rightarrow> False)"

definition is_read :: "effect \<Rightarrow> bool" where
  "is_read f = (case f of Async_read _ _ \<Rightarrow> True | Async_read_until _ _ \<Rightarrow> True
     | Async_read_some _ \<Rightarrow> True | _ \<Rightarrow> False)"

definition is_publish :: "effect \<Rightarrow> bool" where
  "is_publish f = (case f of Publish _ \<Rightarrow> True | _ \<Rightarrow> False)"

definition sends :: "effect list \<Rightarrow> (byte list \<times> opcode) list" where
  "sends effs = concat (map (\<lambda>f. case f of Ws_send bs opc \<Rightarrow> [(bs, opc)] | _ \<Rightarrow> []) effs)"

definition quiet :: "effect \<Rightarrow> bool" where
  "quiet f \<longleftrightarrow> \<not> is_callback f \<and> \<not> is_fault f"

lemmas effect_kinds = is_callback_def is_fault_def is_read_def quiet_def

lemma client_report_None [simp]: "client_report p r None = []"
  by (simp add: client_report_def)

lemma client_report_Some [simp]:
  "client_report p r (Some m) =
     [Publish (''connection closed because:'' @ m), Close_callback (roomstr_of p r)]"
  by (simp add: client_report_def)

lemma client_close_ws_None [simp]: "client_close_and_report_ws p r None = []"
  by (simp add: client_close_and_report_ws_def)

lemma client_close_ws_Some [simp]:
  "client_close_and_report_ws p r (Some m) =
     [Publish (''connection closed because:'' @ m), Close_callback (roomstr_of p r), Ws_close]"
  by (simp add: client_close_and_report_ws_def)

lemma sends_simps [simp]:
  "sends [] = []" "sends (f # fs) = (case f of Ws_send bs opc \<Rightarrow> [(bs, opc)] | _ \<Rightarrow> []) @ sends fs"
  "sends (fs @ gs) = sends fs @ sends gs"
  by (simp_all add: sends_def)

lemma report_frame [simp]:
  "\<not> list_ex is_fault (client_report p r ec)" "\<not> list_ex is_fault (client_close_and_report_ws p r ec)"
  "sends (client_report p r ec) = []" "sends (client_close_and_report_ws p r ec) = []"
  by (cases ec; simp add: is_fault_def)+

subsection \<open>Runs of asynchronous operations\<close>

text \<open>
  The handler an effect binds, and the operations that are outstanding.  A step of a run
  completes any one of them, with any outcome, and adds the operations its handler starts.
\<close>

fun bound :: "effect \<Rightarrow> handler list" where
  "bound (Async_resolve _ _ h) = [h]"
| "bound (Async_connect h) = [h]"
| "bound (Async_write _ h) = [h]"
| "bound (Async_read _ h) = [h]"
| "bound (Async_read_until _ h) = [h]"
| "bound (Async_read_some h) = [h]"
| "bound (Async_wait _ h) = [h]"
| "bound _ = []"

definition started :: "effect list \<Rightarrow> handler list" where
  "started effs = concat (map bound effs)"

inductive async_run ::
  "('s \<Rightarrow> handler \<Rightarrow> 'i \<Rightarrow> 's \<times> effect list) \<Rightarrow> 's \<times> handler list \<Rightarrow> 's \<times> handler list \<Rightarrow> bool"
  for step where
  begin_run: "async_run step c c"
| complete: "async_run step c (s, pending) \<Longrightarrow> h \<in> set pending \<Longrightarrow> step s h i = (s', effs) \<Longrightarrow>
     async_run step c (s', remove1 h pending @ started effs)"

lemma started_simps [simp]:
  "started [] = []" "started (f # fs) = bound f @ started fs" "started (fs @ gs) = started fs @ started gs"
  by (simp_all add: started_def)

lemma started_client_report [simp]:
  "started (client_report p r ec) = []" "started (client_close_and_report_ws p r ec) = []"
  by (cases ec; simp)+

text \<open>
  The contract of a connection whose reads follow one another: every handler of the chain
  starts at most one further operation of the chain, any other handler none.  Then at most
  one operation of the chain is outstanding at any time, so two reads never compete for the
  bytes of one socket.
\<close>

locale read_chain =
  fixes step :: "'s \<Rightarrow> handler \<Rightarrow> 'i \<Rightarrow> 's \<times> effect list"
    and chain :: "handler \<Rightarrow> bool"
  assumes chain_continues: "chain h \<Longrightarrow> length (filter chain (started (snd (step s h i)))) \<le> 1"
    and chain_only: "\<not> chain h \<Longrightarrow> filter chain (started (snd (step s h i))) = []"
begin

lemma length_chain_remove1:
  "h \<in> set hs \<Longrightarrow> length (filter chain hs) =
     (if chain h then 1 else 0) + length (filter chain (remove1 h hs))"
  by (induction hs) auto

lemma one_outstanding:
  assumes "async_run step c d" "length (filter chain (snd c)) \<le> 1"
  shows "length (filter chain (snd d)) \<le> 1"
  using assms
proof (induction rule: async_run.induct)
  case (begin_run c)
  then show ?case .
next
  case (complete c s pending h i s' effs)
  have effs: "effs = snd (step s h i)" using complete.hyps(3) by simp
  have "length (filter chain pending) \<le> 1" using complete by simp
  then show ?case
    using length_chain_remove1 [OF complete.hyps(2)] chain_continues [of h s i] chain_only [of h s i]
    by (cases "chain h") (simp_all add: effs)
qed

end

lemma string_of_zero: "string_of [0] = [CHR 0x00]"
  by (simp add: string_of_def char_of_byte_def char_of_def)

subsection \<open>A connection fed with a byte stream\<close>

text \<open>
  \<open>drive\<close> completes one read after the other from the bytes the peer sends, each with exactly
  the number of bytes it asked for, until too few are left, a handler faults, or no read is
  started.  \<open>fuel\<close> bounds the number of reads.

  A handler that closes the socket ends this: the read that is outstanding then, started by the
  same handler, completes with an error, unless its bytes had already arrived and asio took
  them when it was started; every read started later fails on the closed socket.  \<open>at_close\<close>
  says which of the two the outstanding read does: \<open>None\<close> for its bytes, if the stream has
  them, or the error it gets.
\<close>

fun next_read :: "effect list \<Rightarrow> (nat \<times> handler) option" where
  "next_read [] = None"
| "next_read (Async_read n h # effs) = Some (n, h)"
| "next_read (_ # effs) = next_read effs"

definition bad_descriptor :: error_code where
  "bad_descriptor = Some ''Bad file descriptor''"

fun drain :: "nat \<Rightarrow> (handler \<Rightarrow> byte list \<times> error_code \<Rightarrow> effect list) \<Rightarrow> byte list \<times> error_code \<Rightarrow> handler \<Rightarrow> effect list" where
  "drain 0 step i h = []"
| "drain (Suc fuel) step i h =
     (let effs = step h i in
      effs @ (if list_ex is_fault effs then []
              else case next_read effs of
                None \<Rightarrow> []
              | Some (n, h1) \<Rightarrow> drain fuel step ([], bad_descriptor) h1))"

definition outstanding :: "error_code \<Rightarrow> nat \<Rightarrow> byte list \<Rightarrow> byte list \<times> error_code" where
  "outstanding at_close n stream =
     (case at_close of
        None \<Rightarrow> if n \<le> length stream then (take n stream, None) else ([], bad_descriptor)
      | Some message \<Rightarrow> ([], Some message))"

fun drive :: "error_code \<Rightarrow> nat \<Rightarrow> (handler \<Rightarrow> byte list \<times> error_code \<Rightarrow> effect list) \<Rightarrow> nat \<times> handler \<Rightarrow> byte list \<Rightarrow> effect list" where
  "drive at_close 0 step r stream = []"
| "drive at_close (Suc fuel) step (n, h) stream =
     (if length stream < n then []
      else let effs = step h (take n stream, None) in
        effs @ (if list_ex is_fault effs then []
                else case next_read effs of
                  None \<Rightarrow> []
                | Some (n1, h1) \<Rightarrow>
                    if Socket_close \<in> set effs
                    then drain fuel step (outstanding at_close n1 (drop n stream)) h1
                    else drive at_close fuel step (n1, h1) (drop n stream)))"

lemma drive_short: "length stream < n \<Longrightarrow> drive at_close fuel step (n, h) stream = []"
  by (cases fuel) simp_all

lemma drive_frame:
  assumes "length d = n" "step h (d, None) = effs" "\<not> list_ex is_fault effs" "next_read effs = Some r" "Socket_close \<notin> set effs"
  shows "drive at_close (Suc fuel) step (n, h) (d @ stream) = effs @ drive at_close fuel step r stream"
  using assms by (cases r) simp

lemma drive_frame_close:
  assumes "length d = n" "step h (d, None) = effs" "\<not> list_ex is_fault effs" "next_read effs = Some (n1, h1)" "Socket_close \<in> set effs"
  shows "drive at_close (Suc fuel) step (n, h) (d @ stream) = effs @ drain fuel step (outstanding at_close n1 stream) h1"
  using assms by simp

text \<open>What a platform publishes to say that its connection is lost.\<close>

definition is_report :: "effect \<Rightarrow> bool" where
  "is_report f = (case f of Publish m \<Rightarrow> has_prefix ''connection closed because:'' m | _ \<Rightarrow> False)"

end
