(* ===== verification/Base64.thy ===== *)
theory Base64
  imports Prelude
begin

section \<open>utils/base64: encoding and decoding\<close>

text \<open>
  \<open>base64_encode\<close> and \<open>base64_decode\<close> of \<open>utils/base64.cpp\<close>.  The loops keep their state as
  the code does: \<open>ca\<close> holds the bytes gathered in \<open>char_array_3\<close> (or \<open>char_array_4\<close>) so far,
  its length is the counter \<open>i\<close>, and \<open>ret\<close> is the output string.  The lengths have the types of the
  code: an \<open>unsigned\<close> for the encoder, an \<open>int\<close> for the decoder, whose index is an \<open>int\<close> too.
\<close>

definition base64_chars :: string where
  "base64_chars = ''ABCDEFGHIJKLMNOPQRSTUVWXYZabcdefghijklmnopqrstuvwxyz0123456789+/''"

definition is_alnum :: "char \<Rightarrow> bool" where
  "is_alnum c \<longleftrightarrow> 48 \<le> ord c \<and> ord c \<le> 57 \<or> 65 \<le> ord c \<and> ord c \<le> 90 \<or>
     97 \<le> ord c \<and> ord c \<le> 122"

definition is_base64 :: "char \<Rightarrow> bool" where
  "is_base64 c \<longleftrightarrow> is_alnum c \<or> c = CHR ''+'' \<or> c = CHR ''/''"

subsection \<open>Encoding\<close>

text \<open>The bytes of \<open>char_array_4\<close>; the fourth is only defined by a full group.\<close>

definition enc4_0 :: "byte \<Rightarrow> byte" where
  "enc4_0 a = drop_bit 2 (a AND 0xfc)"

definition enc4_1 :: "byte \<Rightarrow> byte \<Rightarrow> byte" where
  "enc4_1 a b = push_bit 4 (a AND 0x03) + drop_bit 4 (b AND 0xf0)"

definition enc4_2 :: "byte \<Rightarrow> byte \<Rightarrow> byte" where
  "enc4_2 b c = push_bit 2 (b AND 0x0f) + drop_bit 6 (c AND 0xc0)"

definition enc4_3 :: "byte \<Rightarrow> byte" where
  "enc4_3 c = c AND 0x3f"

definition b64_char :: "byte \<Rightarrow> char" where
  "b64_char k = base64_chars ! unat k"

definition enc_group :: "byte list \<Rightarrow> byte list" where
  "enc_group ca = [enc4_0 (ca ! 0), enc4_1 (ca ! 0) (ca ! 1), enc4_2 (ca ! 1) (ca ! 2), enc4_3 (ca ! 2)]"

text \<open>The part after the loop: pad with zero bytes, write \<open>i + 1\<close> characters, then \<open>'='\<close>s.\<close>

definition enc_tail :: "byte list \<Rightarrow> string" where
  "enc_tail ca =
     (if ca = [] then []
      else let i = length ca; ca3 = ca @ replicate (3 - i) 0
           in map b64_char (take (i + 1) (enc_group ca3)) @ replicate (3 - i) (CHR ''=''))"

fun b64_enc_loop :: "byte list \<Rightarrow> byte list \<Rightarrow> string \<Rightarrow> string" where
  "b64_enc_loop ca [] ret = ret @ enc_tail ca"
| "b64_enc_loop ca (b # bs) ret =
     (let ca' = ca @ [b] in
      if length ca' = 3 then b64_enc_loop [] bs (ret @ map b64_char (enc_group ca'))
      else b64_enc_loop ca' bs ret)"

text \<open>
  \<open>bytes_to_encode\<close> is the memory from the pointer on; the loop counts the \<open>unsigned in_len\<close> down and reads
  as many bytes.
\<close>

definition base64_encode :: "byte list \<Rightarrow> u32 \<Rightarrow> string" where
  "base64_encode bytes_to_encode in_len = b64_enc_loop [] (take (unat in_len) bytes_to_encode) []"

subsection \<open>Decoding\<close>

text \<open>\<open>base64_chars.find(c)\<close> stored into an \<open>unsigned char\<close>: \<open>npos\<close> becomes 255.\<close>

definition b64_index :: "char \<Rightarrow> byte" where
  "b64_index c = (case find_char c base64_chars of Some n \<Rightarrow> word_of_nat n | None \<Rightarrow> 255)"

definition dec3_0 :: "byte \<Rightarrow> byte \<Rightarrow> byte" where
  "dec3_0 p q = push_bit 2 p + drop_bit 4 (q AND 0x30)"

definition dec3_1 :: "byte \<Rightarrow> byte \<Rightarrow> byte" where
  "dec3_1 q r = push_bit 4 (q AND 0xf) + drop_bit 2 (r AND 0x3c)"

definition dec3_2 :: "byte \<Rightarrow> byte \<Rightarrow> byte" where
  "dec3_2 r s = push_bit 6 (r AND 0x3) + s"

definition dec_group :: "byte list \<Rightarrow> byte list" where
  "dec_group ca = [dec3_0 (ca ! 0) (ca ! 1), dec3_1 (ca ! 1) (ca ! 2), dec3_2 (ca ! 2) (ca ! 3)]"

text \<open>
  After the loop only the first \<open>i - 1\<close> bytes are written, so no byte of the arrays that
  the last group did not set reaches the output.
\<close>

definition dec_tail :: "string \<Rightarrow> string" where
  "dec_tail ca =
     (if ca = [] then []
      else let i = length ca; c4 = map b64_index ca @ replicate (4 - i) 0
           in map char_of_byte (take (i - 1) (dec_group c4)))"

text \<open>
  \<open>cs\<close> is the string from the index \<open>pos\<close> (\<open>in_\<close> in the code) on, and at its end the loop reads the terminating NUL.  Counting
  \<open>in_len\<close> or \<open>pos\<close> out of the range of \<open>int\<close> is undefined behaviour: \<open>None\<close>.
\<close>

definition INT_MAX :: int where
  "INT_MAX = 2147483647"

definition INT_MIN :: int where
  "INT_MIN = - 2147483648"

text \<open>A \<open>size_t\<close> stored into an \<open>int\<close>.\<close>

definition int_of_size :: "nat \<Rightarrow> int" where
  "int_of_size n = sint (word_of_nat n :: u32)"

fun b64_dec_loop :: "int \<Rightarrow> int \<Rightarrow> string \<Rightarrow> string \<Rightarrow> string \<Rightarrow> string option" where
  "b64_dec_loop in_len pos ca [] ret = (if in_len = INT_MIN then None else Some (ret @ dec_tail ca))"
| "b64_dec_loop in_len pos ca (c # cs) ret =
     (if in_len = 0 then Some (ret @ dec_tail ca)
      else if in_len = INT_MIN then None
      else if c \<noteq> CHR ''='' \<and> is_base64 c then
        if pos = INT_MAX then None
        else let ca' = ca @ [c] in
          if length ca' = 4
          then b64_dec_loop (in_len - 1) (pos + 1) [] cs (ret @ map char_of_byte (dec_group (map b64_index ca')))
          else b64_dec_loop (in_len - 1) (pos + 1) ca' cs ret
      else Some (ret @ dec_tail ca))"

definition base64_decode :: "string \<Rightarrow> string option" where
  "base64_decode encoded_string = b64_dec_loop (int_of_size (length encoded_string)) 0 [] encoded_string []"

subsection \<open>Without the bounds of the counters\<close>

text \<open>What the loops compute when no counter wraps around.\<close>

definition b64_encoded :: "byte list \<Rightarrow> string" where
  "b64_encoded bytes = b64_enc_loop [] bytes []"

fun b64_dec_text :: "string \<Rightarrow> string \<Rightarrow> string \<Rightarrow> string" where
  "b64_dec_text ca [] ret = ret @ dec_tail ca"
| "b64_dec_text ca (c # cs) ret =
     (if c \<noteq> CHR ''='' \<and> is_base64 c then
        let ca' = ca @ [c] in
        if length ca' = 4
        then b64_dec_text [] cs (ret @ map char_of_byte (dec_group (map b64_index ca')))
        else b64_dec_text ca' cs ret
      else ret @ dec_tail ca)"

lemma base64_encode_take: "base64_encode bytes in_len = b64_encoded (take (unat in_len) bytes)"
  by (simp add: base64_encode_def b64_encoded_def)

lemma unat_size: "unat (word_of_nat n :: u32) = n mod 2 ^ 32"
  by (simp add: unat_of_nat)

lemma base64_encode_all: "length bytes < 2 ^ 32 \<Longrightarrow> base64_encode bytes (word_of_nat (length bytes)) = b64_encoded bytes"
  by (simp add: base64_encode_take unat_size)

lemma int_of_size_small: "n < 2 ^ 31 \<Longrightarrow> int_of_size n = int n"
proof -
  assume n: "n < 2 ^ 31"
  have "signed_take_bit 31 (int n) = int n" using n by (intro signed_take_bit_int_eq_self) simp_all
  then show ?thesis by (simp add: int_of_size_def signed_of_nat)
qed

lemma b64_dec_loop_text:
  "pos + int (length cs) \<le> INT_MAX \<Longrightarrow> b64_dec_loop (int (length cs)) pos ca cs ret = Some (b64_dec_text ca cs ret)"
proof (induction cs arbitrary: pos ca ret)
  case (Cons c cs)
  have "int (length (c # cs)) - 1 = int (length cs)" by simp
  then show ?case using Cons.IH [of "pos + 1"] Cons.prems
    by (simp add: Let_def INT_MIN_def del: of_nat_Suc) simp
qed (simp add: INT_MIN_def)

lemma base64_decode_text: "length s < 2 ^ 31 \<Longrightarrow> base64_decode s = Some (b64_dec_text [] s [])"
  by (simp add: base64_decode_def int_of_size_small b64_dec_loop_text INT_MAX_def)

subsection \<open>The alphabet\<close>

lemma length_base64_chars [simp]: "length base64_chars = 64"
  by (simp add: base64_chars_def)

lemma distinct_base64_chars: "distinct base64_chars"
  by (simp add: base64_chars_def)

lemma all_base64_chars: "\<forall>c \<in> set base64_chars. is_base64 c \<and> c \<noteq> CHR ''=''"
  by (simp add: base64_chars_def is_base64_def is_alnum_def)

lemma find_char_distinct: "distinct xs \<Longrightarrow> n < length xs \<Longrightarrow> find_char (xs ! n) xs = Some n"
  by (induction xs arbitrary: n) (auto simp: nth_Cons split: nat.splits)

lemma alphabet:
  assumes "unat k < 64"
  shows "is_base64 (b64_char k)" "b64_char k \<noteq> CHR ''=''" "b64_index (b64_char k) = k"
  using assms all_base64_chars
  by (auto simp: b64_char_def b64_index_def find_char_distinct [OF distinct_base64_chars])

lemma b64_char_in: "unat k < 64 \<Longrightarrow> b64_char k \<in> set base64_chars"
  by (simp add: b64_char_def)

subsection \<open>One group is inverted\<close>

lemma byte_eqI:
  assumes "\<And>n. n \<in> {0,1,2,3,4,5,6,7} \<Longrightarrow> bit v n \<longleftrightarrow> bit w n"
  shows "v = (w :: byte)"
proof (rule bit_word_eqI)
  fix n assume "n < LENGTH(8)"
  then have "n \<in> {0,1,2,3,4,5,6,7}" by auto
  then show "bit v n \<longleftrightarrow> bit w n" by (rule assms)
qed

lemma sextet_bound: "(\<And>n. 6 \<le> n \<Longrightarrow> \<not> bit k n) \<Longrightarrow> unat (k :: byte) < 64"
proof -
  assume k: "\<And>n. 6 \<le> n \<Longrightarrow> \<not> bit k n"
  have "take_bit 6 k = k" using k by (intro bit_eqI) (force simp: bit_take_bit_iff not_le [symmetric])
  then have "unat k = take_bit 6 (unat k)" by (metis unsigned_take_bit_eq)
  then show ?thesis using take_bit_nat_less_exp [of 6 "unat k"] by simp
qed
lemma Suc_numerals: "Suc (Suc 0) = 2" "Suc 2 = 3" "Suc 3 = 4"
  by simp_all

lemma byte_bit_high [simp]: "8 \<le> n \<Longrightarrow> \<not> bit (a :: byte) n"
  using bit_imp_le_length [of a n] by auto

lemma or_forms:
  "enc4_1 a b = push_bit 4 (a AND 0x03) OR drop_bit 4 (b AND 0xf0)"
  "enc4_2 b c = push_bit 2 (b AND 0x0f) OR drop_bit 6 (c AND 0xc0)"
  unfolding enc4_1_def enc4_2_def
  by (rule disjunctive_add_eq_or, rule byte_eqI, auto simp: bit_simps)+

lemma sextets:
  "unat (enc4_0 a) < 64" "unat (enc4_1 a b) < 64" "unat (enc4_2 b c) < 64" "unat (enc4_3 c) < 64"
proof -
  have m: "(0x03::byte) = mask 2" "(0x0f::byte) = mask 4" "(0x3f :: byte) = mask 6"
    by (simp_all add: mask_eq_exp_minus_1)
  show "unat (enc4_0 a) < 64"
    by (rule sextet_bound) (auto simp: enc4_0_def bit_simps)
  show "unat (enc4_1 a b) < 64"
    unfolding or_forms m by (rule sextet_bound) (auto simp: bit_simps)
  show "unat (enc4_2 b c) < 64"
    unfolding or_forms m by (rule sextet_bound) (auto simp: bit_simps)
  show "unat (enc4_3 c) < 64"
    unfolding enc4_3_def m by (rule sextet_bound) (auto simp: bit_simps)
qed

lemma dec_enc:
  "dec3_0 (enc4_0 a) (enc4_1 a b) = a"
  "dec3_1 (enc4_1 a b) (enc4_2 b c) = b"
  "dec3_2 (enc4_2 b c) (enc4_3 c) = c"
proof -
  have "dec3_0 (enc4_0 a) (enc4_1 a b) = push_bit 2 (enc4_0 a) OR drop_bit 4 (enc4_1 a b AND 0x30)"
    unfolding dec3_0_def enc4_0_def or_forms
    by (rule disjunctive_add_eq_or, rule byte_eqI, auto simp: bit_simps)
  also have "\<dots> = a"
    unfolding enc4_0_def or_forms by (rule byte_eqI) (auto simp: bit_simps Suc_numerals)
  finally show "dec3_0 (enc4_0 a) (enc4_1 a b) = a" .
  have "dec3_1 (enc4_1 a b) (enc4_2 b c) =
      push_bit 4 (enc4_1 a b AND 0xf) OR drop_bit 2 (enc4_2 b c AND 0x3c)"
    unfolding dec3_1_def or_forms
    by (rule disjunctive_add_eq_or, rule byte_eqI, auto simp: bit_simps)
  also have "\<dots> = b"
    unfolding or_forms by (rule byte_eqI) (auto simp: bit_simps Suc_numerals)
  finally show "dec3_1 (enc4_1 a b) (enc4_2 b c) = b" .
  have "dec3_2 (enc4_2 b c) (enc4_3 c) = push_bit 6 (enc4_2 b c AND 0x3) OR enc4_3 c"
    unfolding dec3_2_def or_forms enc4_3_def
    by (rule disjunctive_add_eq_or, rule byte_eqI, auto simp: bit_simps)
  also have "\<dots> = c"
    unfolding or_forms enc4_3_def by (rule byte_eqI) (auto simp: bit_simps Suc_numerals)
  finally show "dec3_2 (enc4_2 b c) (enc4_3 c) = c" .
qed

subsection \<open>Round trip\<close>

lemma enc_loop_group:
  "b64_enc_loop [] (a # b # c # bs) ret =
     b64_enc_loop [] bs (ret @ map b64_char (enc_group [a, b, c]))"
  by (simp add: Let_def)

lemma dec_loop_group:
  "unat p < 64 \<Longrightarrow> unat q < 64 \<Longrightarrow> unat r < 64 \<Longrightarrow> unat s < 64 \<Longrightarrow>
   b64_dec_text [] (b64_char p # b64_char q # b64_char r # b64_char s # cs) ret =
     b64_dec_text [] cs (ret @ map char_of_byte (dec_group [p, q, r, s]))"
  by (simp add: Let_def alphabet)

lemma dec_group_enc_group: "dec_group (enc_group [a, b, c]) = [a, b, c]"
  by (simp add: dec_group_def enc_group_def dec_enc)

lemma groups_of_three_induct [case_names Nil One Two Three]:
  assumes "P []" "\<And>a. P [a]" "\<And>a b. P [a, b]" "\<And>a b c bs. P bs \<Longrightarrow> P (a # b # c # bs)"
  shows "P bs"
proof (induction bs rule: length_induct)
  case (1 bs)
  consider "bs = []" | a where "bs = [a]" | a b where "bs = [a, b]"
    | a b c cs where "bs = a # b # c # cs"
    by (cases bs rule: remdups_adj.cases; cases "tl (tl bs)") auto
  then show ?case
  proof cases
    case 4
    with 1 have "P cs" by simp
    then have "P (a # b # c # cs)" by (rule assms(4))
    with 4 show ?thesis by (simp only:)
  qed (simp_all only: assms(1-3))
qed

lemma enc_loop_ret: "b64_enc_loop [] bs ret = ret @ b64_encoded bs"
proof (induction bs arbitrary: ret rule: groups_of_three_induct)
  case (Three a b c bs)
  show ?case
    unfolding b64_encoded_def [of "a # b # c # bs"] enc_loop_group Three by simp
qed (simp_all add: b64_encoded_def Let_def)

lemma encode_group:
  "b64_encoded (a # b # c # bs) = map b64_char (enc_group [a, b, c]) @ b64_encoded bs"
  unfolding b64_encoded_def [of "a # b # c # bs"] enc_loop_group enc_loop_ret [of bs] by simp

lemma enc_group_map:
  "map b64_char (enc_group [a, b, c]) =
     [b64_char (enc4_0 a), b64_char (enc4_1 a b), b64_char (enc4_2 b c), b64_char (enc4_3 c)]"
  by (simp add: enc_group_def)

lemma encode_tails:
  "b64_encoded [] = []"
  "b64_encoded [a] = [b64_char (enc4_0 a), b64_char (enc4_1 a 0), CHR ''='', CHR ''='']"
  "b64_encoded [a, b] =
     [b64_char (enc4_0 a), b64_char (enc4_1 a b), b64_char (enc4_2 b 0), CHR ''='']"
  by (simp_all add: b64_encoded_def enc_tail_def enc_group_def Let_def numeral_eq_Suc)

lemma decode_encode_loop: "b64_dec_text [] (b64_encoded bs) ret = ret @ string_of bs"
proof (induction bs arbitrary: ret rule: groups_of_three_induct)
  case (Three a b c bs)
  have "enc_group [a, b, c] = [enc4_0 a, enc4_1 a b, enc4_2 b c, enc4_3 c]"
    by (simp add: enc_group_def)
  with dec_group_enc_group [of a b c] Three show ?case
    by (simp add: encode_group dec_loop_group sextets string_of_def del: b64_dec_text.simps(2))
next
  case (One a)
  have "dec3_0 (enc4_0 a) (enc4_1 a 0) = a" by (rule dec_enc)
  then show ?case
    by (simp add: encode_tails dec_tail_def dec_group_def alphabet sextets string_of_def Let_def)
next
  case (Two a b)
  have "dec3_0 (enc4_0 a) (enc4_1 a b) = a" "dec3_1 (enc4_1 a b) (enc4_2 b 0) = b"
    by (rule dec_enc)+
  then show ?case
    by (simp add: encode_tails dec_tail_def dec_group_def alphabet sextets string_of_def Let_def)
qed (simp add: encode_tails dec_tail_def)

lemma b64_encoded_chars: "set (b64_encoded bytes) \<subseteq> set base64_chars \<union> {CHR ''=''}"
  by (induction bytes rule: groups_of_three_induct)
    (auto simp: encode_tails encode_group enc_group_map b64_char_in sextets)

lemma length_b64_encoded: "length (b64_encoded bytes) = 4 * ((length bytes + 2) div 3)"
proof (induction bytes rule: groups_of_three_induct)
  case (Three a b c bs)
  have "(length bs + 5) div 3 = Suc ((length bs + 2) div 3)" by presburger
  with Three show ?case by (simp add: encode_group enc_group_map add.commute)
qed (simp_all add: encode_tails)

text \<open>
  The encoding of a \<open>std::string\<close>: its length, a \<open>size_t\<close>, is converted to \<open>unsigned\<close>.  The decoder can be trusted
  with it while the encoding has less than \<open>2 ^ 31\<close> characters.
\<close>

definition base64_fits :: "nat \<Rightarrow> bool" where
  "base64_fits n \<longleftrightarrow> n + 2 < 3 * 2 ^ 29"

lemma base64_fits_length: "base64_fits (length bytes) \<Longrightarrow> length (b64_encoded bytes) < 2 ^ 31 \<and> length bytes < 2 ^ 32"
  unfolding base64_fits_def length_b64_encoded by auto

lemma base64_roundtrip:
  assumes "base64_fits (length bytes)"
  shows "base64_decode (base64_encode bytes (word_of_nat (length bytes))) = Some (string_of bytes)"
  using base64_fits_length [OF assms] by (simp add: base64_encode_all base64_decode_text decode_encode_loop)

text \<open>Beyond 4 GiB only the bytes that the \<open>unsigned\<close> counts are encoded.\<close>

lemma base64_encode_wraps:
  "base64_encode bytes (word_of_nat (length bytes)) = b64_encoded (take (length bytes mod 2 ^ 32) bytes)"
  by (simp only: base64_encode_take unat_size)

subsection \<open>Properties\<close>

text \<open>
  C11: \<open>base64_decode\<close> gives back every byte string that \<open>base64_encode\<close> took, as long as the encoding has less
  than \<open>2 ^ 31\<close> characters, so that no counter of the two functions wraps around; the encoding has four
  characters for each group of three bytes begun, all of the alphabet or padding.
\<close>
theorem base64_correct:
  assumes "length bytes + 2 < 3 * 2 ^ 29"
  shows "base64_decode (base64_encode bytes (word_of_nat (length bytes))) = Some (string_of bytes) \<and>
   length (base64_encode bytes (word_of_nat (length bytes))) = 4 * ((length bytes + 2) div 3) \<and>
   set (base64_encode bytes (word_of_nat (length bytes))) \<subseteq> set base64_chars \<union> {CHR ''=''}"
proof -
  have fits: "base64_fits (length bytes)" using assms by (simp add: base64_fits_def)
  then have "length bytes < 2 ^ 32" using base64_fits_length by blast
  then show ?thesis using base64_roundtrip [OF fits]
    by (simp only: base64_encode_all length_b64_encoded b64_encoded_chars simp_thms)
qed

theorem base64_correct_witness:
  "base64_decode (base64_encode [0x68, 0x69, 0xFF, 0x00] 4) = Some [CHR ''h'', CHR ''i'', CHR 0xFF, CHR 0x00] \<and>
   base64_encode [0x68, 0x69, 0xFF, 0x00] 4 = ''aGn/AA==''"
proof -
  have "string_of [0x68, 0x69, 0xFF, 0x00] = [CHR ''h'', CHR ''i'', CHR 0xFF, CHR 0x00]"
    "base64_encode [0x68, 0x69, 0xFF, 0x00] 4 = ''aGn/AA==''" by code_simp+
  then show ?thesis using base64_correct [of "[0x68, 0x69, 0xFF, 0x00]"] by simp
qed

end
