(* ===== verification/Double.thy ===== *)
theory Double
  imports Prelude
begin

section \<open>The C++ \<open>double\<close>\<close>

text \<open>
  The part of the language's \<open>double\<close> that the code uses: IEEE 754 binary64 values, the
  correctly rounded \<open>strtod\<close>, the \<open>%.17g\<close> and fixed formats, comparison, and the
  conversions to integer types.  \<open>Fin s m e\<close> is \<open>(-1)^s * m * 2^e\<close> with \<open>m < 2^53\<close> in
  normal form (\<open>double_wf\<close>).  Everything computes on integers: a positive rational \<open>n / d\<close> is
  rounded by \<open>round_ratio\<close>, ties to even, as the default rounding mode does.
\<close>

datatype double = Fin bool nat int | Inf bool | NaN

definition double_wf :: "double \<Rightarrow> bool" where
  "double_wf x = (case x of
     Fin s m e \<Rightarrow> m < 2 ^ 53 \<and> -1074 \<le> e \<and> e \<le> 971 \<and> (2 ^ 52 \<le> m \<or> e = -1074)
   | _ \<Rightarrow> True)"

definition isfinite :: "double \<Rightarrow> bool" where
  "isfinite x = (case x of Fin _ _ _ \<Rightarrow> True | _ \<Rightarrow> False)"

subsection \<open>Decimal digits\<close>

definition digit_char :: "nat \<Rightarrow> char" where
  "digit_char d = char_of (48 + d)"

fun dec :: "nat \<Rightarrow> string" where
  "dec n = (if n < 10 then [digit_char n] else dec (n div 10) @ [digit_char (n mod 10)])"

declare dec.simps [simp del]

definition dec_int :: "int \<Rightarrow> string" where
  "dec_int k = (if k < 0 then CHR ''-'' # dec (nat (- k)) else dec (nat k))"

definition digit_val :: "char \<Rightarrow> nat" where
  "digit_val c = ord c - 48"

definition digits_val :: "string \<Rightarrow> nat" where
  "digits_val s = foldl (\<lambda>v c. 10 * v + digit_val c) 0 s"

definition isdig :: "char \<Rightarrow> bool" where
  "isdig c \<longleftrightarrow> 48 \<le> ord c \<and> ord c \<le> 57"

lemma ord_digit_char [simp]: "d < 10 \<Longrightarrow> ord (digit_char d) = 48 + d"
  by (simp add: digit_char_def of_char_of)

lemma isdig_digit_char [simp]: "d < 10 \<Longrightarrow> isdig (digit_char d)"
  by (simp add: isdig_def)

lemma digits_val_snoc [simp]: "digits_val (s @ [c]) = 10 * digits_val s + digit_val c"
  by (simp add: digits_val_def)

lemma digits_val_dec [simp]: "digits_val (dec n) = n"
proof (induction n rule: dec.induct)
  case (1 n)
  show ?case
  proof (cases "n < 10")
    case True
    then show ?thesis by (simp add: dec.simps [of n] digits_val_def digit_val_def)
  next
    case False
    with 1 show ?thesis by (simp add: dec.simps [of n] digit_val_def)
  qed
qed

lemma dec_digits: "list_all isdig (dec n)"
  by (induction n rule: dec.induct) (auto simp: dec.simps split: if_splits)

lemma dec_nonempty [simp]: "dec n \<noteq> []"
  by (simp add: dec.simps [of n])

lemma dec_inj [simp]: "dec m = dec n \<longleftrightarrow> m = n"
  by (metis digits_val_dec)

lemma hd_dec_nonzero: "0 < n \<Longrightarrow> hd (dec n) \<noteq> CHR ''0''"
proof (induction n rule: dec.induct)
  case (1 n)
  show ?case
  proof (cases "n < 10")
    case True
    then have "ord (digit_char n) \<noteq> ord (CHR ''0'')" using "1.prems" by simp
    then have "digit_char n \<noteq> CHR ''0''" by metis
    with True show ?thesis by (simp add: dec.simps [of n])
  next
    case False
    with 1 show ?thesis by (simp add: dec.simps [of n])
  qed
qed

lemma dec_0 [simp]: "dec 0 = ''0''"
  by code_simp

lemma length_dec_le:
  "0 < k \<Longrightarrow> n < 10 ^ k \<Longrightarrow> length (dec n) \<le> k"
proof (induction n arbitrary: k rule: dec.induct)
  case (1 n)
  show ?case
  proof (cases "n < 10")
    case True
    with 1 show ?thesis by (simp add: dec.simps [of n])
  next
    case False
    then obtain k' where k: "k = Suc k'" "0 < k'"
      using "1.prems" by (cases k; cases "k - 1") auto
    with "1.prems" have "n div 10 < 10 ^ k'" by (simp add: less_mult_imp_div_less)
    with "1.IH" [OF False, of k'] k False show ?thesis by (simp add: dec.simps [of n])
  qed
qed

subsection \<open>Rounding a positive rational\<close>

fun bitlen :: "nat \<Rightarrow> nat" where
  "bitlen n = (if n = 0 then 0 else Suc (bitlen (n div 2)))"

declare bitlen.simps [simp del]

text \<open>\<open>n / d\<close> to the nearest integer, ties to even.\<close>

definition div_even :: "nat \<Rightarrow> nat \<Rightarrow> nat" where
  "div_even n d =
     (let q = n div d; r = n mod d in
      if 2 * r < d then q else if 2 * r > d then q + 1 else if even q then q else q + 1)"

text \<open>\<open>n / (d * b^e)\<close> as a fraction, for any sign of \<open>e\<close>.\<close>

definition scale :: "nat \<Rightarrow> nat \<Rightarrow> nat \<Rightarrow> int \<Rightarrow> nat \<times> nat" where
  "scale b n d e = (if 0 \<le> e then (n, d * b ^ nat e) else (n * b ^ nat (- e), d))"

definition round_ratio :: "bool \<Rightarrow> nat \<Rightarrow> nat \<Rightarrow> double" where
  "round_ratio s n d =
     (if n = 0 then Fin s 0 (-1074)
      else
        let k = int (bitlen n) - int (bitlen d) - 53;
            (n0, d0) = scale 2 n d k;
            e = max (-1074) (if n0 div d0 \<ge> 2 ^ 53 then k + 1 else k);
            (n1, d1) = scale 2 n d e;
            m = div_even n1 d1;
            (m', e') = (if m = 2 ^ 53 then (2 ^ 52, e + 1) else (m, e))
        in if e' > 971 then Inf s else Fin s m' e')"

text \<open>A conversion from \<open>int\<close>.\<close>

definition double_of_int :: "int \<Rightarrow> double" where
  "double_of_int k = round_ratio (k < 0) (nat \<bar>k\<bar>) 1"

subsection \<open>Comparison and integer conversions\<close>

text \<open>The value of a finite double as a fraction \<open>num / 2^1074\<close>.\<close>

fun fixed_num :: "double \<Rightarrow> int" where
  "fixed_num (Fin s m e) = (if s then -1 else 1) * int m * 2 ^ nat (e + 1074)"
| "fixed_num _ = 0"

fun double_eq :: "double \<Rightarrow> double \<Rightarrow> bool" where
  "double_eq NaN _ = False"
| "double_eq _ NaN = False"
| "double_eq (Inf s) (Inf t) = (s = t)"
| "double_eq (Inf _) (Fin _ _ _) = False"
| "double_eq (Fin _ _ _) (Inf _) = False"
| "double_eq x y = (fixed_num x = fixed_num y)"

fun double_less :: "double \<Rightarrow> double \<Rightarrow> bool" where
  "double_less NaN _ = False"
| "double_less _ NaN = False"
| "double_less (Inf s) (Inf t) = (s \<and> \<not> t)"
| "double_less (Inf s) (Fin _ _ _) = s"
| "double_less (Fin _ _ _) (Inf s) = (\<not> s)"
| "double_less x y = (fixed_num x < fixed_num y)"

text \<open>
  \<open>static_cast<int>\<close> and \<open>static_cast<uint64_t>\<close> truncate towards zero; outside the range of
  the target the behaviour is undefined, here \<open>None\<close>.
\<close>

fun double_trunc :: "double \<Rightarrow> int option" where
  "double_trunc (Fin s m e) =
     Some ((if s then -1 else 1) * int (if 0 \<le> e then m * 2 ^ nat e else m div 2 ^ nat (- e)))"
| "double_trunc _ = None"

definition double_to_int :: "double \<Rightarrow> int option" where
  "double_to_int x = (case double_trunc x of
     Some k \<Rightarrow> if -2147483648 \<le> k \<and> k \<le> 2147483647 then Some k else None
   | None \<Rightarrow> None)"

definition double_to_uint64 :: "double \<Rightarrow> nat option" where
  "double_to_uint64 x = (case double_trunc x of
     Some k \<Rightarrow> if 0 \<le> k \<and> k < 2 ^ 64 then Some (nat k) else None
   | None \<Rightarrow> None)"

subsection \<open>Printing\<close>

text \<open>\<open>std::fixed\<close> with \<open>setprecision(0)\<close>.\<close>

fun fmt_fixed0 :: "double \<Rightarrow> string" where
  "fmt_fixed0 (Fin s m e) =
     (let (n, d) = (if 0 \<le> e then (m * 2 ^ nat e, 1) else (m, 2 ^ nat (- e)))
      in (if s then ''-'' else '''') @ dec (div_even n d))"
| "fmt_fixed0 (Inf s) = (if s then ''-inf'' else ''inf'')"
| "fmt_fixed0 NaN = ''nan''"

definition strip_zeros :: "string \<Rightarrow> string" where
  "strip_zeros s = rev (dropWhile (\<lambda>c. c = CHR ''0'') (rev s))"

definition with_fraction :: "string \<Rightarrow> string \<Rightarrow> string" where
  "with_fraction whole frac =
     (let f = strip_zeros frac in if f = [] then whole else whole @ ''.'' @ f)"

text \<open>
  \<open>%.17g\<close> of a positive \<open>n / d\<close>: 17 significant digits \<open>q\<close> with decimal exponent \<open>x\<close>, in
  positional form when \<open>-4 \<le> x < 17\<close>, else in exponent form; trailing zeros are dropped.
\<close>

definition sig17 :: "nat \<Rightarrow> nat \<Rightarrow> nat \<times> int" where
  "sig17 n d =
     (let x0 = int (length (dec n)) - int (length (dec d));
          (a, b) = scale 10 n d x0;
          x = (if a < b then x0 - 1 else x0);
          (n1, d1) = scale 10 n d (x - 16);
          q = div_even n1 d1
      in if q = 10 ^ 17 then (10 ^ 16, x + 1) else (q, x))"

definition fmt_exp :: "int \<Rightarrow> string" where
  "fmt_exp x = (let ds = dec (nat \<bar>x\<bar>) in
     ''e'' @ (if x < 0 then ''-'' else ''+'') @ (if length ds < 2 then ''0'' else '''') @ ds)"

definition fmt_17g_pos :: "nat \<Rightarrow> nat \<Rightarrow> string" where
  "fmt_17g_pos n d =
     (let (q, x) = sig17 n d; ds = dec q in
      if -4 \<le> x \<and> x < 17 then
        if 0 \<le> x then with_fraction (take (nat x + 1) ds) (drop (nat x + 1) ds)
        else with_fraction ''0'' (replicate (nat (- x) - 1) (CHR ''0'') @ ds)
      else with_fraction (take 1 ds) (drop 1 ds) @ fmt_exp x)"

fun fmt_17g :: "double \<Rightarrow> string" where
  "fmt_17g (Fin s m e) =
     (if s then ''-'' else '''') @
     (if m = 0 then ''0''
      else if 0 \<le> e then fmt_17g_pos (m * 2 ^ nat e) 1 else fmt_17g_pos m (2 ^ nat (- e)))"
| "fmt_17g (Inf s) = (if s then ''-inf'' else ''inf'')"
| "fmt_17g NaN = ''nan''"

subsection \<open>\<open>strtod\<close> and \<open>atoi\<close> on a decimal number\<close>

text \<open>
  The argument is the part of the string that the number occupies: an optional minus sign,
  digits, an optional fraction and an optional exponent.
\<close>

definition atoi :: "string \<Rightarrow> int" where
  "atoi s = (case s of
     [] \<Rightarrow> 0
   | c # ds \<Rightarrow> if c = CHR ''-'' then - int (digits_val (takeWhile isdig ds))
              else int (digits_val (takeWhile isdig s)))"

definition strtod :: "string \<Rightarrow> double" where
  "strtod s =
     (let neg = (s \<noteq> [] \<and> hd s = CHR ''-'');
          s1 = (if neg then tl s else s);
          whole = takeWhile isdig s1;
          s2 = dropWhile isdig s1;
          frac = (if s2 \<noteq> [] \<and> hd s2 = CHR ''.'' then takeWhile isdig (tl s2) else []);
          s3 = (if s2 \<noteq> [] \<and> hd s2 = CHR ''.'' then dropWhile isdig (tl s2) else s2);
          ex = (if s3 \<noteq> [] \<and> (hd s3 = CHR ''e'' \<or> hd s3 = CHR ''E'') then
                  (case tl s3 of
                     [] \<Rightarrow> 0
                   | c # ds \<Rightarrow> if c = CHR ''+'' then int (digits_val (takeWhile isdig ds))
                              else if c = CHR ''-'' then - int (digits_val (takeWhile isdig ds))
                              else int (digits_val (takeWhile isdig (tl s3))))
                else 0);
          (n, d) = scale 10 (digits_val (whole @ frac)) 1 (int (length frac) - ex)
      in round_ratio neg n d)"

subsection \<open>Small integers are exact\<close>

lemma bitlen_1 [simp]: "bitlen (Suc 0) = Suc 0"
  by (simp add: bitlen.simps [of "Suc 0"] bitlen.simps [of 0])

lemma bitlen_bounds: "0 < n \<Longrightarrow> 2 ^ (bitlen n - 1) \<le> n \<and> n < 2 ^ bitlen n \<and> 0 < bitlen n"
proof (induction n rule: bitlen.induct)
  case (1 n)
  show ?case
  proof (cases "n = 1")
    case True
    then show ?thesis by simp
  next
    case False
    with 1 have IH: "2 ^ (bitlen (n div 2) - 1) \<le> n div 2" "n div 2 < 2 ^ bitlen (n div 2)"
      "0 < bitlen (n div 2)" by simp_all
    have b: "bitlen n = Suc (bitlen (n div 2))" using "1.prems" by (simp add: bitlen.simps [of n])
    obtain l where l: "bitlen (n div 2) = Suc l" using IH(3) by (cases "bitlen (n div 2)") auto
    show ?thesis using IH(1,2) unfolding b l by (simp, linarith)
  qed
qed

lemma div_even_1 [simp]: "div_even n 1 = n" "div_even n (Suc 0) = n"
  by (simp_all add: div_even_def)

lemma double_of_nat_exact:
  assumes "0 < n" "n < 2 ^ 53"
  shows "round_ratio False n 1 = Fin False (n * 2 ^ (53 - bitlen n)) (int (bitlen n) - 53)"
proof -
  let ?L = "bitlen n"
  have b: "2 ^ (?L - 1) \<le> n" "n < 2 ^ ?L" "0 < ?L" using bitlen_bounds [OF assms(1)] by simp_all
  have L: "?L \<le> 53"
  proof (rule ccontr)
    assume "\<not> ?L \<le> 53"
    then have "(2::nat) ^ 53 \<le> 2 ^ (?L - 1)" by (intro power_increasing) simp_all
    with b(1) assms(2) show False by linarith
  qed
  have b1: "bitlen 1 = 1" by simp
  have "(2::nat) ^ 53 = 2 ^ (?L - 1) * 2 ^ (54 - ?L)" using L b(3) by (simp flip: power_add)
  also have "... \<le> n * 2 ^ (54 - ?L)" using b(1) by (rule mult_le_mono1)
  finally have big: "2 ^ 53 \<le> n * 2 ^ (54 - ?L)" .
  have "n * 2 ^ (53 - ?L) < 2 ^ ?L * 2 ^ (53 - ?L)" using b(2) by simp
  also have "... = 2 ^ 53" using L by (simp flip: power_add)
  finally have small: "n * 2 ^ (53 - ?L) < 2 ^ 53" .
  have k: "nat (- (int ?L - 1 - 53)) = 54 - ?L" "\<not> 0 \<le> int ?L - 1 - 53" using L by linarith+
  have s1: "scale 2 n 1 (int ?L - 1 - 53) = (n * 2 ^ (54 - ?L), 1)"
    unfolding scale_def using k by simp
  have e: "max (-1074) (int ?L - 1 - 53 + 1) = int ?L - 53" using b(3) by linarith
  have s2: "scale 2 n 1 (int ?L - 53) = (n * 2 ^ (53 - ?L), 1)"
  proof (cases "?L = 53")
    case True
    then show ?thesis by (simp add: scale_def)
  next
    case False
    then have "\<not> 0 \<le> int ?L - 53" "nat (- (int ?L - 53)) = 53 - ?L" using L by linarith+
    then show ?thesis by (simp only: scale_def if_False)
  qed
  have n0: "n \<noteq> 0" using assms(1) by simp
  have ne: "n * 2 ^ (53 - ?L) \<noteq> 2 ^ 53" "\<not> int ?L - 53 > 971" using small L by linarith+
  show ?thesis
    unfolding round_ratio_def b1 Let_def of_nat_1 s1 prod.case if_not_P [OF n0] div_by_1 if_P [OF big] e s2
      div_even_1 if_not_P [OF ne(1)] if_not_P [OF ne(2)] ..
qed

lemma double_to_uint64_of_nat: "n < 2 ^ 53 \<Longrightarrow> double_to_uint64 (double_of_int (int n)) = Some n"
proof -
  assume n: "n < 2 ^ 53"
  show "double_to_uint64 (double_of_int (int n)) = Some n"
  proof (cases "n = 0")
    case True
    then show ?thesis by (simp add: double_of_int_def round_ratio_def double_to_uint64_def)
  next
    case False
    then have p: "0 < n" by simp
    have "double_trunc (Fin False (n * 2 ^ (53 - bitlen n)) (int (bitlen n) - 53)) = Some (int n)"
    proof (cases "bitlen n \<le> 53")
      case True
      have "nat (- (int (bitlen n) - 53)) = 53 - bitlen n" using True by linarith
      then show ?thesis using True by (cases "bitlen n = 53") auto
    next
      case False
      then have "(2::nat) ^ 53 \<le> 2 ^ (bitlen n - 1)" by (intro power_increasing) simp_all
      then show ?thesis using bitlen_bounds [OF p] n by linarith
    qed
    then show ?thesis
      using n double_of_nat_exact [OF p n] by (simp add: double_of_int_def double_to_uint64_def)
  qed
qed

end
