(* ===== verification/Json_Value.thy ===== *)
theory Json_Value
  imports Double "HOL-Library.List_Lexorder" "HOL-Library.Char_ord"
begin

section \<open>json11: values, accessors, comparison, serialisation\<close>

text \<open>
  \<open>json11/json11.hpp\<close> and the value half of \<open>json11/json11.cpp\<close>.  A number is an \<open>int\<close>
  (\<open>JsonInt\<close>, kept in the 32-bit range by the constructors) or a \<open>double\<close>
  (\<open>JsonDouble\<close>).  An object is a \<open>std::map\<close>: a list of pairs in strictly ascending key
  order, keys compared byte-wise as \<open>std::string\<close> does, which is the lexicographic order of
  \<open>List_Lexorder\<close> over the byte order of \<open>Char_ord\<close>.  Values carry no sharing, so the
  pointer shortcut of \<open>operator==\<close> has no counterpart; it only matters for a NaN, which the
  parser never makes.
\<close>

datatype json_type = NUL | NUMBER | BOOL | STRING | ARRAY | OBJECT

datatype json =
    JNull
  | JInt int
  | JDouble double
  | JBool bool
  | JString string
  | JArray "json list"
  | JObject "(string \<times> json) list"

type_synonym json_object = "(string \<times> json) list"

text \<open>The declaration order of the enumeration is the order of values of different type.\<close>

fun type_rank :: "json_type \<Rightarrow> nat" where
  "type_rank NUL = 0"
| "type_rank NUMBER = 1"
| "type_rank BOOL = 2"
| "type_rank STRING = 3"
| "type_rank ARRAY = 4"
| "type_rank OBJECT = 5"

lemma type_rank_inj [simp]: "type_rank s = type_rank t \<longleftrightarrow> s = t"
  by (cases s; cases t) simp_all

instantiation json_type :: linorder
begin

definition less_eq_json_type :: "json_type \<Rightarrow> json_type \<Rightarrow> bool" where
  "less_eq_json_type s t \<longleftrightarrow> type_rank s \<le> type_rank t"

definition less_json_type :: "json_type \<Rightarrow> json_type \<Rightarrow> bool" where
  "less_json_type s t \<longleftrightarrow> type_rank s < type_rank t"

instance
  by standard (auto simp: less_eq_json_type_def less_json_type_def
      simp flip: type_rank_inj simp del: type_rank_inj)

end

fun json_type_of :: "json \<Rightarrow> json_type" where
  "json_type_of JNull = NUL"
| "json_type_of (JInt _) = NUMBER"
| "json_type_of (JDouble _) = NUMBER"
| "json_type_of (JBool _) = BOOL"
| "json_type_of (JString _) = STRING"
| "json_type_of (JArray _) = ARRAY"
| "json_type_of (JObject _) = OBJECT"

subsection \<open>\<open>std::map\<close> as a sorted association list\<close>

fun map_set :: "'k::linorder \<Rightarrow> 'v \<Rightarrow> ('k \<times> 'v) list \<Rightarrow> ('k \<times> 'v) list" where
  "map_set k v [] = [(k, v)]"
| "map_set k v ((k', v') # kvs) =
     (if k < k' then (k, v) # (k', v') # kvs
      else if k = k' then (k, v) # kvs
      else (k', v') # map_set k v kvs)"

definition map_ok :: "('k::linorder \<times> 'v) list \<Rightarrow> bool" where
  "map_ok kvs \<longleftrightarrow> sorted_wrt (<) (map fst kvs)"

text \<open>An initializer list keeps the first pair of equal keys; \<open>insert\<close> does the same.\<close>

definition map_insert :: "'k::linorder \<Rightarrow> 'v \<Rightarrow> ('k \<times> 'v) list \<Rightarrow> ('k \<times> 'v) list" where
  "map_insert k v kvs = (case map_of kvs k of Some _ \<Rightarrow> kvs | None \<Rightarrow> map_set k v kvs)"

lemma set_fst_map_set: "fst ` set (map_set k v kvs) = insert k (fst ` set kvs)"
  by (induction k v kvs rule: map_set.induct) auto

lemma map_ok_map_set: "map_ok kvs \<Longrightarrow> map_ok (map_set k v kvs)"
proof (induction k v kvs rule: map_set.induct)
  case (2 k v k' v' kvs)
  then show ?case
    using set_fst_map_set [of k v kvs] by (auto simp: map_ok_def)
qed (simp add: map_ok_def)

lemma map_of_map_set:
  "map_ok kvs \<Longrightarrow> map_of (map_set k v kvs) = (map_of kvs)(k \<mapsto> v)"
proof (induction k v kvs rule: map_set.induct)
  case (2 k v k' v' kvs)
  then show ?case by (auto simp: map_ok_def fun_eq_iff)
qed simp

lemma map_set_snoc: "\<forall>k' \<in> fst ` set kvs. k' < k \<Longrightarrow> map_set k v kvs = kvs @ [(k, v)]"
  by (induction kvs) auto

lemma map_ok_map_insert: "map_ok kvs \<Longrightarrow> map_ok (map_insert k v kvs)"
  by (simp add: map_insert_def map_ok_map_set split: option.splits)

subsection \<open>Accessors\<close>

fun number_value :: "json \<Rightarrow> double" where
  "number_value (JDouble d) = d"
| "number_value (JInt k) = double_of_int k"
| "number_value _ = double_of_int 0"

text \<open>\<open>int_value\<close> of a double casts it: \<open>None\<close> where the cast is undefined.\<close>

fun int_value :: "json \<Rightarrow> int option" where
  "int_value (JDouble d) = double_to_int d"
| "int_value (JInt k) = Some k"
| "int_value _ = Some 0"

fun bool_value :: "json \<Rightarrow> bool" where
  "bool_value (JBool b) = b"
| "bool_value _ = False"

fun string_value :: "json \<Rightarrow> string" where
  "string_value (JString s) = s"
| "string_value _ = []"

fun array_items :: "json \<Rightarrow> json list" where
  "array_items (JArray vs) = vs"
| "array_items _ = []"

fun object_items :: "json \<Rightarrow> json_object" where
  "object_items (JObject kvs) = kvs"
| "object_items _ = []"

fun json_index :: "json \<Rightarrow> nat \<Rightarrow> json" where
  "json_index (JArray vs) i = (if i \<ge> length vs then JNull else vs ! i)"
| "json_index _ _ = JNull"

fun json_field :: "json \<Rightarrow> string \<Rightarrow> json" where
  "json_field (JObject kvs) key = (case map_of kvs key of None \<Rightarrow> JNull | Some v \<Rightarrow> v)"
| "json_field _ _ = JNull"

definition is_number :: "json \<Rightarrow> bool" where
  "is_number j \<longleftrightarrow> json_type_of j = NUMBER"

definition is_string :: "json \<Rightarrow> bool" where
  "is_string j \<longleftrightarrow> json_type_of j = STRING"

definition is_object :: "json \<Rightarrow> bool" where
  "is_object j \<longleftrightarrow> json_type_of j = OBJECT"

subsection \<open>Comparison\<close>

text \<open>
  Different types are unequal; two numbers compare as doubles (an \<open>int\<close> converts); vectors
  compare element by element, maps pair by pair.
\<close>

fun json_eq :: "json \<Rightarrow> json \<Rightarrow> bool" where
  "json_eq JNull JNull = True"
| "json_eq (JInt a) (JInt b) = double_eq (double_of_int a) (double_of_int b)"
| "json_eq (JInt a) (JDouble y) = double_eq (double_of_int a) y"
| "json_eq (JDouble x) (JInt b) = double_eq x (double_of_int b)"
| "json_eq (JDouble x) (JDouble y) = double_eq x y"
| "json_eq (JBool a) (JBool b) = (a = b)"
| "json_eq (JString s) (JString t) = (s = t)"
| "json_eq (JArray xs) (JArray ys) = list_all2 json_eq xs ys"
| "json_eq (JObject xs) (JObject ys) =
     list_all2 (\<lambda>(k, v) (l, w). k = l \<and> json_eq v w) xs ys"
| "json_eq _ _ = False"

text \<open>
  \<open>operator<\<close>: by type first, then by value; arrays and objects lexicographically
  (\<open>std::lexicographical_compare\<close>), a pair of an object by key and then by value.
\<close>

function (sequential) json_less :: "json \<Rightarrow> json \<Rightarrow> bool"
  and array_less :: "json list \<Rightarrow> json list \<Rightarrow> bool"
  and object_less :: "json_object \<Rightarrow> json_object \<Rightarrow> bool" where
  "json_less (JInt a) (JInt b) = double_less (double_of_int a) (double_of_int b)"
| "json_less (JInt a) (JDouble y) = double_less (double_of_int a) y"
| "json_less (JDouble x) (JInt b) = double_less x (double_of_int b)"
| "json_less (JDouble x) (JDouble y) = double_less x y"
| "json_less (JBool a) (JBool b) = (\<not> a \<and> b)"
| "json_less (JString s) (JString t) = (s < t)"
| "json_less (JArray xs) (JArray ys) = array_less xs ys"
| "json_less (JObject xs) (JObject ys) = object_less xs ys"
| "json_less x y = (json_type_of x < json_type_of y)"
| "array_less _ [] = False"
| "array_less [] (y # ys) = True"
| "array_less (x # xs) (y # ys) =
     (if json_less x y then True else if json_less y x then False else array_less xs ys)"
| "object_less _ [] = False"
| "object_less [] (y # ys) = True"
| "object_less ((k, v) # xs) ((l, w) # ys) =
     (if k < l \<or> \<not> l < k \<and> json_less v w then True
      else if l < k \<or> \<not> k < l \<and> json_less w v then False
      else object_less xs ys)"
  by pat_completeness auto
termination
  by (relation "measure (\<lambda>p. case p of
        Inl (x, y) \<Rightarrow> size x + size y
      | Inr (Inl (xs, ys)) \<Rightarrow> size_list size xs + size_list size ys
      | Inr (Inr (xs, ys)) \<Rightarrow> size_list (size_prod (\<lambda>_. 0) size) xs + size_list (size_prod (\<lambda>_. 0) size) ys)")
    auto

end
