(* ===== verification/Json_Dump.thy ===== *)
theory Json_Dump
  imports Json_Value
begin

section \<open>json11: serialisation\<close>

text \<open>
  The overloads of \<open>dump\<close> in \<open>json11.cpp\<close> and \<open>Json::has_shape\<close>, which prints the value it
  rejects.
\<close>

definition hex_digit :: "nat \<Rightarrow> char" where
  "hex_digit d = (if d < 10 then char_of (48 + d) else char_of (87 + d))"

text \<open>\<open>"\\u%04x"\<close> of a character below 0x20.\<close>

definition u_escape :: "char \<Rightarrow> string" where
  "u_escape c = [CHR 0x5C, CHR ''u'', CHR ''0'', CHR ''0'', hex_digit (ord c div 16), hex_digit (ord c mod 16)]"

text \<open>
  The body of the loop of \<open>dump(const string &, string &)\<close>: what the character at the front
  of the rest of the string adds to the output.  The three-byte sequences E2 80 A8 and
  E2 80 A9 are consumed whole (\<open>dump_step\<close> says how many characters); looking past the end
  reads the terminating NUL.
\<close>

definition line_sep :: "string \<Rightarrow> char \<Rightarrow> bool" where
  "line_sep s c \<longleftrightarrow> char_at s 0 = CHR 0xE2 \<and> char_at s 1 = CHR 0x80 \<and> char_at s 2 = c"

definition dump_char :: "string \<Rightarrow> string" where
  "dump_char s =
     (let ch = char_at s 0 in
      if ch = CHR 0x5C then [CHR 0x5C, CHR 0x5C]
      else if ch = CHR 0x22 then [CHR 0x5C, CHR 0x22]
      else if ch = CHR 0x08 then [CHR 0x5C, CHR ''b'']
      else if ch = CHR 0x0C then [CHR 0x5C, CHR ''f'']
      else if ch = CHR 0x0A then [CHR 0x5C, CHR ''n'']
      else if ch = CHR 0x0D then [CHR 0x5C, CHR ''r'']
      else if ch = CHR 0x09 then [CHR 0x5C, CHR ''t'']
      else if ord ch \<le> 0x1f then u_escape ch
      else if line_sep s (CHR 0xA8) then [CHR 0x5C] @ ''u2028''
      else if line_sep s (CHR 0xA9) then [CHR 0x5C] @ ''u2029''
      else [ch])"

definition dump_step :: "string \<Rightarrow> nat" where
  "dump_step s = (if line_sep s (CHR 0xA8) \<or> line_sep s (CHR 0xA9) then 3 else 1)"

function dump_chars :: "string \<Rightarrow> string" where
  "dump_chars s = (if s = [] then [] else dump_char s @ dump_chars (drop (dump_step s) s))"
  by pat_completeness auto
termination
  by (relation "measure length") (auto simp: dump_step_def)

declare dump_chars.simps [simp del]

lemma dump_chars_Nil [simp]: "dump_chars [] = []"
  by (simp add: dump_chars.simps)

definition dump_string :: "string \<Rightarrow> string" where
  "dump_string value = [CHR 0x22] @ dump_chars value @ [CHR 0x22]"

definition dump_double :: "double \<Rightarrow> string" where
  "dump_double value = (if isfinite value then fmt_17g value else ''null'')"

fun dump_json :: "json \<Rightarrow> string"
  and dump_items :: "bool \<Rightarrow> json list \<Rightarrow> string"
  and dump_members :: "bool \<Rightarrow> json_object \<Rightarrow> string" where
  "dump_json JNull = ''null''"
| "dump_json (JInt value) = dec_int value"
| "dump_json (JDouble value) = dump_double value"
| "dump_json (JBool value) = (if value then ''true'' else ''false'')"
| "dump_json (JString value) = dump_string value"
| "dump_json (JArray values) = ''['' @ dump_items True values @ '']''"
| "dump_json (JObject values) = ''{'' @ dump_members True values @ ''}''"
| "dump_items first [] = []"
| "dump_items first (value # values) =
     (if first then [] else '', '') @ dump_json value @ dump_items False values"
| "dump_members first [] = []"
| "dump_members first ((k, v) # kvs) =
     (if first then [] else '', '') @ dump_string k @ '': '' @ dump_json v @ dump_members False kvs"

subsection \<open>Shape checking\<close>

text \<open>\<open>Inr ()\<close> for true, \<open>Inl\<close> of the message that is assigned to \<open>err\<close> for false.\<close>

fun has_shape_items :: "json \<Rightarrow> (string \<times> json_type) list \<Rightarrow> string + unit" where
  "has_shape_items j [] = Inr ()"
| "has_shape_items j ((k, t) # types) =
     (if json_type_of (json_field j k) \<noteq> t
      then Inl (''bad type for '' @ k @ '' in '' @ dump_json j)
      else has_shape_items j types)"

definition has_shape :: "json \<Rightarrow> (string \<times> json_type) list \<Rightarrow> string + unit" where
  "has_shape j types =
     (if \<not> is_object j then Inl (''expected JSON object, got '' @ dump_json j)
      else has_shape_items j types)"

lemma has_shape_ok_iff:
  "has_shape j types = Inr () \<longleftrightarrow>
     is_object j \<and> (\<forall>(k, t) \<in> set types. json_type_of (json_field j k) = t)"
proof -
  have "has_shape_items j types = Inr () \<longleftrightarrow>
      (\<forall>(k, t) \<in> set types. json_type_of (json_field j k) = t)"
    by (induction j types rule: has_shape_items.induct) auto
  then show ?thesis by (auto simp: has_shape_def)
qed

subsection \<open>What a dumped string looks like\<close>

text \<open>Strings over a plain alphabet are written between quotes as they are.\<close>

definition plain_char :: "char \<Rightarrow> bool" where
  "plain_char c \<longleftrightarrow> 0x20 \<le> ord c \<and> ord c < 0x80 \<and> c \<noteq> CHR 0x22 \<and> c \<noteq> CHR 0x5C"

lemma dump_chars_plain: "\<forall>c \<in> set s. plain_char c \<Longrightarrow> dump_chars s = s"
proof (induction s)
  case (Cons c s)
  then have p: "plain_char c" by simp
  then have ne: "c \<noteq> CHR 0xE2" "c \<noteq> CHR 0x08" "c \<noteq> CHR 0x0C" "c \<noteq> CHR 0x0A" "c \<noteq> CHR 0x0D"
      "c \<noteq> CHR 0x09" "\<not> ord c \<le> 0x1f"
    by (auto simp: plain_char_def)
  have "dump_char (c # s) = [c]"
    using p ne by (simp add: dump_char_def char_at_def line_sep_def plain_char_def)
  moreover have "dump_step (c # s) = 1"
    using ne by (simp add: dump_step_def line_sep_def char_at_def)
  ultimately show ?case
    using Cons by (simp add: dump_chars.simps [of "c # s"])
qed simp

lemma dump_string_plain: "\<forall>c \<in> set s. plain_char c \<Longrightarrow> dump_string s = [CHR 0x22] @ s @ [CHR 0x22]"
  by (simp add: dump_string_def dump_chars_plain)

text \<open>No control character and no unescaped quote: each chunk the loop writes is printable.\<close>

lemma hex_digit_ord: "d < 16 \<Longrightarrow> 48 \<le> ord (hex_digit d) \<and> ord (hex_digit d) \<le> 102"
  by (auto simp: hex_digit_def of_char_of)

lemma ord_div_16 [simp]: "ord c div 16 < 16"
  using of_char_less_256 [of c] by (simp add: less_mult_imp_div_less)

lemma dump_char_no_ctrl:
  assumes "s \<noteq> []"
  shows "\<forall>c \<in> set (dump_char s). 0x20 \<le> ord c"
proof -
  have "ord (char_at s 0) \<le> 0x1f \<Longrightarrow> \<forall>c \<in> set (u_escape (char_at s 0)). 0x20 \<le> ord c"
    using hex_digit_ord [of "ord (char_at s 0) div 16"] hex_digit_ord [of "ord (char_at s 0) mod 16"]
    by (auto simp: u_escape_def)
  then show ?thesis by (auto simp: dump_char_def Let_def)
qed

lemma dump_chars_no_ctrl: "\<forall>c \<in> set (dump_chars s). 0x20 \<le> ord c"
proof (induction s rule: dump_chars.induct)
  case (1 s)
  show ?case
  proof (cases "s = []")
    case False
    with 1 dump_char_no_ctrl [OF False] show ?thesis
      by (auto simp: dump_chars.simps [of s])
  qed simp
qed

lemma dump_string_no_ctrl: "\<forall>c \<in> set (dump_string s). 0x20 \<le> ord c"
  using dump_chars_no_ctrl by (auto simp: dump_string_def)

lemma dec_no_ctrl: "\<forall>c \<in> set (dec n). 0x20 \<le> ord c"
  using dec_digits [of n] by (auto simp: list_all_iff isdig_def)

end
