(* ===== verification/Json_Parser.thy ===== *)
theory Json_Parser
  imports Json_Dump
begin

section \<open>json11: the parser\<close>

text \<open>
  \<open>struct JsonParser\<close> of \<open>json11.cpp\<close>.  The string \<open>str\<close> and the strategy never change and are
  arguments; the record \<open>pstate\<close> holds the fields that do.  Reading at \<open>str.size()\<close> gives the
  terminating NUL, as \<open>std::string\<close> guarantees; \<open>char_at\<close> gives NUL further out as well, and
  the bounds lemmas show that the position never passes the end.
\<close>

datatype json_parse = STANDARD | COMMENTS

record pstate =
  ix :: nat
  err :: string
  failed :: bool

definition max_depth :: nat where
  "max_depth = 200"

subsection \<open>Failing, white space and comments\<close>

definition fail :: "string \<Rightarrow> pstate \<Rightarrow> pstate" where
  "fail msg st = st\<lparr>err := (if failed st then err st else msg), failed := True\<rparr>"

text \<open>\<open>esc\<close> prints a character and the decimal value of a signed \<open>char\<close>.\<close>

definition esc :: "char \<Rightarrow> string" where
  "esc c =
     (if 0x20 \<le> ord c \<and> ord c \<le> 0x7f
      then [CHR 0x27, c, CHR 0x27] @ '' ('' @ dec_int (schar c) @ '')''
      else ''('' @ dec_int (schar c) @ '')'')"

definition advance :: "nat \<Rightarrow> pstate \<Rightarrow> pstate" where
  "advance n st = st\<lparr>ix := ix st + n\<rparr>"

definition cur :: "string \<Rightarrow> pstate \<Rightarrow> char" where
  "cur str st = char_at str (ix st)"

definition is_ws :: "char \<Rightarrow> bool" where
  "is_ws c \<longleftrightarrow> c = CHR '' '' \<or> c = CHR 0x0D \<or> c = CHR 0x0A \<or> c = CHR 0x09"

text \<open>The shape of every scanning loop: advance while the character at \<open>i\<close> satisfies \<open>p\<close>.\<close>

function scan :: "(char \<Rightarrow> bool) \<Rightarrow> string \<Rightarrow> nat \<Rightarrow> nat" where
  "scan p str i = (if i < length str \<and> p (str ! i) then scan p str (i + 1) else i)"
  by pat_completeness auto
termination
  by (relation "measure (\<lambda>(p, str, i). length str - i)") auto

declare scan.simps [simp del]

definition consume_whitespace :: "string \<Rightarrow> pstate \<Rightarrow> pstate" where
  "consume_whitespace str st = st\<lparr>ix := scan is_ws str (ix st)\<rparr>"

text \<open>
  The loop that looks for the end of a block comment: \<open>None\<close> when \<open>i > str.size() - 2\<close>.  It is
  entered with \<open>i \<ge> 2\<close>, so the unsigned subtraction of the source does not wrap.
\<close>

function skip_block :: "string \<Rightarrow> nat \<Rightarrow> nat option" where
  "skip_block str i =
     (if i > length str - 2 \<or> length str < 2 then None
      else if char_at str i = CHR ''*'' \<and> char_at str (i + 1) = CHR ''/'' then Some (i + 2)
      else skip_block str (i + 1))"
  by pat_completeness auto
termination
  by (relation "measure (\<lambda>(str, i). Suc (length str) - i)") auto

declare skip_block.simps [simp del]

definition consume_comment :: "string \<Rightarrow> pstate \<Rightarrow> bool \<times> pstate" where
  "consume_comment str st =
     (if cur str st = CHR ''/'' then
        let st1 = advance 1 st in
        if ix st1 = length str
        then (False, fail ''unexpected end of input after start of comment'' st1)
        else if cur str st1 = CHR ''/'' then
          (True, st1\<lparr>ix := scan (\<lambda>c. c \<noteq> CHR 0x0A) str (ix st1 + 1)\<rparr>)
        else if cur str st1 = CHR ''*'' then
          (case skip_block str (ix st1 + 1) of
             Some k \<Rightarrow> (True, st1\<lparr>ix := k\<rparr>)
           | None \<Rightarrow> (False, fail ''unexpected end of input inside multi-line comment''
                        (st1\<lparr>ix := max (ix st1 + 1) (length str - 1)\<rparr>)))
        else (False, fail ''malformed comment'' st1)
      else (False, st))"

text \<open>
  How every parsing step moves the state: the position does not go back and stays within the
  string, and a failure is never forgotten.
\<close>

definition moves :: "string \<Rightarrow> pstate \<Rightarrow> pstate \<Rightarrow> bool" where
  "moves str st st' \<longleftrightarrow>
     ix st \<le> ix st' \<and> ix st' \<le> length str \<and> (failed st \<longrightarrow> failed st' \<and> err st' = err st)"

definition pos_ok :: "string \<Rightarrow> pstate \<Rightarrow> bool" where
  "pos_ok str st \<longleftrightarrow> ix st \<le> length str"

lemma moves_refl [intro]: "pos_ok str st \<Longrightarrow> moves str st st"
  by (simp add: moves_def pos_ok_def)

lemma moves_trans [trans]: "moves str a b \<Longrightarrow> moves str b c \<Longrightarrow> moves str a c"
  by (auto simp: moves_def)

lemma moves_pos_ok: "moves str a b \<Longrightarrow> pos_ok str b"
  by (simp add: moves_def pos_ok_def)

lemma moves_fail [intro]: "moves str st st' \<Longrightarrow> moves str st (fail msg st')"
  by (auto simp: moves_def fail_def)

lemma failed_fail [simp]: "failed (fail msg st)"
  by (simp add: fail_def)

lemma ix_fail [simp]: "ix (fail msg st) = ix st"
  by (simp add: fail_def)

lemma err_fail [simp]: "err (fail msg st) = (if failed st then err st else msg)"
  by (simp add: fail_def)

lemma scan_mono: "i \<le> scan p str i"
proof (induction p str i rule: scan.induct)
  case (1 p str i)
  then show ?case by (subst scan.simps) auto
qed

lemma scan_le: "i \<le> length str \<Longrightarrow> scan p str i \<le> length str"
proof (induction p str i rule: scan.induct)
  case (1 p str i)
  then show ?case by (subst scan.simps) auto
qed

lemma skip_block_bounds: "skip_block str i = Some k \<Longrightarrow> i < k \<and> k \<le> length str"
proof (induction str i rule: skip_block.induct)
  case (1 str i)
  then show ?case by (subst (asm) (2) skip_block.simps) (auto split: if_splits)
qed

lemma moves_scan: "pos_ok str st \<Longrightarrow> moves str st (st\<lparr>ix := scan p str (ix st)\<rparr>)"
  by (simp add: moves_def pos_ok_def scan_mono scan_le)

lemma moves_whitespace: "pos_ok str st \<Longrightarrow> moves str st (consume_whitespace str st)"
  by (simp add: consume_whitespace_def moves_scan)

lemma cur_not_nul: "cur str st \<noteq> CHR 0x00 \<Longrightarrow> ix st < length str"
  by (simp add: cur_def char_at_def split: if_splits)

lemma scan_grows: "j < i \<Longrightarrow> j < scan p str i"
  using scan_mono [of i p str] by simp

lemma moves_comment:
  assumes "consume_comment str st = (found, st')" "pos_ok str st"
  shows "moves str st st'"
proof (cases "cur str st = CHR ''/''")
  case True
  then have l: "ix st < length str" by (intro cur_not_nul) simp
  have c: "cur str (advance 1 st) \<noteq> CHR 0x00 \<Longrightarrow> Suc (Suc (ix st)) \<le> length str"
    using cur_not_nul [of str "advance 1 st"] by (simp add: advance_def)
  have s: "Suc (Suc (ix st)) \<le> length str \<Longrightarrow>
      ix st \<le> scan p str (Suc (Suc (ix st))) \<and> scan p str (Suc (Suc (ix st))) \<le> length str" for p
    using scan_grows [of "ix st" "Suc (Suc (ix st))" p str] by (simp add: scan_le)
  have k: "skip_block str (Suc (Suc (ix st))) = Some k \<Longrightarrow> ix st \<le> k \<and> k \<le> length str" for k
    using skip_block_bounds [of str "Suc (Suc (ix st))" k] by simp
  show ?thesis
    using True assms(1) l c s k
    by (auto simp: consume_comment_def Let_def moves_def advance_def split: if_splits option.splits)
qed (use assms in \<open>auto simp: consume_comment_def\<close>)

lemma comment_found:
  assumes "consume_comment str st = (True, st')"
  shows "ix st < ix st' \<and> ix st < length str \<and> failed st' = failed st"
proof -
  from assms have "cur str st = CHR ''/''" by (simp add: consume_comment_def split: if_splits)
  then have "ix st < length str" by (intro cur_not_nul) simp
  moreover have "skip_block str (Suc (Suc (ix st))) = Some k \<Longrightarrow> ix st < k" for k
    using skip_block_bounds [of str "Suc (Suc (ix st))" k] by simp
  ultimately show ?thesis
    using assms scan_grows [of "ix st" "Suc (Suc (ix st))" "\<lambda>c. c \<noteq> CHR 0x0A" str]
    by (auto simp: consume_comment_def Let_def advance_def split: if_splits option.splits)
qed

text \<open>
  The \<open>do ... while (comment_found)\<close> loop of \<open>consume_garbage\<close>: every comment that is found
  moves the position forward.
\<close>

function consume_comments :: "string \<Rightarrow> pstate \<Rightarrow> pstate" where
  "consume_comments str st =
     (case consume_comment str st of (comment_found, st1) \<Rightarrow>
        if failed st1 then st1
        else if comment_found then consume_comments str (consume_whitespace str st1)
        else consume_whitespace str st1)"
  by pat_completeness auto
termination
proof (relation "measure (\<lambda>(str, st). length str - ix st)", goal_cases)
  case (2 str st found st1)
  then have "consume_comment str st = (True, st1)" by simp
  from comment_found [OF this] show ?case
    using scan_grows [of "ix st" "ix st1" is_ws str]
    by (auto simp: consume_whitespace_def intro: diff_less_mono2)
qed simp

declare consume_comments.simps [simp del]

definition consume_garbage :: "json_parse \<Rightarrow> string \<Rightarrow> pstate \<Rightarrow> pstate" where
  "consume_garbage strategy str st =
     (let st1 = consume_whitespace str st in
      if strategy = COMMENTS then consume_comments str st1 else st1)"

lemma moves_comments: "pos_ok str st \<Longrightarrow> moves str st (consume_comments str st)"
proof (induction str st rule: consume_comments.induct)
  case (1 str st)
  obtain f st1 where c: "consume_comment str st = (f, st1)" by fastforce
  with "1.prems" have m: "moves str st st1" by (auto intro: moves_comment)
  then have w: "moves str st1 (consume_whitespace str st1)"
    by (intro moves_whitespace) (rule moves_pos_ok)
  with m have mw: "moves str st (consume_whitespace str st1)" by (rule moves_trans)
  show ?case
  proof (cases "\<not> failed st1 \<and> f")
    case True
    with 1(1) c moves_pos_ok [OF w]
    have "moves str (consume_whitespace str st1) (consume_comments str (consume_whitespace str st1))"
      by simp
    with mw True c show ?thesis by (subst consume_comments.simps) (auto intro: moves_trans)
  next
    case False
    with m mw c show ?thesis by (subst consume_comments.simps) auto
  qed
qed

lemma moves_garbage: "pos_ok str st \<Longrightarrow> moves str st (consume_garbage strategy str st)"
  using moves_whitespace [of str st] moves_comments [of str "consume_whitespace str st"]
  by (auto simp: consume_garbage_def Let_def intro: moves_trans dest: moves_pos_ok)

subsection \<open>Tokens\<close>

definition get_next_token :: "json_parse \<Rightarrow> string \<Rightarrow> pstate \<Rightarrow> char \<times> pstate" where
  "get_next_token strategy str st =
     (let st1 = consume_garbage strategy str st in
      if failed st1 then (CHR 0x00, st1)
      else if ix st1 = length str then (CHR 0x00, fail ''unexpected end of input'' st1)
      else (cur str st1, advance 1 st1))"

lemma moves_token:
  assumes "get_next_token strategy str st = (c, st')" "pos_ok str st"
  shows "moves str st st' \<and> (failed st' \<or> ix st < ix st')"
proof -
  have m: "moves str st (consume_garbage strategy str st)" using assms(2) by (rule moves_garbage)
  from m have "moves str st (fail msg (consume_garbage strategy str st))" for msg
    by (rule moves_fail)
  with m assms(1) show ?thesis
    by (auto simp: get_next_token_def Let_def advance_def moves_def split: if_splits)
qed

lemma token_failed: "failed st \<Longrightarrow> pos_ok str st \<Longrightarrow> failed (snd (get_next_token strategy str st))"
  using moves_token [of strategy str st] by (cases "get_next_token strategy str st") (auto simp: moves_def)

subsection \<open>Strings\<close>

text \<open>\<open>encode_utf8\<close>: nothing for a negative code point; \<open>static_cast<char>\<close> keeps the low byte.\<close>

definition to_char :: "int \<Rightarrow> char" where
  "to_char k = char_of (nat (k mod 256))"

definition encode_utf8 :: "int \<Rightarrow> string" where
  "encode_utf8 pt =
     (if pt < 0 then []
      else if pt < 0x80 then [to_char pt]
      else if pt < 0x800 then
        [to_char (drop_bit 6 pt OR 0xC0), to_char ((pt AND 0x3F) OR 0x80)]
      else if pt < 0x10000 then
        [to_char (drop_bit 12 pt OR 0xE0), to_char ((drop_bit 6 pt AND 0x3F) OR 0x80),
         to_char ((pt AND 0x3F) OR 0x80)]
      else
        [to_char (drop_bit 18 pt OR 0xF0), to_char ((drop_bit 12 pt AND 0x3F) OR 0x80),
         to_char ((drop_bit 6 pt AND 0x3F) OR 0x80), to_char ((pt AND 0x3F) OR 0x80)])"

definition is_hex :: "char \<Rightarrow> bool" where
  "is_hex c \<longleftrightarrow> 97 \<le> ord c \<and> ord c \<le> 102 \<or> 65 \<le> ord c \<and> ord c \<le> 70 \<or> isdig c"

definition hex_val :: "char \<Rightarrow> nat" where
  "hex_val c = (if isdig c then ord c - 48 else if 97 \<le> ord c then ord c - 87 else ord c - 55)"

text \<open>\<open>strtol(esc.data(), nullptr, 16)\<close> of hexadecimal digits.\<close>

definition strtol16 :: "string \<Rightarrow> int" where
  "strtol16 s = int (foldl (\<lambda>v c. 16 * v + hex_val c) 0 s)"

definition high_surrogate :: "int \<Rightarrow> bool" where
  "high_surrogate k \<longleftrightarrow> 0xD800 \<le> k \<and> k \<le> 0xDBFF"

definition low_surrogate :: "int \<Rightarrow> bool" where
  "low_surrogate k \<longleftrightarrow> 0xDC00 \<le> k \<and> k \<le> 0xDFFF"

definition simple_escape :: "char \<Rightarrow> char option" where
  "simple_escape ch =
     (if ch = CHR ''b'' then Some (CHR 0x08)
      else if ch = CHR ''f'' then Some (CHR 0x0C)
      else if ch = CHR ''n'' then Some (CHR 0x0A)
      else if ch = CHR ''r'' then Some (CHR 0x0D)
      else if ch = CHR ''t'' then Some (CHR 0x09)
      else if ch = CHR 0x22 \<or> ch = CHR 0x5C \<or> ch = CHR ''/'' then Some ch
      else None)"

lemma moves_advance: "ix st + n \<le> length str \<Longrightarrow> moves str st (advance n st)"
  by (simp add: moves_def advance_def)

lemma ix_advance [simp]: "ix (advance n st) = ix st + n"
  by (simp add: advance_def)

lemma failed_advance [simp]: "failed (advance n st) = failed st"
  by (simp add: advance_def)

lemma err_advance [simp]: "err (advance n st) = err st"
  by (simp add: advance_def)

lemma moves_advance_trans:
  "ix st + n \<le> length str \<Longrightarrow> moves str (advance n st) st' \<Longrightarrow> moves str st st'"
  by (blast intro: moves_trans moves_advance)

text \<open>
  One round of the loop of \<open>parse_string\<close>: \<open>Inl\<close> of the value and the state it returns, or
  \<open>Inr\<close> of \<open>last_escaped_codepoint\<close> (-1 when there is none), \<open>out\<close> and the state it continues with.
  The position of a valid state is at most \<open>size()\<close>, so \<open>i >= size()\<close> is \<open>i == size()\<close>.
\<close>

definition escape_u ::
  "string \<Rightarrow> int \<Rightarrow> string \<Rightarrow> pstate \<Rightarrow> (string \<times> pstate) + (int \<times> string \<times> pstate)" where
  "escape_u str last_cp out st =
     (let esc4 = take 4 (drop (ix st) str) in
      if length esc4 < 4 \<or> \<not> list_all is_hex esc4
      then Inl ([], fail (''bad '' @ [CHR 0x5C] @ ''u escape: '' @ esc4) st)
      else
        let codepoint = strtol16 esc4 in
        if high_surrogate last_cp \<and> low_surrogate codepoint then
          Inr (-1,
            out @ encode_utf8 ((push_bit 10 (last_cp - 0xD800) OR (codepoint - 0xDC00)) + 0x10000),
            advance 4 st)
        else Inr (codepoint, out @ encode_utf8 last_cp, advance 4 st))"

definition string_step ::
  "string \<Rightarrow> int \<Rightarrow> string \<Rightarrow> pstate \<Rightarrow> (string \<times> pstate) + (int \<times> string \<times> pstate)" where
  "string_step str last_cp out st =
     (if length str \<le> ix st then Inl ([], fail ''unexpected end of input in string'' st)
      else
        let ch = cur str st; st1 = advance 1 st in
        if ch = CHR 0x22 then Inl (out @ encode_utf8 last_cp, st1)
        else if 0 \<le> schar ch \<and> schar ch \<le> 0x1f
        then Inl ([], fail (''unescaped '' @ esc ch @ '' in string'') st1)
        else if ch \<noteq> CHR 0x5C then Inr (-1, out @ encode_utf8 last_cp @ [ch], st1)
        else if length str \<le> ix st1
        then Inl ([], fail ''unexpected end of input in string'' st1)
        else
          let ch = cur str st1; st2 = advance 1 st1 in
          if ch = CHR ''u'' then escape_u str last_cp out st2
          else
            (case simple_escape ch of
               Some c \<Rightarrow> Inr (-1, out @ encode_utf8 last_cp @ [c], st2)
             | None \<Rightarrow> Inl ([], fail (''invalid escape character '' @ esc ch) st2)))"

lemma escape_u_moves:
  assumes "pos_ok str st"
  shows "(case escape_u str last_cp out st of
      Inl (s, st') \<Rightarrow> moves str st st' | Inr (l, out', st') \<Rightarrow> moves str st st' \<and> failed st' = failed st)"
proof -
  have "moves str st st" using assms by (rule moves_refl)
  moreover have "moves str st (advance 4 st)" if "4 \<le> length (take 4 (drop (ix st) str))"
    using that by (intro moves_advance) auto
  ultimately show ?thesis
    by (simp add: escape_u_def Let_def not_less moves_fail del: length_take length_drop)
qed

lemma string_step_moves:
  assumes "pos_ok str st"
  shows "(case string_step str last_cp out st of
      Inl (s, st') \<Rightarrow> moves str st st'
    | Inr (l, out', st') \<Rightarrow> moves str st st' \<and> ix st < ix st' \<and> failed st' = failed st)"
proof (cases "length str \<le> ix st")
  case True
  with assms show ?thesis by (auto simp: string_step_def)
next
  case ne: False
  then have m1: "moves str st (advance 1 st)" by (intro moves_advance) simp
  show ?thesis
  proof (cases "cur str st = CHR 0x5C \<and> ix st + 1 < length str")
    case False
    with ne m1 show ?thesis by (auto simp: string_step_def Let_def)
  next
    case True
    then have p2: "pos_ok str (advance 1 (advance 1 st))" by (simp add: pos_ok_def)
    have m2: "moves str st (advance 1 (advance 1 st))"
      using True by (intro moves_trans [OF m1] moves_advance) simp
    from m2 escape_u_moves [OF p2, of last_cp out] True ne show ?thesis
      by (auto simp: string_step_def Let_def moves_def split: option.splits sum.splits)
  qed
qed

lemma string_step_grows:
  "string_step str last_cp out st = Inr (l, out', st') \<Longrightarrow> ix st < ix st' \<and> ix st < length str"
  by (auto simp: string_step_def escape_u_def Let_def split: if_splits option.splits)

function parse_string_loop ::
  "string \<Rightarrow> int \<Rightarrow> string \<Rightarrow> pstate \<Rightarrow> string \<times> pstate" where
  "parse_string_loop str last_cp out st =
     (case string_step str last_cp out st of
        Inl r \<Rightarrow> r
      | Inr (last_cp', out', st') \<Rightarrow> parse_string_loop str last_cp' out' st')"
  by pat_completeness auto
termination
proof (relation "measure (\<lambda>(str, last_cp, out, st). length str - ix st)", goal_cases)
  case (2 str last_cp out st x l y out' st')
  then have "string_step str last_cp out st = Inr (l, out', st')" by simp
  from string_step_grows [OF this] show ?case by (auto intro: diff_less_mono2)
qed simp

declare parse_string_loop.simps [simp del]

definition parse_string :: "string \<Rightarrow> pstate \<Rightarrow> string \<times> pstate" where
  "parse_string str st = parse_string_loop str (-1) [] st"

lemma moves_string_loop:
  "pos_ok str st \<Longrightarrow> moves str st (snd (parse_string_loop str last_cp out st))"
proof (induction str last_cp out st rule: parse_string_loop.induct)
  case (1 str last_cp out st)
  note m = string_step_moves [OF "1.prems", of last_cp out]
  show ?case
  proof (cases "string_step str last_cp out st")
    case (Inl r)
    with m show ?thesis by (subst parse_string_loop.simps) (cases r, simp)
  next
    case (Inr r)
    obtain l out' st' where r: "r = (l, out', st')" by (cases r)
    with m Inr have m': "moves str st st'" by simp
    with Inr r "1.IH" have "moves str st' (snd (parse_string_loop str l out' st'))"
      by (blast intro: moves_pos_ok)
    with m' Inr r show ?thesis by (subst parse_string_loop.simps) (auto intro: moves_trans)
  qed
qed

lemma moves_string: "pos_ok str st \<Longrightarrow> moves str st (snd (parse_string str st))"
  by (simp add: parse_string_def moves_string_loop)

subsection \<open>Numbers and literals\<close>

definition at_ix :: "nat \<Rightarrow> pstate \<Rightarrow> pstate" where
  "at_ix k st = st\<lparr>ix := k\<rparr>"

text \<open>
  The integer part: \<open>Inl\<close> of the failed state, or \<open>Inr\<close> of the position behind it.
\<close>

definition number_int_part :: "string \<Rightarrow> pstate \<Rightarrow> pstate + nat" where
  "number_int_part str st =
     (let i0 = (if cur str st = CHR ''-'' then ix st + 1 else ix st) in
      if char_at str i0 = CHR ''0'' then
        (if isdig (char_at str (i0 + 1))
         then Inl (fail ''leading 0s not permitted in numbers'' (at_ix (i0 + 1) st))
         else Inr (i0 + 1))
      else if isdig (char_at str i0) then Inr (scan isdig str (i0 + 1))
      else Inl (fail (''invalid '' @ esc (char_at str i0) @ '' in number'') (at_ix i0 st)))"

definition number_fraction :: "string \<Rightarrow> nat \<Rightarrow> pstate \<Rightarrow> pstate + nat" where
  "number_fraction str i st =
     (if char_at str i = CHR ''.'' then
        (if isdig (char_at str (i + 1)) then Inr (scan isdig str (i + 1))
         else Inl (fail ''at least one digit required in fractional part'' (at_ix (i + 1) st)))
      else Inr i)"

definition number_exponent :: "string \<Rightarrow> nat \<Rightarrow> pstate \<Rightarrow> pstate + nat" where
  "number_exponent str i st =
     (if char_at str i = CHR ''e'' \<or> char_at str i = CHR ''E'' then
        let j = (if char_at str (i + 1) = CHR ''+'' \<or> char_at str (i + 1) = CHR ''-''
                 then i + 2 else i + 1) in
        if isdig (char_at str j) then Inr (scan isdig str j)
        else Inl (fail ''at least one digit required in exponent'' (at_ix j st))
      else Inr i)"

text \<open>
  A number without fraction and exponent that takes at most nine characters
  (\<open>numeric_limits<int>::digits10\<close>) goes through \<open>atoi\<close>, any other through \<open>strtod\<close>.
\<close>

definition parse_number :: "string \<Rightarrow> pstate \<Rightarrow> json \<times> pstate" where
  "parse_number str st =
     (case number_int_part str st of
        Inl st' \<Rightarrow> (JNull, st')
      | Inr i \<Rightarrow>
          if char_at str i \<noteq> CHR ''.'' \<and> char_at str i \<noteq> CHR ''e'' \<and> char_at str i \<noteq> CHR ''E'' \<and>
             i - ix st \<le> 9
          then (JInt (atoi (take (i - ix st) (drop (ix st) str))), at_ix i st)
          else
            (case number_fraction str i st of
               Inl st' \<Rightarrow> (JNull, st')
             | Inr j \<Rightarrow>
                 (case number_exponent str j st of
                    Inl st' \<Rightarrow> (JNull, st')
                  | Inr k \<Rightarrow>
                      (JDouble (strtod (take (k - ix st) (drop (ix st) str))), at_ix k st))))"

text \<open>\<open>expect\<close> steps back over the character that was just read and compares.\<close>

definition expect :: "string \<Rightarrow> string \<Rightarrow> json \<Rightarrow> pstate \<Rightarrow> json \<times> pstate" where
  "expect str expected res st =
     (let i = ix st - 1; got = take (length expected) (drop i str) in
      if got = expected then (res, at_ix (i + length expected) st)
      else (JNull, fail (''parse error: expected '' @ expected @ '', got '' @ got) (at_ix i st)))"

lemma ix_at_ix [simp]: "ix (at_ix k st) = k"
  by (simp add: at_ix_def)

lemma failed_at_ix [simp]: "failed (at_ix k st) = failed st"
  by (simp add: at_ix_def)

lemma err_at_ix [simp]: "err (at_ix k st) = err st"
  by (simp add: at_ix_def)

lemma moves_at_ix: "ix st \<le> k \<Longrightarrow> k \<le> length str \<Longrightarrow> moves str st (at_ix k st)"
  by (simp add: moves_def)

lemma char_at_digit: "isdig (char_at str i) \<Longrightarrow> i < length str"
  by (auto simp: char_at_def isdig_def split: if_splits)

lemma char_at_in: "char_at str i = c \<Longrightarrow> c \<noteq> CHR 0x00 \<Longrightarrow> i < length str"
  by (auto simp: char_at_def split: if_splits)

lemma scan_range: "i < length str \<Longrightarrow> i \<le> scan p str (Suc i) \<and> scan p str (Suc i) \<le> length str"
  using scan_grows [of i "Suc i" p str] by (simp add: scan_le)

lemma isdig_zero: "isdig (CHR ''0'')"
  by (simp add: isdig_def)

lemma number_int_part_moves:
  assumes "pos_ok str st"
  shows "(case number_int_part str st of
      Inl st' \<Rightarrow> moves str st st' \<and> failed st' | Inr i \<Rightarrow> ix st < i \<and> i \<le> length str)"
proof -
  define i0 where "i0 = (if cur str st = CHR ''-'' then ix st + 1 else ix st)"
  have i0: "ix st \<le> i0" "i0 \<le> length str"
    using assms char_at_in [of str "ix st" "CHR ''-''"] by (auto simp: i0_def pos_ok_def cur_def)
  show ?thesis
  proof (cases "isdig (char_at str i0)")
    case True
    then have l: "i0 < length str" by (rule char_at_digit)
    with i0 scan_grows [of i0 "Suc i0" isdig str] scan_le [of "Suc i0" str isdig] show ?thesis
      using True unfolding number_int_part_def i0_def [symmetric] Let_def
      by (auto intro!: moves_fail moves_at_ix)
  next
    case False
    with isdig_zero have "char_at str i0 \<noteq> CHR ''0''" by metis
    with False i0 show ?thesis
      unfolding number_int_part_def i0_def [symmetric] Let_def
      by (auto intro!: moves_fail moves_at_ix)
  qed
qed

lemma number_fraction_moves:
  assumes "ix st \<le> i" "i \<le> length str"
  shows "(case number_fraction str i st of
      Inl st' \<Rightarrow> moves str st st' \<and> failed st' | Inr j \<Rightarrow> i \<le> j \<and> j \<le> length str)"
  using assms char_at_in [of str i "CHR ''.''"] char_at_digit [of str "Suc i"]
    scan_mono [of "Suc i" isdig str] scan_le [of "Suc i" str isdig]
  by (auto simp: number_fraction_def intro!: moves_fail moves_at_ix)

lemma number_exponent_moves:
  assumes "ix st \<le> i" "i \<le> length str"
  shows "(case number_exponent str i st of
      Inl st' \<Rightarrow> moves str st st' \<and> failed st' | Inr j \<Rightarrow> i \<le> j \<and> j \<le> length str)"
proof (cases "char_at str i = CHR ''e'' \<or> char_at str i = CHR ''E''")
  case True
  then have l: "i < length str" by (auto dest: char_at_in)
  define j where "j = (if char_at str (i + 1) = CHR ''+'' \<or> char_at str (i + 1) = CHR ''-''
    then i + 2 else i + 1)"
  have j: "i \<le> j" "j \<le> length str"
    using l char_at_in [of str "Suc i" "CHR ''+''"] char_at_in [of str "Suc i" "CHR ''-''"]
    by (auto simp: j_def)
  with assms True scan_mono [of j isdig str] scan_le [of j str isdig] show ?thesis
    unfolding number_exponent_def j_def [symmetric] Let_def
    by (auto intro!: moves_fail moves_at_ix)
qed (use assms in \<open>auto simp: number_exponent_def\<close>)

lemma moves_number:
  assumes "pos_ok str st"
  shows "moves str st (snd (parse_number str st)) \<and>
    (failed (snd (parse_number str st)) \<or> ix st < ix (snd (parse_number str st)))"
proof (cases "number_int_part str st")
  case (Inl st')
  with number_int_part_moves [OF assms] show ?thesis by (simp add: parse_number_def)
next
  case (Inr i)
  with number_int_part_moves [OF assms] have i: "ix st < i" "i \<le> length str" by simp_all
  then have "ix st \<le> i" by simp
  note f = number_fraction_moves [OF this i(2)]
  show ?thesis
  proof (cases "number_fraction str i st")
    case Inl': (Inl st')
    with f Inr i show ?thesis by (auto simp: parse_number_def intro: moves_at_ix)
  next
    case Inr': (Inr j)
    with f i have j: "ix st \<le> j" "i \<le> j" "j \<le> length str" by simp_all
    from number_exponent_moves [OF j(1,3)] Inr Inr' i j show ?thesis
      by (auto simp: parse_number_def intro: moves_at_ix split: sum.splits)
  qed
qed

lemma moves_expect:
  assumes "ix st \<le> length str" "0 < ix st" "expected \<noteq> []"
  shows "moves str (at_ix (ix st - 1) st) (snd (expect str expected res st)) \<and>
    (failed (snd (expect str expected res st)) \<or> ix st \<le> ix (snd (expect str expected res st)))"
proof -
  have "length expected \<le> length str - (ix st - 1)"
    if "take (length expected) (drop (ix st - 1) str) = expected"
    using arg_cong [OF that, of length] by simp
  moreover have "Suc 0 \<le> length expected" using assms(3) by (simp add: Suc_le_eq)
  then have "ix st \<le> ix st - 1 + length expected" by simp
  ultimately show ?thesis
    using assms(1,2) by (auto simp: expect_def Let_def moves_def)
qed

subsection \<open>Values\<close>

text \<open>
  \<open>parse_json\<close> and its two loops.  The bodies come first, with the calls they make as
  arguments: \<open>pobj\<close> and \<open>parr\<close> enter the loop over an object or an array, \<open>pval\<close> parses a value
  one level deeper, \<open>again\<close> is the next round of a loop.
\<close>

type_synonym parsed = "(json \<times> pstate) option"

definition json_body ::
  "(char \<Rightarrow> pstate \<Rightarrow> parsed) \<Rightarrow> (pstate \<Rightarrow> parsed) \<Rightarrow> json_parse \<Rightarrow> string \<Rightarrow> nat \<Rightarrow> pstate \<Rightarrow> parsed" where
  "json_body pobj parr strategy str depth st =
     (if depth > max_depth then Some (JNull, fail ''exceeded maximum nesting depth'' st)
      else case get_next_token strategy str st of (ch, st1) \<Rightarrow>
        if failed st1 then Some (JNull, st1)
        else if ch = CHR ''-'' \<or> isdig ch then Some (parse_number str (at_ix (ix st1 - 1) st1))
        else if ch = CHR ''t'' then Some (expect str ''true'' (JBool True) st1)
        else if ch = CHR ''f'' then Some (expect str ''false'' (JBool False) st1)
        else if ch = CHR ''n'' then Some (expect str ''null'' JNull st1)
        else if ch = CHR 0x22 then
          (case parse_string str st1 of (s, st2) \<Rightarrow> Some (JString s, st2))
        else if ch = CHR ''{'' then
          (case get_next_token strategy str st1 of (ch, st2) \<Rightarrow>
             if ch = CHR ''}'' then Some (JObject [], st2) else pobj ch st2)
        else if ch = CHR ''['' then
          (case get_next_token strategy str st1 of (ch, st2) \<Rightarrow>
             if ch = CHR '']'' then Some (JArray [], st2) else parr st2)
        else Some (JNull, fail (''expected value, got '' @ esc ch) st1))"

definition quoted :: "char \<Rightarrow> string" where
  "quoted c = [CHR 0x27, c, CHR 0x27]"

definition object_body ::
  "(pstate \<Rightarrow> parsed) \<Rightarrow> (char \<Rightarrow> json_object \<Rightarrow> pstate \<Rightarrow> parsed) \<Rightarrow> json_parse \<Rightarrow> string \<Rightarrow>
   char \<Rightarrow> json_object \<Rightarrow> pstate \<Rightarrow> parsed" where
  "object_body pval again strategy str ch data st =
     (if ch \<noteq> CHR 0x22
      then Some (JNull, fail (''expected '' @ quoted (CHR 0x22) @ '' in object, got '' @ esc ch) st)
      else case parse_string str st of (key, st1) \<Rightarrow>
        if failed st1 then Some (JNull, st1)
        else case get_next_token strategy str st1 of (ch, st2) \<Rightarrow>
          if ch \<noteq> CHR '':''
          then Some (JNull, fail (''expected '' @ quoted (CHR '':'') @ '' in object, got '' @ esc ch) st2)
          else case pval st2 of
              None \<Rightarrow> None
            | Some (v, st3) \<Rightarrow>
                let data = map_set key v data in
                if failed st3 then Some (JNull, st3)
                else case get_next_token strategy str st3 of (ch, st4) \<Rightarrow>
                  if ch = CHR ''}'' then Some (JObject data, st4)
                  else if ch \<noteq> CHR '',''
                  then Some (JNull, fail (''expected '' @ quoted (CHR '','') @ '' in object, got '' @ esc ch) st4)
                  else case get_next_token strategy str st4 of (ch, st5) \<Rightarrow> again ch data st5)"

definition array_body ::
  "(pstate \<Rightarrow> parsed) \<Rightarrow> (json list \<Rightarrow> pstate \<Rightarrow> parsed) \<Rightarrow> json_parse \<Rightarrow> string \<Rightarrow>
   json list \<Rightarrow> pstate \<Rightarrow> parsed" where
  "array_body pval again strategy str data st =
     (case pval (at_ix (ix st - 1) st) of
        None \<Rightarrow> None
      | Some (v, st1) \<Rightarrow>
          let data = data @ [v] in
          if failed st1 then Some (JNull, st1)
          else case get_next_token strategy str st1 of (ch, st2) \<Rightarrow>
            if ch = CHR '']'' then Some (JArray data, st2)
            else if ch \<noteq> CHR '',''
            then Some (JNull, fail (''expected '' @ quoted (CHR '','') @ '' in list, got '' @ esc ch) st2)
            else case get_next_token strategy str st2 of (ch, st3) \<Rightarrow> again data st3)"

text \<open>
  The recursion.  Each call spends one unit of fuel, and running out is \<open>None\<close>;
  \<open>parse_enough_fuel\<close> below shows that \<open>4 * size() + 6\<close> units always suffice.
\<close>

fun parse_json :: "nat \<Rightarrow> json_parse \<Rightarrow> string \<Rightarrow> nat \<Rightarrow> pstate \<Rightarrow> parsed"
  and parse_object_loop ::
    "nat \<Rightarrow> json_parse \<Rightarrow> string \<Rightarrow> nat \<Rightarrow> char \<Rightarrow> json_object \<Rightarrow> pstate \<Rightarrow> parsed"
  and parse_array_loop ::
    "nat \<Rightarrow> json_parse \<Rightarrow> string \<Rightarrow> nat \<Rightarrow> json list \<Rightarrow> pstate \<Rightarrow> parsed" where
  "parse_json 0 strategy str depth st = None"
| "parse_json (Suc fuel) strategy str depth st =
     json_body (\<lambda>ch st. parse_object_loop fuel strategy str depth ch [] st)
       (\<lambda>st. parse_array_loop fuel strategy str depth [] st) strategy str depth st"
| "parse_object_loop 0 strategy str depth ch data st = None"
| "parse_object_loop (Suc fuel) strategy str depth ch data st =
     object_body (\<lambda>st. parse_json fuel strategy str (depth + 1) st)
       (\<lambda>ch data st. parse_object_loop fuel strategy str depth ch data st) strategy str ch data st"
| "parse_array_loop 0 strategy str depth data st = None"
| "parse_array_loop (Suc fuel) strategy str depth data st =
     array_body (\<lambda>st. parse_json fuel strategy str (depth + 1) st)
       (\<lambda>data st. parse_array_loop fuel strategy str depth data st) strategy str data st"

definition start_state :: pstate where
  "start_state = \<lparr>ix = 0, err = [], failed = False\<rparr>"

definition parse_fuel :: "string \<Rightarrow> nat" where
  "parse_fuel str = 4 * length str + 6"

text \<open>
  \<open>Json::parse\<close>: the value, and the string the caller finds in \<open>err\<close> (empty: no error).
\<close>

definition json_parse_top :: "json_parse \<Rightarrow> string \<Rightarrow> (json \<times> string) option" where
  "json_parse_top strategy str =
     (case parse_json (parse_fuel str) strategy str 0 start_state of
        None \<Rightarrow> None
      | Some (result, st) \<Rightarrow>
          let st1 = consume_garbage strategy str st in
          if failed st1 then Some (JNull, err st1)
          else if ix st1 \<noteq> length str
          then Some (JNull, err (fail (''unexpected trailing '' @ esc (cur str st1)) st1))
          else Some (result, []))"

text \<open>\<open>Json::parse_multi\<close>: the values read, \<open>parser_stop_pos\<close> and \<open>err\<close>.\<close>

fun parse_multi_loop ::
  "nat \<Rightarrow> json_parse \<Rightarrow> string \<Rightarrow> json list \<Rightarrow> nat \<Rightarrow> pstate \<Rightarrow> (json list \<times> nat \<times> pstate) option" where
  "parse_multi_loop 0 strategy str vec stop st = None"
| "parse_multi_loop (Suc n) strategy str vec stop st =
     (if ix st = length str \<or> failed st then Some (vec, stop, st)
      else case parse_json (parse_fuel str) strategy str 0 st of
          None \<Rightarrow> None
        | Some (v, st1) \<Rightarrow>
            if failed st1 then Some (vec @ [v], stop, st1)
            else
              let st2 = consume_garbage strategy str st1 in
              if failed st2 then Some (vec @ [v], stop, st2)
              else parse_multi_loop n strategy str (vec @ [v]) (ix st2) st2)"

definition json_parse_multi :: "json_parse \<Rightarrow> string \<Rightarrow> (json list \<times> nat \<times> string) option" where
  "json_parse_multi strategy str =
     map_option (\<lambda>(vec, stop, st). (vec, stop, err st))
       (parse_multi_loop (length str + 1) strategy str [] 0 start_state)"

end
