(* ===== verification/Json_Total.thy ===== *)
theory Json_Total
  imports Json_Parser
begin

section \<open>json11: the parser returns and stays within its input\<close>

text \<open>
  For every input the fuel of \<open>json_parse_top\<close> suffices, so the model's \<open>None\<close> never
  happens; on the way, every call moves the position forward within the string
  (\<open>moves\<close>), which is the absence of out-of-bounds reads.
\<close>

definition value_ok :: "string \<Rightarrow> pstate \<Rightarrow> parsed \<Rightarrow> bool" where
  "value_ok str st res \<longleftrightarrow>
     (\<exists>v st'. res = Some (v, st') \<and> moves str st st' \<and> (failed st' \<or> ix st < ix st'))"

text \<open>The fuel each of the three functions needs from a given state.\<close>

definition need_value :: "string \<Rightarrow> pstate \<Rightarrow> nat" where
  "need_value str st = (if failed st then 1 else 4 * (length str - ix st) + 2)"

definition need_object :: "string \<Rightarrow> pstate \<Rightarrow> nat" where
  "need_object str st = (if failed st then 1 else 4 * (length str - ix st) + 1)"

definition need_array :: "string \<Rightarrow> pstate \<Rightarrow> nat" where
  "need_array str st = (if failed st then 2 else 4 * (length str - ix st) + 7)"

lemmas needs = need_value_def need_object_def need_array_def

lemma value_ok_Some:
  "value_ok str st (Some p) \<longleftrightarrow> moves str st (snd p) \<and> (failed (snd p) \<or> ix st < ix (snd p))"
  by (cases p) (simp add: value_ok_def)

lemma value_okI:
  "moves str st st' \<Longrightarrow> failed st' \<or> ix st < ix st' \<Longrightarrow> value_ok str st (Some (v, st'))"
  by (auto simp: value_ok_def)

lemma value_ok_fail: "moves str st st' \<Longrightarrow> value_ok str st (Some (v, fail msg st'))"
  by (auto intro: value_okI)

lemma value_ok_trans:
  "moves str st st1 \<Longrightarrow> value_ok str st1 res \<Longrightarrow> value_ok str st res"
  unfolding value_ok_def by (metis (no_types) moves_def moves_trans order_le_less_trans)

text \<open>A token: what is known after a call that returned a real character.\<close>

lemma token_char:
  assumes "get_next_token strategy str st = (c, st')" "c \<noteq> CHR 0x00"
  shows "\<not> failed st'"
  using assms by (auto simp: get_next_token_def Let_def split: if_splits)

lemma token_nul:
  assumes "get_next_token strategy str st = (c, st')" "failed st'"
  shows "c = CHR 0x00"
  using assms by (auto simp: get_next_token_def Let_def split: if_splits)

lemma array_start_moves:
  assumes "moves str st st1" "ix st < ix st1"
  shows "moves str st (at_ix (ix st1 - 1) st1)"
  using assms by (auto simp: moves_def)

lemma json_body_ok:
  assumes pos: "pos_ok str st"
    and pobj: "\<And>ch st2. moves str st st2 \<Longrightarrow> failed st2 \<or> ix st + 2 \<le> ix st2 \<Longrightarrow>
        (failed st2 \<longrightarrow> ch = CHR 0x00) \<Longrightarrow> \<not> failed st \<Longrightarrow> ix st < length str \<Longrightarrow>
        value_ok str st2 (pobj ch st2)"
    and parr: "\<And>st2. moves str st (at_ix (ix st2 - 1) st2) \<Longrightarrow> pos_ok str st2 \<Longrightarrow>
        failed st2 \<or> ix st + 2 \<le> ix st2 \<Longrightarrow> 0 < ix st2 \<Longrightarrow> \<not> failed st \<Longrightarrow> ix st < length str \<Longrightarrow>
        value_ok str (at_ix (ix st2 - 1) st2) (parr st2)"
  shows "value_ok str st (json_body pobj parr strategy str depth st)"
proof (cases "depth > max_depth")
  case True
  with pos show ?thesis by (auto simp: json_body_def intro: value_ok_fail)
next
  case depth: False
  obtain ch st1 where tok: "get_next_token strategy str st = (ch, st1)" by fastforce
  have m1: "moves str st st1" and g1: "failed st1 \<or> ix st < ix st1"
    using moves_token [OF tok pos] by auto
  show ?thesis
  proof (cases "failed st1")
    case True
    with depth tok m1 show ?thesis by (auto simp: json_body_def intro: value_okI)
  next
    case nf: False
    with g1 have g: "ix st < ix st1" by simp
    have p1: "pos_ok str st1" using m1 by (rule moves_pos_ok)
    have nfs: "\<not> failed st" "ix st < length str" using m1 nf g by (auto simp: moves_def)
    have back1: "moves str st (at_ix (ix st1 - 1) st1)" using m1 g by (rule array_start_moves)
    have num: "value_ok str st (Some (parse_number str (at_ix (ix st1 - 1) st1)))"
      using moves_number [OF moves_pos_ok [OF back1]]
      by (intro value_ok_trans [OF back1]) (simp add: value_ok_Some)
    have lit: "value_ok str st (Some (expect str e r st1))" if "e \<noteq> []" for e r
    proof -
      have "moves str (at_ix (ix st1 - 1) st1) (snd (expect str e r st1)) \<and>
          (failed (snd (expect str e r st1)) \<or> ix st1 \<le> ix (snd (expect str e r st1)))"
        using that p1 g by (intro moves_expect) (auto simp: pos_ok_def)
      with g show ?thesis
        by (intro value_ok_trans [OF back1]) (auto simp: value_ok_Some)
    qed
    have strv: "value_ok str st (case parse_string str st1 of (s, st2) \<Rightarrow> Some (JString s, st2))"
      using moves_trans [OF m1 moves_string [OF p1]] moves_string [OF p1] g
      by (auto simp: moves_def split: prod.splits intro!: value_okI)
    obtain ch2 st2 where tok2: "get_next_token strategy str st1 = (ch2, st2)" by fastforce
    have m2: "moves str st1 st2" and g2: "failed st2 \<or> ix st1 < ix st2"
      using moves_token [OF tok2 p1] by auto
    have m: "moves str st st2" using m1 m2 by (rule moves_trans)
    have ix2: "ix st < ix st2" using g m2 by (auto simp: moves_def)
    have fin: "value_ok str st (Some (v, st2))" for v using m ix2 by (auto intro: value_okI)
    have obj: "value_ok str st (pobj ch2 st2)"
      by (intro value_ok_trans [OF m] pobj) (use m g2 g nfs token_nul [OF tok2] in auto)
    have back2: "moves str st (at_ix (ix st2 - 1) st2)" using m ix2 by (rule array_start_moves)
    have arr: "value_ok str st (parr st2)"
      by (intro value_ok_trans [OF back2] parr) (use back2 m g2 g ix2 nfs moves_pos_ok in auto)
    have bad: "value_ok str st (Some (v, fail msg st1))" for v msg
      using m1 by (rule value_ok_fail)
    show ?thesis
      using depth nf num by (simp add: json_body_def tok tok2 lit strv fin obj arr bad)
  qed
qed

lemma object_body_ok:
  assumes pos: "pos_ok str st" "failed st \<longrightarrow> ch = CHR 0x00"
    and pval: "\<And>st2. moves str st st2 \<Longrightarrow> ix st < ix st2 \<Longrightarrow> \<not> failed st2 \<Longrightarrow> value_ok str st2 (pval st2)"
    and again: "\<And>ch data st5. moves str st st5 \<Longrightarrow> ix st + 2 \<le> ix st5 \<Longrightarrow> \<not> failed st \<Longrightarrow>
        (failed st5 \<longrightarrow> ch = CHR 0x00) \<Longrightarrow> value_ok str st5 (again ch data st5)"
  shows "value_ok str st (object_body pval again strategy str ch data st)"
proof (cases "ch = CHR 0x22")
  case False
  with pos show ?thesis by (auto simp: object_body_def intro: value_ok_fail)
next
  case quote: True
  with pos have nf0: "\<not> failed st" by auto
  obtain key st1 where s: "parse_string str st = (key, st1)" by fastforce
  have m1: "moves str st st1" using moves_string [OF pos(1)] s by simp
  show ?thesis
  proof (cases "failed st1")
    case True
    with quote s m1 show ?thesis by (auto simp: object_body_def intro: value_okI)
  next
    case nf: False
    obtain ch2 st2 where tok: "get_next_token strategy str st1 = (ch2, st2)" by fastforce
    have t2: "moves str st1 st2" "failed st2 \<or> ix st1 < ix st2"
      using moves_token [OF tok moves_pos_ok [OF m1]] by auto
    have m2: "moves str st st2" using m1 t2(1) by (rule moves_trans)
    show ?thesis
    proof (cases "ch2 = CHR '':''")
      case False
      with quote s nf tok m2 show ?thesis by (auto simp: object_body_def intro: value_ok_fail)
    next
      case colon: True
      have nf2: "\<not> failed st2" using token_char [OF tok] colon by simp
      have g2: "ix st < ix st2" using t2 nf2 m1 by (auto simp: moves_def)
      obtain v st3 where v: "pval st2 = Some (v, st3)" and m23: "moves str st2 st3"
          and g23: "failed st3 \<or> ix st2 < ix st3"
        using pval [OF m2 g2 nf2] by (auto simp: value_ok_def)
      have m3: "moves str st st3" using m2 m23 by (rule moves_trans)
      show ?thesis
      proof (cases "failed st3")
        case True
        with quote s nf tok colon v m3 show ?thesis
          by (auto simp: object_body_def Let_def intro: value_okI)
      next
        case nf3: False
        obtain ch4 st4 where tok4: "get_next_token strategy str st3 = (ch4, st4)" by fastforce
        have t4: "moves str st3 st4" using moves_token [OF tok4 moves_pos_ok [OF m3]] by simp
        have m4: "moves str st st4" using m3 t4 by (rule moves_trans)
        have g4: "ix st + 2 \<le> ix st4" using g2 g23 nf3 t4 by (auto simp: moves_def)
        obtain ch5 st5 where tok5: "get_next_token strategy str st4 = (ch5, st5)" by fastforce
        have t5: "moves str st4 st5" using moves_token [OF tok5 moves_pos_ok [OF m4]] by simp
        have m5: "moves str st st5" using m4 t5 by (rule moves_trans)
        have g5: "ix st + 2 \<le> ix st5" using g4 t5 by (auto simp: moves_def)
        have "value_ok str st (again ch5 (map_set key v data) st5)"
          by (intro value_ok_trans [OF m5] again) (use m5 g5 nf0 token_nul [OF tok5] in auto)
        moreover have "value_ok str st (Some (w, st4))" for w
          using m4 g4 by (intro value_okI) auto
        moreover have "value_ok str st (Some (w, fail msg st4))" for w msg
          using m4 by (rule value_ok_fail)
        ultimately show ?thesis
          using quote s nf tok colon v nf3 tok4 tok5 by (simp add: object_body_def Let_def)
      qed
    qed
  qed
qed

lemma array_body_ok:
  assumes pos: "pos_ok str (at_ix (ix st - 1) st)" "0 < ix st"
    and pval: "value_ok str (at_ix (ix st - 1) st) (pval (at_ix (ix st - 1) st))"
    and again: "\<And>data st3. moves str (at_ix (ix st - 1) st) (at_ix (ix st3 - 1) st3) \<Longrightarrow>
        pos_ok str st3 \<Longrightarrow> failed st3 \<or> ix st + 2 \<le> ix st3 \<Longrightarrow> ix st + 1 \<le> ix st3 \<Longrightarrow> \<not> failed st \<Longrightarrow>
        value_ok str (at_ix (ix st3 - 1) st3) (again data st3)"
  shows "value_ok str (at_ix (ix st - 1) st) (array_body pval again strategy str data st)"
proof -
  let ?st0 = "at_ix (ix st - 1) st"
  obtain v st1 where v: "pval ?st0 = Some (v, st1)" and m1: "moves str ?st0 st1"
      and g1: "failed st1 \<or> ix ?st0 < ix st1"
    using pval by (auto simp: value_ok_def)
  show ?thesis
  proof (cases "failed st1")
    case True
    with v m1 show ?thesis by (auto simp: array_body_def Let_def intro: value_okI)
  next
    case nf: False
    with m1 have nf0: "\<not> failed st" by (auto simp: moves_def)
    obtain ch2 st2 where tok: "get_next_token strategy str st1 = (ch2, st2)" by fastforce
    have t2: "moves str st1 st2" "failed st2 \<or> ix st1 < ix st2"
      using moves_token [OF tok moves_pos_ok [OF m1]] by auto
    have m2: "moves str ?st0 st2" using m1 t2(1) by (rule moves_trans)
    have g2: "ix ?st0 < ix st2" using g1 nf t2(1) by (auto simp: moves_def)
    obtain ch3 st3 where tok3: "get_next_token strategy str st2 = (ch3, st3)" by fastforce
    have t3: "moves str st2 st3" "failed st3 \<or> ix st2 < ix st3"
      using moves_token [OF tok3 moves_pos_ok [OF m2]] by auto
    have m3: "moves str ?st0 st3" using m2 t3(1) by (rule moves_trans)
    have g3: "ix ?st0 < ix st3" using g2 t3(1) by (auto simp: moves_def)
    have back1: "moves str ?st0 (at_ix (ix st3 - 1) st3)" using m3 g3 by (rule array_start_moves)
    have "value_ok str ?st0 (again (data @ [v]) st3)" if "ch2 = CHR '',''"
    proof -
      have "\<not> failed st2" using token_char [OF tok] that by simp
      then have "ix st + 1 \<le> ix st2" using t2 g1 nf pos(2) by auto
      then have "failed st3 \<or> ix st + 2 \<le> ix st3" "ix st + 1 \<le> ix st3"
        using t3 by (auto simp: moves_def)
      then show ?thesis
        by (intro value_ok_trans [OF back1] again) (use back1 m3 nf0 moves_pos_ok in auto)
    qed
    moreover have "value_ok str ?st0 (Some (w, st2))" for w
      using m2 g2 by (intro value_okI) auto
    moreover have "value_ok str ?st0 (Some (w, fail msg st2))" for w msg
      using m2 by (rule value_ok_fail)
    ultimately show ?thesis
      using v nf tok tok3 by (simp add: array_body_def Let_def)
  qed
qed

lemma parse_enough_fuel:
  "(pos_ok str st \<longrightarrow> need_value str st \<le> fuel \<longrightarrow>
      value_ok str st (parse_json fuel strategy str depth st)) \<and>
   (pos_ok str st \<longrightarrow> (failed st \<longrightarrow> ch = CHR 0x00) \<longrightarrow> need_object str st \<le> fuel \<longrightarrow>
      value_ok str st (parse_object_loop fuel strategy str depth ch data st)) \<and>
   (pos_ok str st \<longrightarrow> 0 < ix st \<longrightarrow> need_array str st \<le> fuel \<longrightarrow>
      value_ok str (at_ix (ix st - 1) st) (parse_array_loop fuel strategy str depth items st))"
proof (induction fuel arbitrary: st depth ch data items)
  case 0
  then show ?case by (auto simp: needs)
next
  case (Suc fuel)
  have V: "value_ok str st (parse_json fuel strategy str depth st)"
    if "pos_ok str st" "need_value str st \<le> fuel" for st depth
    using Suc that by blast
  have O: "value_ok str st (parse_object_loop fuel strategy str depth ch data st)"
    if "pos_ok str st" "failed st \<longrightarrow> ch = CHR 0x00" "need_object str st \<le> fuel" for st depth ch data
    using Suc that by blast
  have A: "value_ok str (at_ix (ix st - 1) st) (parse_array_loop fuel strategy str depth items st)"
    if "pos_ok str st" "0 < ix st" "need_array str st \<le> fuel" for st depth items
    using Suc that by blast
  show ?case
  proof (intro conjI impI)
    assume p: "pos_ok str st" and n: "need_value str st \<le> Suc fuel"
    show "value_ok str st (parse_json (Suc fuel) strategy str depth st)"
      unfolding parse_json.simps
    proof (rule json_body_ok [OF p])
      fix ch st2
      assume "moves str st st2" "failed st2 \<or> ix st + 2 \<le> ix st2" "failed st2 \<longrightarrow> ch = CHR 0x00"
        "\<not> failed st" "ix st < length str"
      with n show "value_ok str st2 (parse_object_loop fuel strategy str depth ch [] st2)"
        by (intro O) (auto simp: needs moves_def pos_ok_def)
    next
      fix st2
      assume "moves str st (at_ix (ix st2 - 1) st2)" "pos_ok str st2" "failed st2 \<or> ix st + 2 \<le> ix st2"
        "0 < ix st2" "\<not> failed st" "ix st < length str"
      with n show "value_ok str (at_ix (ix st2 - 1) st2) (parse_array_loop fuel strategy str depth [] st2)"
        by (intro A) (auto simp: needs pos_ok_def)
    qed
  next
    assume p: "pos_ok str st" "failed st \<longrightarrow> ch = CHR 0x00" and n: "need_object str st \<le> Suc fuel"
    show "value_ok str st (parse_object_loop (Suc fuel) strategy str depth ch data st)"
      unfolding parse_object_loop.simps
    proof (rule object_body_ok [OF p])
      fix st2
      assume "moves str st st2" "ix st < ix st2" "\<not> failed st2"
      with n show "value_ok str st2 (parse_json fuel strategy str (depth + 1) st2)"
        by (intro V) (auto simp: needs moves_def pos_ok_def)
    next
      fix ch data st5
      assume "moves str st st5" "ix st + 2 \<le> ix st5" "\<not> failed st" "failed st5 \<longrightarrow> ch = CHR 0x00"
      with n show "value_ok str st5 (parse_object_loop fuel strategy str depth ch data st5)"
        by (intro O) (auto simp: needs moves_def pos_ok_def)
    qed
  next
    assume p: "pos_ok str st" "0 < ix st" and n: "need_array str st \<le> Suc fuel"
    have p0: "pos_ok str (at_ix (ix st - 1) st)" using p by (auto simp: pos_ok_def)
    show "value_ok str (at_ix (ix st - 1) st) (parse_array_loop (Suc fuel) strategy str depth items st)"
      unfolding parse_array_loop.simps
    proof (rule array_body_ok [OF p0 p(2)])
      show "value_ok str (at_ix (ix st - 1) st) (parse_json fuel strategy str (depth + 1) (at_ix (ix st - 1) st))"
        using p0 p n by (intro V) (auto simp: needs pos_ok_def)
    next
      fix data st3
      assume "pos_ok str st3" "failed st3 \<or> ix st + 2 \<le> ix st3" "ix st + 1 \<le> ix st3" "\<not> failed st"
      with p n show "value_ok str (at_ix (ix st3 - 1) st3) (parse_array_loop fuel strategy str depth data st3)"
        by (intro A) (auto simp: needs pos_ok_def)
    qed
  qed
qed

lemma parse_json_total:
  assumes "pos_ok str st"
  shows "value_ok str st (parse_json (parse_fuel str) strategy str depth st)"
proof -
  have "need_value str st \<le> parse_fuel str" by (auto simp: parse_fuel_def need_value_def intro: le_trans [OF mult_le_mono2, of _ "length str"])
  with assms show ?thesis using parse_enough_fuel by blast
qed

lemma pos_ok_start [simp]: "pos_ok str start_state"
  by (simp add: pos_ok_def start_state_def)

lemma json_parse_top_total: "\<exists>v e. json_parse_top strategy str = Some (v, e)"
proof -
  have "value_ok str start_state (parse_json (parse_fuel str) strategy str 0 start_state)"
    by (rule parse_json_total) simp
  then show ?thesis by (auto simp: json_parse_top_def value_ok_def Let_def)
qed

lemma parse_multi_loop_total:
  "pos_ok str st \<Longrightarrow> length str - ix st < n \<Longrightarrow> stop \<le> length str \<Longrightarrow>
   \<exists>vs stop' st'. parse_multi_loop n strategy str vec stop st = Some (vs, stop', st') \<and> stop' \<le> length str"
proof (induction n arbitrary: vec stop st)
  case (Suc n)
  obtain v st1 where v: "parse_json (parse_fuel str) strategy str 0 st = Some (v, st1)"
      and m: "moves str st st1" "failed st1 \<or> ix st < ix st1"
    using parse_json_total [OF Suc.prems(1), of strategy 0] by (auto simp: value_ok_def)
  have g: "moves str st1 (consume_garbage strategy str st1)"
    using moves_pos_ok [OF m(1)] by (rule moves_garbage)
  have "\<exists>vs stop' st'. parse_multi_loop n strategy str (vec @ [v]) (ix (consume_garbage strategy str st1))
      (consume_garbage strategy str st1) = Some (vs, stop', st') \<and> stop' \<le> length str"
    if "\<not> failed st1"
    using that m g Suc.prems(2) by (intro Suc.IH) (auto simp: moves_def pos_ok_def)
  with v Suc.prems(3) show ?case by (auto simp: Let_def)
qed simp

lemma json_parse_multi_total:
  "\<exists>vs stop e. json_parse_multi strategy str = Some (vs, stop, e) \<and> stop \<le> length str"
  using parse_multi_loop_total [of str start_state "length str + 1" 0 strategy "[]"]
  by (auto simp: json_parse_multi_def)

text \<open>\<open>Json::parse\<close> as its callers see it: the value and \<open>err\<close>.\<close>

definition json_parse_std :: "string \<Rightarrow> json \<times> string" where
  "json_parse_std str =
     (case json_parse_top STANDARD str of Some r \<Rightarrow> r | None \<Rightarrow> (JNull, []))"

subsection \<open>Properties\<close>

text \<open>
  C7: \<open>Json::parse\<close> and \<open>Json::parse_multi\<close> return for every input and strategy: the fuel of the model
  suffices, and the position where \<open>parse_multi\<close> stopped lies within the input.
\<close>
theorem json_parser_returns:
  "(\<exists>v e. json_parse_top strategy str = Some (v, e)) \<and>
   (\<exists>vs stop e. json_parse_multi strategy str = Some (vs, stop, e) \<and> stop \<le> length str)"
  using json_parse_top_total json_parse_multi_total by blast

end
