(* ===== verification/Json_Roundtrip.thy ===== *)
theory Json_Roundtrip
  imports Json_Total
begin

section \<open>json11: parsing inverts dumping\<close>

text \<open>
  For every value without floating-point numbers, \<open>Json::parse\<close> gives back what \<open>dump\<close>
  printed, byte for byte in its strings.  \<open>dumpable d j\<close> says what is asked of a value at
  nesting depth \<open>d\<close>: no \<open>double\<close>, integers of at most nine characters (longer ones come back
  as a \<open>double\<close>), objects in the order of a \<open>std::map\<close>, and no nesting beyond \<open>max_depth\<close>.
\<close>

fun dumpable :: "nat \<Rightarrow> json \<Rightarrow> bool" where
  "dumpable d JNull \<longleftrightarrow> d \<le> max_depth"
| "dumpable d (JInt k) \<longleftrightarrow> d \<le> max_depth \<and> length (dec_int k) \<le> 9"
| "dumpable d (JDouble x) \<longleftrightarrow> False"
| "dumpable d (JBool b) \<longleftrightarrow> d \<le> max_depth"
| "dumpable d (JString s) \<longleftrightarrow> d \<le> max_depth"
| "dumpable d (JArray vs) \<longleftrightarrow> d \<le> max_depth \<and> list_all (dumpable (d + 1)) vs"
| "dumpable d (JObject kvs) \<longleftrightarrow>
     d \<le> max_depth \<and> map_ok kvs \<and> list_all (\<lambda>(k, v). dumpable (d + 1) v) kvs"

subsection \<open>Reading known text\<close>

lemma drop_Cons_cur:
  assumes "drop (ix st) str = c # cs"
  shows "cur str st = c" "ix st < length str" "drop (ix st + 1) str = cs" "\<not> length str \<le> ix st"
proof -
  show l: "ix st < length str" using assms by (metis drop_eq_Nil2 list.distinct(1) not_le)
  show "cur str st = c" using assms l by (simp add: cur_def char_at_def) (metis hd_drop_conv_nth list.sel(1))
  show "drop (ix st + 1) str = cs" using assms by (metis drop_drop plus_1_eq_Suc drop_Suc_Cons drop0 add.commute)
  show "\<not> length str \<le> ix st" using l by simp
qed

lemma drop_append_drop: "drop i str = a @ b \<Longrightarrow> drop (i + length a) str = b"
  by (metis add.commute append_eq_conv_conj drop_drop)

lemma drop_length: "drop i str = a @ b \<Longrightarrow> a \<noteq> [] \<Longrightarrow> i + length a + length b = length str"
  by (metis append_is_Nil_conv drop_eq_Nil2 le_add_diff_inverse length_append length_drop
      nle_le add.assoc)

lemma scan_stops:
  "drop i str = ds @ post \<Longrightarrow> list_all p ds \<Longrightarrow> post = [] \<or> \<not> p (hd post) \<Longrightarrow>
   scan p str i = i + length ds"
proof (induction ds arbitrary: i)
  case Nil
  then show ?case by (subst scan.simps) (auto simp: hd_drop_conv_nth)
next
  case (Cons d ds)
  then have l: "i < length str" and d: "str ! i = d" and r: "drop (i + 1) str = ds @ post"
    using drop_Cons_cur [of "\<lparr>ix = i, err = [], failed = False\<rparr>" str d "ds @ post"]
    by (auto simp: cur_def char_at_def)
  have "scan p str (i + 1) = i + 1 + length ds" using r Cons.prems by (intro Cons.IH) auto
  with l d Cons.prems show ?case by (subst scan.simps) simp
qed

lemma whitespace_none:
  "drop (ix st) str = c # cs \<Longrightarrow> \<not> is_ws c \<Longrightarrow> consume_whitespace str st = st"
  using scan_stops [of "ix st" str "[]" "c # cs" is_ws] by (simp add: consume_whitespace_def)

lemma whitespace_end: "drop (ix st) str = [] \<Longrightarrow> consume_whitespace str st = st"
  by (simp add: consume_whitespace_def scan.simps)

lemma token_here:
  assumes "drop (ix st) str = c # cs" "\<not> is_ws c" "\<not> failed st"
  shows "get_next_token STANDARD str st = (c, advance 1 st)"
  using assms drop_Cons_cur [OF assms(1)]
  by (simp add: get_next_token_def consume_garbage_def whitespace_none [OF assms(1,2)])

lemma token_after_space:
  assumes "drop (ix st) str = CHR '' '' # c # cs" "\<not> is_ws c" "\<not> failed st"
  shows "get_next_token STANDARD str st = (c, advance 2 st)"
proof -
  have "scan is_ws str (ix st) = ix st + 1"
    using scan_stops [of "ix st" str "'' ''" "c # cs" is_ws] assms by (simp add: is_ws_def)
  then have w: "consume_whitespace str st = advance 1 st"
    by (simp add: consume_whitespace_def advance_def)
  have d: "drop (ix (advance 1 st)) str = c # cs" using drop_Cons_cur(3) [OF assms(1)] by simp
  show ?thesis
    using w drop_Cons_cur [OF d] assms(3)
    by (simp add: get_next_token_def consume_garbage_def)
qed

subsection \<open>Strings\<close>

lemma hex_digit_back: "d < 16 \<Longrightarrow> hex_val (hex_digit d) = d \<and> is_hex (hex_digit d)"
  by (auto simp: hex_val_def hex_digit_def is_hex_def isdig_def of_char_of)

lemma to_char_ord: "to_char (int (ord c)) = c"
  by (simp add: to_char_def nat_mod_distrib)

lemma encode_utf8_low: "ord c < 0x80 \<Longrightarrow> encode_utf8 (int (ord c)) = [c]"
  by (simp add: encode_utf8_def to_char_ord)

lemma encode_utf8_seps:
  "encode_utf8 0x2028 = [CHR 0xE2, CHR 0x80, CHR 0xA8]"
  "encode_utf8 0x2029 = [CHR 0xE2, CHR 0x80, CHR 0xA9]"
  by code_simp+

lemma encode_utf8_neg [simp]: "encode_utf8 (-1) = []"
  by (simp add: encode_utf8_def)

lemma schar_control: "0 \<le> schar c \<and> schar c \<le> 0x1f \<longleftrightarrow> ord c \<le> 0x1f"
  using of_char_less_256 [of c] by (auto simp: schar_def simp del: of_char_less_256)

lemma string_step_plain:
  assumes "drop (ix st) str = c # cs" "c \<noteq> CHR 0x22" "c \<noteq> CHR 0x5C" "\<not> ord c \<le> 0x1f"
  shows "string_step str cp out st = Inr (-1, out @ encode_utf8 cp @ [c], advance 1 st)"
  using assms drop_Cons_cur [OF assms(1)] by (simp add: string_step_def Let_def schar_control)

lemma advance_advance [simp]: "advance m (advance n st) = advance (n + m) st"
  by (simp add: advance_def)

lemma string_step_escape:
  assumes "drop (ix st) str = CHR 0x5C # e # cs" "simple_escape e = Some c" "e \<noteq> CHR ''u''"
  shows "string_step str cp out st = Inr (-1, out @ encode_utf8 cp @ [c], advance 2 st)"
proof -
  have d: "drop (ix (advance 1 st)) str = e # cs" using drop_Cons_cur(3) [OF assms(1)] by simp
  show ?thesis
    using assms drop_Cons_cur [OF assms(1)] drop_Cons_cur [OF d]
    by (simp add: string_step_def Let_def schar_def numeral_2_eq_2)
qed

lemma string_step_u:
  assumes "drop (ix st) str = CHR 0x5C # CHR ''u'' # h @ cs" "length h = 4" "list_all is_hex h"
    "\<not> high_surrogate cp"
  shows "string_step str cp out st = Inr (strtol16 h, out @ encode_utf8 cp, advance 6 st)"
proof -
  have d: "drop (ix (advance 1 st)) str = CHR ''u'' # h @ cs"
    using drop_Cons_cur(3) [OF assms(1)] by simp
  have d2: "drop (ix st + 2) str = h @ cs" using drop_Cons_cur(3) [OF d] by simp
  show ?thesis
    using assms drop_Cons_cur [OF assms(1)] drop_Cons_cur [OF d] d2
    by (simp add: string_step_def escape_u_def Let_def schar_def)
qed

lemma u_escape_eq:
  "u_escape c = CHR 0x5C # CHR ''u'' # [CHR ''0'', CHR ''0'', hex_digit (ord c div 16), hex_digit (ord c mod 16)]"
  by (simp add: u_escape_def)

lemma strtol16_u_escape:
  "strtol16 [CHR ''0'', CHR ''0'', hex_digit (ord c div 16), hex_digit (ord c mod 16)] = int (ord c)"
  using hex_digit_back [of "ord c div 16"] hex_digit_back [of "ord c mod 16"]
  by (simp add: strtol16_def hex_val_def [of "CHR ''0''"] isdig_def)

lemma line_sep_take: "line_sep s c \<Longrightarrow> c \<noteq> CHR 0x00 \<Longrightarrow> take 3 s = [CHR 0xE2, CHR 0x80, c]"
proof -
  assume a: "line_sep s c" "c \<noteq> CHR 0x00"
  then have l: "2 < length s" by (auto simp: line_sep_def char_at_def split: if_splits)
  then have "take 3 s = [s ! 0, s ! 1, s ! 2]"
    by (intro nth_equalityI) (auto simp: numeral_3_eq_3 less_Suc_eq numeral_2_eq_2)
  moreover have "s \<noteq> []" using l by auto
  ultimately show ?thesis using a l by (simp add: line_sep_def char_at_def)
qed

text \<open>One round of \<open>parse_string\<close> undoes one round of \<open>dump\<close>.\<close>

lemma simple_escapes:
  "simple_escape (CHR 0x5C) = Some (CHR 0x5C)" "simple_escape (CHR 0x22) = Some (CHR 0x22)"
  "simple_escape (CHR ''b'') = Some (CHR 0x08)" "simple_escape (CHR ''f'') = Some (CHR 0x0C)"
  "simple_escape (CHR ''n'') = Some (CHR 0x0A)" "simple_escape (CHR ''r'') = Some (CHR 0x0D)"
  "simple_escape (CHR ''t'') = Some (CHR 0x09)"
  by (simp_all add: simple_escape_def)

lemma not_high [simp]: "\<not> high_surrogate (-1)" "\<not> high_surrogate (int (ord c))"
  "\<not> high_surrogate 0x2028" "\<not> high_surrogate 0x2029"
  using of_char_less_256 [of c] by (auto simp: high_surrogate_def simp del: of_char_less_256)

lemma string_step_dump_char:
  assumes "drop (ix st) str = dump_char s @ rest" "s \<noteq> []" "\<not> high_surrogate cp"
  shows "\<exists>cp' out'. string_step str cp out st = Inr (cp', out', advance (length (dump_char s)) st) \<and>
    \<not> high_surrogate cp' \<and> out' @ encode_utf8 cp' = out @ encode_utf8 cp @ take (dump_step s) s"
proof -
  obtain c s' where s: "s = c # s'" using assms(2) by (cases s) auto
  have c: "char_at s 0 = c" by (simp add: s char_at_def)
  have esc: ?thesis if d: "dump_char s = [CHR 0x5C, e]" and e: "simple_escape e = Some c" "e \<noteq> CHR ''u''"
      and n: "dump_step s = 1" for e
    using string_step_escape [of st str e rest c cp out] assms(1) d e n by (simp add: s)
  have n: "dump_step s = 1" if "c \<noteq> CHR 0xE2"
    using that c by (simp add: dump_step_def line_sep_def)
  have sep: ?thesis if "dump_char s = [CHR 0x5C] @ ''u202'' @ [d]" "dump_step s = 3" "is_hex d"
      "take 3 s = encode_utf8 (strtol16 (''202'' @ [d]))" "\<not> high_surrogate (strtol16 (''202'' @ [d]))" for d
  proof -
    have "is_hex (CHR ''2'')" "is_hex (CHR ''0'')" by (simp_all add: is_hex_def isdig_def)
    then show ?thesis
      using string_step_u [of st str "''202'' @ [d]" rest cp out] assms that by simp
  qed
  have cp: "strtol16 ''2028'' = 0x2028" "strtol16 ''2029'' = 0x2029" by code_simp+
  have hx: "is_hex (CHR ''8'')" "is_hex (CHR ''9'')" by (simp_all add: is_hex_def isdig_def)
  note written = dump_char_def Let_def c n simple_escapes
  consider "c = CHR 0x5C" | "c = CHR 0x22" | "c = CHR 0x08" | "c = CHR 0x0C" | "c = CHR 0x0A"
    | "c = CHR 0x0D" | "c = CHR 0x09"
    | (ctl) "ord c \<le> 0x1f" "c \<notin> {CHR 0x5C, CHR 0x22, CHR 0x08, CHR 0x0C, CHR 0x0A, CHR 0x0D, CHR 0x09}"
    | (sep8) "line_sep s (CHR 0xA8)" | (sep9) "line_sep s (CHR 0xA9)"
    | (plain) "\<not> ord c \<le> 0x1f" "c \<noteq> CHR 0x5C" "c \<noteq> CHR 0x22" "\<not> line_sep s (CHR 0xA8)" "\<not> line_sep s (CHR 0xA9)"
    by blast
  then show ?thesis
  proof cases
    case ctl
    have "dump_char s = u_escape c" using ctl c by (auto simp: dump_char_def)
    moreover have "c \<noteq> CHR 0xE2" using ctl(1) by auto
    moreover have "ord c < 0x80" using ctl(1) by simp
    ultimately show ?thesis
      using string_step_u [of st str "[CHR ''0'', CHR ''0'', hex_digit (ord c div 16), hex_digit (ord c mod 16)]"
          rest cp out] assms n hex_digit_back [of "ord c div 16"] hex_digit_back [of "ord c mod 16"]
      by (simp add: u_escape_eq strtol16_u_escape encode_utf8_low s is_hex_def [of "CHR ''0''"] isdig_def)
  next
    case sep8
    then have "c = CHR 0xE2" using c by (simp add: line_sep_def)
    then show ?thesis
      using sep8 c line_sep_take [OF sep8]
      by (intro sep [of "CHR ''8''"])
        (simp_all add: dump_char_def dump_step_def cp hx encode_utf8_seps)
  next
    case sep9
    then have "c = CHR 0xE2" "\<not> line_sep s (CHR 0xA8)" using c by (simp_all add: line_sep_def)
    then show ?thesis
      using sep9 c line_sep_take [OF sep9]
      by (intro sep [of "CHR ''9''"])
        (simp_all add: dump_char_def dump_step_def cp hx encode_utf8_seps)
  next
    case plain
    then have "c \<notin> {CHR 0x08, CHR 0x0C, CHR 0x0A, CHR 0x0D, CHR 0x09}" by auto
    with plain c have "dump_char s = [c]" "dump_step s = 1" by (auto simp: dump_char_def dump_step_def)
    with plain assms string_step_plain [of st str c rest cp out] show ?thesis by (simp add: s)
  next
    case 1
    then show ?thesis by (intro esc [of "CHR 0x5C"]) (simp_all add: written)
  next
    case 2
    then show ?thesis by (intro esc [of "CHR 0x22"]) (simp_all add: written)
  next
    case 3
    then show ?thesis by (intro esc [of "CHR ''b''"]) (simp_all add: written)
  next
    case 4
    then show ?thesis by (intro esc [of "CHR ''f''"]) (simp_all add: written)
  next
    case 5
    then show ?thesis by (intro esc [of "CHR ''n''"]) (simp_all add: written)
  next
    case 6
    then show ?thesis by (intro esc [of "CHR ''r''"]) (simp_all add: written)
  next
    case 7
    then show ?thesis by (intro esc [of "CHR ''t''"]) (simp_all add: written)
  qed
qed

lemma dump_chars_step: "s \<noteq> [] \<Longrightarrow> dump_chars s = dump_char s @ dump_chars (drop (dump_step s) s)"
  by (simp add: dump_chars.simps [of s])

lemma parse_string_dump:
  "drop (ix st) str = dump_chars s @ CHR 0x22 # rest \<Longrightarrow> \<not> high_surrogate cp \<Longrightarrow>
   parse_string_loop str cp out st = (out @ encode_utf8 cp @ s, advance (length (dump_chars s) + 1) st)"
proof (induction s arbitrary: st cp out rule: dump_chars.induct)
  case (1 s)
  show ?case
  proof (cases "s = []")
    case True
    with "1.prems" drop_Cons_cur [of st str "CHR 0x22" rest] show ?thesis
      by (subst parse_string_loop.simps) (simp add: string_step_def Let_def)
  next
    case False
    let ?s' = "drop (dump_step s) s"
    have d: "drop (ix st) str = dump_char s @ dump_chars ?s' @ CHR 0x22 # rest"
      using "1.prems"(1) False by (simp add: dump_chars_step)
    obtain cp' out' where
      step: "string_step str cp out st = Inr (cp', out', advance (length (dump_char s)) st)"
      and nh: "\<not> high_surrogate cp'"
      and o: "out' @ encode_utf8 cp' = out @ encode_utf8 cp @ take (dump_step s) s"
      using string_step_dump_char [OF d False "1.prems"(2), of out] by blast
    have "drop (ix (advance (length (dump_char s)) st)) str = dump_chars ?s' @ CHR 0x22 # rest"
      using drop_append_drop [OF d] by simp
    from "1.IH" [OF False this nh, of out']
    have "parse_string_loop str cp' out' (advance (length (dump_char s)) st) =
        (out' @ encode_utf8 cp' @ ?s', advance (length (dump_chars s) + 1) st)"
      using False by (simp add: dump_chars_step)
    moreover have "out' @ encode_utf8 cp' @ ?s' = out @ encode_utf8 cp @ s"
      using arg_cong [OF o, of "\<lambda>x. x @ ?s'"] by simp
    ultimately show ?thesis using step by (subst parse_string_loop.simps) simp
  qed
qed

subsection \<open>Numbers\<close>

definition term_ok :: "string \<Rightarrow> bool" where
  "term_ok post \<longleftrightarrow> post = [] \<or> hd post \<in> {CHR '','', CHR '']'', CHR ''}''}"

lemma char_at_drop: "drop i str = cs \<Longrightarrow> char_at str i = (case cs of [] \<Rightarrow> CHR 0x00 | c # _ \<Rightarrow> c)"
  using hd_drop_conv_nth [of i str] by (cases "i < length str") (auto simp: char_at_def split: list.splits)

lemma char_at_term:
  assumes "drop i str = post" "term_ok post"
  shows "char_at str i \<in> {CHR 0x00, CHR '','', CHR '']'', CHR ''}''}"
  using assms by (auto simp: char_at_drop term_ok_def split: list.splits)

lemma char_at_term':
  assumes "drop i str = post" "term_ok post"
  shows "\<not> isdig (char_at str i)" "char_at str i \<noteq> CHR ''.''" "char_at str i \<noteq> CHR ''e''"
    "char_at str i \<noteq> CHR ''E''"
  using char_at_term [OF assms] by (auto simp: isdig_def)

lemma term_not_digit: "term_ok post \<Longrightarrow> post = [] \<or> \<not> isdig (hd post)"
  by (auto simp: term_ok_def isdig_def)

lemma dec_head:
  obtains d ds where "dec n = d # ds" "isdig d" "list_all isdig ds" "d = CHR ''0'' \<longrightarrow> ds = []"
    "d \<noteq> CHR ''-''"
proof -
  obtain d ds where d: "dec n = d # ds" by (cases "dec n") auto
  have "list_all isdig (d # ds)" using dec_digits [of n] d by simp
  moreover have "d = CHR ''0'' \<longrightarrow> ds = []"
    using hd_dec_nonzero [of n] d by (cases "n = 0") auto
  moreover have "d \<noteq> CHR ''-''" using \<open>list_all isdig (d # ds)\<close> by (auto simp: isdig_def)
  ultimately show thesis using d that by simp
qed

lemma int_part_digits:
  assumes "drop i0 str = dec n @ post" "term_ok post"
    "i0 = (if cur str st = CHR ''-'' then ix st + 1 else ix st)"
  shows "number_int_part str st = Inr (i0 + length (dec n))"
proof -
  obtain d ds where d: "dec n = d # ds" "isdig d" "list_all isdig ds" "d = CHR ''0'' \<longrightarrow> ds = []"
    by (rule dec_head)
  have c: "char_at str i0 = d" using char_at_drop [OF assms(1)] d by simp
  have r: "drop (i0 + 1) str = ds @ post"
    using drop_append_drop [of i0 str "[d]" "ds @ post"] assms(1) d by simp
  have "scan isdig str (i0 + 1) = i0 + 1 + length ds"
    using r d(3) term_not_digit [OF assms(2)] by (rule scan_stops)
  moreover have "\<not> isdig (char_at str (i0 + 1))" if "d = CHR ''0''"
    using r d(4) that char_at_term' [OF _ assms(2)] by simp
  ultimately show ?thesis
    using d c unfolding number_int_part_def assms(3) [symmetric] by (auto simp: Let_def)
qed

lemma takeWhile_dec [simp]: "takeWhile isdig (dec n) = dec n"
  using dec_digits [of n] by (simp add: takeWhile_eq_all_conv list_all_iff)

lemma atoi_dec_int: "atoi (dec_int k) = k"
proof -
  have "atoi (dec n) = int n" for n
  proof -
    obtain d ds where "dec n = d # ds" "d \<noteq> CHR ''-''" by (rule dec_head)
    then show ?thesis using takeWhile_dec [of n] digits_val_dec [of n]
      by (simp add: atoi_def del: digits_val_dec takeWhile_dec)
  qed
  then show ?thesis by (simp add: dec_int_def atoi_def [of "CHR ''-'' # dec (nat (- k))"])
qed

lemma parse_number_dec_int:
  assumes "drop (ix st) str = dec_int k @ post" "length (dec_int k) \<le> 9" "term_ok post"
  shows "parse_number str st = (JInt k, at_ix (ix st + length (dec_int k)) st)"
proof -
  let ?e = "ix st + length (dec_int k)"
  have e: "drop ?e str = post" using assms(1) by (rule drop_append_drop)
  have "number_int_part str st = Inr ?e"
  proof (cases "k < 0")
    case True
    then have "drop (ix st) str = CHR ''-'' # dec (nat (- k)) @ post"
      using assms(1) by (simp add: dec_int_def)
    note c = drop_Cons_cur [OF this]
    from int_part_digits [OF c(3) assms(3)] c(1) True show ?thesis by (simp add: dec_int_def)
  next
    case False
    then have d: "drop (ix st) str = dec (nat k) @ post" using assms(1) by (simp add: dec_int_def)
    obtain x xs where "dec (nat k) = x # xs" "x \<noteq> CHR ''-''" by (rule dec_head)
    with d have "cur str st \<noteq> CHR ''-''" using drop_Cons_cur(1) [of st str x "xs @ post"] by simp
    with int_part_digits [OF d assms(3)] False show ?thesis by (simp add: dec_int_def)
  qed
  moreover have "take (length (dec_int k)) (drop (ix st) str) = dec_int k" using assms(1) by simp
  ultimately show ?thesis
    using char_at_term' [OF e assms(3)] assms(2) by (simp add: parse_number_def atoi_dec_int)
qed

subsection \<open>Values\<close>

lemma dump_head:
  obtains c cs where "dump_json j = c # cs" "\<not> is_ws c" "c \<noteq> CHR '']''" "c \<noteq> CHR ''}''" | x where "j = JDouble x"
proof (cases j)
  case (JInt k)
  obtain d ds where d: "dec (nat k) = d # ds" "isdig d" by (rule dec_head)
  show ?thesis
  proof (cases "k < 0")
    case True
    with JInt show ?thesis
      by (intro that(1) [of "CHR ''-''" "dec (nat (- k))"]) (simp_all add: dec_int_def is_ws_def)
  next
    case False
    have "d \<notin> {CHR '' '', CHR 0x0D, CHR 0x0A, CHR 0x09, CHR '']'', CHR ''}''}"
      using d(2) by (auto simp: isdig_def)
    with JInt d False show ?thesis by (intro that(1) [of d ds]) (simp_all add: dec_int_def is_ws_def)
  qed
next
  case (JBool b)
  then show ?thesis by (cases b) (use that in \<open>auto simp: is_ws_def\<close>)
qed (use that in \<open>auto simp: dump_string_def is_ws_def\<close>)

lemma dump_items_False: "dump_items False vs = (if vs = [] then [] else '', '' @ dump_items True vs)"
  by (cases vs) simp_all

lemma dump_members_False: "dump_members False vs = (if vs = [] then [] else '', '' @ dump_members True vs)"
  by (cases vs) auto

text \<open>
  What the induction shows of each value: parsing at its text, or at the blank before it (an
  object's value is printed after \<open>": "\<close>), gives it back.
\<close>

definition blank :: "string \<Rightarrow> bool" where
  "blank sp \<longleftrightarrow> sp = [] \<or> sp = '' ''"


definition reads_back :: "json \<Rightarrow> bool" where
  "reads_back j \<longleftrightarrow> (\<forall>fuel str depth st sp post.
     dumpable depth j \<longrightarrow> blank sp \<longrightarrow> drop (ix st) str = sp @ dump_json j @ post \<longrightarrow> term_ok post \<longrightarrow>
     \<not> failed st \<longrightarrow> need_value str st \<le> fuel \<longrightarrow>
     parse_json fuel STANDARD str depth st = Some (j, advance (length sp + length (dump_json j)) st))"

lemma reads_backD:
  assumes "reads_back j" "dumpable depth j" "drop (ix st) str = sp @ dump_json j @ post" "blank sp"
    "term_ok post" "\<not> failed st" "need_value str st \<le> fuel"
  shows "parse_json fuel STANDARD str depth st = Some (j, advance (length sp + length (dump_json j)) st)"
  using assms by (simp add: reads_back_def)

lemma term_ok_Cons [simp]: "term_ok (CHR '','' # p)" "term_ok (CHR '']'' # p)" "term_ok (CHR ''}'' # p)"
  by (simp_all add: term_ok_def)

lemma advance_at_ix: "advance n (at_ix k st) = at_ix (k + n) st"
  by (simp add: advance_def at_ix_def)

lemma at_ix_at_ix [simp]: "at_ix k (at_ix l st) = at_ix k st"
  by (simp add: at_ix_def)

lemma at_ix_advance [simp]: "at_ix k (advance n st) = at_ix k st"
  by (simp add: at_ix_def advance_def)

lemma at_ix_ix [simp]: "at_ix (ix st) st = st"
  by (simp add: at_ix_def)

lemma advance_eq_at_ix: "advance n st = at_ix (ix st + n) st"
  by (simp add: advance_def at_ix_def)

lemma array_loop_reads:
  assumes "\<And>v. v \<in> set vs \<Longrightarrow> reads_back v"
  shows "vs \<noteq> [] \<Longrightarrow> list_all (dumpable (depth + 1)) vs \<Longrightarrow>
    drop i str = dump_items True vs @ CHR '']'' # post \<Longrightarrow> \<not> failed st \<Longrightarrow>
    4 * (length str - i) + 3 \<le> fuel \<Longrightarrow>
    parse_array_loop fuel STANDARD str depth data (at_ix (i + 1) st) =
      Some (JArray (data @ vs), at_ix (i + length (dump_items True vs) + 1) st)"
  using assms
proof (induction vs arbitrary: i data fuel)
  case (Cons v vs)
  then obtain fuel' where fuel: "fuel = Suc fuel'" by (cases fuel) auto
  let ?post = "dump_items False vs @ CHR '']'' # post" and ?k = "i + length (dump_json v)"
  have d: "drop i str = dump_json v @ ?post" using Cons.prems(3) by simp
  have ne: "dump_json v \<noteq> []" using Cons.prems(2) by (cases v rule: dump_head) auto
  have t: "term_ok ?post" by (cases vs) simp_all
  have v: "parse_json fuel' STANDARD str (depth + 1) (at_ix i st) = Some (v, at_ix ?k st)"
    using reads_backD [of v "depth + 1" "at_ix i st" str "[]" ?post fuel'] Cons.prems d t fuel
    by (simp add: need_value_def advance_at_ix blank_def)
  have k: "drop (ix (at_ix ?k st)) str = ?post" using drop_append_drop [OF d] by simp
  have l: "?k + length ?post = length str" using drop_length [OF d ne] by simp
  show ?case
  proof (cases "vs = []")
    case True
    then have "get_next_token STANDARD str (at_ix ?k st) = (CHR '']'', at_ix (?k + 1) st)"
      using token_here [of "at_ix ?k st" str "CHR '']''" post] k Cons.prems(4)
      by (simp add: is_ws_def advance_at_ix)
    with v fuel True Cons.prems(4) show ?thesis by (simp add: array_body_def Let_def)
  next
    case False
    then obtain w ws where vs: "vs = w # ws" by (cases vs) auto
    have "\<not> (\<exists>x. w = JDouble x)" using Cons.prems(2) vs by auto
    then obtain c cs where c: "dump_json w = c # cs" "\<not> is_ws c" by (cases w rule: dump_head) auto
    have k': "drop ?k str = CHR '','' # CHR '' '' # dump_items True vs @ CHR '']'' # post"
      using k False by (simp add: dump_items_False)
    have k1: "drop (?k + 1) str = CHR '' '' # dump_items True vs @ CHR '']'' # post"
      using drop_append_drop [of ?k str "'',''"] k' by simp
    have k2: "drop (?k + 2) str = dump_items True vs @ CHR '']'' # post"
      using drop_append_drop [of ?k str "'', ''"] k' by simp
    have t1: "get_next_token STANDARD str (at_ix ?k st) = (CHR '','', at_ix (?k + 1) st)"
      using token_here [of "at_ix ?k st" str "CHR '',''"] k' Cons.prems(4)
      by (simp add: is_ws_def advance_at_ix)
    have t2: "get_next_token STANDARD str (at_ix (?k + 1) st) = (c, at_ix (?k + 2 + 1) st)"
      using token_after_space [of "at_ix (?k + 1) st" str c] k1 c vs Cons.prems(4)
      by (simp add: advance_at_ix)
    have "parse_array_loop fuel' STANDARD str depth (data @ [v]) (at_ix (?k + 2 + 1) st) =
        Some (JArray ((data @ [v]) @ vs), at_ix (?k + 2 + length (dump_items True vs) + 1) st)"
      using False Cons.prems k2 fuel l ne
      by (intro Cons.IH) (auto simp: dump_items_False neq_Nil_conv)
    with v t1 t2 fuel False Cons.prems(4) show ?thesis
      by (simp add: array_body_def Let_def dump_items_False add.assoc)
  qed
qed simp

lemma map_set_next:
  assumes "map_ok (data @ (k, v) # kvs)"
  shows "map_set k v data = data @ [(k, v)]"
  using assms by (intro map_set_snoc) (force simp: map_ok_def sorted_wrt_append)

lemma object_loop_reads:
  assumes "\<And>k v. (k, v) \<in> set kvs \<Longrightarrow> reads_back v"
  shows "kvs \<noteq> [] \<Longrightarrow> list_all (\<lambda>(k, v). dumpable (depth + 1) v) kvs \<Longrightarrow> map_ok (data @ kvs) \<Longrightarrow>
    drop i str = dump_members True kvs @ CHR ''}'' # post \<Longrightarrow> \<not> failed st \<Longrightarrow>
    4 * (length str - i) \<le> fuel \<Longrightarrow>
    parse_object_loop fuel STANDARD str depth (CHR 0x22) data (at_ix (i + 1) st) =
      Some (JObject (data @ kvs), at_ix (i + length (dump_members True kvs) + 1) st)"
  using assms
proof (induction kvs arbitrary: i data fuel)
  case (Cons kv kvs)
  obtain key v where kv: "kv = (key, v)" by (cases kv)
  let ?post = "dump_members False kvs @ CHR ''}'' # post"
  let ?k = "i + length (dump_string key) + 2 + length (dump_json v)"
  have d: "drop i str = dump_string key @ '': '' @ dump_json v @ ?post"
    using Cons.prems(4) by (simp add: kv)
  then have len: "i + length (dump_string key @ '': '' @ dump_json v) + length ?post = length str"
    using drop_length [of i str "dump_string key @ '': '' @ dump_json v" ?post] by simp
  with Cons.prems(6) obtain fuel' where fuel: "fuel = Suc fuel'" by (cases fuel) auto
  have ne: "dump_json v \<noteq> []" using Cons.prems(2) kv by (cases v rule: dump_head) auto
  have t: "term_ok ?post" by (cases kvs) auto
  have d1: "drop (i + 1) str = dump_chars key @ CHR 0x22 # '': '' @ dump_json v @ ?post"
    using drop_append_drop [of i str "[CHR 0x22]"] d by (simp add: dump_string_def)
  have s: "parse_string str (at_ix (i + 1) st) = (key, at_ix (i + length (dump_string key)) st)"
    using parse_string_dump [of "at_ix (i + 1) st" str key "'': '' @ dump_json v @ ?post" "-1" "[]"] d1
    by (simp add: parse_string_def dump_string_def advance_at_ix)
  have d2: "drop (i + length (dump_string key)) str = CHR '':'' # CHR '' '' # dump_json v @ ?post"
    using drop_append_drop [OF d] by simp
  have d3: "drop (i + length (dump_string key) + 1) str = CHR '' '' # dump_json v @ ?post"
    using drop_append_drop [of _ str "'':''"] d2 by simp
  have d4: "drop ?k str = ?post" and d4': "drop (i + length (dump_string key) + 2) str = dump_json v @ ?post"
    using drop_append_drop [of i str "dump_string key @ '': '' @ dump_json v"]
      drop_append_drop [of i str "dump_string key @ '': ''"] d by (simp_all add: add.assoc)
  have t1: "get_next_token STANDARD str (at_ix (i + length (dump_string key)) st) =
      (CHR '':'', at_ix (i + length (dump_string key) + 1) st)"
    using token_here [of "at_ix (i + length (dump_string key)) st" str "CHR '':''"] d2 Cons.prems(5)
    by (simp add: is_ws_def advance_at_ix)
  have "2 \<le> length (dump_string key)" by (simp add: dump_string_def)
  then have need: "4 * (length str - (i + length (dump_string key) + 1)) + 2 \<le> fuel'"
    using Cons.prems(6) fuel len by simp
  have v: "parse_json fuel' STANDARD str (depth + 1) (at_ix (i + length (dump_string key) + 1) st) =
      Some (v, at_ix ?k st)"
    using reads_backD [of v "depth + 1" "at_ix (i + length (dump_string key) + 1) st" str "'' ''" ?post fuel']
      Cons.prems(2,5) Cons.prems(7) [of key v] d3 t need kv
    by (simp add: need_value_def advance_at_ix blank_def add.assoc)
  have m: "map_set key v data = data @ [(key, v)]"
    using Cons.prems(3) unfolding kv by (rule map_set_next)
  note run = s t1 v m
  show ?case
  proof (cases "kvs = []")
    case True
    then have "get_next_token STANDARD str (at_ix ?k st) = (CHR ''}'', at_ix (?k + 1) st)"
      using token_here [of "at_ix ?k st" str "CHR ''}''" post] d4 Cons.prems(5)
      by (simp add: is_ws_def advance_at_ix)
    with run fuel True Cons.prems(5) kv show ?thesis by (simp add: object_body_def Let_def)
  next
    case False
    have k': "drop ?k str = CHR '','' # CHR '' '' # dump_members True kvs @ CHR ''}'' # post"
      using d4 False by (simp add: dump_members_False)
    have k1: "drop (?k + 1) str = CHR '' '' # dump_members True kvs @ CHR ''}'' # post"
      using drop_append_drop [of ?k str "'',''"] k' by simp
    have k2: "drop (?k + 2) str = dump_members True kvs @ CHR ''}'' # post"
      using drop_append_drop [of ?k str "'', ''"] k' by simp
    obtain cs where q: "dump_members True kvs = CHR 0x22 # cs"
      using False by (cases kvs) (auto simp: dump_string_def)
    have t4: "get_next_token STANDARD str (at_ix ?k st) = (CHR '','', at_ix (?k + 1) st)"
      using token_here [of "at_ix ?k st" str "CHR '',''"] k' Cons.prems(5)
      by (simp add: is_ws_def advance_at_ix)
    have t5: "get_next_token STANDARD str (at_ix (?k + 1) st) = (CHR 0x22, at_ix (?k + 2 + 1) st)"
      using token_after_space [of "at_ix (?k + 1) st" str "CHR 0x22"] k1 q Cons.prems(5)
      by (simp add: advance_at_ix is_ws_def)
    have "parse_object_loop fuel' STANDARD str depth (CHR 0x22) (data @ [(key, v)]) (at_ix (?k + 2 + 1) st) =
        Some (JObject ((data @ [(key, v)]) @ kvs), at_ix (?k + 2 + length (dump_members True kvs) + 1) st)"
      using False Cons.prems k2 fuel len kv
      by (intro Cons.IH) (auto simp: dump_members_False)
    with run t4 t5 fuel False Cons.prems(5) kv show ?thesis
      by (simp add: object_body_def Let_def dump_members_False add.assoc)
  qed
qed simp

lemma token_blank:
  assumes "drop (ix st) str = sp @ c # cs" "blank sp" "\<not> is_ws c" "\<not> failed st"
  shows "get_next_token STANDARD str st = (c, at_ix (ix st + length sp + 1) st)"
  using assms token_here [of st str c cs] token_after_space [of st str c cs]
  by (auto simp: blank_def advance_eq_at_ix)

text \<open>The common start of all values: the first token and the state behind it.\<close>

lemma reads_backI:
  assumes "\<And>fuel str depth st i c cs post. \<lbrakk>dumpable depth j; depth \<le> max_depth; drop i str = dump_json j @ post;
      term_ok post; \<not> failed st; 4 * (length str - i) + 1 \<le> fuel; dump_json j = c # cs;
      get_next_token STANDARD str st = (c, at_ix (i + 1) st)\<rbrakk> \<Longrightarrow>
      parse_json (Suc fuel) STANDARD str depth st = Some (j, at_ix (i + length (dump_json j)) st)"
  shows "reads_back j"
  unfolding reads_back_def
proof (intro allI impI)
  fix fuel str depth st sp post
  assume a: "dumpable depth j" "blank sp" "drop (ix st) str = sp @ dump_json j @ post" "term_ok post"
    "\<not> failed st" "need_value str st \<le> fuel"
  have "\<not> (\<exists>x. j = JDouble x)" using a(1) by auto
  then obtain c cs where c: "dump_json j = c # cs" "\<not> is_ws c" by (cases j rule: dump_head) auto
  have depth: "depth \<le> max_depth" using a(1) by (cases j) auto
  obtain fuel' where f: "fuel = Suc fuel'" using a(5,6) by (cases fuel) (auto simp: need_value_def)
  have "parse_json (Suc fuel') STANDARD str depth st =
      Some (j, at_ix (ix st + length sp + length (dump_json j)) st)"
    using a c f depth drop_append_drop [OF a(3)] token_blank [of st str sp c "cs @ post"]
    by (intro assms) (auto simp: need_value_def)
  then show "parse_json fuel STANDARD str depth st = Some (j, advance (length sp + length (dump_json j)) st)"
    by (simp add: f advance_eq_at_ix add.assoc)
qed

lemma isdig_punct [simp]:
  "\<not> isdig (CHR ''t'')" "\<not> isdig (CHR ''f'')" "\<not> isdig (CHR ''n'')" "\<not> isdig (CHR 0x22)"
  "\<not> isdig (CHR ''['')" "\<not> isdig (CHR ''{'')"
  by (simp_all add: isdig_def)

lemma reads_back_scalar: "reads_back JNull" "reads_back (JBool b)" "reads_back (JInt k)" "reads_back (JString s)"
proof -
  show "reads_back JNull"
    by (rule reads_backI) (auto simp: json_body_def expect_def)
  show "reads_back (JBool b)"
    by (cases b; rule reads_backI) (auto simp: json_body_def expect_def)
  show "reads_back (JInt k)"
  proof (rule reads_backI)
    fix fuel str depth st i c cs post
    assume a: "dumpable depth (JInt k)" "depth \<le> max_depth" "drop i str = dump_json (JInt k) @ post"
      "term_ok post" "\<not> failed st" "dump_json (JInt k) = c # cs"
      "get_next_token STANDARD str st = (c, at_ix (i + 1) st)"
    obtain d ds where "dec (nat k) = d # ds" "isdig d" by (rule dec_head)
    then have "c = CHR ''-'' \<or> isdig c" using a(6) by (auto simp: dec_int_def split: if_splits)
    with a parse_number_dec_int [of "at_ix i st" str k post]
    show "parse_json (Suc fuel) STANDARD str depth st =
        Some (JInt k, at_ix (i + length (dump_json (JInt k))) st)"
      by (simp add: json_body_def)
  qed
  show "reads_back (JString s)"
  proof (rule reads_backI)
    fix fuel str depth st i c cs post
    assume a: "depth \<le> max_depth" "drop i str = dump_json (JString s) @ post"
      "\<not> failed st" "dump_json (JString s) = c # cs"
      "get_next_token STANDARD str st = (c, at_ix (i + 1) st)"
    have "drop (i + 1) str = dump_chars s @ CHR 0x22 # post"
      using drop_append_drop [of i str "[CHR 0x22]"] a(2) by (simp add: dump_string_def)
    then have "parse_string str (at_ix (i + 1) st) = (s, at_ix (i + length (dump_string s)) st)"
      using parse_string_dump [of "at_ix (i + 1) st" str s post "-1" "[]"]
      by (simp add: parse_string_def dump_string_def advance_at_ix)
    moreover have "c = CHR 0x22" using a(4) by (simp add: dump_string_def)
    ultimately show "parse_json (Suc fuel) STANDARD str depth st =
        Some (JString s, at_ix (i + length (dump_json (JString s))) st)"
      using a by (simp add: json_body_def)
  qed
qed

lemma reads_back_array:
  assumes "\<And>v. v \<in> set vs \<Longrightarrow> reads_back v"
  shows "reads_back (JArray vs)"
proof (rule reads_backI)
  fix fuel str depth st i c cs post
  assume a: "dumpable depth (JArray vs)" "depth \<le> max_depth" "drop i str = dump_json (JArray vs) @ post"
    "\<not> failed st" "4 * (length str - i) + 1 \<le> fuel" "dump_json (JArray vs) = c # cs"
    "get_next_token STANDARD str st = (c, at_ix (i + 1) st)"
  have d: "drop (i + 1) str = dump_items True vs @ CHR '']'' # post"
    using drop_append_drop [of i str "''[''"] a(3) by simp
  have c: "c = CHR ''[''" using a(6) by simp
  have l: "i < length str" using a(3) by (cases "i < length str") auto
  show "parse_json (Suc fuel) STANDARD str depth st = Some (JArray vs, at_ix (i + length (dump_json (JArray vs))) st)"
  proof (cases vs)
    case Nil
    then have "get_next_token STANDARD str (at_ix (i + 1) st) = (CHR '']'', at_ix (i + 2) st)"
      using token_here [of "at_ix (i + 1) st" str "CHR '']''" post] d a(4)
      by (simp add: is_ws_def advance_at_ix)
    with a(2,4,7) c Nil show ?thesis by (simp add: json_body_def)
  next
    case (Cons w ws)
    then have "\<not> (\<exists>x. w = JDouble x)" using a(1) by auto
    then obtain c' cs' where c': "dump_json w = c' # cs'" "\<not> is_ws c'" "c' \<noteq> CHR '']''"
      by (cases w rule: dump_head) auto
    then have "get_next_token STANDARD str (at_ix (i + 1) st) = (c', at_ix (i + 1 + 1) st)"
      using token_here [of "at_ix (i + 1) st" str c'] d a(4) Cons by (simp add: advance_at_ix)
    moreover have "parse_array_loop fuel STANDARD str depth [] (at_ix (i + 1 + 1) st) =
        Some (JArray ([] @ vs), at_ix (i + 1 + length (dump_items True vs) + 1) st)"
      using a d l Cons by (intro array_loop_reads assms) auto
    ultimately show ?thesis using a(2,4,7) c c' by (simp add: json_body_def)
  qed
qed

lemma reads_back_object:
  assumes "\<And>k v. (k, v) \<in> set kvs \<Longrightarrow> reads_back v"
  shows "reads_back (JObject kvs)"
proof (rule reads_backI)
  fix fuel str depth st i c cs post
  assume a: "dumpable depth (JObject kvs)" "depth \<le> max_depth" "drop i str = dump_json (JObject kvs) @ post"
    "\<not> failed st" "4 * (length str - i) + 1 \<le> fuel" "dump_json (JObject kvs) = c # cs"
    "get_next_token STANDARD str st = (c, at_ix (i + 1) st)"
  have d: "drop (i + 1) str = dump_members True kvs @ CHR ''}'' # post"
    using drop_append_drop [of i str "''{''"] a(3) by simp
  have c: "c = CHR ''{''" using a(6) by simp
  have l: "i < length str" using a(3) by (cases "i < length str") auto
  show "parse_json (Suc fuel) STANDARD str depth st = Some (JObject kvs, at_ix (i + length (dump_json (JObject kvs))) st)"
  proof (cases kvs)
    case Nil
    then have "get_next_token STANDARD str (at_ix (i + 1) st) = (CHR ''}'', at_ix (i + 2) st)"
      using token_here [of "at_ix (i + 1) st" str "CHR ''}''" post] d a(4)
      by (simp add: is_ws_def advance_at_ix)
    with a(2,4,7) c Nil show ?thesis by (simp add: json_body_def)
  next
    case (Cons w ws)
    then obtain cs' where "dump_members True kvs = CHR 0x22 # cs'"
      by (cases w) (auto simp: dump_string_def)
    then have "get_next_token STANDARD str (at_ix (i + 1) st) = (CHR 0x22, at_ix (i + 1 + 1) st)"
      using token_here [of "at_ix (i + 1) st" str "CHR 0x22"] d a(4) by (simp add: advance_at_ix is_ws_def)
    moreover have "parse_object_loop fuel STANDARD str depth (CHR 0x22) [] (at_ix (i + 1 + 1) st) =
        Some (JObject ([] @ kvs), at_ix (i + 1 + length (dump_members True kvs) + 1) st)"
      using a d l Cons by (intro object_loop_reads assms) auto
    ultimately show ?thesis using a(2,4,7) c by (simp add: json_body_def)
  qed
qed

lemma reads_back_all: "reads_back j"
proof (induction j)
  case (JArray vs)
  then show ?case by (rule reads_back_array)
next
  case (JObject kvs)
  then show ?case by (intro reads_back_object) force
next
  case (JDouble x)
  then show ?case by (simp add: reads_back_def)
qed (rule reads_back_scalar)+

lemma json_roundtrip:
  assumes "dumpable 0 j"
  shows "json_parse_top STANDARD (dump_json j) = Some (j, [])"
proof -
  let ?s = "dump_json j"
  have "parse_json (parse_fuel ?s) STANDARD ?s 0 start_state = Some (j, advance (length ?s) start_state)"
    using reads_backD [OF reads_back_all assms, of start_state ?s "[]" "[]"]
    by (simp add: start_state_def blank_def term_ok_def need_value_def parse_fuel_def)
  then show ?thesis
    by (simp add: json_parse_top_def consume_garbage_def whitespace_end start_state_def Let_def)
qed

subsection \<open>No control characters\<close>

lemma dec_int_no_ctrl: "c \<in> set (dec_int k) \<Longrightarrow> 0x20 \<le> ord c"
  using dec_digits [of "nat k"] dec_digits [of "nat (- k)"]
  by (auto simp: dec_int_def list_all_iff isdig_def split: if_splits)

lemma dump_no_ctrl:
  "dumpable d j \<Longrightarrow> c \<in> set (dump_json j) \<Longrightarrow> 0x20 \<le> ord c"
  "list_all (dumpable d) vs \<Longrightarrow> c \<in> set (dump_items first vs) \<Longrightarrow> 0x20 \<le> ord c"
  "list_all (\<lambda>(k, v). dumpable d v) kvs \<Longrightarrow> c \<in> set (dump_members first kvs) \<Longrightarrow> 0x20 \<le> ord c"
proof (induction j and first vs and first kvs arbitrary: d and d and d
    rule: dump_json_dump_items_dump_members.induct)
  case (2 k)
  then show ?case using dec_int_no_ctrl by auto
next
  case (5 s)
  then show ?case using dump_string_no_ctrl by auto
next
  case (11 first k v kvs)
  then show ?case using dump_string_no_ctrl [of k] by (auto split: if_splits)
qed (auto split: if_splits)

lemma dump_json_c_str: "dumpable d j \<Longrightarrow> c_str (dump_json j) = dump_json j"
  using dump_no_ctrl(1) [of d j "CHR 0x00"] by (intro c_str_no_nul) auto

subsection \<open>Properties\<close>

text \<open>
  C8: What \<open>dump\<close> writes of a value without doubles, with integers of at most nine characters and at most
  the parser's nesting depth, \<open>parse\<close> reads back as the same value, without an error.
\<close>
theorem json_dump_parses_back:
  assumes "dumpable 0 j"
  shows "json_parse_top STANDARD (dump_json j) = Some (j, [])"
  using assms by (rule json_roundtrip)

theorem json_dump_parses_back_witness:
  "json_parse_top STANDARD (dump_json (JObject [(''a'', JArray [JInt (-7), JBool True]), (''b'', JString [CHR 0x22])])) =
     Some (JObject [(''a'', JArray [JInt (-7), JBool True]), (''b'', JString [CHR 0x22])], [])"
proof -
  have "dumpable 0 (JObject [(''a'', JArray [JInt (-7), JBool True]), (''b'', JString [CHR 0x22])])" by code_simp
  then show ?thesis by (rule json_dump_parses_back)
qed

end
