(* ===== verification/Platform_Base.thy ===== *)
theory Platform_Base
  imports Effects Base64 Json_Roundtrip
begin

section \<open>platforms/platform_base: the listeners of a room\<close>

text \<open>
  \<open>class platform_base\<close>.  \<open>m_listeners\<close> is a \<open>std::set\<close> of connection handles: a strictly
  ascending list, so that \<open>publish\<close> visits the listeners in the order of the set.
  \<open>m_close_callback\<close> is either empty or \<open>on_platform_close\<close>, the only function the program
  stores in it.  Each operation takes \<open>m_lmtx\<close> for its whole body, so it is atomic here.
\<close>

record base =
  m_listeners :: "hdl list"
  m_close_callback :: bool
  m_platform_name :: string
  m_roomid :: string

definition new_base :: "string \<Rightarrow> string \<Rightarrow> base" where
  "new_base platform_name roomid =
     \<lparr>m_listeners = [], m_close_callback = False, m_platform_name = platform_name, m_roomid = roomid\<rparr>"

subsection \<open>The interface of an ordered set of handles\<close>

text \<open>
  What the program relies on of \<open>std::set\<close>: the locale states it over any representation,
  with the set of elements as abstraction.
\<close>

locale handle_set =
  fixes empty_of :: "'s"
    and ins :: "'h \<Rightarrow> 's \<Rightarrow> 's"
    and del :: "'h \<Rightarrow> 's \<Rightarrow> 's"
    and mem :: "'h \<Rightarrow> 's \<Rightarrow> bool"
    and size_of :: "'s \<Rightarrow> nat"
    and elems :: "'s \<Rightarrow> 'h set"
    and ok :: "'s \<Rightarrow> bool"
  assumes ok_empty: "ok empty_of" and elems_empty: "elems empty_of = {}"
    and ok_ins: "ok s \<Longrightarrow> ok (ins h s)" and elems_ins: "ok s \<Longrightarrow> elems (ins h s) = insert h (elems s)"
    and ok_del: "ok s \<Longrightarrow> ok (del h s)" and elems_del: "ok s \<Longrightarrow> elems (del h s) = elems s - {h}"
    and mem_iff: "ok s \<Longrightarrow> mem h s \<longleftrightarrow> h \<in> elems s"
    and finite_elems: "finite (elems s)"
    and size_card: "ok s \<Longrightarrow> size_of s = card (elems s)"
begin

lemma size_zero: "ok s \<Longrightarrow> size_of s = 0 \<longleftrightarrow> elems s = {}"
  by (simp add: size_card finite_elems)

lemma ok_del_all: "ok s \<Longrightarrow> ok (fold del hs s)"
  by (induction hs arbitrary: s) (simp_all add: ok_del)

lemma elems_del_all: "ok s \<Longrightarrow> elems (fold del hs s) = elems s - set hs"
  by (induction hs arbitrary: s) (auto simp: ok_del elems_del)

lemma size_ins_new: "ok s \<Longrightarrow> \<not> mem h s \<Longrightarrow> size_of (ins h s) = Suc (size_of s)"
  by (simp add: size_card ok_ins elems_ins mem_iff finite_elems)

lemma del_ins_new: "ok s \<Longrightarrow> \<not> mem h s \<Longrightarrow> elems (del h (ins h s)) = elems s"
  by (simp add: ok_ins elems_del elems_ins mem_iff)

end

definition set_insert :: "hdl \<Rightarrow> hdl list \<Rightarrow> hdl list" where
  "set_insert h hs = (if h \<in> set hs then hs else insort h hs)"

definition set_erase :: "hdl \<Rightarrow> hdl list \<Rightarrow> hdl list" where
  "set_erase h hs = removeAll h hs"

definition set_ok :: "hdl list \<Rightarrow> bool" where
  "set_ok hs \<longleftrightarrow> sorted hs \<and> distinct hs"

lemma sorted_removeAll: "sorted hs \<Longrightarrow> sorted (removeAll h hs)"
  by (induction hs) auto

interpretation hs: handle_set "[]" set_insert set_erase "\<lambda>h hs. h \<in> set hs" length set set_ok
  by unfold_locales
    (auto simp: set_ok_def set_insert_def set_erase_def distinct_card sorted_insort set_insort_key
      distinct_insort sorted_removeAll distinct_removeAll)

subsection \<open>The operations\<close>

definition add_listener :: "hdl \<Rightarrow> base \<Rightarrow> base" where
  "add_listener h b = b\<lparr>m_listeners := set_insert h (m_listeners b)\<rparr>"

definition erase_listener :: "hdl \<Rightarrow> base \<Rightarrow> base" where
  "erase_listener h b = b\<lparr>m_listeners := set_erase h (m_listeners b)\<rparr>"

definition have_listener :: "hdl \<Rightarrow> base \<Rightarrow> bool" where
  "have_listener h b \<longleftrightarrow> h \<in> set (m_listeners b)"

definition listeners_count :: "base \<Rightarrow> nat" where
  "listeners_count b = length (m_listeners b)"

definition set_close_callback :: "base \<Rightarrow> base" where
  "set_close_callback b = b\<lparr>m_close_callback := True\<rparr>"

text \<open>
  \<open>publish\<close>: the loop sends to one listener after the other and collects those whose send failed; they
  are erased after the loop.  The error code is declared before the loop and handed to every send.
\<close>

fun publish_loop :: "env \<Rightarrow> error_code \<Rightarrow> string \<Rightarrow> hdl list \<Rightarrow> srv_event list \<times> hdl list" where
  "publish_loop e ec msg [] = ([], [])"
| "publish_loop e ec msg (i # hs) =
     (let ec1 = endpoint_send e ec i msg; (evs, to_be_deleted) = publish_loop e ec1 msg hs in
      (server_send e ec i msg # server_close_and_report i ec1 @ evs,
       if ec1 = None then to_be_deleted else i # to_be_deleted))"

definition publish :: "env \<Rightarrow> string \<Rightarrow> base \<Rightarrow> base \<times> srv_event list" where
  "publish e dm_msg b =
     (let (evs, to_be_deleted) = publish_loop e None dm_msg (m_listeners b) in
      (b\<lparr>m_listeners := fold set_erase to_be_deleted (m_listeners b)\<rparr>, evs))"

text \<open>
  \<open>publish_json\<close> builds a \<open>std::map\<close> from the initializer list and publishes its dump.  The lengths, of type
  \<open>size_t\<close>, are converted to the \<open>unsigned\<close> parameter of \<open>base64_encode\<close>.
\<close>

definition publish_json_msg :: "string \<Rightarrow> string \<Rightarrow> string \<Rightarrow> json" where
  "publish_json_msg uid nickname body =
     JObject (foldl (\<lambda>m (k, v). map_insert k v m) []
       [(''uid'', JString uid),
        (''nickname'', JString (base64_encode (bytes_of nickname) (word_of_nat (length nickname)))),
        (''text'', JString (base64_encode (bytes_of body) (word_of_nat (length body))))])"

definition publish_json :: "string \<Rightarrow> string \<Rightarrow> string \<Rightarrow> effect" where
  "publish_json uid nickname body = Publish (dump_json (publish_json_msg uid nickname body))"

subsection \<open>What the operations do to the set of listeners\<close>

definition base_ok :: "base \<Rightarrow> bool" where
  "base_ok b \<longleftrightarrow> set_ok (m_listeners b)"

definition listeners :: "base \<Rightarrow> hdl set" where
  "listeners b = set (m_listeners b)"

lemmas base_defs = add_listener_def erase_listener_def have_listener_def listeners_count_def
  set_close_callback_def base_ok_def listeners_def new_base_def

lemma base_ok_ops [simp]:
  "base_ok (new_base p r)"
  "base_ok b \<Longrightarrow> base_ok (add_listener h b)"
  "base_ok b \<Longrightarrow> base_ok (erase_listener h b)"
  "base_ok b \<Longrightarrow> base_ok (set_close_callback b)"
  by (simp_all add: base_defs hs.ok_empty hs.ok_ins hs.ok_del)

lemma listeners_ops [simp]:
  "listeners (new_base p r) = {}"
  "base_ok b \<Longrightarrow> listeners (add_listener h b) = insert h (listeners b)"
  "base_ok b \<Longrightarrow> listeners (erase_listener h b) = listeners b - {h}"
  "listeners (set_close_callback b) = listeners b"
  by (simp_all add: base_defs hs.elems_ins hs.elems_del del: set_map)

lemma finite_listeners [simp]: "finite (listeners b)"
  by (simp add: listeners_def)

lemma listener_queries:
  "have_listener h b \<longleftrightarrow> h \<in> listeners b"
  "base_ok b \<Longrightarrow> listeners_count b = 0 \<longleftrightarrow> listeners b = {}"
  by (simp_all add: base_defs)

lemma base_frame [simp]:
  "m_platform_name (add_listener h b) = m_platform_name b"
  "m_platform_name (erase_listener h b) = m_platform_name b"
  "m_platform_name (set_close_callback b) = m_platform_name b"
  "m_roomid (add_listener h b) = m_roomid b"
  "m_roomid (erase_listener h b) = m_roomid b"
  "m_roomid (set_close_callback b) = m_roomid b"
  "m_close_callback (add_listener h b) = m_close_callback b"
  "m_close_callback (erase_listener h b) = m_close_callback b"
  "m_close_callback (set_close_callback b)"
  by (simp_all add: base_defs)

text \<open>
  A listener whose send would succeed on its own.  Once a send has failed, the error code makes all that
  follow fail as well: the listeners that are reached are those before the first that is not.
\<close>

definition reachable :: "env \<Rightarrow> string \<Rightarrow> hdl \<Rightarrow> bool" where
  "reachable e msg h \<longleftrightarrow> \<not> expired e h \<and> send_ec e h msg = None"

definition reached :: "env \<Rightarrow> string \<Rightarrow> base \<Rightarrow> hdl set" where
  "reached e msg b = {h \<in> listeners b. \<forall>k \<in> listeners b. k \<le> h \<longrightarrow> reachable e msg k}"

lemma endpoint_send_None [simp]: "endpoint_send e ec h msg = None \<longleftrightarrow> ec = None \<and> reachable e msg h"
  by (cases ec) (simp_all add: endpoint_send_def reachable_def)

text \<open>The connections that the report macro closes.\<close>

definition closes :: "srv_event list \<Rightarrow> hdl set" where
  "closes evs = {h. \<exists>why. Server_close h why \<in> set evs}"

lemma closes_simps [simp]:
  "closes [] = {}" "closes (Sent h m # evs) = closes evs" "closes (Send_failed h m # evs) = closes evs"
  "closes (Server_close h why # evs) = insert h (closes evs)"
  by (auto simp: closes_def)

lemma publish_loop_failed:
  "snd (publish_loop e (Some x) msg hs) = hs \<and> (\<forall>h m. Sent h m \<notin> set (fst (publish_loop e (Some x) msg hs))) \<and>
     closes (fst (publish_loop e (Some x) msg hs)) = set hs"
proof (induction hs arbitrary: x)
  case (Cons i hs)
  obtain y where y: "endpoint_send e (Some x) i msg = Some y" by fastforce
  then show ?case using Cons.IH [of y]
    by (simp add: server_send_def server_close_and_report_def split_def Let_def)
qed simp

lemma publish_loop_reached:
  "snd (publish_loop e None msg hs) = dropWhile (reachable e msg) hs \<and>
   (Sent h m \<in> set (fst (publish_loop e None msg hs)) \<longleftrightarrow> m = msg \<and> h \<in> set (takeWhile (reachable e msg) hs)) \<and>
   closes (fst (publish_loop e None msg hs)) = set (dropWhile (reachable e msg) hs)"
proof (induction hs)
  case (Cons i hs)
  show ?case
  proof (cases "reachable e msg i")
    case True
    then have "endpoint_send e None i msg = None" by simp
    then show ?thesis using Cons.IH True
      by (auto simp: server_send_def server_close_and_report_def split_def Let_def simp del: endpoint_send_None)
  next
    case False
    then obtain y where "endpoint_send e None i msg = Some y" by fastforce
    then show ?thesis using publish_loop_failed [of e y msg hs] False
      by (simp add: server_send_def server_close_and_report_def split_def Let_def)
  qed
qed simp

lemma takeWhile_sorted:
  fixes hs :: "hdl list"
  assumes "sorted hs" "distinct hs"
  shows "set (takeWhile P hs) = {h \<in> set hs. \<forall>k \<in> set hs. k \<le> h \<longrightarrow> P k}"
    and "set hs - set (dropWhile P hs) = set (takeWhile P hs)"
  using assms by (induction hs) (auto dest: set_takeWhileD set_dropWhileD)

lemma reached_takeWhile:
  "base_ok b \<Longrightarrow> reached e msg b = set (takeWhile (reachable e msg) (m_listeners b))"
  by (simp add: reached_def listeners_def base_ok_def set_ok_def takeWhile_sorted)

lemma publish_base:
  assumes "base_ok b" "publish e msg b = (b', evs)"
  shows "base_ok b'" "listeners b' = reached e msg b"
    "m_platform_name b' = m_platform_name b" "m_roomid b' = m_roomid b"
    "m_close_callback b' = m_close_callback b"
proof -
  have b': "b' = b\<lparr>m_listeners := fold set_erase (dropWhile (reachable e msg) (m_listeners b)) (m_listeners b)\<rparr>"
    using assms(2) publish_loop_reached [of e msg "m_listeners b"]
    by (auto simp: publish_def Let_def split: prod.splits)
  show "base_ok b'" "m_platform_name b' = m_platform_name b" "m_roomid b' = m_roomid b"
    "m_close_callback b' = m_close_callback b"
    using assms(1) by (simp_all add: b' base_ok_def hs.ok_del_all)
  show "listeners b' = reached e msg b"
    using assms(1) takeWhile_sorted(2) [of "m_listeners b" "reachable e msg"]
    by (simp add: b' reached_takeWhile) (simp add: base_ok_def listeners_def hs.elems_del_all set_ok_def)
qed

lemma publish_events:
  assumes "base_ok b" "publish e msg b = (b', evs)"
  shows "Sent h m \<in> set evs \<longleftrightarrow> m = msg \<and> h \<in> reached e msg b"
    and "closes evs = listeners b - reached e msg b"
proof -
  have evs: "evs = fst (publish_loop e None msg (m_listeners b))"
    using assms(2) by (auto simp: publish_def Let_def split: prod.splits)
  have "set (dropWhile (reachable e msg) (m_listeners b)) = listeners b - reached e msg b"
    using assms(1) takeWhile_sorted(2) [of "m_listeners b" "reachable e msg"] set_dropWhileD
    by (fastforce simp: reached_takeWhile listeners_def base_ok_def set_ok_def)
  then show "Sent h m \<in> set evs \<longleftrightarrow> m = msg \<and> h \<in> reached e msg b"
    "closes evs = listeners b - reached e msg b"
    using assms(1) by (simp_all add: evs publish_loop_reached reached_takeWhile)
qed

subsection \<open>The published JSON\<close>

lemma publish_json_msg_eq:
  "publish_json_msg uid nickname body =
     JObject [(''nickname'', JString (base64_encode (bytes_of nickname) (word_of_nat (length nickname)))),
       (''text'', JString (base64_encode (bytes_of body) (word_of_nat (length body)))), (''uid'', JString uid)]"
  by (simp add: publish_json_msg_def map_insert_def)

lemma publish_json_dumpable: "dumpable 0 (publish_json_msg uid nickname body)"
  by (simp add: publish_json_msg_eq max_depth_def map_ok_def)

lemma publish_json_fields:
  "string_value (json_field (publish_json_msg uid nickname body) ''uid'') = uid"
  "base64_fits (length nickname) \<Longrightarrow>
     base64_decode (string_value (json_field (publish_json_msg uid nickname body) ''nickname'')) = Some nickname"
  "base64_fits (length body) \<Longrightarrow>
     base64_decode (string_value (json_field (publish_json_msg uid nickname body) ''text'')) = Some body"
  using base64_roundtrip [of "bytes_of nickname"] base64_roundtrip [of "bytes_of body"]
  by (simp_all add: publish_json_msg_eq)

subsection \<open>Properties\<close>

text \<open>
  C12: What \<open>publish_json\<close> publishes is JSON: a client that parses it finds the user id as it is, and gets
  nickname and text back, byte for byte, by decoding the base64 fields, when each of the two is short enough
  for the counters of the base64 functions (less than 1.5 GiB).
\<close>
theorem published_payload_decodes:
  assumes "length nickname + 2 < 3 * 2 ^ 29" "length body + 2 < 3 * 2 ^ 29"
  shows "\<exists>payload j. publish_json uid nickname body = Publish payload \<and>
    json_parse_top STANDARD payload = Some (j, []) \<and>
    string_value (json_field j ''uid'') = uid \<and>
    base64_decode (string_value (json_field j ''nickname'')) = Some nickname \<and>
    base64_decode (string_value (json_field j ''text'')) = Some body"
  using assms json_roundtrip [OF publish_json_dumpable] publish_json_fields
  by (auto simp: publish_json_def base64_fits_def)

theorem published_payload_decodes_witness:
  "\<exists>payload j. publish_json ''42'' ''nick'' [CHR 0xFF] = Publish payload \<and>
    json_parse_top STANDARD payload = Some (j, []) \<and>
    string_value (json_field j ''uid'') = ''42'' \<and>
    base64_decode (string_value (json_field j ''nickname'')) = Some ''nick'' \<and>
    base64_decode (string_value (json_field j ''text'')) = Some [CHR 0xFF]"
  by (rule published_payload_decodes) simp_all

end
