(* ===== verification/Stt.thy ===== *)
theory Stt
  imports Effects Json_Value
begin

section \<open>platforms/douyu/stt: the key-value format of Douyu\<close>

text \<open>
  \<open>parse_stt\<close> and \<open>make_stt\<close> of \<open>stt.cpp\<close>.  A message is a sequence of \<open>key@=value/\<close>; on the
  wire it is framed by its length, twice, a type and a terminating NUL.  The tokenizer is the
  library's (\<open>tokens\<close> of the environment).  An \<open>STT_t\<close> is a \<open>std::map\<close>, as in
  \<open>Json_Value\<close>; \<open>stt_get\<close> is its \<open>operator[]\<close>, which gives the empty string for a missing key.
\<close>

type_synonym stt = "(string \<times> string) list"

definition at_eq :: string where
  "at_eq = ''@=''"

fun stt_items :: "string list \<Rightarrow> stt \<Rightarrow> stt" where
  "stt_items [] stt = stt"
| "stt_items (i # msg_tok) stt =
     (case str_find at_eq i of
        None \<Rightarrow> stt_items msg_tok stt
      | Some pos \<Rightarrow> stt_items msg_tok (map_insert (take pos i) (drop (pos + 2) i) stt))"

definition parse_stt :: "(string \<Rightarrow> string list) \<Rightarrow> string \<Rightarrow> stt" where
  "parse_stt tok msg = stt_items (tok (c_str msg)) []"

definition stt_get :: "stt \<Rightarrow> string \<Rightarrow> string" where
  "stt_get stt key = (case map_of stt key of Some v \<Rightarrow> v | None \<Rightarrow> [])"

definition stt_text :: "(string \<times> string) list \<Rightarrow> string" where
  "stt_text il = concat (map (\<lambda>(k, v). k @ ''@='' @ v @ ''/'') il)"

text \<open>\<open>strcpy\<close> into a zeroed buffer: the string up to its first NUL, then zeros.\<close>

definition strcpy_into :: "nat \<Rightarrow> string \<Rightarrow> byte list" where
  "strcpy_into n s = (let cs = bytes_of (c_str s) in cs @ replicate (n - length cs) 0)"

definition make_stt :: "(string \<times> string) list \<Rightarrow> byte list" where
  "make_stt il =
     (let result = stt_text il;
          size = 4 + 4 + 4 + length result + 1;
          len = word_of_nat size - 4
      in le32 len @ le32 len @ [177, 2, 0, 0] @ strcpy_into (length result + 1) result)"

subsection \<open>The frame\<close>

lemma length_make_stt: "length (make_stt il) = length (stt_text il) + 13"
proof -
  have "length (c_str (stt_text il)) \<le> length (stt_text il)"
    by (simp add: c_str_def length_takeWhile_le)
  then show ?thesis by (simp add: make_stt_def strcpy_into_def Let_def)
qed

lemma make_stt_clean:
  assumes "CHR 0x00 \<notin> set (stt_text il)"
  shows "make_stt il =
    le32 (word_of_nat (length (stt_text il) + 9)) @ le32 (word_of_nat (length (stt_text il) + 9)) @
    [177, 2, 0, 0] @ bytes_of (stt_text il) @ [0]"
proof -
  have "(word_of_nat (4 + 4 + 4 + length (stt_text il) + 1) - 4 :: u32) =
    word_of_nat (length (stt_text il) + 9)" by simp
  moreover have "c_str (stt_text il) = stt_text il" using assms by simp
  ultimately show ?thesis by (simp only: make_stt_def strcpy_into_def Let_def) simp
qed

subsection \<open>Parsing what was made\<close>

lemma str_find_at_eq:
  "CHR ''@'' \<notin> set k \<Longrightarrow> str_find at_eq (k @ ''@='' @ v) = Some (length k)"
  by (induction k) (auto simp: at_eq_def)

definition stt_clean :: "string \<times> string \<Rightarrow> bool" where
  "stt_clean kv \<longleftrightarrow> CHR ''@'' \<notin> set (fst kv) \<and> CHR ''/'' \<notin> set (fst kv) \<and> CHR ''/'' \<notin> set (snd kv) \<and>
     CHR 0x00 \<notin> set (fst kv) \<and> CHR 0x00 \<notin> set (snd kv)"

lemma tokens_stt_text:
  assumes "separates tok"
  shows "list_all stt_clean il \<Longrightarrow> tok (stt_text il) = map (\<lambda>(k, v). k @ ''@='' @ v) il"
proof (induction il)
  case Nil
  with assms show ?case by (simp add: stt_text_def separates_def)
next
  case (Cons kv il)
  obtain k v where kv: "kv = (k, v)" by (cases kv)
  have "stt_text (kv # il) = (k @ ''@='' @ v) @ CHR ''/'' # stt_text il"
    by (simp add: stt_text_def kv)
  moreover have "tok ((k @ ''@='' @ v) @ CHR ''/'' # stt_text il) = (k @ ''@='' @ v) # tok (stt_text il)"
    using assms Cons.prems kv unfolding separates_def
    by (elim conjE allE [of _ "k @ ''@='' @ v"]) (auto simp: stt_clean_def)
  ultimately show ?case using Cons kv by simp
qed

definition first_wins :: "(string \<times> string) list \<Rightarrow> stt \<Rightarrow> stt" where
  "first_wins il stt = foldl (\<lambda>m (k, v). map_insert k v m) stt il"

lemma stt_items_text:
  "list_all stt_clean il \<Longrightarrow> stt_items (map (\<lambda>(k, v). k @ ''@='' @ v) il) stt = first_wins il stt"
proof (induction il arbitrary: stt)
  case (Cons kv il)
  obtain k v where kv: "kv = (k, v)" by (cases kv)
  have "str_find at_eq (k @ ''@='' @ v) = Some (length k)"
    using Cons.prems kv by (intro str_find_at_eq) (simp add: stt_clean_def)
  with Cons kv show ?case by (simp add: first_wins_def)
qed (simp add: first_wins_def)

lemma map_of_first_wins:
  "map_ok stt \<Longrightarrow> map_ok (first_wins il stt) \<and> map_of (first_wins il stt) = map_of (stt @ il)"
proof (induction il arbitrary: stt)
  case (Cons kv il)
  obtain k v where kv: "kv = (k, v)" by (cases kv)
  have "map_ok (map_insert k v stt)" using Cons.prems by (rule map_ok_map_insert)
  from Cons.IH [OF this] have i: "map_ok (first_wins il (map_insert k v stt))"
    "map_of (first_wins il (map_insert k v stt)) = map_of (map_insert k v stt @ il)" by blast+
  have "map_of (map_insert k v stt @ il) = map_of (stt @ (k, v) # il)"
    using map_of_map_set [OF Cons.prems, of k v]
    by (cases "map_of stt k") (auto simp: map_insert_def fun_eq_iff map_add_def split: option.splits)
  with i show ?case by (simp add: first_wins_def kv)
qed (simp add: first_wins_def)

lemma stt_text_no_nul: "list_all stt_clean il \<Longrightarrow> CHR 0x00 \<notin> set (stt_text il)"
  by (induction il) (auto simp: stt_text_def stt_clean_def)

lemma parse_stt_text:
  assumes "separates tok" "list_all stt_clean il"
  shows "stt_get (parse_stt tok (stt_text il)) key = (case map_of il key of Some v \<Rightarrow> v | None \<Rightarrow> [])"
proof -
  have "parse_stt tok (stt_text il) = first_wins il []"
  proof -
    have "c_str (stt_text il) = stt_text il" using stt_text_no_nul [OF assms(2)] by simp
    then show ?thesis
      by (simp only: parse_stt_def tokens_stt_text [OF assms] stt_items_text [OF assms(2)])
  qed
  moreover have "map_of (first_wins il []) = map_of il"
    using map_of_first_wins [of "[]" il] by (simp add: map_ok_def)
  ultimately show ?thesis by (simp add: stt_get_def)
qed

text \<open>A message is read as a C string: what follows a NUL is not seen.\<close>

lemma parse_stt_c_str: "parse_stt tok (c_str s) = parse_stt tok s"
  by (simp add: parse_stt_def c_str_def)

lemma parse_stt_nul: "CHR 0x00 \<notin> set s \<Longrightarrow> parse_stt tok (s @ CHR 0x00 # t) = parse_stt tok s"
  by (simp add: parse_stt_def)

subsection \<open>Properties\<close>

text \<open>
  C23: For pairs whose keys have no at sign, whose texts have no slash and no NUL, parsing the text of a message that
  \<open>make_stt\<close> framed gives the pairs back, the first one for a key that occurs twice.  The frame is laid out as
  the protocol wants it: the length of what follows the first field, that length again, the type 689 of a
  client message, the text of the pairs, and a final NUL.
\<close>
theorem stt_parses_back:
  assumes "separates tok" "list_all stt_clean il" "length (stt_text il) + 9 < 2 ^ 32"
  shows "stt_get (parse_stt tok (string_of (drop 12 (make_stt il)))) key =
      (case map_of il key of Some v \<Rightarrow> v | None \<Rightarrow> []) \<and>
    unat (rd_le32 (make_stt il)) = length (make_stt il) - 4 \<and>
    unat (rd_le32 (drop 4 (make_stt il))) = length (make_stt il) - 4 \<and>
    rd_le32 (drop 8 (make_stt il)) = 689 \<and>
    drop 12 (make_stt il) = bytes_of (concat (map (\<lambda>(k, v). k @ ''@='' @ v @ ''/'') il)) @ [0]"
proof (intro conjI)
  have nul: "CHR 0x00 \<notin> set (stt_text il)" using assms(2) by (rule stt_text_no_nul)
  note frame = make_stt_clean [OF nul]
  have d: "string_of (drop 12 (make_stt il)) = stt_text il @ [CHR 0x00]"
    by (simp add: frame string_of_zero)
  show "stt_get (parse_stt tok (string_of (drop 12 (make_stt il)))) key =
      (case map_of il key of Some v \<Rightarrow> v | None \<Rightarrow> [])"
    unfolding d by (simp add: parse_stt_nul nul parse_stt_text [OF assms(1,2)])
  have len: "unat (word_of_nat (length (stt_text il) + 9) :: u32) = length (make_stt il) - 4"
    unfolding length_make_stt using assms(3) by (subst unat_of_nat) simp
  have "rd_le32 (make_stt il) = word_of_nat (length (stt_text il) + 9)"
    unfolding frame by (simp only: rd_le32_le32)
  with len show "unat (rd_le32 (make_stt il)) = length (make_stt il) - 4" by (simp only:)
  have "drop 4 (make_stt il) = le32 (word_of_nat (length (stt_text il) + 9)) @ [177, 2, 0, 0] @ bytes_of (stt_text il) @ [0]"
    unfolding frame by simp
  with len show "unat (rd_le32 (drop 4 (make_stt il))) = length (make_stt il) - 4" by (simp only: rd_le32_le32)
  have "[177, 2, 0, 0] = le32 689" by code_simp
  then have "drop 8 (make_stt il) = le32 689 @ bytes_of (stt_text il) @ [0]" unfolding frame by simp
  then show "rd_le32 (drop 8 (make_stt il)) = 689" by (simp only: rd_le32_le32)
  show "drop 12 (make_stt il) = bytes_of (concat (map (\<lambda>(k, v). k @ ''@='' @ v @ ''/'') il)) @ [0]"
    unfolding frame stt_text_def [symmetric] by simp
qed

theorem stt_parses_back_witness:
  "stt_get (parse_stt (slash_tokens []) (string_of (drop 12 (make_stt [(''type'', ''mrkl''), (''a'', ''b=c'')])))) ''a'' =
     ''b=c''"
proof -
  have c: "list_all stt_clean [(''type'', ''mrkl''), (''a'', ''b=c'')]"
    "length (stt_text [(''type'', ''mrkl''), (''a'', ''b=c'')]) + 9 < 2 ^ 32"
    by (simp_all add: stt_clean_def stt_text_def)
  have v: "(case map_of [(''type'', ''mrkl''), (''a'', ''b=c'')] ''a'' of Some v \<Rightarrow> v | None \<Rightarrow> []) = ''b=c''"
    by code_simp
  from stt_parses_back [OF separates_slash_tokens c, of "''a''", unfolded v] show ?thesis by (rule conjunct1)
qed

end
