(* ===== verification/Others.thy ===== *)
theory Others
  imports Prelude
begin

section \<open>utils/others: numeric strings and random identifiers\<close>

text \<open>
  \<open>str_is_num\<close> (\<open>utils/others.hpp\<close>) and the two random generators
  (\<open>utils/others.cpp\<close>).  The random device and the distribution of the standard library
  are the argument \<open>dist\<close>: \<open>dist k lo hi\<close> is the \<open>k\<close>-th draw of a uniform distribution over
  \<open>[lo, hi]\<close>, and what the code relies on is that a draw lies in its range.
\<close>

text \<open>The loop over the characters; \<open>(int)str[i]\<close> is the value of a signed \<open>char\<close>.\<close>

fun str_is_num :: "string \<Rightarrow> bool" where
  "str_is_num [] = True"
| "str_is_num (c # str) =
     (let tmp = schar c in if 48 \<le> tmp \<and> tmp \<le> 57 then str_is_num str else False)"

definition is_digit :: "char \<Rightarrow> bool" where
  "is_digit c \<longleftrightarrow> 48 \<le> ord c \<and> ord c \<le> 57"

lemma schar_digit: "48 \<le> schar c \<and> schar c \<le> 57 \<longleftrightarrow> is_digit c"
  by (auto simp: schar_def is_digit_def) (use of_char_less_256 [of c] in linarith)

text \<open>A string passes \<open>str_is_num\<close> exactly when all its bytes are ASCII digits.\<close>

lemma str_is_num_iff: "str_is_num str \<longleftrightarrow> (\<forall>c \<in> set str. is_digit c)"
  by (induction str) (auto simp: Let_def schar_digit)

subsection \<open>Random strings and numbers\<close>

definition random_chars :: string where
  "random_chars = ''0123456789ABCDEFGHIJKLMNOPQRSTUVWXYZabcdefghijklmnopqrstuvwxyz''"

definition random_string :: "(nat \<Rightarrow> int \<Rightarrow> int \<Rightarrow> int) \<Rightarrow> nat \<Rightarrow> string" where
  "random_string dist len =
     map (\<lambda>k. random_chars ! nat (dist k 0 (int (length random_chars) - 1))) [0..<len]"

text \<open>
  \<open>random_number\<close>: for a length of ten or more the upper bound is \<open>INT_MAX\<close>.
\<close>

definition random_number :: "(nat \<Rightarrow> int \<Rightarrow> int \<Rightarrow> int) \<Rightarrow> nat \<Rightarrow> int" where
  "random_number dist len =
     (let mn = 10 ^ (len - 1);
          mx = (if len < 10 then 10 ^ len - 1 else 2147483647)
      in dist 0 mn mx)"

text \<open>What the code relies on of \<open>std::uniform_int_distribution\<close>.\<close>

definition dist_in_range :: "(nat \<Rightarrow> int \<Rightarrow> int \<Rightarrow> int) \<Rightarrow> bool" where
  "dist_in_range dist \<longleftrightarrow> (\<forall>k lo hi. lo \<le> hi \<longrightarrow> lo \<le> dist k lo hi \<and> dist k lo hi \<le> hi)"

lemma dist_in_rangeD:
  "dist_in_range dist \<Longrightarrow> lo \<le> hi \<Longrightarrow> lo \<le> dist k lo hi \<and> dist k lo hi \<le> hi"
  by (simp add: dist_in_range_def)

lemma length_random_string [simp]: "length (random_string dist n) = n"
  by (simp add: random_string_def)

lemma random_string_chars:
  assumes "dist_in_range dist"
  shows "set (random_string dist n) \<subseteq> set random_chars"
proof
  fix c assume "c \<in> set (random_string dist n)"
  then obtain k where c: "c = random_chars ! nat (dist k 0 (int (length random_chars) - 1))"
    by (auto simp: random_string_def)
  have l: "length random_chars = 62" by (simp add: random_chars_def)
  have "0 \<le> dist k 0 61 \<and> dist k 0 61 \<le> 61"
    using dist_in_rangeD [OF assms, of 0 61 k] by simp
  then have "nat (dist k 0 61) < length random_chars" unfolding l by linarith
  then show "c \<in> set random_chars" using c l by simp
qed

lemma random_number_bounds:
  assumes "dist_in_range dist" "1 \<le> len" "len \<le> 10"
  shows "10 ^ (len - 1) \<le> random_number dist len \<and> random_number dist len < 10 ^ len \<and>
    random_number dist len \<le> 2147483647"
proof -
  consider "len < 10" | "len = 10" using assms by linarith
  then show ?thesis
  proof cases
    case 1
    have m: "(10::int) ^ (len - 1) \<le> 10 ^ len - 1"
    proof -
      have "(10::int) ^ len = 10 * 10 ^ (len - 1)"
        using assms(2) by (metis Suc_diff_1 less_eq_Suc_le One_nat_def power_Suc)
      moreover have "(1::int) \<le> 10 ^ (len - 1)" by simp
      ultimately show ?thesis by linarith
    qed
    have "(10::int) ^ len \<le> 10 ^ 9" using 1 by (intro power_increasing) auto
    with dist_in_rangeD [OF assms(1) m, of 0] 1 show ?thesis
      by (simp add: random_number_def Let_def)
  next
    case 2
    then show ?thesis
      using dist_in_rangeD [OF assms(1), of "10 ^ 9" 2147483647 0]
      by (simp add: random_number_def Let_def)
  qed
qed

end
