(* ===== verification/Douyu.thy ===== *)
theory Douyu
  imports Platform_Base Stt Others
begin

section \<open>platforms/douyu: the Douyu client\<close>

text \<open>
  \<open>class platform_douyu\<close>.  Its only state that a handler reads is that of \<open>platform_base\<close>
  (\<open>m_blogin\<close> and \<open>m_bjoin\<close> are never used), so a handler is a function from the base object
  and what its operation completed with to the list of its requests.  \<open>Async_wait\<close> stands for
  \<open>expires_from_now\<close>, which aborts a wait that is pending, followed by \<open>async_wait\<close>.
\<close>

definition HEADER_SIZE :: nat where
  "HEADER_SIZE = 12"

definition m_danmu_host :: string where
  "m_danmu_host = ''openbarrage.douyutv.com''"

definition m_danmu_port :: string where
  "m_danmu_port = ''8601''"

definition douyu_is_room_valid :: "base \<Rightarrow> bool" where
  "douyu_is_room_valid b = str_is_num (m_roomid b)"

definition douyu_start :: "base \<Rightarrow> effect list" where
  "douyu_start b = [Async_resolve m_danmu_host m_danmu_port On_resolve]"

definition douyu_close :: "base \<Rightarrow> effect list" where
  "douyu_close b = [Socket_close, Timer_cancel]"

subsection \<open>Packets\<close>

definition new_login_packet :: "base \<Rightarrow> byte list" where
  "new_login_packet b = make_stt [(''type'', ''loginreq''), (''roomid'', m_roomid b)]"

definition new_joingroup_packet :: "base \<Rightarrow> byte list" where
  "new_joingroup_packet b = make_stt [(''type'', ''joingroup''), (''rid'', m_roomid b), (''gid'', ''-9999'')]"

definition new_logout_packet :: "byte list" where
  "new_logout_packet = make_stt [(''type'', ''logout'')]"

definition new_heartbeat_packet :: "byte list" where
  "new_heartbeat_packet = make_stt [(''type'', ''mrkl'')]"

subsection \<open>Handlers\<close>

abbreviation report :: "base \<Rightarrow> error_code \<Rightarrow> effect list" where
  "report b ec \<equiv> client_report (m_platform_name b) (m_roomid b) ec"

definition do_write :: "byte list \<Rightarrow> effect list" where
  "do_write packet = [Async_write packet Written]"

definition written :: "base \<Rightarrow> error_code \<Rightarrow> effect list" where
  "written b ec = (if ec \<noteq> None then report b ec @ [Socket_close, Timer_cancel] else [])"

definition do_read_header :: "effect list" where
  "do_read_header = [Async_read HEADER_SIZE Handle_header]"

definition do_read_data :: "u32 \<Rightarrow> effect list" where
  "do_read_data data_size = [Async_read (unat data_size) Handle_data]"

definition on_resolve :: "base \<Rightarrow> error_code \<Rightarrow> effect list" where
  "on_resolve b ec = (if ec \<noteq> None then report b ec else [Async_connect On_connect])"

definition on_connect :: "base \<Rightarrow> error_code \<Rightarrow> effect list" where
  "on_connect b ec =
     (if ec \<noteq> None then report b ec else do_write (new_login_packet b) @ do_read_header)"

definition handle_header :: "base \<Rightarrow> byte list \<Rightarrow> error_code \<Rightarrow> effect list" where
  "handle_header b header ec =
     (if ec \<noteq> None then report b ec @ [Socket_close, Timer_cancel]
      else let data_len = rd_le32 header in do_read_data (data_len - 8))"

definition handle_loginres_msg :: "env \<Rightarrow> base \<Rightarrow> string \<Rightarrow> effect list" where
  "handle_loginres_msg e b msg =
     (let stt = parse_stt (tokens e) msg in
      if stt_get stt ''type'' = ''loginres''
      then [Async_wait 1 Handle_heartbeat_timer] @ do_write (new_joingroup_packet b)
      else [])"

definition handle_chatmsg_msg :: "env \<Rightarrow> base \<Rightarrow> string \<Rightarrow> effect list" where
  "handle_chatmsg_msg e b msg =
     (let stt = parse_stt (tokens e) msg in
      if stt_get stt ''type'' = ''chatmsg''
      then [publish_json (stt_get stt ''uid'') (stt_get stt ''nn'') (stt_get stt ''txt'')]
      else [])"

text \<open>The table \<open>msg_handlers\<close> the constructor fills.\<close>

definition msg_handlers :: "string \<Rightarrow> (env \<Rightarrow> base \<Rightarrow> string \<Rightarrow> effect list) option" where
  "msg_handlers = [''loginres'' \<mapsto> handle_loginres_msg, ''chatmsg'' \<mapsto> handle_chatmsg_msg]"

text \<open>
  \<open>handle_data\<close> starts the read of the next header before it looks at the message.  With an
  empty message \<open>data->at(data->size() - 1)\<close> throws.
\<close>

definition handle_data :: "env \<Rightarrow> base \<Rightarrow> byte list \<Rightarrow> error_code \<Rightarrow> effect list" where
  "handle_data e b data ec =
     do_read_header @
     (if ec \<noteq> None then report b ec @ [Socket_close, Timer_cancel]
      else if data = [] then [Fault Out_of_range]
      else if last data \<noteq> 0 then report b bad_message
      else let msg_ptr = string_of data;
               stt = parse_stt (tokens e) msg_ptr
           in case msg_handlers (stt_get stt ''type'') of
                None \<Rightarrow> []
              | Some msg_handler \<Rightarrow> msg_handler e b msg_ptr)"

definition handle_heartbeat_timer :: "base \<Rightarrow> error_code \<Rightarrow> effect list" where
  "handle_heartbeat_timer b ec =
     (if ec \<noteq> None then report b ec @ [Socket_close]
      else do_write new_heartbeat_packet @ [Async_wait 45 Handle_heartbeat_timer])"

text \<open>The completion handler of every operation that \<open>platform_douyu\<close> starts.\<close>

definition douyu_step :: "env \<Rightarrow> base \<Rightarrow> handler \<Rightarrow> byte list \<times> error_code \<Rightarrow> effect list" where
  "douyu_step e b h = (\<lambda>(data, ec). case h of
       On_resolve \<Rightarrow> on_resolve b ec
     | On_connect \<Rightarrow> on_connect b ec
     | Written \<Rightarrow> written b ec
     | Handle_header \<Rightarrow> handle_header b data ec
     | Handle_data \<Rightarrow> handle_data e b data ec
     | Handle_heartbeat_timer \<Rightarrow> handle_heartbeat_timer b ec
     | _ \<Rightarrow> [])"

lemmas douyu_handlers = on_resolve_def on_connect_def written_def handle_header_def
  handle_data_def handle_heartbeat_timer_def do_write_def do_read_header_def do_read_data_def

subsection \<open>One read at a time\<close>

definition douyu_chain :: "handler \<Rightarrow> bool" where
  "douyu_chain h \<longleftrightarrow> h \<in> {On_resolve, On_connect, Handle_header, Handle_data}"

lemma started_msg_handler:
  "msg_handlers ty = Some f \<Longrightarrow> filter douyu_chain (started (f e b msg)) = []"
  by (auto simp: msg_handlers_def handle_loginres_msg_def handle_chatmsg_msg_def do_write_def
      publish_json_def Let_def douyu_chain_def split: if_splits)

lemma started_handle_data:
  "filter douyu_chain (started (handle_data e b data ec)) = [Handle_header]"
  by (auto simp: douyu_handlers Let_def started_msg_handler split: option.splits)
    (auto simp: douyu_chain_def)

lemma started_douyu_step:
  "length (filter douyu_chain (started (douyu_step e b h i))) \<le> 1"
  "\<not> douyu_chain h \<Longrightarrow> filter douyu_chain (started (douyu_step e b h i)) = []"
  by (cases i; cases h;
      simp add: douyu_step_def started_handle_data;
      simp add: douyu_handlers douyu_chain_def Let_def split: if_splits)+

interpretation douyu: read_chain "\<lambda>b h i. (b, douyu_step e b h i)" douyu_chain for e
  by unfold_locales (simp_all only: snd_conv started_douyu_step not_False_eq_True)

subsection \<open>The stream of messages\<close>














subsection \<open>Properties\<close>



text \<open>
  From \<open>start\<close> on, whatever completes in whatever order and with whatever result, at most one of
  resolve, connect and the reads is outstanding: two reads never compete for the bytes of the socket.
\<close>
theorem douyu_one_operation_outstanding:
  assumes "async_run (\<lambda>b h i. (b, douyu_step e b h i)) (b, started (douyu_start b)) (b', pending)"
  shows "length (filter douyu_chain pending) \<le> 1"
  using douyu.one_outstanding [OF assms] by (simp add: douyu_start_def douyu_chain_def)

theorem douyu_one_operation_outstanding_witness:
  "length (filter douyu_chain [On_connect]) \<le> 1"
proof -
  let ?b = "new_base ''douyu'' ''1''"
  have "async_run (\<lambda>b h i. (b, douyu_step calm b h i)) (?b, started (douyu_start ?b))
      (?b, remove1 On_resolve (started (douyu_start ?b)) @ started [Async_connect On_connect])"
    by (rule complete [OF begin_run, where i = "([], None)"])
      (simp_all add: douyu_start_def douyu_step_def on_resolve_def)
  from douyu_one_operation_outstanding [OF this] show ?thesis by (simp add: douyu_start_def)
qed

text \<open>
  A message that does not end in NUL is reported as an error and the room leaves the map, but the socket
  stays open: the client has started the next read and goes on to publish what follows to its listeners.
\<close>
theorem douyu_bad_message_keeps_reading:
  assumes "data \<noteq> []" "last data \<noteq> 0"
  shows "douyu_step e b Handle_data (data, None) =
    [Async_read HEADER_SIZE Handle_header, Publish ''connection closed because:Bad message'',
     Close_callback (roomstr_of (m_platform_name b) (m_roomid b))]"
  using assms by (simp add: douyu_step_def handle_data_def do_read_header_def bad_message_def)

theorem douyu_bad_message_keeps_reading_witness:
  "douyu_step calm (new_base ''douyu'' ''1'') Handle_data ([65], None) =
    [Async_read HEADER_SIZE Handle_header, Publish ''connection closed because:Bad message'',
     Close_callback (roomstr_of (m_platform_name (new_base ''douyu'' ''1'')) (m_roomid (new_base ''douyu'' ''1'')))]"
  by (rule douyu_bad_message_keeps_reading) simp_all

text \<open>
  A frame whose length field is 8 makes \<open>handle_data\<close> throw on the empty message, and one below 8 makes
  the client wait for about four gigabytes.
\<close>
theorem douyu_short_frame:
  assumes "unat (rd_le32 header) \<le> 8"
  shows "douyu_step e b Handle_header (header, None) =
      [Async_read ((2 ^ 32 + unat (rd_le32 header) - 8) mod 2 ^ 32) Handle_data] \<and>
    douyu_step e b Handle_data ([], None) = [Async_read HEADER_SIZE Handle_header, Fault Out_of_range]"
proof (intro conjI)
  have "unat (rd_le32 header - 8) = (2 ^ 32 + unat (rd_le32 header) - 8) mod 2 ^ 32"
    using assms by (auto simp: unat_sub_if')
  then show "douyu_step e b Handle_header (header, None) =
      [Async_read ((2 ^ 32 + unat (rd_le32 header) - 8) mod 2 ^ 32) Handle_data]"
    by (simp add: douyu_step_def handle_header_def do_read_data_def)
  show "douyu_step e b Handle_data ([], None) = [Async_read HEADER_SIZE Handle_header, Fault Out_of_range]"
    by (simp add: douyu_step_def handle_data_def do_read_header_def)
qed

theorem douyu_short_frame_witness:
  "douyu_step calm (new_base ''douyu'' ''1'') Handle_header (replicate 12 0, None) =
     [Async_read ((2 ^ 32 + unat (rd_le32 (replicate 12 0)) - 8) mod 2 ^ 32) Handle_data] \<and>
   douyu_step calm (new_base ''douyu'' ''1'') Handle_data ([], None) =
     [Async_read HEADER_SIZE Handle_header, Fault Out_of_range]"
proof -
  have "unat (rd_le32 (replicate 12 0)) \<le> 8" by code_simp
  then show ?thesis by (rule douyu_short_frame)
qed

end
