(* ===== verification/Bilibili.thy ===== *)
theory Bilibili
  imports Platform_Base Json_Total
begin

section \<open>platforms/bilibili: the bilibili client\<close>

text \<open>
  \<open>class platform_bilibili\<close>: an HTTP request finds the danmu server of the room, then a TCP
  connection to it carries packets with a 16-byte big-endian header.  A streambuf is the
  string of its readable bytes; a read into \<open>m_response\<close> completes with the bytes it appended.
  A handler returns the new object and its requests.  XML is read by the library (\<open>xml_get\<close>).
\<close>

record bili = base +
  m_request :: string
  m_response :: string
  m_live_msg :: string
  m_dm_server :: string
  m_dm_tcp_port :: string

definition new_bili :: "string \<Rightarrow> bili" where
  "new_bili roomid = \<lparr>m_listeners = [], m_close_callback = False, m_platform_name = ''bilibili'',
     m_roomid = roomid, m_request = [], m_response = [], m_live_msg = [], m_dm_server = [],
     m_dm_tcp_port = []\<rparr>"

definition m_live_api_host :: string where
  "m_live_api_host = ''live.bilibili.com''"

definition m_live_api_path :: string where
  "m_live_api_path = ''/api/player?id=cid:''"

definition crlf :: string where
  "crlf = [CHR 0x0D, CHR 0x0A]"

definition bili_is_room_valid :: "'a base_scheme \<Rightarrow> bool" where
  "bili_is_room_valid b = True"

definition bili_request :: "string \<Rightarrow> string" where
  "bili_request roomid =
     ''GET '' @ m_live_api_path @ roomid @ '' HTTP/1.0'' @ crlf @
     ''Host: '' @ m_live_api_host @ crlf @
     ''Accept: */*'' @ crlf @
     ''Connection: close'' @ crlf @ crlf"

definition bili_start :: "bili \<Rightarrow> bili \<times> effect list" where
  "bili_start b =
     (b\<lparr>m_request := m_request b @ bili_request (m_roomid b)\<rparr>,
      [Async_resolve m_live_api_host ''http'' On_http_resolve])"

definition bili_close :: "bili \<Rightarrow> effect list" where
  "bili_close b = [Socket_close, Timer_cancel]"

abbreviation bili_report :: "'a base_scheme \<Rightarrow> error_code \<Rightarrow> effect list" where
  "bili_report b ec \<equiv> client_report (m_platform_name b) (m_roomid b) ec"

subsection \<open>Formatted input\<close>

text \<open>
  \<open>std::istream\<close> over a streambuf: the characters left, \<open>eofbit\<close> and \<open>failbit\<close>.  \<open>>>\<close> into a
  string and into an \<open>unsigned\<close>, and \<open>getline\<close>.
\<close>

type_synonym istream = "string \<times> bool \<times> bool"

fun read_word :: "istream \<Rightarrow> string \<times> istream" where
  "read_word (s, eof, bad) =
     (if eof \<or> bad then ([], s, eof, True)
      else let t = dropWhile is_space s;
               w = takeWhile (\<lambda>c. \<not> is_space c) t;
               r = dropWhile (\<lambda>c. \<not> is_space c) t
           in if t = [] then ([], [], True, True) else (w, r, r = [], False))"

definition UINT_MAX :: nat where
  "UINT_MAX = 4294967295"

fun read_unsigned :: "istream \<Rightarrow> nat \<times> istream" where
  "read_unsigned (s, eof, bad) =
     (if eof \<or> bad then (0, s, eof, True)
      else let t = dropWhile is_space s;
               neg = (t \<noteq> [] \<and> hd t = CHR ''-'');
               u = (if t \<noteq> [] \<and> (hd t = CHR ''-'' \<or> hd t = CHR ''+'') then tl t else t);
               ds = takeWhile isdig u;
               r = dropWhile isdig u;
               v = digits_val ds
           in if ds = [] then (0, r, r = [], True)
              else if v > UINT_MAX then (UINT_MAX, r, r = [], True)
              else (if neg \<and> 0 < v then UINT_MAX + 1 - v else v, r, r = [], False))"

fun getline :: "istream \<Rightarrow> string \<times> istream" where
  "getline (s, eof, bad) =
     (if eof \<or> bad then ([], s, eof, True)
      else let w = takeWhile (\<lambda>c. c \<noteq> CHR 0x0A) s; r = dropWhile (\<lambda>c. c \<noteq> CHR 0x0A) s
           in if r = [] then (w, [], True, w = []) else (w, tl r, False, False))"

subsection \<open>The HTTP phase\<close>

definition on_http_resolve :: "bili \<Rightarrow> error_code \<Rightarrow> effect list" where
  "on_http_resolve b ec = (if ec \<noteq> None then bili_report b ec else [Async_connect On_http_connect])"

definition on_http_connect :: "bili \<Rightarrow> error_code \<Rightarrow> effect list" where
  "on_http_connect b ec =
     (if ec \<noteq> None then bili_report b ec else [Async_write (bytes_of (m_request b)) Request_written])"

definition request_written :: "bili \<Rightarrow> error_code \<Rightarrow> effect list" where
  "request_written b ec =
     (if ec \<noteq> None then bili_report b ec @ [Socket_close]
      else [Async_read_until crlf Handle_http_read_status_line])"

definition parse_status_line :: "string \<Rightarrow> string \<times> nat \<times> bool \<times> string" where
  "parse_status_line response =
     (let (http_version, is1) = read_word (response, False, False);
          (status_code, is2) = read_unsigned is1;
          (status_message, rest, eof, bad) = getline is2
      in (http_version, status_code, bad, rest))"

definition handle_http_read_status_line :: "bili \<Rightarrow> error_code \<Rightarrow> bili \<times> effect list" where
  "handle_http_read_status_line b ec =
     (if ec \<noteq> None then (b, bili_report b ec @ [Socket_close])
      else let (http_version, status_code, bad, rest) = parse_status_line (m_response b);
               b' = b\<lparr>m_response := rest\<rparr>
           in if bad \<or> take 5 http_version \<noteq> ''HTTP/'' then (b', bili_report b bad_message)
              else if status_code \<noteq> 200 then (b', bili_report b bad_message)
              else (b', [Async_read_until (crlf @ crlf) Handle_http_read_header]))"

definition handle_http_read_header :: "bili \<Rightarrow> error_code \<Rightarrow> bili \<times> effect list" where
  "handle_http_read_header b ec =
     (if ec \<noteq> None then (b, bili_report b ec @ [Socket_close])
      else (b\<lparr>m_response := []\<rparr>, [Async_read_some Handle_http_read_content]))"

definition parse_live_msg :: "env \<Rightarrow> bili \<Rightarrow> bili \<times> effect list" where
  "parse_live_msg e b =
     (case xml_get e (m_live_msg b) [''state''] of
        None \<Rightarrow> (b, bili_report b bad_message @ [Socket_close])
      | Some state \<Rightarrow>
          if state \<noteq> ''LIVE'' then (b, bili_report b bad_message @ [Socket_close])
          else case xml_get e (m_live_msg b) [''server''] of
            None \<Rightarrow> (b, bili_report b bad_message @ [Socket_close])
          | Some server \<Rightarrow>
              let b1 = b\<lparr>m_dm_server := server\<rparr> in
              case xml_get e (m_live_msg b) [''dm_port''] of
                None \<Rightarrow> (b1, bili_report b bad_message @ [Socket_close])
              | Some dm_port \<Rightarrow>
                  (b1\<lparr>m_dm_tcp_port := dm_port\<rparr>,
                   [Socket_close, Async_resolve server dm_port On_tcp_resolve]))"

definition eof_error :: error_code where
  "eof_error = Some ''End of file''"

definition handle_http_read_content :: "env \<Rightarrow> bili \<Rightarrow> error_code \<Rightarrow> bili \<times> effect list" where
  "handle_http_read_content e b ec =
     (if ec = eof_error then
        let ec = socket_close_ec e in
        if ec \<noteq> None then (b, Socket_close # bili_report b ec)
        else (case parse_live_msg e b of (b', effs) \<Rightarrow> (b', Socket_close # effs))
      else if ec \<noteq> None then (b, bili_report b ec @ [Socket_close])
      else (b\<lparr>m_live_msg := m_live_msg b @ m_response b\<rparr>, [Async_read_some Handle_http_read_content]))"

subsection \<open>Packets\<close>

definition bili_header :: "nat \<Rightarrow> u32 \<Rightarrow> byte list" where
  "bili_header n op = be32 (word_of_nat n) @ [0, 16, 0, 1] @ be32 op @ [0, 0, 0, 1]"

definition request_uid :: "env \<Rightarrow> nat" where
  "request_uid e = 100000000000000 + uid_offset e"

definition request_body :: "env \<Rightarrow> bili \<Rightarrow> string" where
  "request_body e b =
     [CHR ''{'', CHR 0x22] @ ''roomid'' @ [CHR 0x22, CHR '':''] @ m_roomid b @ '', '' @
     [CHR 0x22] @ ''uid'' @ [CHR 0x22, CHR '':''] @ dec (request_uid e) @ ''}''"

definition new_request_packet :: "env \<Rightarrow> bili \<Rightarrow> byte list" where
  "new_request_packet e b =
     (let req_data = request_body e b in
      bili_header (4 + 4 + 4 + 4 + length req_data) 7 @ bytes_of req_data)"

definition bili_heartbeat_packet :: "byte list" where
  "bili_heartbeat_packet = bili_header 16 2"

subsection \<open>The danmu connection\<close>

definition on_tcp_resolve :: "bili \<Rightarrow> error_code \<Rightarrow> effect list" where
  "on_tcp_resolve b ec = (if ec \<noteq> None then bili_report b ec else [Async_connect On_tcp_connect])"

definition bili_do_write :: "byte list \<Rightarrow> effect list" where
  "bili_do_write packet = [Async_write packet Written]"

definition bili_written :: "bili \<Rightarrow> error_code \<Rightarrow> effect list" where
  "bili_written b ec = (if ec \<noteq> None then bili_report b ec @ [Socket_close, Timer_cancel] else [])"

definition bili_do_read_header :: "effect list" where
  "bili_do_read_header = [Async_read 16 Handle_header]"

definition bili_do_read_data :: "u32 \<Rightarrow> effect list" where
  "bili_do_read_data data_size = [Async_read (unat data_size) Handle_data]"

definition on_tcp_connect :: "env \<Rightarrow> bili \<Rightarrow> error_code \<Rightarrow> effect list" where
  "on_tcp_connect e b ec =
     (if ec \<noteq> None then bili_report b ec
      else bili_do_write (new_request_packet e b) @ bili_do_read_header @
        [Async_wait 1 Handle_heartbeat_timer])"

definition bili_handle_header :: "bili \<Rightarrow> byte list \<Rightarrow> error_code \<Rightarrow> effect list" where
  "bili_handle_header b header ec =
     (if ec \<noteq> None then bili_report b ec @ [Socket_close, Timer_cancel]
      else let data_len = rd_be32 header; data_type = header ! 11 in
        if data_len \<le> 16 then bili_do_read_header
        else if data_len > 16 \<and> data_type = 5 then bili_do_read_data (data_len - 16)
        else [Async_read (unat (data_len - 16)) Data_skipped])"

definition data_skipped :: "bili \<Rightarrow> error_code \<Rightarrow> effect list" where
  "data_skipped b ec =
     (if ec \<noteq> None then bili_report b ec @ [Socket_close, Timer_cancel] else bili_do_read_header)"

text \<open>
  The body of a \<open>DANMU_MSG\<close>.  \<open>info_array\<close> and the arrays in it are vectors: an index behind
  the end is undefined, and so is the cast of a number that is no \<open>uint64_t\<close>.
\<close>

definition danmu_msg :: "json \<Rightarrow> effect list" where
  "danmu_msg msg_json =
     (let info_array = array_items (json_field msg_json ''info'') in
      if length info_array \<le> 1 then [Fault Bad_index]
      else let body = string_value (info_array ! 1) in
      if length info_array \<le> 2 then [Fault Bad_index]
      else let user = array_items (info_array ! 2) in
      if user = [] then [Fault Bad_index]
      else let first = user ! 0;
               uid = (if is_number first then map_option dec (double_to_uint64 (number_value first))
                      else if is_string first then Some (string_value first)
                      else Some [])
      in case uid of
           None \<Rightarrow> [Fault Bad_cast]
         | Some uid \<Rightarrow>
             if length user \<le> 1 then [Fault Bad_index]
             else [publish_json uid (string_value (user ! 1)) body])"

definition bili_handle_data :: "bili \<Rightarrow> byte list \<Rightarrow> error_code \<Rightarrow> effect list" where
  "bili_handle_data b data ec =
     bili_do_read_header @
     (if ec \<noteq> None then bili_report b ec @ [Socket_close, Timer_cancel]
      else let msg_ptr = c_str (string_of (data @ [0]));
               (msg_json, err) = json_parse_std msg_ptr
           in if err \<noteq> [] then bili_report b bad_message @ [Socket_close, Timer_cancel]
              else let cmd = string_value (json_field msg_json ''cmd'') in
                if cmd \<noteq> ''DANMU_MSG'' then [] else danmu_msg msg_json)"

definition bili_handle_heartbeat_timer :: "bili \<Rightarrow> error_code \<Rightarrow> effect list" where
  "bili_handle_heartbeat_timer b ec =
     (if ec \<noteq> None then bili_report b ec @ [Socket_close]
      else bili_do_write bili_heartbeat_packet @ [Async_wait 30 Handle_heartbeat_timer])"

text \<open>
  The completion handler of every operation that \<open>platform_bilibili\<close> starts.  The bytes that a
  read into the streambuf brought are appended to \<open>m_response\<close> before its handler runs.
\<close>

definition bili_step :: "env \<Rightarrow> bili \<Rightarrow> handler \<Rightarrow> byte list \<times> error_code \<Rightarrow> bili \<times> effect list" where
  "bili_step e b h = (\<lambda>(data, ec).
     let c = b\<lparr>m_response := m_response b @ string_of data\<rparr> in
     case h of
       On_http_resolve \<Rightarrow> (b, on_http_resolve b ec)
     | On_http_connect \<Rightarrow> (b, on_http_connect b ec)
     | Request_written \<Rightarrow> (b\<lparr>m_request := []\<rparr>, request_written b ec)
     | Handle_http_read_status_line \<Rightarrow> handle_http_read_status_line c ec
     | Handle_http_read_header \<Rightarrow> handle_http_read_header c ec
     | Handle_http_read_content \<Rightarrow> handle_http_read_content e c ec
     | On_tcp_resolve \<Rightarrow> (b, on_tcp_resolve b ec)
     | On_tcp_connect \<Rightarrow> (b, on_tcp_connect e b ec)
     | Written \<Rightarrow> (b, bili_written b ec)
     | Handle_header \<Rightarrow> (b, bili_handle_header b data ec)
     | Data_skipped \<Rightarrow> (b, data_skipped b ec)
     | Handle_data \<Rightarrow> (b, bili_handle_data b data ec)
     | Handle_heartbeat_timer \<Rightarrow> (b, bili_handle_heartbeat_timer b ec)
     | _ \<Rightarrow> (b, []))"

lemmas bili_handlers = on_http_resolve_def on_http_connect_def request_written_def
  handle_http_read_status_line_def handle_http_read_header_def handle_http_read_content_def
  parse_live_msg_def on_tcp_resolve_def on_tcp_connect_def bili_written_def bili_handle_header_def
  data_skipped_def bili_handle_data_def bili_handle_heartbeat_timer_def bili_do_write_def
  bili_do_read_header_def bili_do_read_data_def

subsection \<open>One read at a time\<close>

definition bili_chain :: "handler \<Rightarrow> bool" where
  "bili_chain h \<longleftrightarrow> h \<notin> {Written, Handle_heartbeat_timer}"

lemma started_danmu_msg [simp]: "started (danmu_msg j) = []"
  by (simp add: danmu_msg_def publish_json_def Let_def split: option.split)

lemma started_bili_step:
  "length (filter bili_chain (started (snd (bili_step e b h i)))) \<le> 1"
  "\<not> bili_chain h \<Longrightarrow> filter bili_chain (started (snd (bili_step e b h i))) = []"
  by (cases i; cases h;
      auto simp: bili_step_def bili_handlers bili_chain_def Let_def split: option.splits prod.splits)+

interpretation bilibili: read_chain "bili_step e" bili_chain for e
  by unfold_locales (simp_all only: started_bili_step not_False_eq_True)

subsection \<open>The status line\<close>

lemma takeWhile_stop: "\<forall>c \<in> set w. P c \<Longrightarrow> \<not> P x \<Longrightarrow> takeWhile P (w @ x # s) = w"
  by (induction w) auto

lemma dropWhile_stop_at: "\<forall>c \<in> set w. P c \<Longrightarrow> \<not> P x \<Longrightarrow> dropWhile P (w @ x # s) = x # s"
  by (induction w) auto

lemma read_word_token:
  assumes "w \<noteq> []" "\<forall>c \<in> set w. \<not> is_space c" "is_space x"
  shows "read_word (w @ x # s, False, False) = (w, x # s, False, False)"
proof -
  have "dropWhile is_space (w @ x # s) = w @ x # s"
    using assms by (cases w) auto
  then show ?thesis
    using assms by (simp add: takeWhile_stop dropWhile_stop_at Let_def)
qed

lemma read_unsigned_dec:
  assumes "n \<le> UINT_MAX" "\<not> isdig x"
  shows "read_unsigned (CHR '' '' # dec n @ x # s, False, False) = (n, x # s, False, False)"
proof -
  have d: "\<forall>c \<in> set (dec n). isdig c" using dec_digits [of n] by (simp add: list_all_iff)
  obtain c cs where c: "dec n = c # cs" using dec_nonempty [of n] by (cases "dec n") auto
  have ic: "isdig c" using d c by simp
  then have nc: "\<not> is_space c" "c \<noteq> CHR ''-''" "c \<noteq> CHR ''+''"
    by (auto simp: is_space_def isdig_def)
  have sp: "is_space (CHR '' '')" by (simp add: is_space_def)
  have "dropWhile is_space (CHR '' '' # dec n @ x # s) = dec n @ x # s"
    using nc sp by (simp add: c)
  moreover have "hd (dec n @ x # s) = c" by (simp add: c)
  ultimately show ?thesis
    using nc assms takeWhile_stop [of "dec n" isdig x s, OF d] dropWhile_stop_at [of "dec n" isdig x s, OF d]
    by (simp add: Let_def)
qed

lemma parse_status_line_ok:
  assumes "v \<noteq> []" "\<forall>c \<in> set v. \<not> is_space c" "n \<le> UINT_MAX" "\<not> isdig x"
    and "CHR 0x0A \<notin> set (x # msg)"
  shows "parse_status_line (v @ CHR '' '' # dec n @ x # msg @ CHR 0x0A # rest) = (v, n, False, rest)"
proof -
  have sp: "is_space (CHR '' '')" by (simp add: is_space_def)
  have "takeWhile (\<lambda>c. c \<noteq> CHR 0x0A) ((x # msg) @ CHR 0x0A # rest) = x # msg"
    and "dropWhile (\<lambda>c. c \<noteq> CHR 0x0A) ((x # msg) @ CHR 0x0A # rest) = CHR 0x0A # rest"
    using assms(5) by (intro takeWhile_stop dropWhile_stop_at; auto)+
  then show ?thesis
    using read_word_token [OF assms(1,2) sp, of "dec n @ x # msg @ CHR 0x0A # rest"]
      read_unsigned_dec [OF assms(3,4), of "msg @ CHR 0x0A # rest"]
    by (simp add: parse_status_line_def)
qed

subsection \<open>The body of the HTTP response\<close>

text \<open>\<open>feed b ds\<close>: the object after the chunks \<open>ds\<close> of the response, each completing one read.\<close>

definition feed :: "env \<Rightarrow> bili \<Rightarrow> byte list list \<Rightarrow> bili" where
  "feed e b ds = foldl (\<lambda>b d. fst (bili_step e b Handle_http_read_content (d, None))) b ds"

fun piled :: "string \<Rightarrow> byte list list \<Rightarrow> string" where
  "piled response [] = []"
| "piled response (d # ds) = (response @ string_of d) @ piled (response @ string_of d) ds"

lemma content_step:
  "bili_step e b Handle_http_read_content (d, None) =
     (b\<lparr>m_response := m_response b @ string_of d,
        m_live_msg := m_live_msg b @ m_response b @ string_of d\<rparr>,
      [Async_read_some Handle_http_read_content])"
  by (simp add: bili_step_def handle_http_read_content_def eof_error_def Let_def)

lemma feed_live_msg: "m_live_msg (feed e b ds) = m_live_msg b @ piled (m_response b) ds"
  by (induction ds arbitrary: b) (simp_all add: feed_def content_step)

lemma length_piled: "length (piled r ds) = length ds * length r + sum_list (map (\<lambda>k. (length ds - k) * length (ds ! k)) [0..<length ds])"
proof (induction ds arbitrary: r)
  case (Cons d ds)
  have "[0..<length (d # ds)] = 0 # map Suc [0..<length ds]"
    by (simp add: map_Suc_upt upt_conv_Cons del: upt_Suc)
  then show ?case by (simp add: Cons comp_def algebra_simps del: upt_Suc)
qed simp

subsection \<open>Packets\<close>

lemma length_bili_header [simp]: "length (bili_header n op) = 16"
  by (simp add: bili_header_def)



lemma length_request_packet:
  "length (new_request_packet e b) = 16 + length (request_body e b)"
  by (simp add: new_request_packet_def Let_def)







lemma next_read_handle_data [simp]: "next_read (bili_handle_data b data ec) = Some (16, Handle_header)"
  by (simp add: bili_handle_data_def bili_do_read_header_def)



lemma danmu_msg_no_close [simp]: "Socket_close \<notin> set (danmu_msg j)"
  by (simp add: danmu_msg_def publish_json_def Let_def split: option.split)











subsection \<open>Chat messages\<close>

lemma json_parse_std_dump: "dumpable 0 j \<Longrightarrow> json_parse_std (dump_json j) = (j, [])"
  by (simp add: json_parse_std_def json_roundtrip)

lemma handle_data_dump:
  assumes "dumpable 0 j"
  shows "bili_handle_data b (bytes_of (dump_json j)) None =
    bili_do_read_header @ (if string_value (json_field j ''cmd'') = ''DANMU_MSG'' then danmu_msg j else [])"
proof -
  have "string_of (bytes_of (dump_json j) @ [0]) = dump_json j @ [CHR 0x00]"
    by (simp add: string_of_zero)
  moreover have "CHR 0x00 \<notin> set (dump_json j)"
    using dump_no_ctrl(1) [OF assms, of "CHR 0x00"] by auto
  ultimately have "c_str (string_of (bytes_of (dump_json j) @ [0])) = dump_json j" by simp
  then show ?thesis
    by (simp add: bili_handle_data_def json_parse_std_dump [OF assms])
qed

text \<open>A well-formed chat message: \<open>info[1]\<close> is the text, \<open>info[2]\<close> starts with uid and nickname.\<close>

definition chat_json :: "json \<Rightarrow> json \<Rightarrow> string \<Rightarrow> string \<Rightarrow> json list \<Rightarrow> json list \<Rightarrow> json" where
  "chat_json flags uid nickname body extra others =
     JObject [(''cmd'', JString ''DANMU_MSG''),
       (''info'', JArray (flags # JString body # JArray (uid # JString nickname # extra) # others))]"

lemma danmu_msg_chat:
  assumes "is_number uid \<Longrightarrow> double_to_uint64 (number_value uid) \<noteq> None"
  shows "danmu_msg (chat_json flags uid nickname body extra others) =
    [publish_json (if is_number uid then dec (the (double_to_uint64 (number_value uid))) else string_value uid)
       nickname body]"
  using assms
  by (cases uid) (auto simp: danmu_msg_def chat_json_def is_number_def is_string_def Let_def)

subsection \<open>Properties\<close>





text \<open>
  A well-formed \<open>DANMU_MSG\<close> is published with the uid as decimal digits, or as it is when it is a string,
  and with the nickname and text it carries.
\<close>
theorem bilibili_publishes_chat:
  assumes "is_number uid \<Longrightarrow> double_to_uint64 (number_value uid) \<noteq> None"
    and "dumpable 0 (chat_json flags uid nickname body extra others)"
  shows "bili_handle_data b (bytes_of (dump_json (chat_json flags uid nickname body extra others))) None =
    [Async_read 16 Handle_header,
     publish_json (if is_number uid then dec (the (double_to_uint64 (number_value uid))) else string_value uid)
       nickname body]"
  using handle_data_dump [OF assms(2)] danmu_msg_chat [OF assms(1)]
  by (simp add: chat_json_def bili_do_read_header_def)

theorem bilibili_publishes_chat_witness:
  "bili_handle_data (new_bili ''1'') (bytes_of (dump_json (chat_json JNull (JInt 42) ''n'' ''hi'' [] []))) None =
    [Async_read 16 Handle_header,
     publish_json (if is_number (JInt 42) then dec (the (double_to_uint64 (number_value (JInt 42))))
       else string_value (JInt 42)) ''n'' ''hi'']"
proof (rule bilibili_publishes_chat)
  show "double_to_uint64 (number_value (JInt 42)) \<noteq> None"
    using double_to_uint64_of_nat [of 42] by simp
  have "length (dec_int 42) \<le> 9" by code_simp
  then show "dumpable 0 (chat_json JNull (JInt 42) ''n'' ''hi'' [] [])"
    by (simp add: chat_json_def map_ok_def max_depth_def)
qed

text \<open>
  From \<open>start\<close> on at most one of the resolves, connects, reads and the write of the HTTP request is
  outstanding, in the HTTP phase and in the danmu phase.
\<close>
theorem bilibili_one_operation_outstanding:
  assumes "async_run (bili_step e) (b, started (snd (bili_start b0))) (b', pending)"
  shows "length (filter bili_chain pending) \<le> 1"
  using bilibili.one_outstanding [OF assms] by (simp add: bili_start_def bili_chain_def)

theorem bilibili_one_operation_outstanding_witness:
  "length (filter bili_chain (remove1 On_http_resolve (started (snd (bili_start (new_bili ''1'')))) @
     started [Async_connect On_http_connect])) \<le> 1"
proof -
  let ?b = "new_bili ''1''"
  have "async_run (bili_step calm) (?b, started (snd (bili_start ?b)))
      (?b, remove1 On_http_resolve (started (snd (bili_start ?b))) @ started [Async_connect On_http_connect])"
    by (rule complete [OF begin_run, where i = "([], None)"])
      (simp_all add: bili_start_def bili_step_def on_http_resolve_def)
  then show ?thesis by (rule bilibili_one_operation_outstanding)
qed

text \<open>
  The body of the HTTP response is not what the client keeps: bytes that came with the header are dropped,
  and since the buffer is never consumed, each chunk is appended again with every later one.
\<close>
theorem bilibili_body_piles_up:
  "m_live_msg (feed e (fst (bili_step e b Handle_http_read_header (hd_bytes, None))) ds) =
     m_live_msg b @ concat (map (\<lambda>k. string_of (concat (take (Suc k) ds))) [0..<length ds])"
proof -
  have p: "piled r ds = concat (map (\<lambda>k. r @ string_of (concat (take (Suc k) ds))) [0..<length ds])" for r ds
  proof (induction ds arbitrary: r)
    case (Cons d ds)
    have "[0..<length (d # ds)] = 0 # map Suc [0..<length ds]"
      by (simp add: map_Suc_upt upt_conv_Cons del: upt_Suc)
    then show ?case by (simp add: Cons comp_def del: upt_Suc)
  qed simp
  have "m_response (fst (bili_step e b Handle_http_read_header (hd_bytes, None))) = []"
    "m_live_msg (fst (bili_step e b Handle_http_read_header (hd_bytes, None))) = m_live_msg b"
    by (simp_all add: bili_step_def handle_http_read_header_def)
  then show ?thesis by (simp only: feed_live_msg p) simp
qed

text \<open>
  Since any room id is valid, a client can put line breaks into it: the request to the HTTP server then
  starts with a complete request of the client's making.
\<close>
theorem bilibili_request_injection:
  "bili_is_room_valid b \<and>
   has_prefix (''GET '' @ m_live_api_path @ target @ '' HTTP/1.0'' @ crlf @ headers @ crlf @ crlf)
     (bili_request (target @ '' HTTP/1.0'' @ crlf @ headers @ crlf @ crlf @ rest))"
proof -
  have "bili_request (target @ '' HTTP/1.0'' @ crlf @ headers @ crlf @ crlf @ rest) =
      (''GET '' @ m_live_api_path @ target @ '' HTTP/1.0'' @ crlf @ headers @ crlf @ crlf) @
      rest @ '' HTTP/1.0'' @ crlf @ ''Host: '' @ m_live_api_host @ crlf @ ''Accept: */*'' @ crlf @
      ''Connection: close'' @ crlf @ crlf"
    unfolding bili_request_def by (simp only: append_assoc)
  then show ?thesis by (simp only: has_prefix_append bili_is_room_valid_def simp_thms)
qed

text \<open>
  A status line of HTTP version, status code and message makes the client go on to the header exactly for
  code 200; for any other code it reports a bad message.  The rest of the buffer is kept.
\<close>
theorem bilibili_status_line:
  assumes "\<forall>c \<in> set v. \<not> is_space c" "n \<le> UINT_MAX" "\<not> isdig x" "CHR 0x0A \<notin> set (x # msg)"
    and "m_response b = ''HTTP/'' @ v @ CHR '' '' # dec n @ x # msg @ CHR 0x0A # rest"
  shows "handle_http_read_status_line b None =
    (b\<lparr>m_response := rest\<rparr>,
     if n = 200 then [Async_read_until (crlf @ crlf) Handle_http_read_header] else bili_report b bad_message)"
proof -
  have sp: "\<forall>c \<in> set (''HTTP/'' @ v). \<not> is_space c" using assms(1) by (simp add: is_space_def)
  have "parse_status_line ((''HTTP/'' @ v) @ CHR '' '' # dec n @ x # msg @ CHR 0x0A # rest) =
      (''HTTP/'' @ v, n, False, rest)"
    by (rule parse_status_line_ok [OF _ sp assms(2-4)]) simp
  then have "parse_status_line (m_response b) = (''HTTP/'' @ v, n, False, rest)" by (simp add: assms(5))
  then show ?thesis by (simp add: handle_http_read_status_line_def)
qed

theorem bilibili_status_line_witness:
  "handle_http_read_status_line
     ((new_bili ''1'')\<lparr>m_response := ''HTTP/'' @ ''1.1'' @ CHR '' '' # dec 404 @ CHR '' '' # ''Not'' @ CHR 0x0A # ''rest''\<rparr>) None =
    ((new_bili ''1'')\<lparr>m_response := ''HTTP/'' @ ''1.1'' @ CHR '' '' # dec 404 @ CHR '' '' # ''Not'' @ CHR 0x0A # ''rest''\<rparr>
       \<lparr>m_response := ''rest''\<rparr>,
     if 404 = (200::nat) then [Async_read_until (crlf @ crlf) Handle_http_read_header]
     else bili_report ((new_bili ''1'')\<lparr>m_response := ''HTTP/'' @ ''1.1'' @ CHR '' '' # dec 404 @ CHR '' '' # ''Not'' @ CHR 0x0A # ''rest''\<rparr>)
       bad_message)"
  by (rule bilibili_status_line [where v = "''1.1''" and x = "CHR '' ''" and msg = "''Not''"])
    (simp_all add: is_space_def UINT_MAX_def isdig_def)

end
