(* ===== verification/YY.thy ===== *)
theory YY
  imports Platform_Base Json_Total Others
begin

section \<open>platforms/YY: the YY client\<close>

text \<open>
  \<open>class platform_YY\<close>, a websocket client.  \<open>m_hb_timer\<close> is a \<open>shared_ptr\<close>: the field says
  whether it is set, since it is null until the first login message.  The three
  \<open>std::map\<close>s are ascending association lists.  The events are the handlers that \<open>start\<close>
  registers with the connection, and the heartbeat timer.
\<close>

record yy = base +
  m_hb_timer :: bool
  m_login_info :: "(string \<times> string) list"
  m_init_info :: "(string \<times> string) list"
  m_hb_info :: "(string \<times> string) list"

definition new_yy :: "string \<Rightarrow> yy" where
  "new_yy roomid = \<lparr>m_listeners = [], m_close_callback = False, m_platform_name = ''YY'',
     m_roomid = roomid, m_hb_timer = False, m_login_info = [], m_init_info = [], m_hb_info = []\<rparr>"

datatype ws_event =
    Opened
  | Failed error_code              \<comment> \<open>\<open>get_ec\<close> of the connection\<close>
  | Message_received opcode string
  | Closed
  | Timer_fired error_code

definition m_ws_url :: string where
  "m_ws_url = ''ws://tvgw.yy.com:26101/websocket''"

definition svc_link :: string where
  "svc_link = ''66b2c67d-f7ab-4355-a6f0-b52ffccc857e''"

definition yy_is_room_valid :: "'a base_scheme \<Rightarrow> bool" where
  "yy_is_room_valid b = str_is_num (m_roomid b)"

abbreviation yy_report :: "'a base_scheme \<Rightarrow> error_code \<Rightarrow> effect list" where
  "yy_report b ec \<equiv> client_report (m_platform_name b) (m_roomid b) ec"

abbreviation yy_close_report :: "'a base_scheme \<Rightarrow> error_code \<Rightarrow> effect list" where
  "yy_close_report b ec \<equiv> client_close_and_report_ws (m_platform_name b) (m_roomid b) ec"

definition yy_start :: "env \<Rightarrow> yy \<Rightarrow> yy \<times> effect list" where
  "yy_start e b =
     (let ec = get_connection_ec e in
      if ec \<noteq> None then (b, yy_report b ec)
      else (b\<lparr>m_hb_info := map_set ''svc_link'' svc_link (map_set ''uri'' ''6'' (m_hb_info b))\<rparr>,
            [Ws_connect m_ws_url]))"

text \<open>\<open>m_hb_timer->cancel()\<close>\<close>

definition hb_timer_cancel :: "yy \<Rightarrow> effect list" where
  "hb_timer_cancel b = (if m_hb_timer b then [Timer_cancel] else [Fault Null_pointer])"

definition yy_close :: "env \<Rightarrow> yy \<Rightarrow> effect list" where
  "yy_close e b = hb_timer_cancel b @ [Ws_close] @ yy_report b (client_close_ec e)"

subsection \<open>Packets\<close>

definition json_of_map :: "(string \<times> string) list \<Rightarrow> json" where
  "json_of_map m = JObject (map (\<lambda>(k, v). (k, JString v)) m)"

definition login_info :: "(string \<times> string) list" where
  "login_info = map_set ''svc_link'' svc_link (map_set ''type'' ''0'' (map_set ''uri'' ''0'' []))"

definition yy_login_packet :: "yy \<Rightarrow> yy \<times> string" where
  "yy_login_packet b = (b\<lparr>m_login_info := login_info\<rparr>, dump_json (json_of_map login_info))"

definition init_info :: "string \<Rightarrow> (string \<times> string) list" where
  "init_info roomid = map_set ''svc_link'' svc_link (map_set ''sub_sid'' roomid
     (map_set ''top_sid'' roomid (map_set ''uri'' ''1'' [])))"

definition yy_init_packet :: "yy \<Rightarrow> yy \<times> string" where
  "yy_init_packet b =
     (b\<lparr>m_init_info := init_info (m_roomid b)\<rparr>, dump_json (json_of_map (init_info (m_roomid b))))"

subsection \<open>Handlers\<close>

definition yy_on_client_fail :: "yy \<Rightarrow> error_code \<Rightarrow> effect list" where
  "yy_on_client_fail b ec = yy_report b ec"

definition yy_chat :: "env \<Rightarrow> yy \<Rightarrow> json \<Rightarrow> effect list" where
  "yy_chat e b msg_json =
     (case double_to_uint64 (number_value (json_field msg_json ''uid'')) of
        None \<Rightarrow> [Fault Bad_cast]
      | Some k \<Rightarrow>
          let uid = dec k;
              nickname = string_value (json_field msg_json ''nick'');
              chat_msg = string_value (json_field msg_json ''chat_msg'')
          in case xml_get e chat_msg [''msg'', ''txt'', ''<xmlattr>'', ''data''] of
               None \<Rightarrow> []
             | Some msg_data \<Rightarrow> [publish_json uid nickname chat_msg])"

definition yy_response :: "env \<Rightarrow> yy \<Rightarrow> error_code \<Rightarrow> json \<Rightarrow> yy \<times> effect list" where
  "yy_response e b ec msg_json =
     (let resp = string_value (json_field msg_json ''response'') in
      if resp = ''login'' then
        let (b', packet) = yy_login_packet b; (send, ec1) = client_send e ec (bytes_of packet) TEXT in
        (b'\<lparr>m_hb_timer := True\<rparr>, send @ yy_close_report b ec1 @ [Ws_set_timer 45000])
      else if resp = ''init'' then
        let (b', packet) = yy_init_packet b; (send, ec1) = client_send e ec (bytes_of packet) TEXT in
        (b', send @ yy_close_report b ec1 @ (if ec1 \<noteq> None then hb_timer_cancel b else []))
      else if resp = ''join'' then (b, [])
      else if resp = ''chat'' then (b, yy_chat e b msg_json)
      else (b, []))"

text \<open>\<open>on_client_message\<close> goes on after it has reported a bad message, with the error code set.\<close>

definition yy_on_client_message :: "env \<Rightarrow> yy \<Rightarrow> opcode \<Rightarrow> string \<Rightarrow> yy \<times> effect list" where
  "yy_on_client_message e b opc payload =
     (let ec = (if opc \<noteq> TEXT then bad_message else None);
          bad_opcode = yy_close_report b ec;
          (msg_json, err) = json_parse_std payload;
          ec1 = (if err \<noteq> [] then bad_message else ec);
          bad_json = (if err \<noteq> [] then yy_close_report b ec1 else []);
          (b', effs) = yy_response e b ec1 msg_json
      in (b', bad_opcode @ bad_json @ effs))"

definition yy_on_client_close :: "yy \<Rightarrow> effect list" where
  "yy_on_client_close b =
     [Publish ''YY danmu connection closed!''] @ hb_timer_cancel b @
     [Close_callback (roomstr_of (m_platform_name b) (m_roomid b))]"

definition yy_handle_heartbeat :: "env \<Rightarrow> yy \<Rightarrow> error_code \<Rightarrow> yy \<times> effect list" where
  "yy_handle_heartbeat e b ec =
     (if ec \<noteq> None then (b, yy_close_report b ec)
      else
        let b1 = b\<lparr>m_hb_info := map_set ''ts'' (dec (now e)) (m_hb_info b)\<rparr>;
            hb = dump_json (json_of_map (m_hb_info b1));
            (send, ec1) = client_send e ec (bytes_of hb) TEXT
        in if ec1 \<noteq> None then (b1, send @ yy_close_report b1 ec1)
           else (b1\<lparr>m_hb_timer := True\<rparr>, send @ [Ws_set_timer 45000]))"

definition yy_step :: "env \<Rightarrow> yy \<Rightarrow> ws_event \<Rightarrow> yy \<times> effect list" where
  "yy_step e b ev = (case ev of
       Opened \<Rightarrow> (b, [])
     | Failed ec \<Rightarrow> (b, yy_on_client_fail b ec)
     | Message_received opc payload \<Rightarrow> yy_on_client_message e b opc payload
     | Closed \<Rightarrow> (b, yy_on_client_close b)
     | Timer_fired ec \<Rightarrow> yy_handle_heartbeat e b ec)"

subsection \<open>Packets read back\<close>

lemma json_of_map_dumpable: "map_ok m \<Longrightarrow> dumpable 0 (json_of_map m)"
  by (auto simp: json_of_map_def map_ok_def comp_def case_prod_unfold max_depth_def list_all_iff)

lemma json_field_of_map: "json_field (json_of_map m) k = (case map_of m k of Some v \<Rightarrow> JString v | None \<Rightarrow> JNull)"
proof -
  have "map_of (map (\<lambda>(k, v). (k, JString v)) m) k = map_option JString (map_of m k)"
    by (induction m) auto
  then show ?thesis by (simp add: json_of_map_def split: option.split)
qed

lemma parse_packet: "map_ok m \<Longrightarrow> json_parse_std (dump_json (json_of_map m)) = (json_of_map m, [])"
  by (simp add: json_parse_std_def json_roundtrip json_of_map_dumpable)

lemma map_ok_Nil [simp]: "map_ok []"
  by (simp add: map_ok_def)

lemma infos_ok: "map_ok login_info" "map_ok (init_info roomid)"
  by (simp_all add: login_info_def init_info_def map_ok_def)

lemma login_info_eq: "login_info = [(''svc_link'', svc_link), (''type'', ''0''), (''uri'', ''0'')]"
  by (simp add: login_info_def)

lemma init_info_eq: "init_info roomid =
    [(''sub_sid'', roomid), (''svc_link'', svc_link), (''top_sid'', roomid), (''uri'', ''1'')]"
  by (simp add: init_info_def)

subsection \<open>The heartbeat timer\<close>

definition hb_info_ok :: "yy \<Rightarrow> bool" where
  "hb_info_ok b \<longleftrightarrow> map_ok (m_hb_info b)"

lemma yy_step_frame:
  "yy_step e b ev = (b', effs) \<Longrightarrow>
     m_platform_name b' = m_platform_name b \<and> m_roomid b' = m_roomid b \<and>
     m_listeners b' = m_listeners b \<and> m_close_callback b' = m_close_callback b"
  by (cases ev)
    (auto simp: yy_step_def yy_on_client_message_def yy_response_def client_send_def yy_login_packet_def
      yy_init_packet_def yy_handle_heartbeat_def Let_def split: prod.splits if_splits)

lemma yy_step_timer:
  "yy_step e b ev = (b', effs) \<Longrightarrow> m_hb_timer b \<Longrightarrow> m_hb_timer b'"
  by (cases ev)
    (auto simp: yy_step_def yy_on_client_message_def yy_response_def client_send_def yy_login_packet_def
      yy_init_packet_def yy_handle_heartbeat_def Let_def split: prod.splits if_splits)

lemma yy_step_hb_info:
  "yy_step e b ev = (b', effs) \<Longrightarrow> hb_info_ok b \<Longrightarrow> hb_info_ok b'"
  by (cases ev)
    (auto simp: yy_step_def yy_on_client_message_def yy_response_def client_send_def yy_login_packet_def
      yy_init_packet_def yy_handle_heartbeat_def Let_def hb_info_ok_def map_ok_map_set
      split: prod.splits if_splits)

text \<open>Runs of the client: the object after a sequence of events, and all that it asked for.\<close>

inductive yy_run :: "env \<Rightarrow> yy \<Rightarrow> ws_event list \<Rightarrow> yy \<Rightarrow> effect list \<Rightarrow> bool" for e b0 where
  yy_begin: "yy_run e b0 [] b0 []"
| yy_event: "yy_run e b0 evs b effs \<Longrightarrow> yy_step e b ev = (b', effs') \<Longrightarrow>
     yy_run e b0 (evs @ [ev]) b' (effs @ effs')"

inductive_cases yy_run_snoc: "yy_run e b0 (evs @ [ev]) b effs"

text \<open>The responses that make the client log in: a message whose \<open>response\<close> is \<open>login\<close>.\<close>

definition is_login :: "ws_event \<Rightarrow> bool" where
  "is_login ev = (case ev of
       Message_received opc payload \<Rightarrow>
         string_value (json_field (fst (json_parse_std payload)) ''response'') = ''login''
     | _ \<Rightarrow> False)"

lemma yy_step_login: "m_hb_timer (fst (yy_step e b ev)) \<longleftrightarrow> m_hb_timer b \<or> is_login ev \<or>
    (\<exists>ec. ev = Timer_fired ec \<and> ec = None \<and> client_send_ec e = None)"
  by (cases ev)
    (auto simp: yy_step_def yy_on_client_message_def yy_response_def client_send_def yy_login_packet_def
      yy_init_packet_def yy_handle_heartbeat_def is_login_def Let_def split: prod.splits if_splits)

lemma yy_run_timer:
  assumes "yy_run e b0 evs b effs" "\<And>ec. Timer_fired ec \<notin> set evs"
  shows "m_hb_timer b \<longleftrightarrow> m_hb_timer b0 \<or> list_ex is_login evs"
  using assms
proof (induction rule: yy_run.induct)
  case (yy_event evs b effs ev b' effs')
  have no: "ev \<noteq> Timer_fired ec" for ec using yy_event.prems [of ec] by auto
  have "m_hb_timer b' \<longleftrightarrow> m_hb_timer b \<or> is_login ev"
    using yy_step_login [of e b ev] yy_event.hyps(2) no by simp
  moreover have "m_hb_timer b \<longleftrightarrow> m_hb_timer b0 \<or> list_ex is_login evs"
    using yy_event.IH yy_event.prems by simp
  ultimately show ?case by auto
qed simp

lemma yy_close_fault: "list_ex is_fault (yy_close e b) \<longleftrightarrow> \<not> m_hb_timer b"
  by (simp add: yy_close_def hb_timer_cancel_def) (simp add: is_fault_def)

lemma yy_on_client_close_fault: "list_ex is_fault (yy_on_client_close b) \<longleftrightarrow> \<not> m_hb_timer b"
  by (simp add: yy_on_client_close_def hb_timer_cancel_def) (simp add: is_fault_def)

subsection \<open>Chat messages\<close>

definition yy_chat_json :: "json \<Rightarrow> string \<Rightarrow> string \<Rightarrow> json" where
  "yy_chat_json uid nick chat_msg =
     JObject [(''chat_msg'', JString chat_msg), (''nick'', JString nick),
       (''response'', JString ''chat''), (''uid'', uid)]"

lemma yy_message_text:
  "json_parse_std payload = (j, []) \<Longrightarrow> yy_on_client_message e b TEXT payload = yy_response e b None j"
  by (simp add: yy_on_client_message_def split: prod.split)

lemma yy_response_chat:
  assumes "double_to_uint64 (number_value uid) = Some k"
  shows "yy_response e b ec (yy_chat_json uid nick chat_msg) =
    (b, case xml_get e chat_msg [''msg'', ''txt'', ''<xmlattr>'', ''data''] of
          None \<Rightarrow> [] | Some _ \<Rightarrow> [publish_json (dec k) nick chat_msg])"
  using assms by (simp add: yy_response_def yy_chat_def yy_chat_json_def split: option.split)

subsection \<open>Properties\<close>

text \<open>
  The login and the init packet are JSON objects that a parser reads back with the fields the server
  expects: the login message number, and the room id as both top and sub channel.
\<close>
theorem yy_packets_parse_back:
  "json_parse_std (snd (yy_login_packet b)) = (json_of_map [(''svc_link'', svc_link), (''type'', ''0''), (''uri'', ''0'')], []) \<and>
   json_parse_std (snd (yy_init_packet b)) = (json_of_map [(''sub_sid'', m_roomid b), (''svc_link'', svc_link),
     (''top_sid'', m_roomid b), (''uri'', ''1'')], [])"
  using parse_packet [OF infos_ok(1)] parse_packet [OF infos_ok(2), of "m_roomid b"]
  by (simp only: yy_login_packet_def yy_init_packet_def snd_conv login_info_eq init_info_eq simp_thms)

text \<open>
  Without a message that asks for a login, and before the timer could fire, the heartbeat timer is null, so closing the
  platform and the end of its connection dereference a null pointer; with one, they do not.
\<close>
theorem yy_close_needs_login:
  assumes "yy_run e (new_yy roomid) evs b effs" "\<And>ec. Timer_fired ec \<notin> set evs"
  shows "(list_ex is_fault (yy_close e' b) \<longleftrightarrow> \<not> list_ex is_login evs) \<and>
    (list_ex is_fault (yy_on_client_close b) \<longleftrightarrow> \<not> list_ex is_login evs)"
  using yy_run_timer [OF assms] by (simp add: yy_close_fault yy_on_client_close_fault new_yy_def)

theorem yy_close_needs_login_witness:
  "(list_ex is_fault (yy_close calm (new_yy ''1'')) \<longleftrightarrow> \<not> list_ex is_login [Opened]) \<and>
   (list_ex is_fault (yy_on_client_close (new_yy ''1'')) \<longleftrightarrow> \<not> list_ex is_login [Opened])"
proof -
  have "yy_run calm (new_yy ''1'') ([] @ [Opened]) (new_yy ''1'') ([] @ [])"
    by (rule yy_event [OF yy_begin]) (simp add: yy_step_def)
  from yy_close_needs_login [OF this] show ?thesis by simp
qed

text \<open>
  A chat message whose uid is a \<open>uint64_t\<close> is published, with the uid in decimal, exactly when its XML has
  a text in \<open>msg.txt\<close>; the state of the client does not change.
\<close>
theorem yy_publishes_chat:
  assumes "double_to_uint64 (number_value uid) = Some k" "dumpable 0 (yy_chat_json uid nick chat_msg)"
  shows "yy_step e b (Message_received TEXT (dump_json (yy_chat_json uid nick chat_msg))) =
    (b, case xml_get e chat_msg [''msg'', ''txt'', ''<xmlattr>'', ''data''] of
          None \<Rightarrow> [] | Some _ \<Rightarrow> [publish_json (dec k) nick chat_msg])"
proof -
  have "json_parse_std (dump_json (yy_chat_json uid nick chat_msg)) = (yy_chat_json uid nick chat_msg, [])"
    by (simp add: json_parse_std_def json_roundtrip [OF assms(2)])
  from yy_message_text [OF this] show ?thesis
    by (simp add: yy_step_def yy_response_chat [OF assms(1)])
qed

theorem yy_publishes_chat_witness:
  "yy_step calm (new_yy ''1'') (Message_received TEXT (dump_json (yy_chat_json (JInt 5) ''n'' ''<a/>''))) =
    (new_yy ''1'', case xml_get calm ''<a/>'' [''msg'', ''txt'', ''<xmlattr>'', ''data''] of
          None \<Rightarrow> [] | Some _ \<Rightarrow> [publish_json (dec 5) ''n'' ''<a/>''])"
proof (rule yy_publishes_chat)
  show "double_to_uint64 (number_value (JInt 5)) = Some 5"
    using double_to_uint64_of_nat [of 5] by simp
  have "length (dec_int 5) \<le> 9" by code_simp
  then show "dumpable 0 (yy_chat_json (JInt 5) ''n'' ''<a/>'')"
    by (simp add: yy_chat_json_def map_ok_def max_depth_def)
qed

end
