(* ===== verification/Huajiao_Config.thy ===== *)
theory Huajiao_Config
  imports Others
begin

section \<open>platforms/huajiao/huajiao_config: packet types and connection data\<close>

text \<open>
  The enumerations of \<open>huajiao_config.hpp\<close> with their numbers, the constant configuration, and
  \<open>huajiao_conn_info_t\<close> with its constructor.  \<open>sn\<close> is a \<open>time_t\<close> that holds a random number.
\<close>

datatype packet_type =
    RestoreSessionReq | LoginReq | ChatReq | QueryInfoReq | GetInfoReq | LogoutReq
  | QueryUserStatusReq | QueryUserRegReq | InitLoginReq | ExQueryUserStatusReq | Service_Req
  | Ex1QueryUserStatusReq | QueryPeerMsgMaxIdReq | QueryConvSummaryReq | UpdateSessionReq
  | RestoreSessionResp | LoginResp | ChatResp | QueryInfoResp | GetInfoResp | LogoutResp
  | QueryUserStatusResp | QueryUserRegResp | InitLoginResp | ExQueryUserStatusResp | Service_Resp
  | Ex1QueryUserStatusResp | QueryPeerMsgMaxIdResp | QueryConvSummaryResp | UpdateSessionResp
  | NewMessageNotify | ReLoginNotify | ReConnectNotify

fun packet_code :: "packet_type \<Rightarrow> nat" where
  "packet_code RestoreSessionReq = 100000"
| "packet_code LoginReq = 100001"
| "packet_code ChatReq = 100002"
| "packet_code QueryInfoReq = 100003"
| "packet_code GetInfoReq = 100004"
| "packet_code LogoutReq = 100005"
| "packet_code QueryUserStatusReq = 100007"
| "packet_code QueryUserRegReq = 100008"
| "packet_code InitLoginReq = 100009"
| "packet_code ExQueryUserStatusReq = 100010"
| "packet_code Service_Req = 100011"
| "packet_code Ex1QueryUserStatusReq = 100012"
| "packet_code QueryPeerMsgMaxIdReq = 100013"
| "packet_code QueryConvSummaryReq = 100014"
| "packet_code UpdateSessionReq = 100015"
| "packet_code RestoreSessionResp = 200000"
| "packet_code LoginResp = 200001"
| "packet_code ChatResp = 200002"
| "packet_code QueryInfoResp = 200003"
| "packet_code GetInfoResp = 200004"
| "packet_code LogoutResp = 200005"
| "packet_code QueryUserStatusResp = 200007"
| "packet_code QueryUserRegResp = 200008"
| "packet_code InitLoginResp = 200009"
| "packet_code ExQueryUserStatusResp = 200010"
| "packet_code Service_Resp = 200011"
| "packet_code Ex1QueryUserStatusResp = 200012"
| "packet_code QueryPeerMsgMaxIdResp = 200013"
| "packet_code QueryConvSummaryResp = 200014"
| "packet_code UpdateSessionResp = 200015"
| "packet_code NewMessageNotify = 300000"
| "packet_code ReLoginNotify = 300001"
| "packet_code ReConnectNotify = 300002"

datatype notify_type =
    SuccessFul | ApplyJoinChatRoomResp | QuitChatRoomResp | NewmsgNotify | MemberJoinNotify
  | MemberQuitNotify | MemberGzipNotify

fun notify_code :: "notify_type \<Rightarrow> nat" where
  "notify_code SuccessFul = 0"
| "notify_code ApplyJoinChatRoomResp = 102"
| "notify_code QuitChatRoomResp = 103"
| "notify_code NewmsgNotify = 1000"
| "notify_code MemberJoinNotify = 1001"
| "notify_code MemberQuitNotify = 1002"
| "notify_code MemberGzipNotify = 1003"

text \<open>The numbers are pairwise different, so a \<open>switch\<close> over them selects one case.\<close>

lemma packet_code_inj: "packet_code t = packet_code u \<longleftrightarrow> t = u"
  by (cases t; cases u; simp)

lemma notify_code_inj: "notify_code t = notify_code u \<longleftrightarrow> t = u"
  by (cases t; cases u; simp)

definition appId :: nat where
  "appId = 2080"

definition defaultKey :: string where
  "defaultKey = ''3f190210cb1cf32a2378ee57900acf78''"

definition senderType :: string where
  "senderType = ''jid''"

definition wsServer :: string where
  "wsServer = ''ws://bridge.huajiao.com''"

definition MOBILE_PC :: string where
  "MOBILE_PC = ''pc''"

record conn_info =
  userid :: string
  password :: string
  sender :: string
  roomId :: string
  handshake :: bool
  sign :: string
  client_ram :: string
  server_ram :: string
  session :: string
  bLogin :: bool
  bJoin :: bool
  sn :: int

definition account :: string where
  "account = ''688961111731502278921563''"

definition new_conn_info :: "(nat \<Rightarrow> int \<Rightarrow> int \<Rightarrow> int) \<Rightarrow> conn_info" where
  "new_conn_info dist =
     \<lparr>userid = account, password = account, sender = account, roomId = [], handshake = False,
      sign = [], client_ram = random_string dist 10, server_ram = [], session = [], bLogin = False,
      bJoin = False, sn = random_number dist 10\<rparr>"

end
