(* ===== verification/Crypto.thy ===== *)
theory Crypto
  imports Prelude
begin

section \<open>utils/md5 and utils/rc4\<close>

text \<open>
  The digest and the cipher are those of OpenSSL: \<open>MD5\<close> is the argument \<open>md5\<close>, from the text to
  the digest, and \<open>RC4_set_key\<close> followed by \<open>RC4\<close> is the argument \<open>rc4\<close>, from key and data to
  the output.  What the code relies on: a digest has 16 bytes; RC4 keeps the length, and applied
  twice with one key it gives the data back.
\<close>

type_synonym cipher = "byte list \<Rightarrow> byte list \<Rightarrow> byte list"

definition md5_ok :: "(byte list \<Rightarrow> byte list) \<Rightarrow> bool" where
  "md5_ok md5 \<longleftrightarrow> (\<forall>t. length (md5 t) = 16)"

definition rc4_ok :: "cipher \<Rightarrow> bool" where
  "rc4_ok rc4 \<longleftrightarrow> (\<forall>k d. length (rc4 k d) = length d \<and> rc4 k (rc4 k d) = d)"

definition HEX_NUMBERS :: string where
  "HEX_NUMBERS = ''0123456789abcdef''"

text \<open>The loop over the digest.\<close>

fun md5_hex :: "byte list \<Rightarrow> string" where
  "md5_hex [] = []"
| "md5_hex (d # digest) =
     (let t = unat d; a = t div 16; b = t mod 16
      in HEX_NUMBERS ! a # HEX_NUMBERS ! b # md5_hex digest)"

definition md5_str :: "(byte list \<Rightarrow> byte list) \<Rightarrow> string \<Rightarrow> string" where
  "md5_str md5 tx = md5_hex (md5 (bytes_of tx))"

definition rc4_vector :: "cipher \<Rightarrow> byte list \<Rightarrow> byte list \<Rightarrow> byte list" where
  "rc4_vector rc4 data key_data = rc4 key_data data"

definition rc4_str :: "cipher \<Rightarrow> byte list \<Rightarrow> byte list \<Rightarrow> string" where
  "rc4_str rc4 data key_data = string_of (rc4 key_data data)"

subsection \<open>The hexadecimal digest\<close>

fun hex_value :: "char \<Rightarrow> nat" where
  "hex_value c = (if ord c < 58 then ord c - 48 else ord c - 87)"

fun hex_bytes :: "string \<Rightarrow> byte list" where
  "hex_bytes (a # b # s) = word_of_nat (16 * hex_value a + hex_value b) # hex_bytes s"
| "hex_bytes _ = []"

lemma length_HEX_NUMBERS [simp]: "length HEX_NUMBERS = 16"
  by (simp add: HEX_NUMBERS_def)

lemma hex_digit: "n < 16 \<Longrightarrow> HEX_NUMBERS ! n \<in> set HEX_NUMBERS"
  by (intro nth_mem) simp

lemma hex_value_digit: "n < 16 \<Longrightarrow> hex_value (HEX_NUMBERS ! n) = n"
proof -
  have "\<forall>n < 16. hex_value (HEX_NUMBERS ! n) = n" by code_simp
  then show "n < 16 \<Longrightarrow> hex_value (HEX_NUMBERS ! n) = n" by blast
qed

lemma unat_byte_div: "unat (d :: byte) div 16 < 16"
  using unsigned_less [of d, where 'a = nat] by simp

lemma length_md5_hex: "length (md5_hex ds) = 2 * length ds"
  by (induction ds) (simp_all add: Let_def)

lemma md5_hex_chars: "set (md5_hex ds) \<subseteq> set HEX_NUMBERS"
  by (induction ds) (simp_all add: Let_def hex_digit unat_byte_div)

lemma hex_bytes_md5_hex: "hex_bytes (md5_hex ds) = ds"
proof (induction ds)
  case (Cons d ds)
  have "16 * (unat d div 16) + unat d mod 16 = unat d" by simp
  then show ?case
    using Cons by (simp add: Let_def hex_value_digit unat_byte_div del: hex_value.simps)
qed simp

lemma length_rc4_vector: "rc4_ok rc4 \<Longrightarrow> length (rc4_vector rc4 d k) = length d"
  by (simp add: rc4_ok_def rc4_vector_def)

lemma rc4_vector_twice: "rc4_ok rc4 \<Longrightarrow> rc4_vector rc4 (rc4_vector rc4 d k) k = d"
  by (simp add: rc4_ok_def rc4_vector_def)

text \<open>A concrete cipher with these properties: every byte is XORed with the first of the key.\<close>

definition xor_cipher :: cipher where
  "xor_cipher k d = map (\<lambda>b. b XOR hd (k @ [0])) d"

lemma rc4_ok_xor: "rc4_ok xor_cipher"
  by (simp add: rc4_ok_def xor_cipher_def comp_def xor.assoc)

subsection \<open>Properties\<close>

text \<open>
  \<open>md5_str\<close> writes two hexadecimal digits per byte of the digest, from which the digest can be read back.
\<close>
theorem md5_str_hex:
  "length (md5_str md5 tx) = 2 * length (md5 (bytes_of tx)) \<and>
   set (md5_str md5 tx) \<subseteq> set HEX_NUMBERS \<and> hex_bytes (md5_str md5 tx) = md5 (bytes_of tx)"
  by (simp add: md5_str_def length_md5_hex md5_hex_chars hex_bytes_md5_hex)

end
