(* ===== verification/Gzip.thy ===== *)
theory Gzip
  imports Effects
begin

section \<open>utils/gzip: the two decompression loops\<close>

text \<open>
  \<open>inflate\<close> is zlib's and an argument of the model: from the compressed input, the \<open>avail_out\<close>
  of the calls made so far on this stream (latest first) and the present \<open>avail_out\<close> to the
  return code and the bytes it writes.  A result is \<open>Inl\<close> of a fault, \<open>Inr None\<close> for \<open>false\<close>, or
  \<open>Inr (Some out)\<close> for \<open>true\<close> with the output.  The loops are partial functions: \<open>None\<close> is a
  loop that never ends, which an \<open>inflate\<close> that fills the buffer for ever would cause.
\<close>

datatype zret = Z_OK | Z_STREAM_END | Z_NEED_DICT | Z_STREAM_ERROR | Z_DATA_ERROR | Z_MEM_ERROR | Z_BUF_ERROR

type_synonym inflate = "byte list \<Rightarrow> nat list \<Rightarrow> nat \<Rightarrow> zret \<times> byte list"
type_synonym unzipped = "fault + byte list option"

text \<open>What a round does with the return code before it looks at the output.\<close>

definition check_ret :: "zret \<Rightarrow> unzipped option" where
  "check_ret ret =
     (case ret of
        Z_STREAM_ERROR \<Rightarrow> Some (Inl Assertion)
      | Z_NEED_DICT \<Rightarrow> Some (Inr None)
      | Z_DATA_ERROR \<Rightarrow> Some (Inr None)
      | Z_MEM_ERROR \<Rightarrow> Some (Inr None)
      | _ \<Rightarrow> None)"

subsection \<open>Into a growing vector\<close>

definition v_temp_size :: nat where
  "v_temp_size = 4 * 1024"

partial_function (option) ungzip_loop ::
  "inflate \<Rightarrow> byte list \<Rightarrow> nat list \<Rightarrow> byte list \<Rightarrow> unzipped option" where
  "ungzip_loop inflate inp hist out =
     (let ret = fst (inflate inp hist v_temp_size); written = snd (inflate inp hist v_temp_size) in
      case check_ret ret of
        Some r \<Rightarrow> Some r
      | None \<Rightarrow>
          let avail_out = v_temp_size - length written;
              have = v_temp_size - avail_out;
              out' = (if have > 0 then out @ take have written else out)
          in if avail_out = 0 then ungzip_loop inflate inp (v_temp_size # hist) out'
             else Some (Inr (Some out')))"

text \<open>
  \<open>&in[0]\<close> of an empty vector is undefined.  \<open>init\<close> is the result of \<open>inflateInit2\<close>.
\<close>

definition ungzip :: "zret \<Rightarrow> inflate \<Rightarrow> byte list \<Rightarrow> unzipped option" where
  "ungzip init inflate inp =
     (if init \<noteq> Z_OK then Some (Inr None)
      else if inp = [] then Some (Inl Bad_index)
      else ungzip_loop inflate inp [] [])"

subsection \<open>Into a buffer of sixteen times the input\<close>

text \<open>
  \<open>count_out\<close> is what the loop adds up.  A round that starts with \<open>count_out > uncomprLen\<close>
  hands \<open>inflate\<close> a pointer behind the buffer and the wrapped difference as its size.  The
  argument \<open>count_in\<close> is taken to be the length of the input.
\<close>

partial_function (option) ungzip_n_loop ::
  "inflate \<Rightarrow> byte list \<Rightarrow> nat \<Rightarrow> nat list \<Rightarrow> nat \<Rightarrow> byte list \<Rightarrow> unzipped option" where
  "ungzip_n_loop inflate inp uncomprLen hist count_out buf =
     (if count_out > uncomprLen then Some (Inl Bad_write)
      else let avail = uncomprLen - count_out;
               ret = fst (inflate inp hist avail);
               written = snd (inflate inp hist avail)
           in case check_ret ret of
             Some r \<Rightarrow> Some r
           | None \<Rightarrow>
               let avail_out = avail - length written;
                   have = uncomprLen - avail_out;
                   buf' = take count_out buf @ written @ drop (count_out + length written) buf;
                   count_out' = count_out + have
               in if avail_out = 0
                  then ungzip_n_loop inflate inp uncomprLen (avail # hist) count_out' buf'
                  else if count_out' > uncomprLen then Some (Inl Assertion)
                  else Some (Inr (Some (take count_out' buf'))))"

definition ungzip_n :: "zret \<Rightarrow> inflate \<Rightarrow> byte list \<Rightarrow> unzipped option" where
  "ungzip_n init inflate inp =
     (if inp = [] then Some (Inl Bad_index)
      else if init \<noteq> Z_OK then Some (Inr None)
      else ungzip_n_loop inflate inp (length inp * 16) [] 0 (replicate (length inp * 16) 0))"

subsection \<open>What the loops rely on\<close>

text \<open>
  zlib decompresses \<open>inp\<close> to \<open>data\<close>: every call writes as much of what is left as fits, and no
  call reports an error (\<open>Z_BUF_ERROR\<close>, no progress, is none).
\<close>

definition inflates :: "inflate \<Rightarrow> byte list \<Rightarrow> byte list \<Rightarrow> bool" where
  "inflates inflate inp data \<longleftrightarrow>
     (\<forall>hist avail. snd (inflate inp hist avail) = take avail (drop (sum_list hist) data) \<and>
        fst (inflate inp hist avail) \<in> {Z_OK, Z_STREAM_END, Z_BUF_ERROR})"

lemma inflatesD:
  assumes "inflates inflate inp data"
  shows "snd (inflate inp hist avail) = take avail (drop (sum_list hist) data)"
    and "check_ret (fst (inflate inp hist avail)) = None"
proof -
  show "snd (inflate inp hist avail) = take avail (drop (sum_list hist) data)"
    using assms by (simp add: inflates_def)
  have "fst (inflate inp hist avail) \<in> {Z_OK, Z_STREAM_END, Z_BUF_ERROR}"
    using assms by (simp add: inflates_def)
  then show "check_ret (fst (inflate inp hist avail)) = None"
    by (auto simp: check_ret_def)
qed

lemma ungzip_loop_ok:
  assumes "inflates inflate inp data"
  shows "sum_list hist \<le> length data \<Longrightarrow>
    ungzip_loop inflate inp hist out = Some (Inr (Some (out @ drop (sum_list hist) data)))"
proof (induction "length data - sum_list hist" arbitrary: hist out rule: less_induct)
  case less
  let ?d = "drop (sum_list hist) data"
  note step = ungzip_loop.simps [of inflate inp hist out]
  note [simp] = inflatesD [OF assms] v_temp_size_def
  show ?case
  proof (cases "length data - sum_list hist < 4096")
    case True
    then show ?thesis by (subst step) (simp add: Let_def)
  next
    case False
    then have "ungzip_loop inflate inp (4096 # hist) (out @ take 4096 ?d) =
        Some (Inr (Some ((out @ take 4096 ?d) @ drop (4096 + sum_list hist) data)))"
      using less.hyps [of "4096 # hist" "out @ take 4096 ?d"] less.prems by simp
    moreover have "take 4096 ?d @ drop (4096 + sum_list hist) data = ?d"
      by (metis append_take_drop_id drop_drop)
    ultimately show ?thesis using False by (subst step) (simp add: Let_def)
  qed
qed

lemma ungzip_n_small:
  assumes "inflates inflate inp data" "length data < length inp * 16"
  shows "ungzip_n Z_OK inflate inp = Some (Inr (Some data))"
  using assms(2)
  by (subst ungzip_n_def, subst ungzip_n_loop.simps) (auto simp: Let_def inflatesD [OF assms(1)])

lemma ungzip_n_big:
  assumes "inflates inflate inp data" "length inp * 16 \<le> length data" "inp \<noteq> []"
  shows "ungzip_n Z_OK inflate inp = Some (Inl Bad_write)"
proof -
  let ?n = "length inp * 16"
  have over: "ungzip_n_loop inflate inp ?n hist (32 * length inp) buf = Some (Inl Bad_write)" for hist buf
    using assms(3) by (subst ungzip_n_loop.simps) simp
  have full: "ungzip_n_loop inflate inp ?n hist ?n buf = Some (Inl Bad_write)" for hist buf
    by (subst ungzip_n_loop.simps) (simp add: Let_def inflatesD [OF assms(1)] over)
  show ?thesis
    using assms(2,3)
    by (subst ungzip_n_def, subst ungzip_n_loop.simps) (simp add: Let_def inflatesD [OF assms(1)] full)
qed

text \<open>The result says true also for a stream that is cut off: nothing asks for \<open>Z_STREAM_END\<close>.\<close>

lemma ungzip_loop_not_end:
  assumes "\<forall>hist avail. fst (inflate inp hist avail) = Z_BUF_ERROR \<or> fst (inflate inp hist avail) = Z_OK"
    and "length (snd (inflate inp hist v_temp_size)) < v_temp_size"
  shows "\<exists>out'. ungzip_loop inflate inp hist out = Some (Inr (Some out'))"
proof -
  have "check_ret (fst (inflate inp hist v_temp_size)) = None"
    using assms(1) by (metis check_ret_def zret.case(1,7))
  then show ?thesis
    using assms(2) by (subst ungzip_loop.simps) (simp add: Let_def)
qed

text \<open>A concrete \<open>inflate\<close>: every stream decompresses to the same data.\<close>

definition inflate_to :: "byte list \<Rightarrow> inflate" where
  "inflate_to data inp hist avail = (Z_OK, take avail (drop (sum_list hist) data))"

lemma inflates_inflate_to: "inflates (inflate_to data) inp data"
  by (simp add: inflates_def inflate_to_def)

subsection \<open>Properties\<close>

text \<open>
  C25: \<open>ungzip\<close> into a growing vector returns, with exactly the data the stream inflates to, whatever
  its size.
\<close>
theorem ungzip_correct:
  assumes "inflates inflate inp data" "inp \<noteq> []"
  shows "ungzip Z_OK inflate inp = Some (Inr (Some data))"
  using assms ungzip_loop_ok [OF assms(1), of "[]" "[]"] by (simp add: ungzip_def)

theorem ungzip_correct_witness:
  "ungzip Z_OK (inflate_to (replicate 5000 7)) [31] = Some (Inr (Some (replicate 5000 7)))"
  by (rule ungzip_correct) (simp_all add: inflates_inflate_to)

text \<open>
  \<open>ungzip\<close> into a buffer of sixteen times the input returns the data when they are shorter than the
  buffer, and writes behind the buffer otherwise, since it adds the filled length twice.
\<close>
theorem ungzip_n_correct_iff_small:
  assumes "inflates inflate inp data" "inp \<noteq> []"
  shows "ungzip_n Z_OK inflate inp =
    (if length data < 16 * length inp then Some (Inr (Some data)) else Some (Inl Bad_write))"
  using assms ungzip_n_small [OF assms(1)] ungzip_n_big [OF assms(1)]
  by (simp add: mult.commute)

theorem ungzip_n_correct_iff_small_witness:
  "ungzip_n Z_OK (inflate_to (replicate 16 7)) [31] =
     (if length (replicate 16 (7 :: byte)) < 16 * length [31 :: byte]
      then Some (Inr (Some (replicate 16 7))) else Some (Inl Bad_write))"
  by (rule ungzip_n_correct_iff_small) (simp_all add: inflates_inflate_to)

end
