(* ===== verification/Huajiao.thy ===== *)
theory Huajiao
  imports Platform_Base Json_Total Huajiao_Config Crypto Gzip
begin

section \<open>platforms/huajiao: the huajiao client\<close>

text \<open>
  \<open>class platform_huajiao\<close>, a websocket client with an RC4-encrypted handshake and login.  The
  codecs of its messages are generated by protoc: they are fields of \<open>codec\<close>, over the fields the
  program sets and reads.  \<open>rc4\<close>, \<open>md5\<close>, \<open>inflate_init\<close> and \<open>inflate_call\<close> are the libraries'.
\<close>

subsection \<open>Messages\<close>

datatype req_object =
    Login_object nat string string string nat string bool string
      \<comment> \<open>app_id, server_ram, secret_ram, verf_code, net_type, mobile_type, not_encrypt, platform\<close>
  | Init_login_object string string            \<comment> \<open>client_ram, sig\<close>
  | Service_object nat "byte list"             \<comment> \<open>service_id, request\<close>

text \<open>The submessage of \<open>Request\<close> that takes the object.\<close>

datatype req_slot = Login | Chat | Get_info | Logout | Init_login_req | Service_req | E1_query_user

record req_message =
  msgid :: nat
  msg_sn :: int
  msg_sender :: string
  msg_sender_type :: string
  req :: "(req_slot \<times> req_object) option"

record room_packet =
  uuid :: string
  client_sn :: int
  packet_roomid :: string
  packet_appid :: nat
  up_payloadtype :: nat
  join_roomid :: string
  join_userid_type :: nat
  join_room_roomid :: string

record in_message =
  in_msgid :: nat
  init_login_server_ram :: string
  init_login_client_ram :: string
  login_session_key :: string
  service_resp_id :: nat
  service_response :: "byte list"
  info_content :: "byte list"

record new_msg =
  msgtype :: int
  memcount :: int
  msgcontent :: string

record user_data =
  payloadtype :: nat
  result_code :: int
  newmsgnotify :: new_msg
  multinotify :: "byte list list"

record codec =
  serialize_message :: "req_message \<Rightarrow> byte list"
  serialize_packet :: "room_packet \<Rightarrow> byte list"
  parse_message :: "byte list \<Rightarrow> in_message"
  parse_packet :: "byte list \<Rightarrow> user_data"
  parse_new_msg :: "byte list \<Rightarrow> new_msg"
  rc4 :: cipher
  md5 :: "byte list \<Rightarrow> byte list"
  inflate_init :: zret
  inflate_call :: inflate

subsection \<open>The object\<close>

record huajiao = base +
  info :: conn_info

definition new_huajiao :: "env \<Rightarrow> string \<Rightarrow> huajiao" where
  "new_huajiao e roomid =
     \<lparr>m_listeners = [], m_close_callback = False, m_platform_name = ''huajiao'', m_roomid = roomid,
      info = new_conn_info (draws e)\<rparr>"

definition hj_is_room_valid :: "'a base_scheme \<Rightarrow> bool" where
  "hj_is_room_valid b = (if \<not> str_is_num (m_roomid b) \<or> length (m_roomid b) \<noteq> 9 then False else True)"

abbreviation hj_report :: "'a base_scheme \<Rightarrow> error_code \<Rightarrow> effect list" where
  "hj_report b ec \<equiv> client_report (m_platform_name b) (m_roomid b) ec"

abbreviation hj_close_report :: "'a base_scheme \<Rightarrow> error_code \<Rightarrow> effect list" where
  "hj_close_report b ec \<equiv> client_close_and_report_ws (m_platform_name b) (m_roomid b) ec"

definition hj_start :: "env \<Rightarrow> huajiao \<Rightarrow> huajiao \<times> effect list" where
  "hj_start e b =
     (let b1 = b\<lparr>info := (info b)\<lparr>roomId := m_roomid b\<rparr>\<rparr>; ec = get_connection_ec e in
      if ec \<noteq> None then (b1, hj_report b1 ec) else (b1, [Ws_connect wsServer]))"

definition hj_close :: "env \<Rightarrow> huajiao \<Rightarrow> effect list" where
  "hj_close e b = Ws_close # hj_report b (client_close_ec e)"

subsection \<open>Building packets\<close>

definition make_verf_code :: "codec \<Rightarrow> string \<Rightarrow> string" where
  "make_verf_code cd tx = take 8 (drop 24 (md5_str (md5 cd) (tx @ ''360tantan@1408$'')))"

fun request_slot :: "packet_type \<Rightarrow> req_slot option" where
  "request_slot LoginReq = Some Login"
| "request_slot ChatReq = Some Chat"
| "request_slot GetInfoReq = Some Get_info"
| "request_slot LogoutReq = Some Logout"
| "request_slot InitLoginReq = Some Init_login_req"
| "request_slot Service_Req = Some Service_req"
| "request_slot Ex1QueryUserStatusReq = Some E1_query_user"
| "request_slot _ = None"

definition new_request_message :: "conn_info \<Rightarrow> packet_type \<Rightarrow> req_object \<Rightarrow> req_message" where
  "new_request_message ci ty req_object =
     \<lparr>msgid = packet_code ty, msg_sn = sn ci, msg_sender = sender ci, msg_sender_type = senderType,
      req = map_option (\<lambda>slot. (slot, req_object)) (request_slot ty)\<rparr>"

definition szHeader :: "byte list" where
  "szHeader = [113, 104, 16, 101, 8, 32, 0, 0, 0, 0, 0, 0]"

definition handshake_message :: "conn_info \<Rightarrow> req_message" where
  "handshake_message ci = new_request_message ci InitLoginReq (Init_login_object (client_ram ci) (sign ci))"

definition new_handshake_packet :: "codec \<Rightarrow> conn_info \<Rightarrow> byte list" where
  "new_handshake_packet cd ci =
     (let msgc = serialize_message cd (handshake_message ci);
          len = word_of_nat (length msgc + 12 + 4) :: u32;
          ulength = swap_uint32 len
      in szHeader @ le32 ulength @ rc4 cd (bytes_of defaultKey) msgc)"

definition login_message :: "env \<Rightarrow> codec \<Rightarrow> conn_info \<Rightarrow> req_message" where
  "login_message e cd ci =
     (let secret_ram_stream = server_ram ci @ random_string (draws e) 8;
          secret_ram = rc4_str (rc4 cd) (bytes_of secret_ram_stream) (bytes_of (password ci));
          verf_code = make_verf_code cd (userid ci)
      in new_request_message ci LoginReq
           (Login_object appId (server_ram ci) secret_ram verf_code 4 MOBILE_PC True ''h5''))"

definition hj_login_packet :: "env \<Rightarrow> codec \<Rightarrow> conn_info \<Rightarrow> byte list" where
  "hj_login_packet e cd ci =
     (let msgc = serialize_message cd (login_message e cd ci);
          len = word_of_nat (length msgc + 4) :: u32;
          ulength = swap_uint32 len
      in le32 ulength @ rc4 cd (bytes_of defaultKey) msgc)"

definition join_packet :: "env \<Rightarrow> codec \<Rightarrow> conn_info \<Rightarrow> room_packet" where
  "join_packet e cd ci =
     \<lparr>uuid = md5_str (md5 cd) (random_string (draws e) 20), client_sn = sn ci,
      packet_roomid = roomId ci, packet_appid = appId, up_payloadtype = 102,
      join_roomid = roomId ci, join_userid_type = 0, join_room_roomid = roomId ci\<rparr>"

definition join_message :: "env \<Rightarrow> codec \<Rightarrow> conn_info \<Rightarrow> req_message" where
  "join_message e cd ci =
     new_request_message ci Service_Req
       (Service_object 10000006 (serialize_packet cd (join_packet e cd ci)))"

definition new_join_chatroom_packet :: "env \<Rightarrow> codec \<Rightarrow> conn_info \<Rightarrow> byte list" where
  "new_join_chatroom_packet e cd ci =
     (let msgc = serialize_message cd (join_message e cd ci);
          len = word_of_nat (length msgc + 4) :: u32;
          ulength = swap_uint32 len
      in le32 ulength @ msgc)"

subsection \<open>Reading packets\<close>

text \<open>
  A body is what follows the first \<open>n\<close> bytes; its length is computed in 32 bits.  A packet that
  is shorter makes the cipher read behind it.
\<close>

definition body_of :: "nat \<Rightarrow> byte list \<Rightarrow> byte list option" where
  "body_of n data =
     (if length data < n then None
      else Some (take (unat (word_of_nat (length data - n) :: u32)) (drop n data)))"

definition parse_handshake_packet :: "codec \<Rightarrow> byte list \<Rightarrow> huajiao \<Rightarrow> huajiao \<times> effect list" where
  "parse_handshake_packet cd data b =
     (case body_of 6 data of
        None \<Rightarrow> (b, [Fault Bad_read])
      | Some body \<Rightarrow>
          let message = parse_message cd (rc4_vector (rc4 cd) body (bytes_of defaultKey)) in
          if in_msgid message = packet_code InitLoginResp then
            (b\<lparr>info := (info b)\<lparr>server_ram := init_login_server_ram message,
                client_ram := init_login_client_ram message, handshake := True\<rparr>\<rparr>, [])
          else (b, []))"

definition parse_login_response_packet :: "codec \<Rightarrow> byte list \<Rightarrow> huajiao \<Rightarrow> huajiao \<times> effect list" where
  "parse_login_response_packet cd data b =
     (case body_of 4 data of
        None \<Rightarrow> (b, [Fault Bad_read])
      | Some body \<Rightarrow>
          let message = parse_message cd (rc4_vector (rc4 cd) body (bytes_of (password (info b)))) in
          if in_msgid message = packet_code LoginResp then
            (b\<lparr>info := (info b)\<lparr>session := login_session_key message, bLogin := True\<rparr>\<rparr>, [])
          else (b, []))"

text \<open>\<open>parse_json_message\<close>: a chat message; for type 16 the user id is a number.\<close>

definition parse_json_message :: "string \<Rightarrow> effect list" where
  "parse_json_message message =
     (let (json, err) = json_parse_std message in
      if err = [] then
        (case int_value (json_field json ''type'') of
           None \<Rightarrow> [Fault Bad_cast]
         | Some ty \<Rightarrow>
             let tx = string_value (json_field json ''text'');
                 extends = json_field json ''extends'';
                 uid = (if ty = 16 then fmt_fixed0 (number_value (json_field extends ''userid''))
                        else string_value (json_field extends ''userid''));
                 nickname = string_value (json_field extends ''nickname'')
             in [publish_json uid nickname tx])
      else [])"

definition unzip_notify :: "codec \<Rightarrow> byte list \<Rightarrow> effect list" where
  "unzip_notify cd src_data =
     (case ungzip (inflate_init cd) (inflate_call cd) src_data of
        None \<Rightarrow> [Fault Hang]
      | Some (Inl f) \<Rightarrow> [Fault f]
      | Some (Inr None) \<Rightarrow> []
      | Some (Inr (Some unpack)) \<Rightarrow> parse_json_message (msgcontent (parse_new_msg cd unpack)))"

definition parse_new_message_notify :: "codec \<Rightarrow> in_message \<Rightarrow> effect list" where
  "parse_new_message_notify cd message =
     (let user = parse_packet cd (info_content message) in
      if result_code user = int (notify_code SuccessFul) then
        (if payloadtype user = notify_code NewmsgNotify then
           let chatroom_newmsg = newmsgnotify user in
           (if msgtype chatroom_newmsg = 0 \<and> memcount chatroom_newmsg \<noteq> 0
            then parse_json_message (msgcontent chatroom_newmsg) else [])
         else if payloadtype user = notify_code MemberJoinNotify then []
         else if payloadtype user = notify_code MemberQuitNotify then []
         else if payloadtype user = notify_code MemberGzipNotify \<and> length (multinotify user) > 0
         then concat (map (unzip_notify cd) (multinotify user))
         else [])
      else [])"

text \<open>\<open>parse_service_resp\<close> reads the response and uses nothing of it.\<close>

definition parse_service_resp :: "codec \<Rightarrow> in_message \<Rightarrow> effect list" where
  "parse_service_resp cd message = []"

definition parse_message_packet :: "codec \<Rightarrow> byte list \<Rightarrow> huajiao \<Rightarrow> huajiao \<times> effect list" where
  "parse_message_packet cd data b =
     (if length data = 4 \<and> rd_le32 data = 0 then (b, [])
      else if length data < 4 then (b, [Fault Bad_read])
      else
        let message = parse_message cd (take (unat (word_of_nat (length data - 4) :: u32)) (drop 4 data)) in
        if in_msgid message = packet_code LoginResp then parse_login_response_packet cd data b
        else if in_msgid message = packet_code Service_Resp then (b, parse_service_resp cd message)
        else if in_msgid message = packet_code NewMessageNotify
        then (b, parse_new_message_notify cd message)
        else (b, []))"

definition handle_binary_message :: "codec \<Rightarrow> byte list \<Rightarrow> huajiao \<Rightarrow> huajiao \<times> effect list" where
  "handle_binary_message cd data b =
     (if handshake (info b) then
        (if bLogin (info b) then parse_message_packet cd data b
         else parse_login_response_packet cd data b)
      else parse_handshake_packet cd data b)"

subsection \<open>Handlers\<close>

definition hj_on_client_open :: "env \<Rightarrow> codec \<Rightarrow> huajiao \<Rightarrow> effect list" where
  "hj_on_client_open e cd b =
     Ws_send (new_handshake_packet cd (info b)) BINARY # hj_close_report b (client_send_ec e)"

definition hj_on_client_fail :: "huajiao \<Rightarrow> error_code \<Rightarrow> effect list" where
  "hj_on_client_fail b ec = hj_report b ec"

definition hj_on_client_close :: "huajiao \<Rightarrow> effect list" where
  "hj_on_client_close b =
     [Publish ''huajiao danmu connection closed!'',
      Close_callback (roomstr_of (m_platform_name b) (m_roomid b))]"

text \<open>What \<open>on_client_message\<close> does after the message was handled: the next step of the login.\<close>

definition hj_continue :: "env \<Rightarrow> codec \<Rightarrow> huajiao \<Rightarrow> huajiao \<times> effect list" where
  "hj_continue e cd b =
     (let ci = info b in
      if handshake ci \<and> \<not> bLogin ci then
        (b, Ws_send (hj_login_packet e cd ci) BINARY # hj_close_report b (client_send_ec e))
      else if handshake ci \<and> bLogin ci \<and> \<not> bJoin ci then
        (b\<lparr>info := ci\<lparr>bJoin := True\<rparr>\<rparr>,
         Ws_send (new_join_chatroom_packet e cd ci) BINARY # hj_close_report b (client_send_ec e))
      else (b, []))"

definition hj_on_client_message :: "env \<Rightarrow> codec \<Rightarrow> opcode \<Rightarrow> byte list \<Rightarrow> huajiao \<Rightarrow> huajiao \<times> effect list" where
  "hj_on_client_message e cd opc payload b =
     (if opc \<noteq> BINARY then (b, [])
      else let (b1, effs1) = handle_binary_message cd payload b in
        if list_ex is_fault effs1 then (b1, effs1)
        else let (b2, effs2) = hj_continue e cd b1 in (b2, effs1 @ effs2))"

datatype hj_event =
    Hj_opened
  | Hj_failed error_code
  | Hj_message opcode "byte list"
  | Hj_closed

definition hj_step :: "env \<Rightarrow> codec \<Rightarrow> huajiao \<Rightarrow> hj_event \<Rightarrow> huajiao \<times> effect list" where
  "hj_step e cd b ev = (case ev of
       Hj_opened \<Rightarrow> (b, hj_on_client_open e cd b)
     | Hj_failed ec \<Rightarrow> (b, hj_on_client_fail b ec)
     | Hj_message opc payload \<Rightarrow> hj_on_client_message e cd opc payload b
     | Hj_closed \<Rightarrow> (b, hj_on_client_close b))"

subsection \<open>The phases of a connection\<close>

text \<open>
  0: before the handshake; 1: handshake done; 2: logged in; 3: the room was joined.  Phase 2
  is left within the message that reaches it.
\<close>

definition hj_phase :: "huajiao \<Rightarrow> nat" where
  "hj_phase b = (if \<not> handshake (info b) then 0 else if \<not> bLogin (info b) then 1
     else if \<not> bJoin (info b) then 2 else 3)"

definition hj_inv :: "huajiao \<Rightarrow> bool" where
  "hj_inv b \<longleftrightarrow> (bLogin (info b) \<longrightarrow> handshake (info b)) \<and> (bJoin (info b) \<longleftrightarrow> bLogin (info b))"

lemma sends_parse_json [simp]: "sends (parse_json_message m) = []"
  by (simp add: parse_json_message_def publish_json_def Let_def split: prod.splits option.splits)

lemma sends_unzip [simp]: "sends (unzip_notify cd d) = []"
  by (simp add: unzip_notify_def split: option.splits sum.splits)

lemma sends_notify [simp]: "sends (parse_new_message_notify cd m) = []"
proof -
  have "sends (concat (map (unzip_notify cd) ds)) = []" for ds by (induction ds) simp_all
  then show ?thesis by (simp add: parse_new_message_notify_def Let_def)
qed

lemma handshake_step:
  "parse_handshake_packet cd data b = (b', effs) \<Longrightarrow> sends effs = [] \<and>
     bLogin (info b') = bLogin (info b) \<and> bJoin (info b') = bJoin (info b) \<and>
     (handshake (info b) \<longrightarrow> handshake (info b'))"
  by (auto simp: parse_handshake_packet_def Let_def split: option.splits if_splits)

lemma login_step:
  "parse_login_response_packet cd data b = (b', effs) \<Longrightarrow> sends effs = [] \<and>
     handshake (info b') = handshake (info b) \<and> bJoin (info b') = bJoin (info b) \<and>
     (bLogin (info b) \<longrightarrow> bLogin (info b'))"
  by (auto simp: parse_login_response_packet_def Let_def split: option.splits if_splits)

lemma message_step:
  "parse_message_packet cd data b = (b', effs) \<Longrightarrow> sends effs = [] \<and>
     handshake (info b') = handshake (info b) \<and> bJoin (info b') = bJoin (info b) \<and>
     (bLogin (info b) \<longrightarrow> bLogin (info b'))"
  using login_step [of cd data b b' effs]
  by (auto simp: parse_message_packet_def parse_service_resp_def Let_def split: if_splits)

lemma continue_frame:
  "hj_continue e cd b = (b', effs) \<Longrightarrow> handshake (info b') = handshake (info b) \<and>
     bLogin (info b') = bLogin (info b) \<and> \<not> list_ex is_fault effs"
  by (auto simp: hj_continue_def Let_def is_fault_def split: if_splits)

lemma binary_step:
  assumes "handle_binary_message cd data b = (b', effs)" "hj_inv b"
  shows "sends effs = []"
    and "hj_phase b = 0 \<Longrightarrow> hj_phase b' \<in> {0, 1} \<and> \<not> bLogin (info b')"
    and "hj_phase b = 1 \<Longrightarrow> hj_phase b' \<in> {1, 2}"
    and "hj_phase b = 3 \<Longrightarrow> hj_phase b' = 3"
proof -
  consider "\<not> handshake (info b)" "parse_handshake_packet cd data b = (b', effs)"
    | "handshake (info b)" "bLogin (info b)" "parse_message_packet cd data b = (b', effs)"
    | "handshake (info b)" "\<not> bLogin (info b)" "parse_login_response_packet cd data b = (b', effs)"
    using assms(1) unfolding handle_binary_message_def by presburger
  note cases = this
  show "sends effs = []"
    using cases handshake_step login_step message_step by cases blast+
  show "hj_phase b = 0 \<Longrightarrow> hj_phase b' \<in> {0, 1} \<and> \<not> bLogin (info b')"
    using cases
  proof cases
    case 1
    with handshake_step [OF 1(2)] assms(2) show ?thesis by (auto simp: hj_phase_def hj_inv_def)
  qed (auto simp: hj_phase_def split: if_splits)
  show "hj_phase b = 1 \<Longrightarrow> hj_phase b' \<in> {1, 2}"
    using cases
  proof cases
    case 3
    with login_step [OF 3(3)] assms(2) show ?thesis by (auto simp: hj_phase_def hj_inv_def)
  qed (auto simp: hj_phase_def split: if_splits)
  show "hj_phase b = 3 \<Longrightarrow> hj_phase b' = 3"
    using cases
  proof cases
    case 2
    with message_step [OF 2(3)] assms(2) show ?thesis by (auto simp: hj_phase_def hj_inv_def)
  qed (auto simp: hj_phase_def)
qed

text \<open>What a message that does not fault makes of the phase, and what is sent to the server.\<close>

definition hj_moves :: "env \<Rightarrow> codec \<Rightarrow> nat \<Rightarrow> huajiao \<Rightarrow> effect list \<Rightarrow> bool" where
  "hj_moves e cd p b' effs \<longleftrightarrow>
     (p = 0 \<and> hj_phase b' = 0 \<and> sends effs = []) \<or>
     (p \<in> {0, 1} \<and> hj_phase b' = 1 \<and> sends effs = [(hj_login_packet e cd (info b'), BINARY)]) \<or>
     (p = 1 \<and> hj_phase b' = 3 \<and>
        sends effs = [(new_join_chatroom_packet e cd ((info b')\<lparr>bJoin := False\<rparr>), BINARY)]) \<or>
     (p = 3 \<and> hj_phase b' = 3 \<and> sends effs = [])"

lemma join_packet_bJoin: "new_join_chatroom_packet e cd (ci\<lparr>bJoin := x\<rparr>) = new_join_chatroom_packet e cd ci"
  by (simp add: new_join_chatroom_packet_def join_message_def join_packet_def new_request_message_def)

lemma hj_inv_phase: "hj_inv b \<Longrightarrow> hj_phase b \<in> {0, 1, 3}"
  by (auto simp: hj_inv_def hj_phase_def)

lemma hj_continue_moves:
  assumes "hj_continue e cd b = (b', effs)"
  shows "hj_phase b = 0 \<Longrightarrow> hj_phase b' = 0 \<and> sends effs = []"
    and "hj_phase b = 1 \<Longrightarrow> hj_phase b' = 1 \<and> sends effs = [(hj_login_packet e cd (info b'), BINARY)]"
    and "hj_phase b = 2 \<Longrightarrow> hj_phase b' = 3 \<and>
      sends effs = [(new_join_chatroom_packet e cd ((info b')\<lparr>bJoin := False\<rparr>), BINARY)]"
    and "hj_phase b = 3 \<Longrightarrow> hj_phase b' = 3 \<and> sends effs = []"
proof -
  let ?ci = "info b"
  have flags: "handshake ?ci \<and> \<not> bLogin ?ci \<longleftrightarrow> hj_phase b = 1"
    "handshake ?ci \<and> bLogin ?ci \<and> \<not> bJoin ?ci \<longleftrightarrow> hj_phase b = 2"
    by (simp_all add: hj_phase_def)
  note continue = assms [unfolded hj_continue_def Let_def flags]
  show "hj_phase b = 0 \<Longrightarrow> hj_phase b' = 0 \<and> sends effs = []"
    and "hj_phase b = 1 \<Longrightarrow> hj_phase b' = 1 \<and> sends effs = [(hj_login_packet e cd (info b'), BINARY)]"
    and "hj_phase b = 3 \<Longrightarrow> hj_phase b' = 3 \<and> sends effs = []"
    using continue by auto
  assume 2: "hj_phase b = 2"
  then have "b' = b\<lparr>info := ?ci\<lparr>bJoin := True\<rparr>\<rparr>"
    "effs = Ws_send (new_join_chatroom_packet e cd ?ci) BINARY # hj_close_report b (client_send_ec e)"
    using continue by auto
  with 2 flags(2) show "hj_phase b' = 3 \<and>
      sends effs = [(new_join_chatroom_packet e cd ((info b')\<lparr>bJoin := False\<rparr>), BINARY)]"
    by (simp add: join_packet_bJoin) (simp add: hj_phase_def)
qed

lemma hj_message_moves:
  assumes "hj_on_client_message e cd BINARY payload b = (b', effs)" "hj_inv b"
    and "\<not> list_ex is_fault effs"
  shows "hj_moves e cd (hj_phase b) b' effs"
proof -
  obtain b1 effs1 where 1: "handle_binary_message cd payload b = (b1, effs1)"
    by (cases "handle_binary_message cd payload b")
  obtain b2 effs2 where 2: "hj_continue e cd b1 = (b2, effs2)" by (cases "hj_continue e cd b1")
  have "\<not> list_ex is_fault effs1" and b': "b' = b2" "effs = effs1 @ effs2"
    using assms 1 2 by (auto simp: hj_on_client_message_def split: if_splits)
  then show ?thesis
    using binary_step [OF 1 assms(2)] hj_continue_moves [OF 2] hj_inv_phase [OF assms(2)]
    by (auto simp: hj_moves_def)
qed

definition flags_ordered :: "huajiao \<Rightarrow> bool" where
  "flags_ordered b \<longleftrightarrow> (bLogin (info b) \<longrightarrow> handshake (info b)) \<and> (bJoin (info b) \<longrightarrow> bLogin (info b))"

lemma binary_ordered:
  assumes "handle_binary_message cd data b = (b', effs)" "hj_inv b"
  shows "flags_ordered b'"
proof -
  consider "\<not> handshake (info b)" "parse_handshake_packet cd data b = (b', effs)"
    | "handshake (info b)" "bLogin (info b)" "parse_message_packet cd data b = (b', effs)"
    | "handshake (info b)" "\<not> bLogin (info b)" "parse_login_response_packet cd data b = (b', effs)"
    using assms(1) unfolding handle_binary_message_def by presburger
  then show ?thesis
  proof cases
    case 1
    with handshake_step [OF 1(2)] assms(2) show ?thesis by (simp add: flags_ordered_def hj_inv_def)
  next
    case 2
    with message_step [OF 2(3)] assms(2) show ?thesis by (simp add: flags_ordered_def hj_inv_def)
  next
    case 3
    with login_step [OF 3(3)] assms(2) show ?thesis by (simp add: flags_ordered_def hj_inv_def)
  qed
qed

lemma continue_ordered: "flags_ordered b \<Longrightarrow> flags_ordered (fst (hj_continue e cd b))"
proof -
  have "handshake (info (fst (hj_continue e cd b))) = handshake (info b)"
    "bLogin (info (fst (hj_continue e cd b))) = bLogin (info b)"
    "bJoin (info (fst (hj_continue e cd b))) \<longrightarrow> bJoin (info b) \<or> bLogin (info b)"
    by (simp_all add: hj_continue_def Let_def)
  then show "flags_ordered b \<Longrightarrow> flags_ordered (fst (hj_continue e cd b))"
    by (auto simp: flags_ordered_def)
qed

lemma hj_message_inv:
  assumes "hj_on_client_message e cd opc payload b = (b', effs)" "hj_inv b" "\<not> list_ex is_fault effs"
  shows "hj_inv b'"
proof (cases "opc = BINARY")
  case True
  then have "hj_on_client_message e cd BINARY payload b = (b', effs)" using assms by simp
  from hj_message_moves [OF this assms(2,3)] have "hj_phase b' \<noteq> 2" by (auto simp: hj_moves_def)
  moreover have "flags_ordered b'"
  proof -
    obtain b1 effs1 where 1: "handle_binary_message cd payload b = (b1, effs1)"
      by (cases "handle_binary_message cd payload b")
    have "flags_ordered b1" using 1 assms(2) by (rule binary_ordered)
    moreover have "b' = b1 \<or> b' = fst (hj_continue e cd b1)"
      using assms(1) True 1 by (simp add: hj_on_client_message_def split: if_splits prod.splits)
    ultimately show ?thesis using continue_ordered by blast
  qed
  ultimately show ?thesis by (auto simp: hj_inv_def hj_phase_def flags_ordered_def split: if_splits)
qed (use assms in \<open>simp add: hj_on_client_message_def\<close>)

subsection \<open>A concrete codec\<close>

text \<open>
  A message is its number, or nothing at all; the cipher and the digest are those of
  \<open>Crypto\<close>, and every stream inflates to nothing.
\<close>

definition plain_message :: "nat \<Rightarrow> in_message" where
  "plain_message n = \<lparr>in_msgid = n, init_login_server_ram = ''srv'', init_login_client_ram = ''cli'',
     login_session_key = ''key'', service_resp_id = 0, service_response = [], info_content = []\<rparr>"

definition plain_codec :: codec where
  "plain_codec =
     \<lparr>serialize_message = (\<lambda>m. le32 (word_of_nat (msgid m))), serialize_packet = (\<lambda>_. []),
      parse_message = (\<lambda>bs. plain_message (if length bs < 4 then 0 else unat (rd_le32 bs))),
      parse_packet = (\<lambda>_. \<lparr>payloadtype = 0, result_code = 0,
        newmsgnotify = \<lparr>msgtype = 0, memcount = 0, msgcontent = []\<rparr>, multinotify = []\<rparr>),
      parse_new_msg = (\<lambda>_. \<lparr>msgtype = 0, memcount = 0, msgcontent = []\<rparr>),
      rc4 = xor_cipher, md5 = (\<lambda>_. replicate 16 0), inflate_init = Z_OK, inflate_call = inflate_to []\<rparr>"

subsection \<open>Properties\<close>

lemma length_swap: "n + 4 < 2 ^ 32 \<Longrightarrow> unat (rd_be32 (le32 (swap_uint32 (word_of_nat (n + 4))) @ bs)) = n + 4"
  unfolding le32_swap_uint32 rd_be32_be32 by (subst unat_of_nat) simp

text \<open>
  C6: Every binary message moves the connection along its phases: before the handshake it stays or sends a
  login; until the login succeeds it repeats the login, and when it does it sends the one join request for the
  room; after that it sends nothing more.  The flags stay ordered.
\<close>
theorem huajiao_login_protocol:
  assumes "hj_inv b" "hj_step e cd b (Hj_message BINARY payload) = (b', effs)" "\<not> list_ex is_fault effs"
  shows "hj_inv b' \<and> hj_moves e cd (hj_phase b) b' effs"
  using assms(2,3) hj_message_moves [OF _ assms(1,3)] hj_message_inv [OF _ assms(1,3)]
  by (simp add: hj_step_def)

lemma message_no_fault:
  assumes "\<not> list_ex is_fault (snd (handle_binary_message cd data b))"
  shows "\<not> list_ex is_fault (snd (hj_on_client_message e cd BINARY data b))"
proof -
  obtain b1 effs1 where 1: "handle_binary_message cd data b = (b1, effs1)"
    by (cases "handle_binary_message cd data b")
  obtain b2 effs2 where 2: "hj_continue e cd b1 = (b2, effs2)" by (cases "hj_continue e cd b1")
  show ?thesis
    using assms continue_frame [OF 2] by (simp add: hj_on_client_message_def 1 2)
qed

definition sample_handshake :: "byte list" where
  "sample_handshake = [0, 0, 0, 0, 0, 0] @
     rc4_vector xor_cipher (le32 (word_of_nat (packet_code InitLoginResp))) (bytes_of defaultKey)"

theorem huajiao_login_protocol_witness:
  "hj_inv (fst (hj_step calm plain_codec (new_huajiao calm ''1'') (Hj_message BINARY sample_handshake))) \<and>
   hj_moves calm plain_codec (hj_phase (new_huajiao calm ''1''))
     (fst (hj_step calm plain_codec (new_huajiao calm ''1'') (Hj_message BINARY sample_handshake)))
     (snd (hj_step calm plain_codec (new_huajiao calm ''1'') (Hj_message BINARY sample_handshake)))"
proof (rule huajiao_login_protocol)
  show "hj_inv (new_huajiao calm ''1'')" by code_simp
  have b: "body_of 6 sample_handshake =
      Some (rc4_vector xor_cipher (le32 (word_of_nat (packet_code InitLoginResp))) (bytes_of defaultKey))"
    by (simp add: body_of_def sample_handshake_def length_rc4_vector [OF rc4_ok_xor])
  have "list_ex is_fault (snd (parse_handshake_packet plain_codec sample_handshake (new_huajiao calm ''1''))) = False"
    by (simp add: parse_handshake_packet_def b Let_def)
  moreover have "handle_binary_message plain_codec sample_handshake (new_huajiao calm ''1'') =
      parse_handshake_packet plain_codec sample_handshake (new_huajiao calm ''1'')"
    by (simp add: handle_binary_message_def new_huajiao_def new_conn_info_def)
  ultimately have "\<not> list_ex is_fault (snd (handle_binary_message plain_codec sample_handshake (new_huajiao calm ''1'')))"
    by simp
  then show "\<not> list_ex is_fault (snd (hj_step calm plain_codec (new_huajiao calm ''1'') (Hj_message BINARY sample_handshake)))"
    unfolding hj_step_def hj_event.case by (rule message_no_fault)
qed (rule prod.collapse [symmetric])

text \<open>
  The packets carry their own length in network byte order, and with the default key the server decrypts
  from the handshake and the login packet exactly the serialized message; the join request is not encrypted.
\<close>
theorem huajiao_packets_decode:
  assumes "rc4_ok (rc4 cd)" "length (serialize_message cd (handshake_message ci)) + 16 < 2 ^ 32"
    and "length (serialize_message cd (login_message e cd ci)) + 4 < 2 ^ 32"
    and "length (serialize_message cd (join_message e cd ci)) + 4 < 2 ^ 32"
  shows "unat (rd_be32 (drop 12 (new_handshake_packet cd ci))) = length (new_handshake_packet cd ci) \<and>
    take 12 (new_handshake_packet cd ci) = szHeader \<and>
    rc4 cd (bytes_of defaultKey) (drop 16 (new_handshake_packet cd ci)) = serialize_message cd (handshake_message ci) \<and>
    unat (rd_be32 (hj_login_packet e cd ci)) = length (hj_login_packet e cd ci) \<and>
    rc4 cd (bytes_of defaultKey) (drop 4 (hj_login_packet e cd ci)) = serialize_message cd (login_message e cd ci) \<and>
    unat (rd_be32 (new_join_chatroom_packet e cd ci)) = length (new_join_chatroom_packet e cd ci) \<and>
    drop 4 (new_join_chatroom_packet e cd ci) = serialize_message cd (join_message e cd ci)"
proof -
  have r: "length (rc4 cd k d) = length d" "rc4 cd k (rc4 cd k d) = d" for k d
    using assms(1) by (simp_all add: rc4_ok_def)
  have "length (serialize_message cd (handshake_message ci)) + 12 + 4 < 2 ^ 32" using assms(2) by simp
  note l = length_swap [OF this] length_swap [OF assms(3)] length_swap [OF assms(4)]
  have sz: "length szHeader = 12" by (simp add: szHeader_def)
  show ?thesis
    unfolding new_handshake_packet_def hj_login_packet_def new_join_chatroom_packet_def Let_def
    by (intro conjI) (simp_all only: drop_append take_append sz drop_all take_all le_refl append_Nil append_Nil2
        diff_self_eq_0 drop_0 take_0 l length_append length_le32 r, simp_all add: sz r)
qed

theorem huajiao_packets_decode_witness:
  "rc4 plain_codec (bytes_of defaultKey) (drop 16 (new_handshake_packet plain_codec (new_conn_info (draws calm)))) =
     serialize_message plain_codec (handshake_message (new_conn_info (draws calm)))"
proof -
  have l: "length (serialize_message plain_codec m) = 4" for m by (simp add: plain_codec_def)
  have ok: "rc4_ok (rc4 plain_codec)" by (simp add: plain_codec_def rc4_ok_xor)
  show ?thesis
    by (rule huajiao_packets_decode [OF ok, where e = calm, THEN conjunct2, THEN conjunct2, THEN conjunct1])
      (simp_all add: l)
qed

text \<open>
  A gzip notification is handled entry by entry, in order: an entry that inflates to \<open>data\<close> is handled as
  the chat message its decoded text holds, whatever the size of \<open>data\<close>.
\<close>
theorem huajiao_gzip_notify:
  assumes "result_code (parse_packet cd (info_content m)) = 0"
    and "payloadtype (parse_packet cd (info_content m)) = notify_code MemberGzipNotify"
    and "inflate_init cd = Z_OK"
    and "\<And>d. d \<in> set (multinotify (parse_packet cd (info_content m))) \<Longrightarrow>
      d \<noteq> [] \<and> inflates (inflate_call cd) d (plain d)"
  shows "parse_new_message_notify cd m =
    concat (map (\<lambda>d. parse_json_message (msgcontent (parse_new_msg cd (plain d))))
      (multinotify (parse_packet cd (info_content m))))"
proof -
  have "unzip_notify cd d = parse_json_message (msgcontent (parse_new_msg cd (plain d)))"
    if "d \<in> set (multinotify (parse_packet cd (info_content m)))" for d
  proof -
    have d: "d \<noteq> []" "inflates (inflate_call cd) d (plain d)" using assms(4) [OF that] by simp_all
    then have "ungzip Z_OK (inflate_call cd) d = Some (Inr (Some (plain d)))"
      using ungzip_loop_ok [OF d(2), of "[]" "[]"] by (simp add: ungzip_def)
    then show ?thesis by (simp add: unzip_notify_def assms(3))
  qed
  then have "map (unzip_notify cd) (multinotify (parse_packet cd (info_content m))) =
      map (\<lambda>d. parse_json_message (msgcontent (parse_new_msg cd (plain d))))
        (multinotify (parse_packet cd (info_content m)))" by simp
  then show ?thesis
    using assms(1,2) by (auto simp: parse_new_message_notify_def Let_def simp del: map_eq_conv)
qed

definition gzip_codec :: codec where
  "gzip_codec = plain_codec\<lparr>parse_packet := (\<lambda>_. \<lparr>payloadtype = 1003, result_code = 0,
     newmsgnotify = \<lparr>msgtype = 0, memcount = 0, msgcontent = []\<rparr>, multinotify = [[31], [31, 139]]\<rparr>)\<rparr>"

theorem huajiao_gzip_notify_witness:
  "parse_new_message_notify gzip_codec (plain_message 300000) =
    concat (map (\<lambda>d. parse_json_message (msgcontent (parse_new_msg gzip_codec [])))
      (multinotify (parse_packet gzip_codec (info_content (plain_message 300000)))))"
  by (rule huajiao_gzip_notify)
    (auto simp: gzip_codec_def plain_codec_def inflates_inflate_to)

end
