(* ===== verification/Platforms.thy ===== *)
theory Platforms
  imports Douyu Bilibili YY Huajiao
begin

section \<open>platforms: the registry and the virtual functions\<close>

text \<open>
  \<open>platforms_init\<close> and \<open>platform_get_instance\<close> of \<open>platforms.cpp\<close>.  A \<open>platform_base_ptr_t\<close>
  points to an object of one of the four classes; the datatype has a constructor for each, and
  the virtual functions dispatch on it.  \<open>base_of\<close> is the base-class part of an object.
\<close>

datatype platform =
    Platform_huajiao huajiao
  | Platform_douyu base
  | Platform_bilibili bili
  | Platform_YY yy

fun base_of :: "platform \<Rightarrow> base" where
  "base_of (Platform_huajiao x) = base.truncate x"
| "base_of (Platform_douyu x) = x"
| "base_of (Platform_bilibili x) = base.truncate x"
| "base_of (Platform_YY x) = base.truncate x"

text \<open>The object with another set of listeners and another close callback.\<close>

fun with_base :: "base \<Rightarrow> platform \<Rightarrow> platform" where
  "with_base b (Platform_huajiao x) =
     Platform_huajiao (x\<lparr>m_listeners := m_listeners b, m_close_callback := m_close_callback b\<rparr>)"
| "with_base b (Platform_douyu x) =
     Platform_douyu (x\<lparr>m_listeners := m_listeners b, m_close_callback := m_close_callback b\<rparr>)"
| "with_base b (Platform_bilibili x) =
     Platform_bilibili (x\<lparr>m_listeners := m_listeners b, m_close_callback := m_close_callback b\<rparr>)"
| "with_base b (Platform_YY x) =
     Platform_YY (x\<lparr>m_listeners := m_listeners b, m_close_callback := m_close_callback b\<rparr>)"

definition upd_base :: "(base \<Rightarrow> base) \<Rightarrow> platform \<Rightarrow> platform" where
  "upd_base f p = with_base (f (base_of p)) p"

subsection \<open>The table of creators\<close>

definition platform_creator_table :: "string \<Rightarrow> (env \<Rightarrow> string \<Rightarrow> platform) option" where
  "platform_creator_table =
     [''huajiao'' \<mapsto> (\<lambda>e roomid. Platform_huajiao (new_huajiao e roomid)),
      ''douyu'' \<mapsto> (\<lambda>e roomid. Platform_douyu (new_base ''douyu'' roomid)),
      ''bilibili'' \<mapsto> (\<lambda>e roomid. Platform_bilibili (new_bili roomid)),
      ''YY'' \<mapsto> (\<lambda>e roomid. Platform_YY (new_yy roomid))]"

definition platform_get_instance :: "env \<Rightarrow> string \<Rightarrow> string \<Rightarrow> platform option" where
  "platform_get_instance e tag roomid =
     (case platform_creator_table tag of None \<Rightarrow> None | Some create \<Rightarrow> Some (create e roomid))"

subsection \<open>Virtual functions\<close>

fun is_room_valid :: "platform \<Rightarrow> bool" where
  "is_room_valid (Platform_huajiao x) = hj_is_room_valid x"
| "is_room_valid (Platform_douyu x) = douyu_is_room_valid x"
| "is_room_valid (Platform_bilibili x) = bili_is_room_valid x"
| "is_room_valid (Platform_YY x) = yy_is_room_valid x"

fun platform_start :: "env \<Rightarrow> platform \<Rightarrow> platform \<times> effect list" where
  "platform_start e (Platform_huajiao x) = (case hj_start e x of (y, effs) \<Rightarrow> (Platform_huajiao y, effs))"
| "platform_start e (Platform_douyu x) = (Platform_douyu x, douyu_start x)"
| "platform_start e (Platform_bilibili x) = (case bili_start x of (y, effs) \<Rightarrow> (Platform_bilibili y, effs))"
| "platform_start e (Platform_YY x) = (case yy_start e x of (y, effs) \<Rightarrow> (Platform_YY y, effs))"

fun platform_close :: "env \<Rightarrow> platform \<Rightarrow> effect list" where
  "platform_close e (Platform_huajiao x) = hj_close e x"
| "platform_close e (Platform_douyu x) = douyu_close x"
| "platform_close e (Platform_bilibili x) = bili_close x"
| "platform_close e (Platform_YY x) = yy_close e x"

text \<open>An event of the network for an object, and the handler that takes it.\<close>

datatype platform_event =
    Asio_event handler "byte list" error_code
  | Huajiao_event hj_event
  | YY_event ws_event

fun platform_step :: "env \<Rightarrow> codec \<Rightarrow> platform \<Rightarrow> platform_event \<Rightarrow> platform \<times> effect list" where
  "platform_step e cd (Platform_huajiao x) (Huajiao_event ev) =
     (case hj_step e cd x ev of (y, effs) \<Rightarrow> (Platform_huajiao y, effs))"
| "platform_step e cd (Platform_douyu x) (Asio_event h data ec) =
     (Platform_douyu x, douyu_step e x h (data, ec))"
| "platform_step e cd (Platform_bilibili x) (Asio_event h data ec) =
     (case bili_step e x h (data, ec) of (y, effs) \<Rightarrow> (Platform_bilibili y, effs))"
| "platform_step e cd (Platform_YY x) (YY_event ev) =
     (case yy_step e x ev of (y, effs) \<Rightarrow> (Platform_YY y, effs))"
| "platform_step e cd p _ = (p, [])"

subsection \<open>The base-class part\<close>

lemma base_of_upd_base:
  assumes "m_platform_name (f (base_of p)) = m_platform_name (base_of p)"
    "m_roomid (f (base_of p)) = m_roomid (base_of p)"
  shows "base_of (upd_base f p) = f (base_of p)"
  using assms by (cases p) (auto simp: upd_base_def base.defs intro!: base.equality)

lemma base_of_ops [simp]:
  "base_of (upd_base (add_listener h) p) = add_listener h (base_of p)"
  "base_of (upd_base (erase_listener h) p) = erase_listener h (base_of p)"
  "base_of (upd_base set_close_callback p) = set_close_callback (base_of p)"
  by (rule base_of_upd_base; simp)+

lemma platform_get_instance_base:
  "platform_get_instance e tag roomid = Some p \<Longrightarrow> base_of p = new_base tag roomid"
  by (auto simp: platform_get_instance_def platform_creator_table_def new_huajiao_def new_bili_def
      new_yy_def new_base_def base.defs split: option.splits if_splits)

lemma platform_get_instance_iff:
  "platform_get_instance e tag roomid \<noteq> None \<longleftrightarrow> tag \<in> {''huajiao'', ''douyu'', ''bilibili'', ''YY''}"
  by (auto simp: platform_get_instance_def platform_creator_table_def split: option.splits)

lemma platform_start_base:
  "platform_start e p = (p', effs) \<Longrightarrow> base_of p' = base_of p"
  by (cases p) (auto simp: hj_start_def bili_start_def yy_start_def Let_def base.defs
      split: if_splits prod.splits)

lemma bili_step_base:
  "bili_step e b h i = (b', effs) \<Longrightarrow> base.truncate b' = base.truncate b"
  by (cases i; cases h)
    (auto simp: bili_step_def handle_http_read_status_line_def handle_http_read_header_def
      handle_http_read_content_def parse_live_msg_def Let_def base.defs
      split: if_splits prod.splits option.splits)

lemma yy_step_base: "yy_step e b ev = (b', effs) \<Longrightarrow> base.truncate b' = base.truncate b"
  using yy_step_frame [of e b ev b' effs] by (simp add: base.defs)

lemma hj_binary_base:
  "handle_binary_message cd data b = (b', effs) \<Longrightarrow> base.truncate b' = base.truncate b"
  by (auto simp: handle_binary_message_def parse_message_packet_def parse_login_response_packet_def
      parse_handshake_packet_def Let_def base.defs split: if_splits option.splits)

lemma hj_step_base: "hj_step e cd b ev = (b', effs) \<Longrightarrow> base.truncate b' = base.truncate b"
proof (cases ev)
  case (Hj_message opc payload)
  obtain b1 effs1 where 1: "handle_binary_message cd payload b = (b1, effs1)"
    by (cases "handle_binary_message cd payload b")
  have "base.truncate (fst (hj_continue e cd b1)) = base.truncate b1"
    by (simp add: hj_continue_def Let_def base.defs)
  moreover assume "hj_step e cd b ev = (b', effs)"
  ultimately show ?thesis
    using hj_binary_base [OF 1] 1 Hj_message
    by (auto simp: hj_step_def hj_on_client_message_def split: if_splits prod.splits)
qed (auto simp: hj_step_def)

lemma platform_step_base:
  "platform_step e cd p ev = (p', effs) \<Longrightarrow> base_of p' = base_of p"
  by (cases "(e, cd, p, ev)" rule: platform_step.cases)
    (auto dest: hj_step_base bili_step_base yy_step_base split: prod.splits)

subsection \<open>Whom a close callback names\<close>

definition room_key :: "platform \<Rightarrow> string" where
  "room_key p = roomstr_of (m_platform_name (base_of p)) (m_roomid (base_of p))"

lemma callback_in_report:
  "Close_callback r \<in> set (client_report n i ec) \<longleftrightarrow> ec \<noteq> None \<and> r = roomstr_of n i"
  "Close_callback r \<in> set (client_close_and_report_ws n i ec) \<longleftrightarrow> ec \<noteq> None \<and> r = roomstr_of n i"
  by (cases ec; auto)+

lemma no_callback [simp]: "Close_callback r \<noteq> publish_json a b c"
  by (simp add: publish_json_def)

lemma douyu_callbacks:
  "Close_callback r \<in> set (douyu_step e x h i) \<Longrightarrow> r = roomstr_of (m_platform_name x) (m_roomid x)"
  by (cases i; cases h)
    (auto simp: douyu_step_def douyu_handlers callback_in_report msg_handlers_def handle_loginres_msg_def
      handle_chatmsg_msg_def Let_def split: if_splits option.splits)

lemma bili_callbacks:
  "Close_callback r \<in> set (snd (bili_step e x h i)) \<Longrightarrow> r = roomstr_of (m_platform_name x) (m_roomid x)"
  by (cases i; cases h)
    (auto simp: bili_step_def bili_handlers callback_in_report danmu_msg_def Let_def
      split: if_splits option.splits prod.splits)

lemma yy_callbacks:
  "Close_callback r \<in> set (snd (yy_step e x ev)) \<Longrightarrow> r = roomstr_of (m_platform_name x) (m_roomid x)"
  by (cases ev)
    (auto simp: yy_step_def yy_on_client_fail_def yy_on_client_message_def yy_response_def client_send_def yy_chat_def
      yy_login_packet_def yy_init_packet_def yy_on_client_close_def yy_handle_heartbeat_def hb_timer_cancel_def
      callback_in_report Let_def split: if_splits option.splits prod.splits)

lemma hj_json_callbacks: "Close_callback r \<notin> set (parse_json_message m)"
  by (auto simp: parse_json_message_def Let_def split: prod.splits option.splits if_splits)

lemma hj_unzip_callbacks: "Close_callback r \<notin> set (unzip_notify cd d)"
  by (auto simp: unzip_notify_def hj_json_callbacks split: option.splits sum.splits)

lemma hj_binary_callbacks:
  "handle_binary_message cd data b = (b', effs) \<Longrightarrow> Close_callback r \<notin> set effs"
  by (auto simp: handle_binary_message_def parse_message_packet_def parse_login_response_packet_def
      parse_handshake_packet_def parse_service_resp_def parse_new_message_notify_def Let_def
      hj_json_callbacks hj_unzip_callbacks split: if_splits option.splits)

lemma hj_callbacks:
  assumes "Close_callback r \<in> set (snd (hj_step e cd x ev))"
  shows "r = roomstr_of (m_platform_name x) (m_roomid x)"
proof (cases ev)
  case (Hj_message opc payload)
  obtain b1 effs1 where 1: "handle_binary_message cd payload x = (b1, effs1)"
    by (cases "handle_binary_message cd payload x")
  have "base.truncate b1 = base.truncate x" using hj_binary_base [OF 1] .
  then have "m_platform_name b1 = m_platform_name x" "m_roomid b1 = m_roomid x"
    by (simp_all add: base.defs)
  then show ?thesis
    using assms Hj_message 1 hj_binary_callbacks [OF 1]
    by (auto simp: hj_step_def hj_on_client_message_def hj_continue_def callback_in_report Let_def
        split: if_splits)
qed (use assms in \<open>auto simp: hj_step_def hj_on_client_open_def hj_on_client_fail_def hj_on_client_close_def
    callback_in_report\<close>)

lemma room_key_simps [simp]:
  "room_key (Platform_huajiao x) = roomstr_of (m_platform_name x) (m_roomid x)"
  "room_key (Platform_douyu y) = roomstr_of (m_platform_name y) (m_roomid y)"
  "room_key (Platform_bilibili z) = roomstr_of (m_platform_name z) (m_roomid z)"
  "room_key (Platform_YY v) = roomstr_of (m_platform_name v) (m_roomid v)"
  by (simp_all add: room_key_def base.defs)

lemma step_callbacks:
  "Close_callback r \<in> set (snd (platform_step e cd p ev)) \<Longrightarrow> r = room_key p"
  by (cases "(e, cd, p, ev)" rule: platform_step.cases)
    (auto dest: hj_callbacks douyu_callbacks bili_callbacks yy_callbacks
      simp: case_prod_unfold)

lemma start_callbacks: "Close_callback r \<in> set (snd (platform_start e p)) \<Longrightarrow> r = room_key p"
  by (cases p) (auto simp: hj_start_def douyu_start_def bili_start_def yy_start_def Let_def
      callback_in_report split: if_splits prod.splits)

lemma close_callbacks: "Close_callback r \<in> set (platform_close e p) \<Longrightarrow> r = room_key p"
  by (cases p) (auto simp: hj_close_def douyu_close_def bili_close_def yy_close_def hb_timer_cancel_def
      callback_in_report split: if_splits)

subsection \<open>Properties\<close>

text \<open>
  Which rooms exist: exactly the four platform tags have an object, which carries tag and room id and no
  listener; Douyu and YY take any string of digits, also the empty one, huajiao nine digits, bilibili anything.
\<close>
theorem room_validity:
  "map_option (\<lambda>p. (m_platform_name (base_of p), m_roomid (base_of p), listeners (base_of p), is_room_valid p))
     (platform_get_instance e tag roomid) =
   (if tag = ''huajiao'' then Some (tag, roomid, {}, list_all is_digit roomid \<and> length roomid = 9)
    else if tag = ''douyu'' \<or> tag = ''YY'' then Some (tag, roomid, {}, list_all is_digit roomid)
    else if tag = ''bilibili'' then Some (tag, roomid, {}, True)
    else None)"
  by (auto simp: platform_get_instance_def platform_creator_table_def new_huajiao_def new_bili_def new_yy_def
      new_base_def base.defs listeners_def hj_is_room_valid_def douyu_is_room_valid_def yy_is_room_valid_def
      bili_is_room_valid_def str_is_num_iff list_all_iff)

end
