(* ===== verification/Server.thy ===== *)
theory Server
  imports Platforms
begin

section \<open>main.cpp: rooms, connections and the room map\<close>

text \<open>
  The state of the proxy.  \<open>rp_map\<close> maps a room string to the address of a platform object in
  \<open>objects\<close>; an object that left the map lives on while an operation of it is outstanding.
  \<open>msg_room\<close> is the room string bound in the message handler of a connection (first the empty
  string), \<open>close_room\<close> the one bound in its close handler, if one was set.  \<open>rp_locked\<close> says
  that the running handler holds \<open>rp_rw_mtx\<close>.  \<open>out\<close> is what was sent to clients, \<open>requests\<close>
  what objects asked of the network, both in order.  \<open>halted\<close> is the fault that ended the program.
\<close>

record world =
  rp_map :: "string \<Rightarrow> nat option"
  objects :: "nat \<Rightarrow> platform option"
  next_object :: nat
  msg_room :: "hdl \<Rightarrow> string"
  close_room :: "hdl \<Rightarrow> string option"
  rp_locked :: bool
  out :: "srv_event list"
  requests :: "(nat \<times> effect) list"
  halted :: "fault option"

definition init_world :: world where
  "init_world = \<lparr>rp_map = Map.empty, objects = Map.empty, next_object = 0, msg_room = (\<lambda>_. []),
     close_room = (\<lambda>_. None), rp_locked = False, out = [], requests = [], halted = None\<rparr>"

definition emit :: "srv_event list \<Rightarrow> world \<Rightarrow> world" where
  "emit evs w = w\<lparr>out := out w @ evs\<rparr>"

definition lock :: "world \<Rightarrow> world" where
  "lock w = (if rp_locked w then w\<lparr>halted := Some Deadlock\<rparr> else w\<lparr>rp_locked := True\<rparr>)"

definition unlock :: "world \<Rightarrow> world" where
  "unlock w = w\<lparr>rp_locked := False\<rparr>"

definition set_object :: "nat \<Rightarrow> platform \<Rightarrow> world \<Rightarrow> world" where
  "set_object i p w = w\<lparr>objects := (objects w)(i \<mapsto> p)\<rparr>"

definition erase_room :: "string \<Rightarrow> world \<Rightarrow> world" where
  "erase_room roomstr w = w\<lparr>rp_map := (rp_map w)(roomstr := None)\<rparr>"

text \<open>A sequence of statements: nothing more runs once the program has halted.\<close>

definition andthen :: "world \<Rightarrow> (world \<Rightarrow> world) \<Rightarrow> world" where
  "andthen w f = (if halted w \<noteq> None then w else f w)"

subsection \<open>Effects of a platform object\<close>

definition on_platform_close :: "string \<Rightarrow> world \<Rightarrow> world" where
  "on_platform_close roomstr w = andthen (lock w) (\<lambda>w. unlock (erase_room roomstr w))"

definition exec_publish :: "env \<Rightarrow> nat \<Rightarrow> string \<Rightarrow> world \<Rightarrow> world" where
  "exec_publish e i msg w =
     (case objects w i of
        None \<Rightarrow> w
      | Some p \<Rightarrow>
          let (b, evs) = publish e msg (base_of p) in emit evs (set_object i (with_base b p) w))"

definition exec_callback :: "nat \<Rightarrow> string \<Rightarrow> world \<Rightarrow> world" where
  "exec_callback i roomstr w =
     (case objects w i of
        None \<Rightarrow> w
      | Some p \<Rightarrow>
          if base.m_close_callback (base_of p) then on_platform_close roomstr w
          else w\<lparr>halted := Some Bad_function_call\<rparr>)"

definition exec_effect :: "env \<Rightarrow> nat \<Rightarrow> effect \<Rightarrow> world \<Rightarrow> world" where
  "exec_effect e i f w =
     (case f of
        Publish msg \<Rightarrow> exec_publish e i msg w
      | Close_callback roomstr \<Rightarrow> exec_callback i roomstr w
      | Fault x \<Rightarrow> w\<lparr>halted := Some x\<rparr>
      | _ \<Rightarrow> w\<lparr>requests := requests w @ [(i, f)]\<rparr>)"

fun exec_effects :: "env \<Rightarrow> nat \<Rightarrow> effect list \<Rightarrow> world \<Rightarrow> world" where
  "exec_effects e i [] w = w"
| "exec_effects e i (f # effs) w = andthen (exec_effect e i f w) (exec_effects e i effs)"

subsection \<open>A connection closes\<close>

text \<open>
  Leaving a room, as \<open>on_server_close\<close> and \<open>on_server_message\<close> both do it, with the lock held:
  when the last listener has left, the platform is closed and its entry erased.
\<close>

definition leave_room :: "env \<Rightarrow> string \<Rightarrow> hdl \<Rightarrow> world \<Rightarrow> world" where
  "leave_room e roomstr h w =
     (case rp_map w roomstr of
        None \<Rightarrow> w
      | Some i \<Rightarrow>
          (case objects w i of
             None \<Rightarrow> w
           | Some p0 \<Rightarrow>
               let p = upd_base (erase_listener h) p0; w1 = set_object i p w in
               if listeners_count (base_of p) = 0
               then andthen (exec_effects e i (platform_close e p) w1) (erase_room roomstr)
               else w1))"

definition on_server_close :: "env \<Rightarrow> string \<Rightarrow> hdl \<Rightarrow> world \<Rightarrow> world" where
  "on_server_close e roomstr h w =
     andthen (lock w) (\<lambda>w. andthen (leave_room e roomstr h w) unlock)"

subsection \<open>A message from a client\<close>

text \<open>\<open>server.send\<close> of a text to the client, then \<open>SERVER_CLOSE_AND_REPORT_WHEN_ERROR\<close>.\<close>

definition reply :: "env \<Rightarrow> hdl \<Rightarrow> string \<Rightarrow> world \<Rightarrow> world" where
  "reply e h msg w = emit (server_send e None h msg # server_close_and_report h (endpoint_send e None h msg)) w"

text \<open>Platform tag and room id of a request, \<open>None\<close> for a format error.\<close>

definition split_roomstr :: "string \<Rightarrow> (string \<times> string) option" where
  "split_roomstr roomstr =
     (case find_char CHR ''_'' roomstr of
        None \<Rightarrow> None
      | Some pos \<Rightarrow>
          if length roomstr > 3 \<and> pos > 0 \<and> pos < length roomstr - 1
          then Some (take pos roomstr, drop (pos + 1) roomstr) else None)"

text \<open>The end of \<open>on_server_message\<close>, for an object that is in no map or is to be started again.\<close>

definition open_room :: "env \<Rightarrow> hdl \<Rightarrow> string \<Rightarrow> nat \<Rightarrow> platform \<Rightarrow> world \<Rightarrow> world" where
  "open_room e h roomstr i p w =
     (let p1 = upd_base set_close_callback (upd_base (add_listener h) p);
          w1 = w\<lparr>close_room := (close_room w)(h := Some roomstr),
                 rp_map := (rp_map w)(roomstr \<mapsto> i)\<rparr>;
          (p2, effs) = platform_start e p1
      in exec_effects e i effs (set_object i p2 w1))"

definition join_room :: "env \<Rightarrow> hdl \<Rightarrow> string \<Rightarrow> string \<Rightarrow> string \<Rightarrow> world \<Rightarrow> world" where
  "join_room e h roomstr tag roomid w =
     (case rp_map w roomstr of
        Some i \<Rightarrow>
          (case objects w i of
             None \<Rightarrow> w
           | Some p \<Rightarrow>
               if \<not> have_listener h (base_of p) then set_object i (upd_base (add_listener h) p) w
               else open_room e h roomstr i p w)
      | None \<Rightarrow>
          (case platform_get_instance e tag roomid of
             None \<Rightarrow> reply e h (''platform '' @ tag @ '' is not valid!'') w
           | Some p \<Rightarrow>
               if \<not> is_room_valid p then reply e h ''roomid invalid!'' w
               else open_room e h roomstr (next_object w) p (w\<lparr>next_object := next_object w + 1\<rparr>)))"

definition on_server_message :: "env \<Rightarrow> string \<Rightarrow> hdl \<Rightarrow> opcode \<Rightarrow> string \<Rightarrow> world \<Rightarrow> world" where
  "on_server_message e old_roomstr h opc payload w =
     (if opc \<noteq> TEXT then w
      else let roomstr = trim e payload in
        case split_roomstr roomstr of
          None \<Rightarrow> reply e h ''format error!'' w
        | Some (tag, roomid) \<Rightarrow>
            andthen (lock w) (\<lambda>w.
              if old_roomstr = roomstr \<and> rp_map w old_roomstr \<noteq> None then unlock w
              else
                let w1 = w\<lparr>msg_room := (msg_room w)(h := roomstr)\<rparr> in
                andthen (leave_room e old_roomstr h w1)
                  (\<lambda>w. andthen (join_room e h roomstr tag roomid w) unlock)))"

subsection \<open>Runs of the proxy\<close>

text \<open>
  A step is one handler: a message of a client, the end of a connection, or a network event of
  a platform object.  Every step may see another environment.
\<close>

datatype proxy_event =
    Client_message hdl opcode string
  | Client_closed hdl
  | Object_event nat platform_event

definition object_event :: "env \<Rightarrow> codec \<Rightarrow> nat \<Rightarrow> platform_event \<Rightarrow> world \<Rightarrow> world" where
  "object_event e cd i ev w =
     (case objects w i of
        None \<Rightarrow> w
      | Some p \<Rightarrow> let (p', effs) = platform_step e cd p ev in exec_effects e i effs (set_object i p' w))"

definition client_closed :: "env \<Rightarrow> hdl \<Rightarrow> world \<Rightarrow> world" where
  "client_closed e h w =
     (case close_room w h of None \<Rightarrow> w | Some roomstr \<Rightarrow> on_server_close e roomstr h w)"

definition proxy_step :: "env \<Rightarrow> codec \<Rightarrow> proxy_event \<Rightarrow> world \<Rightarrow> world" where
  "proxy_step e cd ev w =
     (case ev of
        Client_message h opc payload \<Rightarrow> on_server_message e (msg_room w h) h opc payload w
      | Client_closed h \<Rightarrow> client_closed e h w
      | Object_event i pev \<Rightarrow> object_event e cd i pev w)"

inductive proxy_run :: "codec \<Rightarrow> world \<Rightarrow> world \<Rightarrow> bool" for cd w0 where
  run_begin: "proxy_run cd w0 w0"
| run_step: "proxy_run cd w0 w \<Longrightarrow> halted w = None \<Longrightarrow> proxy_run cd w0 (proxy_step e cd ev w)"

inductive_cases proxy_runE: "proxy_run cd w0 w"

section \<open>The invariant of the proxy\<close>

text \<open>
  \<open>obj_ok\<close>: an object has an allocated address, an ordered set of listeners, and its close
  callback.  \<open>rooms_ok X\<close>: the key of an object in the map is its own room string, and its
  listeners are bound to that room, those in \<open>X\<close> excepted.
\<close>

definition obj_ok :: "world \<Rightarrow> nat \<Rightarrow> platform \<Rightarrow> bool" where
  "obj_ok w i p \<longleftrightarrow> i < next_object w \<and> base_ok (base_of p) \<and> base.m_close_callback (base_of p)"

definition listeners_of :: "platform \<Rightarrow> hdl set" where
  "listeners_of p = listeners (base_of p)"

definition rooms_ok :: "hdl set \<Rightarrow> world \<Rightarrow> bool" where
  "rooms_ok X w \<longleftrightarrow>
     (\<forall>i p. objects w i = Some p \<longrightarrow> obj_ok w i p) \<and>
     (\<forall>r i. rp_map w r = Some i \<longrightarrow>
        (\<exists>p. objects w i = Some p \<and> room_key p = r \<and> (\<forall>h \<in> listeners_of p - X. msg_room w h = r)))"

text \<open>The mapped rooms a connection listens to.\<close>

definition listens :: "world \<Rightarrow> hdl \<Rightarrow> string \<Rightarrow> bool" where
  "listens w h r = (case rp_map w r of
       None \<Rightarrow> False
     | Some i \<Rightarrow> (case objects w i of None \<Rightarrow> False | Some p \<Rightarrow> have_listener h (base_of p)))"

lemma listens_iff:
  "listens w h r \<longleftrightarrow> (\<exists>i p. rp_map w r = Some i \<and> objects w i = Some p \<and> h \<in> listeners_of p)"
  by (auto simp: listens_def listeners_of_def listener_queries split: option.splits)

subsection \<open>What can only shrink\<close>

text \<open>
  \<open>shrinks w w'\<close>: rooms may have left the map and listeners their objects, nothing else of
  what the invariant speaks of has changed.
\<close>

definition smaller :: "platform \<Rightarrow> platform \<Rightarrow> bool" where
  "smaller p p' \<longleftrightarrow> room_key p' = room_key p \<and> listeners_of p' \<subseteq> listeners_of p \<and>
     (base_ok (base_of p) \<longrightarrow> base_ok (base_of p')) \<and>
     (base.m_close_callback (base_of p) \<longrightarrow> base.m_close_callback (base_of p'))"

definition shrinks :: "world \<Rightarrow> world \<Rightarrow> bool" where
  "shrinks w w' \<longleftrightarrow>
     rp_map w' \<subseteq>\<^sub>m rp_map w \<and> msg_room w' = msg_room w \<and> close_room w' = close_room w \<and>
     next_object w' = next_object w \<and> dom (objects w') = dom (objects w) \<and>
     (\<forall>i p p'. objects w i = Some p \<longrightarrow> objects w' i = Some p' \<longrightarrow> smaller p p')"

lemma smaller_refl [simp]: "smaller p p"
  by (simp add: smaller_def)

lemma smaller_trans: "smaller p q \<Longrightarrow> smaller q r \<Longrightarrow> smaller p r"
  by (auto simp: smaller_def)

lemma shrinks_refl [simp]: "shrinks w w"
  by (auto simp: shrinks_def)

lemma shrinks_objects:
  assumes "shrinks w w'"
  shows "objects w' i = Some p' \<Longrightarrow> \<exists>p. objects w i = Some p"
    and "objects w i = Some p \<Longrightarrow> \<exists>p'. objects w' i = Some p'"
proof -
  have "dom (objects w') = dom (objects w)" using assms by (simp add: shrinks_def)
  then show "objects w' i = Some p' \<Longrightarrow> \<exists>p. objects w i = Some p"
    and "objects w i = Some p \<Longrightarrow> \<exists>p'. objects w' i = Some p'"
    by (metis domD domI)+
qed

lemma shrinks_trans:
  assumes "shrinks u v" "shrinks v w"
  shows "shrinks u w"
proof -
  have "smaller p r" if t: "objects u i = Some p" "objects w i = Some r" for i p r
  proof -
    obtain q where "objects v i = Some q" using shrinks_objects(2) [OF assms(1) t(1)] by blast
    then show ?thesis using assms that smaller_trans by (fastforce simp: shrinks_def)
  qed
  then show ?thesis using assms map_le_trans by (auto simp: shrinks_def)
qed

lemma shrinks_simps [simp]:
  "shrinks w (emit evs w)" "shrinks w (lock w)" "shrinks w (unlock w)" "shrinks w (erase_room r w)"
  "shrinks w (w\<lparr>halted := x\<rparr>)" "shrinks w (w\<lparr>requests := rs\<rparr>)"
  by (auto simp: shrinks_def emit_def lock_def unlock_def erase_room_def map_le_def)

lemma shrinks_set_object:
  "objects w i = Some p \<Longrightarrow> smaller p p' \<Longrightarrow> shrinks w (set_object i p' w)"
  by (auto simp: shrinks_def set_object_def)

lemma shrinks_andthen: "shrinks u w \<Longrightarrow> shrinks w (f w) \<Longrightarrow> shrinks u (andthen w f)"
  by (auto simp: andthen_def intro: shrinks_trans)

lemma shrinks_on_platform_close [simp]: "shrinks w (on_platform_close r w)"
  unfolding on_platform_close_def
  by (intro shrinks_andthen shrinks_simps(2)) (rule shrinks_trans [OF shrinks_simps(4) shrinks_simps(3)])

lemma base_of_with_base:
  "m_platform_name b = m_platform_name (base_of p) \<Longrightarrow> m_roomid b = m_roomid (base_of p) \<Longrightarrow>
     base_of (with_base b p) = b"
  using base_of_upd_base [of "\<lambda>_. b" p] by (simp add: upd_base_def)

lemma publish_frame:
  assumes "publish e msg b = (b', evs)"
  shows "m_platform_name b' = m_platform_name b" "m_roomid b' = m_roomid b"
    "base.m_close_callback b' = base.m_close_callback b"
  using assms by (auto simp: publish_def Let_def split: prod.splits)

lemma smaller_publish:
  assumes "publish e msg (base_of p) = (b, evs)"
  shows "smaller p (with_base b p)"
proof -
  note f = publish_frame [OF assms]
  have "listeners b \<subseteq> listeners (base_of p)"
  proof -
    have "set (fold set_erase hs s) \<subseteq> set s" for hs s
      by (induction hs arbitrary: s) (fastforce simp: set_erase_def)+
    then show ?thesis
      using assms by (fastforce simp: publish_def Let_def listeners_def split: prod.splits)
  qed
  then show ?thesis
    using f publish_base(1) [OF _ assms] base_of_with_base [OF f(1,2)]
    by (simp add: smaller_def room_key_def listeners_of_def)
qed

lemma shrinks_exec_effect: "shrinks w (exec_effect e i f w)"
proof (cases f)
  case (Publish msg)
  show ?thesis
  proof (cases "objects w i")
    case (Some p)
    obtain b evs where b: "publish e msg (base_of p) = (b, evs)" by (cases "publish e msg (base_of p)")
    have "shrinks w (set_object i (with_base b p) w)"
      using Some smaller_publish [OF b] by (rule shrinks_set_object)
    then show ?thesis
      using Publish Some b by (auto simp: exec_effect_def exec_publish_def intro: shrinks_trans)
  qed (simp add: Publish exec_effect_def exec_publish_def)
next
  case (Close_callback r)
  then show ?thesis
    by (simp add: exec_effect_def exec_callback_def split: option.split)
qed (simp_all add: exec_effect_def)

lemma shrinks_exec_effects: "shrinks w (exec_effects e i effs w)"
  by (induction effs arbitrary: w) (auto intro: shrinks_andthen shrinks_exec_effect)

lemma smaller_erase_listener: "smaller p (upd_base (erase_listener h) p)"
proof -
  have "listeners (erase_listener h b) \<subseteq> listeners b" for b
    by (auto simp: erase_listener_def listeners_def set_erase_def)
  then show ?thesis
    by (simp add: smaller_def room_key_def listeners_of_def)
qed

lemma shrinks_leave_room: "shrinks w (leave_room e r h w)"
proof (cases "rp_map w r")
  case (Some i)
  show ?thesis
  proof (cases "objects w i")
    case (Some p0)
    let ?p = "upd_base (erase_listener h) p0"
    have 1: "shrinks w (set_object i ?p w)" using Some smaller_erase_listener by (rule shrinks_set_object)
    have "shrinks w (andthen (exec_effects e i (platform_close e ?p) (set_object i ?p w)) (erase_room r))"
      by (rule shrinks_andthen) (use 1 shrinks_exec_effects shrinks_trans in \<open>blast, simp\<close>)
    with 1 show ?thesis
      using Some \<open>rp_map w r = Some i\<close> by (simp add: leave_room_def Let_def)
  qed (simp add: leave_room_def Some)
qed (simp add: leave_room_def)

lemma shrinks_rooms_ok:
  assumes "shrinks w w'" "rooms_ok X w"
  shows "rooms_ok X w'"
proof -
  have "obj_ok w' i p'" if t: "objects w' i = Some p'" for i p'
  proof -
    obtain p where "objects w i = Some p" using shrinks_objects(1) [OF assms(1) t] by blast
    then show ?thesis using assms that by (auto simp: shrinks_def rooms_ok_def obj_ok_def smaller_def)
  qed
  moreover have "\<exists>p'. objects w' i = Some p' \<and> room_key p' = r \<and>
      (\<forall>h \<in> listeners_of p' - X. msg_room w' h = r)" if "rp_map w' r = Some i" for r i
  proof -
    have "rp_map w r = Some i" using assms(1) that by (auto simp: shrinks_def map_le_def dom_def)
    then have "\<exists>p. objects w i = Some p \<and> room_key p = r \<and> (\<forall>h \<in> listeners_of p - X. msg_room w h = r)"
      using assms(2) by (simp add: rooms_ok_def)
    then obtain p where p: "objects w i = Some p" "room_key p = r"
      "\<forall>h \<in> listeners_of p - X. msg_room w h = r" by blast
    then obtain p' where "objects w' i = Some p'" using shrinks_objects(2) [OF assms(1)] by blast
    then show ?thesis using p assms(1) by (fastforce simp: shrinks_def smaller_def)
  qed
  ultimately show ?thesis by (simp add: rooms_ok_def)
qed

lemma shrinks_listens: "shrinks w w' \<Longrightarrow> listens w' h r \<Longrightarrow> listens w h r"
proof -
  assume a: "shrinks w w'" "listens w' h r"
  then obtain i p' where w': "rp_map w' r = Some i" "objects w' i = Some p'" "h \<in> listeners_of p'"
    by (auto simp: listens_iff)
  have "rp_map w r = Some i" using a(1) w'(1) by (auto simp: shrinks_def map_le_def dom_def)
  moreover obtain p where "objects w i = Some p" using shrinks_objects(1) [OF a(1) w'(2)] by blast
  ultimately show "listens w h r"
    using a(1) w' by (fastforce simp: shrinks_def smaller_def listens_iff)
qed

subsection \<open>Every step keeps the invariant\<close>

definition proxy_inv :: "world \<Rightarrow> bool" where
  "proxy_inv w \<longleftrightarrow> rooms_ok {} w \<and> \<not> rp_locked w"

lemma rooms_ok_mapped:
  assumes "rooms_ok X w" "rp_map w r = Some i"
  obtains p where "objects w i = Some p" "room_key p = r" "obj_ok w i p"
    "\<And>h. h \<in> listeners_of p \<Longrightarrow> h \<notin> X \<Longrightarrow> msg_room w h = r"
proof -
  have "\<exists>p. objects w i = Some p \<and> room_key p = r \<and> (\<forall>h \<in> listeners_of p - X. msg_room w h = r)"
    and "\<And>p. objects w i = Some p \<Longrightarrow> obj_ok w i p"
    using assms by (simp_all add: rooms_ok_def)
  then show ?thesis using that by blast
qed

lemma rooms_ok_one_room:
  assumes "rooms_ok X w" "rp_map w r = Some i" "rp_map w s = Some i"
  shows "r = s"
  using rooms_ok_mapped [OF assms(1,2)] rooms_ok_mapped [OF assms(1,3)] by (metis option.inject)

lemma listens_only:
  "rooms_ok X w \<Longrightarrow> h \<notin> X \<Longrightarrow> listens w h r \<Longrightarrow> msg_room w h = r"
  by (auto simp: listens_iff elim: rooms_ok_mapped)

lemma listens_emit [simp]: "listens (emit evs w) = listens w" "listens (unlock w) = listens w"
  "listens (w\<lparr>msg_room := f\<rparr>) = listens w"
  by (auto simp: fun_eq_iff listens_iff emit_def unlock_def)

lemma rooms_ok_fewer:
  assumes "rooms_ok X w" "\<And>h r. h \<in> X - Y \<Longrightarrow> listens w h r \<Longrightarrow> msg_room w h = r"
  shows "rooms_ok Y w"
proof -
  have "\<exists>p. objects w i = Some p \<and> room_key p = r \<and> (\<forall>h \<in> listeners_of p - Y. msg_room w h = r)"
    if m: "rp_map w r = Some i" for r i
  proof -
    from assms(1) m obtain p where p: "objects w i = Some p" "room_key p = r"
      "\<And>h. h \<in> listeners_of p \<Longrightarrow> h \<notin> X \<Longrightarrow> msg_room w h = r" by (rule rooms_ok_mapped) blast
    have "msg_room w h = r" if "h \<in> listeners_of p" "h \<notin> Y" for h
      using p(3) [OF that(1)] assms(2) [of h r] that m p(1) by (cases "h \<in> X") (auto simp: listens_iff)
    with p show ?thesis by blast
  qed
  then show ?thesis using assms(1) by (simp add: rooms_ok_def)
qed

lemma rooms_ok_msg_room: "rooms_ok {} w \<Longrightarrow> rooms_ok {h} (w\<lparr>msg_room := (msg_room w)(h := r)\<rparr>)"
  by (fastforce simp: rooms_ok_def obj_ok_def)

text \<open>Who leaves the only room it listens to listens to none.\<close>

lemma leave_room_absent:
  assumes "rooms_ok X w" "\<And>r. listens w h r \<Longrightarrow> r = old" "halted (leave_room e old h w) = None"
    and "halted w = None"
  shows "\<not> listens (leave_room e old h w) h r"
proof
  assume l: "listens (leave_room e old h w) h r"
  then have "r = old" using assms(2) shrinks_listens [OF shrinks_leave_room] by blast
  with l obtain i where i: "rp_map w old = Some i"
    using shrinks_listens [OF shrinks_leave_room l] by (auto simp: listens_iff)
  then obtain p0 where p0: "objects w i = Some p0" "obj_ok w i p0" using assms(1) by (auto elim: rooms_ok_mapped)
  let ?p = "upd_base (erase_listener h) p0" and ?w1 = "set_object i (upd_base (erase_listener h) p0) w"
  let ?w2 = "exec_effects e i (platform_close e ?p) ?w1"
  have gone: "h \<notin> listeners_of ?p" using p0(2) by (simp add: listeners_of_def obj_ok_def)
  have not1: "\<not> listens ?w1 h old" using i gone by (simp add: listens_iff set_object_def)
  show False
  proof (cases "listeners_count (base_of ?p) = 0")
    case True
    then have "leave_room e old h w = andthen ?w2 (erase_room old)"
      using i p0(1) by (simp add: leave_room_def Let_def)
    then have "leave_room e old h w = erase_room old ?w2"
      using assms(3) by (simp add: andthen_def split: if_splits)
    with l \<open>r = old\<close> show False by (simp add: listens_iff erase_room_def)
  next
    case False
    then have "leave_room e old h w = ?w1" using i p0(1) by (simp add: leave_room_def Let_def)
    with l not1 \<open>r = old\<close> show False by simp
  qed
qed

lemma leave_room_frame:
  "msg_room (leave_room e r h w) = msg_room w" "close_room (leave_room e r h w) = close_room w"
  "next_object (leave_room e r h w) = next_object w"
  using shrinks_leave_room [of w e r h] by (simp_all add: shrinks_def)

lemma rooms_ok_set_object:
  assumes "rooms_ok X w" "obj_ok w i p"
    and "\<And>r. rp_map w r = Some i \<Longrightarrow> room_key p = r \<and> (\<forall>h \<in> listeners_of p - X. msg_room w h = r)"
  shows "rooms_ok X (set_object i p w)"
  using assms by (auto simp: rooms_ok_def obj_ok_def set_object_def)

lemma split_roomstr_parts:
  assumes "split_roomstr s = Some (tag, roomid)"
  shows "s = roomstr_of tag roomid \<and> CHR ''_'' \<notin> set tag \<and> tag \<noteq> [] \<and> roomid \<noteq> [] \<and>
    length tag + length roomid > 2"
proof -
  obtain pos where pos: "find_char CHR ''_'' s = Some pos" "length s > 3" "pos > 0" "pos < length s - 1"
    and parts: "tag = take pos s" "roomid = drop (pos + 1) s"
    using assms by (auto simp: split_roomstr_def split: option.splits if_splits)
  have "pos < length s" "s ! pos = CHR ''_''" "CHR ''_'' \<notin> set tag"
    using pos(1) parts(1) by (simp_all add: find_char_Some)
  moreover from this have "s = take pos s @ CHR ''_'' # drop (pos + 1) s"
    using id_take_nth_drop [of pos s] by simp
  ultimately show ?thesis using pos parts by (auto simp: roomstr_of_def)
qed

lemma new_base_sel: "m_platform_name (new_base p r) = p" "m_roomid (new_base p r) = r"
  by (simp_all add: new_base_def)

text \<open>The world after a room was opened for a fresh object, before its \<open>start\<close> makes requests.\<close>

lemma rooms_ok_open:
  assumes w: "rooms_ok {} w" "rp_map w roomstr = None" "msg_room w h = roomstr"
    and p: "base_of p = set_close_callback (add_listener h (new_base tag roomid))"
    and s: "roomstr = roomstr_of tag roomid"
  shows "rooms_ok {} (set_object (next_object w) p (w\<lparr>next_object := next_object w + 1,
    close_room := cr, rp_map := (rp_map w)(roomstr \<mapsto> next_object w)\<rparr>))"
proof -
  have old: "obj_ok w i q \<and> i \<noteq> next_object w" if "objects w i = Some q" for i q
    using w(1) that by (auto simp: rooms_ok_def obj_ok_def)
  have mapped: "i \<noteq> next_object w" if m: "rp_map w r = Some i" for r i
  proof -
    obtain q where "objects w i = Some q" by (rule rooms_ok_mapped [OF w(1) m])
    from old [OF this] show ?thesis by blast
  qed
  have new: "listeners_of p = {h}" "room_key p = roomstr" "base_ok (base_of p)"
    "base.m_close_callback (base_of p)"
    using p s by (simp_all add: listeners_of_def room_key_def new_base_sel)
  show ?thesis
    unfolding rooms_ok_def
  proof (intro conjI allI impI)
    fix i q
    assume "objects (set_object (next_object w) p (w\<lparr>next_object := next_object w + 1,
      close_room := cr, rp_map := (rp_map w)(roomstr \<mapsto> next_object w)\<rparr>)) i = Some q"
    then show "obj_ok (set_object (next_object w) p (w\<lparr>next_object := next_object w + 1,
      close_room := cr, rp_map := (rp_map w)(roomstr \<mapsto> next_object w)\<rparr>)) i q"
      using old [of i q] new by (auto simp: set_object_def obj_ok_def split: if_splits)
  next
    fix r i
    assume r: "rp_map (set_object (next_object w) p (w\<lparr>next_object := next_object w + 1,
      close_room := cr, rp_map := (rp_map w)(roomstr \<mapsto> next_object w)\<rparr>)) r = Some i"
    show "\<exists>q. objects (set_object (next_object w) p (w\<lparr>next_object := next_object w + 1,
        close_room := cr, rp_map := (rp_map w)(roomstr \<mapsto> next_object w)\<rparr>)) i = Some q \<and>
      room_key q = r \<and> (\<forall>h \<in> listeners_of q - {}. msg_room (set_object (next_object w) p
        (w\<lparr>next_object := next_object w + 1, close_room := cr,
          rp_map := (rp_map w)(roomstr \<mapsto> next_object w)\<rparr>)) h = r)"
    proof (cases "r = roomstr")
      case True
      with r new w(3) show ?thesis by (simp add: set_object_def)
    next
      case False
      then have m: "rp_map w r = Some i" using r by (simp add: set_object_def)
      obtain q where "objects w i = Some q" "room_key q = r" "\<And>h. h \<in> listeners_of q \<Longrightarrow> msg_room w h = r"
        using rooms_ok_mapped [OF w(1) m] by (metis empty_iff)
      with mapped [OF m] show ?thesis by (simp add: set_object_def)
    qed
  qed
qed

lemma rooms_ok_join:
  assumes w: "rooms_ok {h} w" "\<And>r. \<not> listens w h r" "msg_room w h = roomstr"
    and s: "roomstr = roomstr_of tag roomid"
  shows "rooms_ok {} (join_room e h roomstr tag roomid w)"
proof -
  have ok: "rooms_ok {} w" using w(1) by (rule rooms_ok_fewer) (use w(2) in blast)
  show ?thesis
  proof (cases "rp_map w roomstr")
    case None
    show ?thesis
    proof (cases "platform_get_instance e tag roomid")
      case None
      then show ?thesis
        using ok shrinks_rooms_ok [OF shrinks_simps(1)]
        by (simp add: join_room_def reply_def \<open>rp_map w roomstr = None\<close>)
    next
      case (Some p)
      let ?p1 = "upd_base set_close_callback (upd_base (add_listener h) p)"
      obtain p2 effs where p2: "platform_start e ?p1 = (p2, effs)" by (cases "platform_start e ?p1")
      have "base_of p2 = set_close_callback (add_listener h (new_base tag roomid))"
        using platform_start_base [OF p2] platform_get_instance_base [OF Some] by simp
      from rooms_ok_open [OF ok None w(3) this s]
      have "rooms_ok {} (open_room e h roomstr (next_object w) p (w\<lparr>next_object := next_object w + 1\<rparr>))"
        by (auto simp: open_room_def Let_def p2 intro!: shrinks_rooms_ok [OF shrinks_exec_effects])
      moreover have "rooms_ok {} (reply e h m w)" for m
        using ok shrinks_rooms_ok [OF shrinks_simps(1)] by (simp add: reply_def)
      ultimately show ?thesis using None Some by (simp add: join_room_def)
    qed
  next
    case (Some i)
    from ok Some obtain p where p: "objects w i = Some p" "room_key p = roomstr" "obj_ok w i p"
      "\<And>h. h \<in> listeners_of p \<Longrightarrow> msg_room w h = roomstr" by (auto elim: rooms_ok_mapped)
    have "h \<notin> listeners_of p" using w(2) Some p(1) by (auto simp: listens_iff)
    then have "join_room e h roomstr tag roomid w = set_object i (upd_base (add_listener h) p) w"
      using Some p(1) by (simp add: join_room_def listener_queries listeners_of_def)
    moreover have "rooms_ok {} (set_object i (upd_base (add_listener h) p) w)"
    proof (rule rooms_ok_set_object [OF ok])
      show "obj_ok w i (upd_base (add_listener h) p)" using p(3) by (simp add: obj_ok_def)
      fix r assume "rp_map w r = Some i"
      then have "r = roomstr" using rooms_ok_one_room [OF ok _ Some] by blast
      then show "room_key (upd_base (add_listener h) p) = r \<and>
          (\<forall>h' \<in> listeners_of (upd_base (add_listener h) p) - {}. msg_room w h' = r)"
        using p w(3) by (auto simp: room_key_def listeners_of_def obj_ok_def)
    qed
    ultimately show ?thesis by simp
  qed
qed

lemma lock_unlocked: "\<not> rp_locked w \<Longrightarrow> lock w = w\<lparr>rp_locked := True\<rparr>"
  by (simp add: lock_def)

lemma halted_simps [simp]:
  "halted (w\<lparr>rp_locked := x\<rparr>) = halted w" "halted (unlock w) = halted w"
  "halted (erase_room r w) = halted w" "halted (set_object i p w) = halted w"
  "halted (emit evs w) = halted w" "halted (reply e h m w) = halted w"
  by (simp_all add: unlock_def erase_room_def set_object_def emit_def reply_def)

lemma rp_locked_simps [simp]:
  "rp_locked (erase_room r w) = rp_locked w" "rp_locked (set_object i p w) = rp_locked w"
  "rp_locked (emit evs w) = rp_locked w" "\<not> rp_locked (unlock w)"
  by (simp_all add: unlock_def erase_room_def set_object_def emit_def)

lemma andthen_halted: "halted (andthen w f) = None \<Longrightarrow> halted w = None \<and> andthen w f = f w"
  by (simp add: andthen_def split: if_splits)

lemma rooms_ok_lock [simp]: "rooms_ok X (w\<lparr>rp_locked := x\<rparr>) = rooms_ok X w"
  by (simp add: rooms_ok_def obj_ok_def)

lemma listens_lock [simp]: "listens (w\<lparr>rp_locked := x\<rparr>) = listens w"
  by (simp add: listens_iff fun_eq_iff)

lemma rp_locked_exec_effects:
  "\<not> rp_locked w \<Longrightarrow> halted w = None \<Longrightarrow> halted (exec_effects e i effs w) = None \<Longrightarrow>
    \<not> rp_locked (exec_effects e i effs w)"
proof (induction effs arbitrary: w)
  case (Cons f effs)
  have "\<not> rp_locked (exec_effect e i f w)"
    using Cons.prems(1,2)
    by (cases f) (simp_all add: exec_effect_def exec_publish_def exec_callback_def on_platform_close_def
        andthen_def lock_unlocked split: option.split prod.split)
  moreover have "halted (exec_effect e i f w) = None"
    "exec_effects e i (f # effs) w = exec_effects e i effs (exec_effect e i f w)"
    using andthen_halted Cons.prems(3) by simp_all
  ultimately show ?case using Cons.IH Cons.prems(3) by simp
qed simp

lemma proxy_inv_message:
  assumes inv: "proxy_inv w" "halted w = None"
    and fin: "halted (on_server_message e (msg_room w h) h opc payload w) = None"
  shows "proxy_inv (on_server_message e (msg_room w h) h opc payload w)"
proof (cases "opc = TEXT \<and> split_roomstr (trim e payload) \<noteq> None")
  case False
  then have "on_server_message e (msg_room w h) h opc payload w = w \<or>
      on_server_message e (msg_room w h) h opc payload w = reply e h ''format error!'' w"
    by (auto simp: on_server_message_def Let_def split: option.split)
  then show ?thesis
    using inv shrinks_rooms_ok [OF shrinks_simps(1)] by (auto simp: reply_def proxy_inv_def)
next
  case True
  let ?old = "msg_room w h" and ?r = "trim e payload" and ?w0 = "w\<lparr>rp_locked := True\<rparr>"
  let ?w1 = "?w0\<lparr>msg_room := (msg_room ?w0)(h := trim e payload)\<rparr>"
  from True obtain tag roomid where split: "split_roomstr ?r = Some (tag, roomid)" by auto
  have res: "on_server_message e ?old h opc payload w =
      (if ?old = ?r \<and> rp_map ?w0 ?old \<noteq> None then unlock ?w0
       else andthen (leave_room e ?old h ?w1) (\<lambda>w. andthen (join_room e h ?r tag roomid w) unlock))"
    using True split inv
    by (auto simp: on_server_message_def andthen_def [of "?w0"] lock_unlocked proxy_inv_def Let_def)
  show ?thesis
  proof (cases "?old = ?r \<and> rp_map ?w0 ?old \<noteq> None")
    case True
    then have "on_server_message e ?old h opc payload w = unlock ?w0"
      unfolding res by (rule if_P)
    then show ?thesis using inv by (simp only: proxy_inv_def) (simp add: unlock_def)
  next
    case False
    let ?w2 = "leave_room e ?old h ?w1" and ?w3 = "join_room e h ?r tag roomid (leave_room e ?old h ?w1)"
    have run: "on_server_message e ?old h opc payload w =
        andthen ?w2 (\<lambda>w. andthen (join_room e h ?r tag roomid w) unlock)"
      unfolding res using False by (rule if_not_P)
    from andthen_halted [OF fin [unfolded run]] have w2: "halted ?w2 = None"
      and run3: "on_server_message e ?old h opc payload w = andthen ?w3 unlock"
      by (simp_all only: run)
    from andthen_halted [OF fin [unfolded run3]]
    have eq: "on_server_message e ?old h opc payload w = unlock ?w3" by (simp only: run3)
    have h1: "halted ?w1 = None" using inv(2) by simp
    have ok1: "rooms_ok {h} ?w1" using inv by (intro rooms_ok_msg_room) (simp add: proxy_inv_def)
    have only: "r = ?old" if "listens ?w1 h r" for r
      using that inv listens_only [of "{}" w h r] by (simp add: proxy_inv_def)
    have "rooms_ok {h} ?w2" using shrinks_leave_room ok1 by (rule shrinks_rooms_ok)
    moreover have "\<not> listens ?w2 h r" for r
      using ok1 only w2 h1 by (rule leave_room_absent)
    moreover have "msg_room ?w2 h = ?r" by (simp add: leave_room_frame)
    ultimately have "rooms_ok {} ?w3"
      using split_roomstr_parts [OF split] by (intro rooms_ok_join) auto
    then show ?thesis
      using shrinks_rooms_ok [OF shrinks_simps(3)] by (simp add: eq proxy_inv_def)
  qed
qed

lemma proxy_inv_close:
  assumes inv: "proxy_inv w" and fin: "halted (on_server_close e r h w) = None"
  shows "proxy_inv (on_server_close e r h w)"
proof -
  have "halted (andthen (leave_room e r h (lock w)) unlock) = None"
    "on_server_close e r h w = andthen (leave_room e r h (lock w)) unlock"
    using fin andthen_halted [OF fin [unfolded on_server_close_def]] by (simp_all add: on_server_close_def)
  then have "on_server_close e r h w = unlock (leave_room e r h (lock w))"
    using andthen_halted by metis
  moreover have "shrinks w (unlock (leave_room e r h (lock w)))"
    using shrinks_trans [OF shrinks_simps(2) shrinks_trans [OF shrinks_leave_room shrinks_simps(3)]] .
  ultimately show ?thesis
    using inv shrinks_rooms_ok by (fastforce simp: proxy_inv_def)
qed

lemma proxy_inv_object:
  assumes inv: "proxy_inv w" and run: "halted w = None" and fin: "halted (object_event e cd i ev w) = None"
  shows "proxy_inv (object_event e cd i ev w)"
proof (cases "objects w i")
  case (Some p)
  obtain p' effs where p': "platform_step e cd p ev = (p', effs)" by (cases "platform_step e cd p ev")
  have eq: "object_event e cd i ev w = exec_effects e i effs (set_object i p' w)"
    by (simp add: object_event_def Some p')
  have "smaller p p'" using platform_step_base [OF p'] by (simp add: smaller_def room_key_def listeners_of_def)
  then have "shrinks w (object_event e cd i ev w)"
    unfolding eq using shrinks_trans [OF shrinks_set_object shrinks_exec_effects] Some by blast
  moreover have "\<not> rp_locked (object_event e cd i ev w)"
    using rp_locked_exec_effects [of "set_object i p' w"] inv run fin by (simp add: eq proxy_inv_def)
  ultimately show ?thesis using inv shrinks_rooms_ok by (auto simp: proxy_inv_def)
qed (use inv in \<open>simp add: object_event_def\<close>)

lemma proxy_inv_step:
  assumes "proxy_inv w" "halted w = None" "halted (proxy_step e cd ev w) = None"
  shows "proxy_inv (proxy_step e cd ev w)"
  using assms proxy_inv_message proxy_inv_close proxy_inv_object
  by (cases ev) (auto simp: proxy_step_def client_closed_def split: option.splits)

lemma proxy_inv_init: "proxy_inv init_world"
  by (simp add: proxy_inv_def init_world_def rooms_ok_def)

lemma proxy_run_inv:
  "proxy_run cd init_world w \<Longrightarrow> halted w = None \<Longrightarrow> proxy_inv w"
  by (induction rule: proxy_run.induct) (auto simp: proxy_inv_init intro: proxy_inv_step)

end
