(* ===== verification/Server_Spec.thy ===== *)
theory Server_Spec
  imports Server
begin

section \<open>What the proxy promises: every connection has one room\<close>

text \<open>
  The abstraction of a world is the set of pairs of a connection and the room it listens to.
  Over it a request to join is \<open>subscribe\<close> and the end of a connection \<open>unsubscribe\<close>; the lemmas
  show that the handlers of \<open>main.cpp\<close> refine them, when the platform operations they call
  report no error.  The last part shows where the handlers do not do so.
\<close>

definition subs :: "world \<Rightarrow> (hdl \<times> string) set" where
  "subs w = {(h, r). listens w h r}"

definition unsubscribe :: "hdl \<Rightarrow> (hdl \<times> string) set \<Rightarrow> (hdl \<times> string) set" where
  "unsubscribe h S = {(k, r). (k, r) \<in> S \<and> k \<noteq> h}"

definition subscribe :: "hdl \<Rightarrow> string \<Rightarrow> (hdl \<times> string) set \<Rightarrow> (hdl \<times> string) set" where
  "subscribe h r S = insert (h, r) (unsubscribe h S)"

text \<open>An environment in which connecting to and closing an upstream gives no error.\<close>

definition upstream_ok :: "env \<Rightarrow> bool" where
  "upstream_ok e \<longleftrightarrow> get_connection_ec e = None \<and> client_close_ec e = None"

subsection \<open>Effects that only make requests\<close>

definition is_request :: "effect \<Rightarrow> bool" where
  "is_request f \<longleftrightarrow> \<not> is_publish f \<and> \<not> is_callback f \<and> \<not> is_fault f"

lemma exec_request: "is_request f \<Longrightarrow> exec_effect e i f w = w\<lparr>requests := requests w @ [(i, f)]\<rparr>"
  by (cases f) (auto simp: is_request_def is_publish_def is_callback_def is_fault_def exec_effect_def)

lemma exec_fault: "is_fault f \<Longrightarrow> halted (exec_effect e i f w) \<noteq> None"
  by (cases f) (auto simp: is_fault_def exec_effect_def)

lemma exec_requests:
  "list_all is_request effs \<Longrightarrow> halted w = None \<Longrightarrow>
     exec_effects e i effs w = w\<lparr>requests := requests w @ map (Pair i) effs\<rparr>"
  by (induction effs arbitrary: w) (simp_all add: exec_request andthen_def)

lemma exec_no_fault:
  "halted (exec_effects e i effs w) = None \<Longrightarrow> \<not> list_ex is_fault effs"
proof (induction effs arbitrary: w)
  case (Cons f effs)
  have "halted (exec_effect e i f w) = None" "halted (exec_effects e i effs (exec_effect e i f w)) = None"
    using andthen_halted [of "exec_effect e i f w" "exec_effects e i effs"] Cons.prems by simp_all
  then show ?case using exec_fault [of f e i w] Cons.IH by auto
qed simp

lemma close_requests:
  "client_close_ec e = None \<Longrightarrow> \<not> list_ex is_fault (platform_close e p) \<Longrightarrow>
     list_all is_request (platform_close e p)"
  by (cases p) (auto simp: hj_close_def douyu_close_def bili_close_def yy_close_def hb_timer_cancel_def
      is_request_def is_publish_def is_callback_def is_fault_def split: if_splits)

lemma start_requests:
  "get_connection_ec e = None \<Longrightarrow> list_all is_request (snd (platform_start e p))"
  by (cases p) (auto simp: hj_start_def douyu_start_def bili_start_def yy_start_def Let_def
      is_request_def is_publish_def is_callback_def is_fault_def)

lemma subs_simps [simp]:
  "subs (w\<lparr>requests := rs\<rparr>) = subs w" "subs (w\<lparr>rp_locked := x\<rparr>) = subs w"
  "subs (w\<lparr>msg_room := m\<rparr>) = subs w" "subs (unlock w) = subs w" "subs (emit evs w) = subs w"
  by (auto simp: subs_def listens_iff)

subsection \<open>Leaving and joining\<close>

lemma subs_set_object:
  assumes "rooms_ok X w" "rp_map w r = Some i"
  shows "subs (set_object i p w) = {(h, s) \<in> subs w. s \<noteq> r} \<union> (\<lambda>h. (h, r)) ` listeners_of p"
proof -
  have "listens (set_object i p w) h s \<longleftrightarrow> (s \<noteq> r \<and> listens w h s) \<or> (s = r \<and> h \<in> listeners_of p)" for h s
  proof (cases "s = r")
    case True
    then show ?thesis using assms(2) by (simp add: listens_iff set_object_def)
  next
    case False
    then have "rp_map w s \<noteq> Some i" using rooms_ok_one_room [OF assms(1,2)] by blast
    with False show ?thesis by (auto simp: listens_iff set_object_def)
  qed
  then show ?thesis by (auto simp: subs_def)
qed

lemma listens_erase_room: "listens (erase_room r w) h s \<longleftrightarrow> s \<noteq> r \<and> listens w h s"
  by (auto simp: listens_iff erase_room_def)

lemma subs_mapped:
  assumes "rp_map w r = Some i" "objects w i = Some p"
  shows "{(h, s) \<in> subs w. s = r} = (\<lambda>h. (h, r)) ` listeners_of p"
  using assms by (auto simp: subs_def listens_iff)

lemma subs_leave_room:
  assumes "rooms_ok X w" "halted w = None" "client_close_ec e = None"
    and "halted (leave_room e r h w) = None"
  shows "subs (leave_room e r h w) = subs w - {(h, r)}"
proof (cases "rp_map w r")
  case None
  then show ?thesis by (auto simp: leave_room_def subs_def listens_iff)
next
  case (Some i)
  then obtain p0 where p0: "objects w i = Some p0" "obj_ok w i p0"
    using assms(1) by (auto elim: rooms_ok_mapped)
  let ?p = "upd_base (erase_listener h) p0" and ?w1 = "set_object i (upd_base (erase_listener h) p0) w"
  have l: "listeners_of ?p = listeners_of p0 - {h}"
    using p0(2) by (simp add: listeners_of_def obj_ok_def)
  have w1: "subs ?w1 = subs w - {(h, r)}"
    unfolding subs_set_object [OF assms(1) Some] l using subs_mapped [OF Some p0(1)] by auto
  show ?thesis
  proof (cases "listeners_count (base_of ?p) = 0")
    case False
    then show ?thesis using Some p0(1) w1 by (simp add: leave_room_def Let_def)
  next
    case True
    let ?w2 = "exec_effects e i (platform_close e ?p) ?w1"
    have eq: "leave_room e r h w = andthen ?w2 (erase_room r)"
      using True Some p0(1) by (simp add: leave_room_def Let_def)
    with assms(4) have h2: "halted ?w2 = None" "leave_room e r h w = erase_room r ?w2"
      by (auto dest: andthen_halted)
    have "subs ?w2 = subs ?w1"
      using exec_requests [OF close_requests [OF assms(3) exec_no_fault [OF h2(1)]], of ?w1 e i] assms(2)
      by simp
    moreover have "\<not> listens ?w1 k r" for k
    proof -
      have "base_ok (base_of ?p)" using p0(2) by (simp add: obj_ok_def)
      then have "listeners_of ?p = {}" using True listener_queries(2) by (simp only: listeners_of_def)
      then show ?thesis using Some by (auto simp: listens_iff set_object_def)
    qed
    then have "\<not> listens ?w2 k r" for k
      using \<open>subs ?w2 = subs ?w1\<close> unfolding subs_def by blast
    then have "subs (erase_room r ?w2) = subs ?w2"
      by (auto simp: subs_def listens_erase_room)
    ultimately show ?thesis using h2(2) w1 by simp
  qed
qed

text \<open>Whether the room of a request can be joined: it exists, or it can be opened.\<close>

definition joinable :: "env \<Rightarrow> world \<Rightarrow> string \<Rightarrow> string \<Rightarrow> string \<Rightarrow> bool" where
  "joinable e w roomstr tag roomid \<longleftrightarrow>
     rp_map w roomstr \<noteq> None \<or>
     (case platform_get_instance e tag roomid of None \<Rightarrow> False | Some p \<Rightarrow> is_room_valid p)"

lemma subs_open_fresh:
  assumes "rooms_ok X w" "rp_map w r = None"
  shows "subs (set_object (next_object w) p (w\<lparr>next_object := n, close_room := cr,
      rp_map := (rp_map w)(r \<mapsto> next_object w)\<rparr>)) = subs w \<union> (\<lambda>h. (h, r)) ` listeners_of p"
proof -
  have "i \<noteq> next_object w" if "objects w i = Some q" for i q
    using assms(1) that by (auto simp: rooms_ok_def obj_ok_def)
  moreover have "i \<noteq> next_object w" if m: "rp_map w s = Some i" for s i
  proof -
    obtain q where "objects w i = Some q" by (rule rooms_ok_mapped [OF assms(1) m])
    then show ?thesis using calculation by blast
  qed
  ultimately have "listens (set_object (next_object w) p (w\<lparr>next_object := n, close_room := cr,
      rp_map := (rp_map w)(r \<mapsto> next_object w)\<rparr>)) h s \<longleftrightarrow>
    (if s = r then h \<in> listeners_of p else listens w h s)" for h s
    by (auto simp: listens_iff set_object_def)
  moreover have "\<not> listens w h r" for h using assms(2) by (simp add: listens_iff)
  ultimately show ?thesis by (auto simp: subs_def split: if_splits)
qed

lemma subs_join_room:
  assumes w: "rooms_ok {} w" "halted w = None" "\<And>r. \<not> listens w h r"
    and e: "get_connection_ec e = None"
  shows "subs (join_room e h roomstr tag roomid w) =
    (if joinable e w roomstr tag roomid then insert (h, roomstr) (subs w) else subs w)"
proof (cases "rp_map w roomstr")
  case None
  show ?thesis
  proof (cases "platform_get_instance e tag roomid")
    case None
    then show ?thesis using \<open>rp_map w roomstr = None\<close> by (simp add: join_room_def joinable_def reply_def)
  next
    case (Some p)
    let ?p1 = "upd_base set_close_callback (upd_base (add_listener h) p)"
    obtain p2 effs where p2: "platform_start e ?p1 = (p2, effs)" by (cases "platform_start e ?p1")
    have "listeners_of p2 = {h}"
      using platform_start_base [OF p2] platform_get_instance_base [OF Some]
      by (simp add: listeners_of_def)
    moreover have "list_all is_request effs" using start_requests [OF e, of ?p1] by (simp add: p2)
    ultimately have "subs (open_room e h roomstr (next_object w) p (w\<lparr>next_object := next_object w + 1\<rparr>)) =
        insert (h, roomstr) (subs w)"
      using subs_open_fresh [OF w(1) None, where p = p2] w(2)
      by (simp add: open_room_def p2 Let_def exec_requests)
    then show ?thesis using None Some by (simp add: join_room_def joinable_def reply_def)
  qed
next
  case (Some i)
  then obtain p where p: "objects w i = Some p" "obj_ok w i p" using w(1) by (auto elim: rooms_ok_mapped)
  have "h \<notin> listeners_of p" using w(3) Some p(1) by (auto simp: listens_iff)
  then have "join_room e h roomstr tag roomid w = set_object i (upd_base (add_listener h) p) w"
    using Some p(1) by (simp add: join_room_def listener_queries listeners_of_def)
  moreover have "listeners_of (upd_base (add_listener h) p) = insert h (listeners_of p)"
    using p(2) by (simp add: listeners_of_def obj_ok_def)
  moreover have "subs (set_object i (upd_base (add_listener h) p) w) = insert (h, roomstr) (subs w)"
    unfolding subs_set_object [OF w(1) Some] calculation(2)
    using subs_mapped [OF Some p(1)] by blast
  ultimately show ?thesis using Some by (simp add: joinable_def)
qed

lemma rp_map_leave_room:
  assumes "halted w = None" "client_close_ec e = None" "halted (leave_room e old h w) = None" "r \<noteq> old"
  shows "rp_map (leave_room e old h w) r = rp_map w r"
proof (cases "\<exists>i p. rp_map w old = Some i \<and> objects w i = Some p")
  case False
  then show ?thesis by (auto simp: leave_room_def split: option.split)
next
  case True
  then obtain i p where m: "rp_map w old = Some i" "objects w i = Some p" by blast
  let ?p = "upd_base (erase_listener h) p" and ?w1 = "set_object i (upd_base (erase_listener h) p) w"
  let ?w2 = "exec_effects e i (platform_close e ?p) ?w1"
  show ?thesis
  proof (cases "listeners_count (base_of ?p) = 0")
    case False
    then show ?thesis using m by (simp add: leave_room_def Let_def set_object_def)
  next
    case True
    then have eq: "leave_room e old h w = andthen ?w2 (erase_room old)"
      using m by (simp add: leave_room_def Let_def)
    with assms(3) have h2: "halted ?w2 = None" "leave_room e old h w = erase_room old ?w2"
      by (auto dest: andthen_halted)
    then show ?thesis
      using exec_requests [OF close_requests [OF assms(2) exec_no_fault [OF h2(1)]], of ?w1 e i] assms(1,4)
      by (simp add: erase_room_def set_object_def)
  qed
qed

text \<open>A well-formed request, without its error and early-return branches.\<close>

lemma on_server_message_run:
  assumes "proxy_inv w" "halted w = None" "split_roomstr (trim e payload) = Some (tag, roomid)"
    and "\<not> (old = trim e payload \<and> rp_map w old \<noteq> None)"
    and "halted (on_server_message e old h TEXT payload w) = None"
  defines "w1 \<equiv> w\<lparr>rp_locked := True, msg_room := (msg_room w)(h := trim e payload)\<rparr>"
  shows "halted (leave_room e old h w1) = None"
    and "on_server_message e old h TEXT payload w =
      unlock (join_room e h (trim e payload) tag roomid (leave_room e old h w1))"
proof -
  have "on_server_message e old h TEXT payload w =
      andthen (leave_room e old h w1) (\<lambda>w. andthen (join_room e h (trim e payload) tag roomid w) unlock)"
    using assms(1-4)
    by (auto simp: on_server_message_def andthen_def [of "w\<lparr>rp_locked := True\<rparr>"] lock_unlocked
        proxy_inv_def Let_def w1_def)
  with assms(5) show "halted (leave_room e old h w1) = None"
    and "on_server_message e old h TEXT payload w =
      unlock (join_room e h (trim e payload) tag roomid (leave_room e old h w1))"
    using andthen_halted by metis+
qed

lemma subs_unsubscribe:
  assumes "proxy_inv w"
  shows "subs w - {(h, msg_room w h)} = unsubscribe h (subs w)"
  using assms listens_only [of "{}" w h] by (auto simp: subs_def unsubscribe_def proxy_inv_def)

lemma message_subs:
  assumes inv: "proxy_inv w" "halted w = None" and ok: "upstream_ok e"
    and split: "split_roomstr (trim e payload) = Some (tag, roomid)"
    and fin: "halted (on_server_message e (msg_room w h) h TEXT payload w) = None"
  shows "subs (on_server_message e (msg_room w h) h TEXT payload w) =
    (if msg_room w h = trim e payload \<and> rp_map w (msg_room w h) \<noteq> None then subs w
     else if joinable e w (trim e payload) tag roomid then subscribe h (trim e payload) (subs w)
     else unsubscribe h (subs w))"
proof (cases "msg_room w h = trim e payload \<and> rp_map w (msg_room w h) \<noteq> None")
  case True
  then have "on_server_message e (msg_room w h) h TEXT payload w = unlock (w\<lparr>rp_locked := True\<rparr>)"
    using inv split by (auto simp: on_server_message_def andthen_def lock_unlocked proxy_inv_def Let_def)
  with True show ?thesis by auto
next
  case False
  let ?old = "msg_room w h" and ?r = "trim e payload"
  let ?w1 = "w\<lparr>rp_locked := True, msg_room := (msg_room w)(h := trim e payload)\<rparr>"
  let ?w2 = "leave_room e ?old h ?w1"
  note run = on_server_message_run [OF inv split False fin]
  have close: "client_close_ec e = None" "get_connection_ec e = None" using ok by (simp_all add: upstream_ok_def)
  have ok1: "rooms_ok {h} ?w1"
    using inv rooms_ok_msg_room [of "w\<lparr>rp_locked := True\<rparr>" h ?r] by (simp add: proxy_inv_def)
  have h1: "halted ?w1 = None" using inv by simp
  have "subs ?w2 = subs ?w1 - {(h, ?old)}" using ok1 h1 close(1) run(1) by (rule subs_leave_room)
  then have s2: "subs ?w2 = unsubscribe h (subs w)" using subs_unsubscribe [OF inv(1)] by simp
  then have absent: "\<not> listens ?w2 h r" for r by (auto simp: subs_def unsubscribe_def)
  have ok2: "rooms_ok {} ?w2"
    using shrinks_rooms_ok [OF shrinks_leave_room ok1] by (rule rooms_ok_fewer) (use absent in blast)
  have "rp_map ?w2 ?r = rp_map w ?r"
  proof (cases "?r = ?old")
    case True
    with False show ?thesis by (simp add: leave_room_def)
  next
    case False
    then show ?thesis using rp_map_leave_room [OF h1 close(1) run(1)] by simp
  qed
  then have "joinable e ?w2 ?r tag roomid \<longleftrightarrow> joinable e w ?r tag roomid" by (simp add: joinable_def)
  then show ?thesis
    using subs_join_room [OF ok2 run(1) absent close(2)] False
    by (auto simp: run(2) s2 subscribe_def)
qed

lemma close_subs:
  assumes "proxy_inv w" "halted w = None" "upstream_ok e" "halted (on_server_close e r h w) = None"
  shows "subs (on_server_close e r h w) = subs w - {(h, r)}"
proof -
  let ?w1 = "w\<lparr>rp_locked := True\<rparr>"
  have "on_server_close e r h w = andthen (leave_room e r h ?w1) unlock"
    using assms(1,2) by (simp add: on_server_close_def andthen_def [of ?w1] lock_unlocked proxy_inv_def)
  with assms(4) have "halted (leave_room e r h ?w1) = None"
    "on_server_close e r h w = unlock (leave_room e r h ?w1)" by (auto dest: andthen_halted)
  moreover have "rooms_ok {} ?w1" "halted ?w1 = None" using assms(1,2) by (simp_all add: proxy_inv_def)
  ultimately show ?thesis using subs_leave_room assms(3) by (simp add: upstream_ok_def)
qed

subsection \<open>Where a handler does not keep the promise\<close>

text \<open>Joining a room that exists sets no close handler.\<close>

lemma join_existing_close_room:
  assumes inv: "proxy_inv w" "halted w = None" and split: "split_roomstr (trim e payload) = Some (tag, roomid)"
    and ok: "upstream_ok e" and r: "rp_map w (trim e payload) \<noteq> None" "msg_room w h \<noteq> trim e payload"
    and fin: "halted (on_server_message e (msg_room w h) h TEXT payload w) = None"
  shows "close_room (on_server_message e (msg_room w h) h TEXT payload w) = close_room w"
proof -
  let ?w1 = "w\<lparr>rp_locked := True, msg_room := (msg_room w)(h := trim e payload)\<rparr>"
  let ?w2 = "leave_room e (msg_room w h) h ?w1"
  have nr: "\<not> (msg_room w h = trim e payload \<and> rp_map w (msg_room w h) \<noteq> None)" using r(2) by simp
  note run = on_server_message_run [OF inv split nr fin]
  have close: "client_close_ec e = None" using ok by (simp add: upstream_ok_def)
  have h1: "halted ?w1 = None" using inv by simp
  obtain i where i: "rp_map w (trim e payload) = Some i" using r(1) by blast
  then have m2: "rp_map ?w2 (trim e payload) = Some i"
    using rp_map_leave_room [OF h1 close run(1), of "trim e payload"] r(2) by simp
  have ok1: "rooms_ok {h} ?w1"
    using inv rooms_ok_msg_room [of "w\<lparr>rp_locked := True\<rparr>" h "trim e payload"] by (simp add: proxy_inv_def)
  have ok2: "rooms_ok {h} ?w2" using shrinks_leave_room ok1 by (rule shrinks_rooms_ok)
  have "subs ?w2 = subs ?w1 - {(h, msg_room w h)}" using ok1 h1 close run(1) by (rule subs_leave_room)
  then have absent: "\<not> listens ?w2 h (trim e payload)"
    using subs_unsubscribe [OF inv(1), of h] by (auto simp: subs_def unsubscribe_def)
  obtain p where p: "objects ?w2 i = Some p" by (rule rooms_ok_mapped [OF ok2 m2])
  then have "h \<notin> listeners_of p" using absent m2 by (auto simp: listens_iff)
  then have "join_room e h (trim e payload) tag roomid ?w2 = set_object i (upd_base (add_listener h) p) ?w2"
    using m2 p by (simp add: join_room_def listener_queries listeners_of_def)
  then show ?thesis
    unfolding run(2) by (simp add: unlock_def set_object_def leave_room_frame)
qed

text \<open>A platform that calls its close callback while \<open>rp_rw_mtx\<close> is held locks it twice.\<close>

lemma exec_callback_locked:
  assumes "objects w i = Some p" "base.m_close_callback (base_of p)" "rp_locked w"
  shows "halted (exec_effect e i (Close_callback r) w) = Some Deadlock"
  using assms by (simp add: exec_effect_def exec_callback_def on_platform_close_def lock_def andthen_def)

lemma exec_effects_halted: "halted w \<noteq> None \<Longrightarrow> andthen w f = w"
  by (simp add: andthen_def)

lemma exec_publish_object:
  assumes "objects w i = Some p" "base.m_close_callback (base_of p)"
  obtains q where "objects (exec_effect e i (Publish m) w) i = Some q" "base.m_close_callback (base_of q)"
    "rp_locked (exec_effect e i (Publish m) w) = rp_locked w" "halted (exec_effect e i (Publish m) w) = halted w"
proof -
  obtain b evs where b: "publish e m (base_of p) = (b, evs)" by (cases "publish e m (base_of p)")
  note f = publish_frame [OF b]
  have "objects (exec_effect e i (Publish m) w) i = Some (with_base b p)"
    using assms b by (simp add: exec_effect_def exec_publish_def emit_def set_object_def)
  moreover have "base.m_close_callback (base_of (with_base b p))"
    using base_of_with_base [OF f(1,2)] f(3) assms(2) by simp
  ultimately show ?thesis
    using that assms(1) b by (simp add: exec_effect_def exec_publish_def)
qed

lemma report_locked:
  assumes "objects w i = Some p" "base.m_close_callback (base_of p)" "rp_locked w" "halted w = None"
  shows "halted (exec_effects e i (client_report n r (Some m) @ effs) w) = Some Deadlock"
proof -
  let ?msg = "''connection closed because:'' @ m"
  obtain q where q: "objects (exec_effect e i (Publish ?msg) w) i = Some q" "base.m_close_callback (base_of q)"
    "rp_locked (exec_effect e i (Publish ?msg) w)" "halted (exec_effect e i (Publish ?msg) w) = None"
    using exec_publish_object [OF assms(1,2), where m = ?msg] assms(3,4) by metis
  have "halted (exec_effect e i (Close_callback (roomstr_of n r)) (exec_effect e i (Publish ?msg) w)) = Some Deadlock"
    using exec_callback_locked [OF q(1-3)] .
  then show ?thesis using q(4) by (simp add: andthen_def)
qed

lemma open_room_error:
  assumes w: "halted w = None" "rp_locked w" and ec: "get_connection_ec e = Some m"
    and p: "platform_get_instance e tag roomid = Some p" and tag: "tag \<in> {''YY'', ''huajiao''}"
  shows "halted (open_room e h r i p w) = Some Deadlock"
proof -
  let ?p1 = "upd_base set_close_callback (upd_base (add_listener h) p)"
  obtain p2 effs where p2: "platform_start e ?p1 = (p2, effs)" by (cases "platform_start e ?p1")
  have b: "base_of p2 = set_close_callback (add_listener h (new_base tag roomid))"
    using platform_start_base [OF p2] platform_get_instance_base [OF p] by simp
  have "effs = client_report tag roomid (Some m)"
  proof (cases "tag = ''YY''")
    case True
    then show ?thesis using p p2 ec
      by (auto simp: platform_get_instance_def platform_creator_table_def upd_base_def yy_start_def new_yy_def Let_def
          simp del: client_report_Some)
  next
    case False
    with tag have "tag = ''huajiao''" by simp
    then show ?thesis using p p2 ec
      by (auto simp: platform_get_instance_def platform_creator_table_def upd_base_def hj_start_def new_huajiao_def Let_def
          simp del: client_report_Some)
  qed
  then have effs: "effs = client_report tag roomid (Some m) @ []" by simp
  have "base.m_close_callback (base_of p2)" by (simp add: b)
  then show ?thesis
    unfolding open_room_def Let_def p2 prod.case effs
    by (intro report_locked [where p = p2]) (simp_all add: set_object_def w)
qed

text \<open>The end of a connection that is the last listener of its room.\<close>

definition last_listener :: "world \<Rightarrow> hdl \<Rightarrow> string \<Rightarrow> platform \<Rightarrow> bool" where
  "last_listener w h r p = (case rp_map w r of
       None \<Rightarrow> False
     | Some i \<Rightarrow> objects w i = Some p \<and> list_all (\<lambda>k. k = h) (m_listeners (base_of p)))"

lemma last_listener_iff:
  "last_listener w h r p \<longleftrightarrow> (\<exists>i. rp_map w r = Some i \<and> objects w i = Some p \<and> listeners_of p \<subseteq> {h})"
  by (auto simp: last_listener_def listeners_of_def listeners_def list_all_iff split: option.splits)

lemma last_leaves:
  assumes "proxy_inv w" "halted w = None" "last_listener w h r p"
  obtains i where "objects w i = Some p"
    "base_ok (base_of p)" "base.m_close_callback (base_of p)"
    "on_server_close e r h w = andthen (andthen
       (exec_effects e i (platform_close e (upd_base (erase_listener h) p))
         (set_object i (upd_base (erase_listener h) p) (w\<lparr>rp_locked := True\<rparr>))) (erase_room r)) unlock"
proof -
  obtain i where i: "rp_map w r = Some i" "objects w i = Some p" "listeners_of p \<subseteq> {h}"
    using assms(3) by (auto simp: last_listener_iff)
  have ok: "base_ok (base_of p)" "base.m_close_callback (base_of p)"
    using assms(1) i(2) by (auto simp: proxy_inv_def rooms_ok_def obj_ok_def)
  have "listeners_count (base_of (upd_base (erase_listener h) p)) = 0"
    using ok i(3) by (subst listener_queries(2)) (auto simp: listeners_of_def)
  then have "leave_room e r h (w\<lparr>rp_locked := True\<rparr>) = andthen
       (exec_effects e i (platform_close e (upd_base (erase_listener h) p))
         (set_object i (upd_base (erase_listener h) p) (w\<lparr>rp_locked := True\<rparr>))) (erase_room r)"
    using i by (simp add: leave_room_def Let_def)
  then show ?thesis
    using that [OF i(2) ok] assms(1,2)
    by (simp add: on_server_close_def andthen_def [of "w\<lparr>rp_locked := True\<rparr>"] lock_unlocked proxy_inv_def)
qed

lemma andthen_halted_eq: "halted w = Some f \<Longrightarrow> halted (andthen w g) = Some f"
  by (simp add: andthen_def)

lemma last_leaves_yy:
  assumes "proxy_inv w" "halted w = None" "last_listener w h r (Platform_YY y)" "\<not> m_hb_timer y"
  shows "halted (on_server_close e r h w) = Some Null_pointer"
proof -
  obtain i where i: "on_server_close e r h w = andthen (andthen
       (exec_effects e i (platform_close e (upd_base (erase_listener h) (Platform_YY y)))
         (set_object i (upd_base (erase_listener h) (Platform_YY y)) (w\<lparr>rp_locked := True\<rparr>))) (erase_room r)) unlock"
    using last_leaves [OF assms(1-3)] by metis
  have "\<exists>effs. platform_close e (upd_base (erase_listener h) (Platform_YY y)) = Fault Null_pointer # effs"
    using assms(4) by (simp add: upd_base_def yy_close_def hb_timer_cancel_def)
  then show ?thesis
    unfolding i by (intro andthen_halted_eq) (auto simp: exec_effect_def andthen_def)
qed

lemma last_leaves_huajiao:
  assumes "proxy_inv w" "halted w = None" "last_listener w h r (Platform_huajiao y)"
    and "client_close_ec e = Some m"
  shows "halted (on_server_close e r h w) = Some Deadlock"
proof -
  let ?p = "upd_base (erase_listener h) (Platform_huajiao y)"
  obtain i where i: "base.m_close_callback (base_of (Platform_huajiao y))"
    "on_server_close e r h w = andthen (andthen
       (exec_effects e i (platform_close e ?p) (set_object i ?p (w\<lparr>rp_locked := True\<rparr>))) (erase_room r)) unlock"
    using last_leaves [OF assms(1-3)] by metis
  have c: "\<exists>n r. platform_close e ?p = Ws_close # client_report n r (Some m) @ []"
    using assms(4) by (auto simp: upd_base_def hj_close_def)
  have cb: "base.m_close_callback (base_of ?p)" using i(1) by simp
  have "halted (exec_effects e i (Ws_close # client_report n r (Some m) @ []) (set_object i ?p (w\<lparr>rp_locked := True\<rparr>)))
      = Some Deadlock" for n r
    using report_locked [where p = ?p and effs = "[]", OF _ cb] assms(2)
    by (simp add: andthen_def [of "_\<lparr>requests := _\<rparr>"] exec_effect_def [of e i Ws_close] set_object_def)
  with c show ?thesis unfolding i(2) by (intro andthen_halted_eq) metis
qed

text \<open>An object that was replaced still erases the room under its key.\<close>

lemma stale_close:
  assumes "objects w i = Some (Platform_huajiao y)" "base.m_close_callback y" "\<not> rp_locked w" "halted w = None"
  shows "rp_map (object_event e cd i (Huajiao_event Hj_closed) w)
    (roomstr_of (base.m_platform_name y) (base.m_roomid y)) = None"
proof -
  let ?p = "Platform_huajiao y" and ?m = "''huajiao danmu connection closed!''"
    and ?r = "roomstr_of (base.m_platform_name y) (base.m_roomid y)"
  have cb: "base.m_close_callback (base_of ?p)" using assms(2) by (simp add: base.defs)
  let ?w1 = "set_object i ?p w" let ?w2 = "exec_effect e i (Publish ?m) ?w1"
  have "objects ?w1 i = Some ?p" by (simp add: set_object_def)
  from exec_publish_object [OF this cb, where m = ?m] obtain q where q:
    "objects ?w2 i = Some q" "base.m_close_callback (base_of q)"
    "\<not> rp_locked ?w2" "halted ?w2 = None" using assms(3,4) by (metis halted_simps(4) rp_locked_simps(2))
  have "object_event e cd i (Huajiao_event Hj_closed) w = exec_effects e i [Publish ?m, Close_callback ?r] ?w1"
    using assms(1) by (simp add: object_event_def hj_step_def hj_on_client_close_def)
  also have "... = unlock (erase_room ?r (?w2\<lparr>rp_locked := True\<rparr>))"
    using q by (simp add: andthen_def exec_effect_def [of e i "Close_callback ?r"] exec_callback_def
        on_platform_close_def lock_unlocked)
  finally show ?thesis by (simp add: erase_room_def unlock_def)
qed

end
