(* ===== verification/Ws_Bytes.thy ===== *)
theory Ws_Bytes
  imports Prelude
begin

section \<open>websocketpp: machine words in memory\<close>

text \<open>
  The unions of \<open>frame.hpp\<close> and \<open>common/network.hpp\<close> read a word through its bytes.  \<open>wr_le k\<close>
  gives the first \<open>k\<close> bytes of a word in memory and \<open>rd_le\<close> the word that bytes in memory make,
  on the little-endian hosts of the build files; the byte-order conversions follow.
\<close>

definition wr_le :: "nat \<Rightarrow> 'a::len word \<Rightarrow> byte list" where
  "wr_le k w = map (\<lambda>i. ucast (drop_bit (8 * i) w)) [0..<k]"

primrec rd_le :: "byte list \<Rightarrow> 'a::len word" where
  "rd_le [] = 0"
| "rd_le (b # bs) = ucast b OR push_bit 8 (rd_le bs)"

lemma length_wr_le [simp]: "length (wr_le k w) = k"
  by (simp add: wr_le_def)

lemma nth_wr_le: "i < k \<Longrightarrow> wr_le k w ! i = ucast (drop_bit (8 * i) w)"
  by (simp add: wr_le_def)

lemma bit_byte_bound: "bit (b :: byte) n \<Longrightarrow> n < 8"
  using bit_imp_le_length [of b n] by simp

lemma bit_rd_le:
  "bit (rd_le bs :: 'a::len word) n \<longleftrightarrow>
     n < LENGTH('a) \<and> n div 8 < length bs \<and> bit (bs ! (n div 8)) (n mod 8)"
proof (induction bs arbitrary: n)
  case Nil
  then show ?case by simp
next
  case (Cons b bs)
  show ?case
  proof (cases "n < 8")
    case True
    then show ?thesis by (auto simp: bit_or_iff bit_push_bit_iff bit_ucast_iff)
  next
    case False
    then obtain m where n: "n = m + 8" by (metis add.commute le_Suc_ex not_less)
    have "\<not> bit b (m + 8)" using bit_byte_bound [of b "m + 8"] by auto
    moreover have "(m + 8) div 8 = Suc (m div 8)" by simp
    ultimately show ?thesis using Cons.IH [of m] unfolding n
      by (auto simp: bit_or_iff bit_push_bit_iff bit_ucast_iff)
  qed
qed

lemma bit_wr_le:
  "i < k \<Longrightarrow> bit (wr_le k (w :: 'a::len word) ! i) n \<longleftrightarrow> n < 8 \<and> bit w (8 * i + n)"
  by (auto simp: nth_wr_le bit_ucast_iff bit_drop_bit_eq add.commute)

lemma rd_le_wr_le [simp, bytes_simps]:
  assumes "LENGTH('a::len) \<le> 8 * k"
  shows "rd_le (wr_le k (w :: 'a word)) = w"
proof (rule bit_word_eqI)
  fix n assume "n < LENGTH('a)"
  then show "bit (rd_le (wr_le k w) :: 'a word) n = bit w n"
    using assms by (auto simp: bit_rd_le bit_wr_le less_mult_imp_div_less mult.commute)
qed

lemma wr_le_rd_le [simp, bytes_simps]:
  assumes "8 * length bs \<le> LENGTH('a::len)" "k = length bs"
  shows "wr_le k (rd_le bs :: 'a word) = bs"
proof (rule nth_equalityI)
  show "length (wr_le k (rd_le bs :: 'a word)) = length bs" using assms by simp
  fix i assume "i < length (wr_le k (rd_le bs :: 'a word))"
  then have i: "i < length bs" using assms by simp
  then have "8 * i + 8 \<le> LENGTH('a)" using assms(1) by linarith
  then show "wr_le k (rd_le bs :: 'a word) ! i = bs ! i"
    using i assms(2) by (intro bit_word_eqI) (auto simp: bit_wr_le bit_rd_le)
qed

lemma wr_le_xor: "wr_le k (v XOR w) = map2 (XOR) (wr_le k v) (wr_le k w)"
proof (rule nth_equalityI)
  fix i assume "i < length (wr_le k (v XOR w))"
  then show "wr_le k (v XOR w) ! i = map2 (XOR) (wr_le k v) (wr_le k w) ! i"
    by (intro bit_word_eqI) (auto simp: bit_wr_le bit_xor_iff)
qed simp

lemma rd_le_xor:
  "length as = length bs \<Longrightarrow> rd_le (map2 (XOR) as bs) = rd_le as XOR rd_le bs"
  by (rule bit_word_eqI) (auto simp: bit_rd_le bit_xor_iff)

lemma wr_le_0: "wr_le k (0 :: 'a::len word) = replicate k 0"
  by (intro nth_equalityI) (simp_all add: nth_wr_le)

lemma wr_le_4: "wr_le 4 w = le32 w"
  by (simp add: wr_le_def le32_def upt_rec)

subsection \<open>Byte order\<close>

text \<open>\<open>lib::net::_htonll\<close>: the bytes are swapped pairwise, which is its own inverse.\<close>

definition htonll :: "u64 \<Rightarrow> u64" where
  "htonll src =
     (let c = wr_le 8 src in rd_le [c ! 7, c ! 6, c ! 5, c ! 4, c ! 3, c ! 2, c ! 1, c ! 0])"

definition ntohll :: "u64 \<Rightarrow> u64" where
  "ntohll src = htonll src"

text \<open>\<open>htons\<close> and \<open>ntohs\<close> of the C library.\<close>

definition htons :: "16 word \<Rightarrow> 16 word" where
  "htons w = rd_le (rev (wr_le 2 w))"

definition ntohs :: "16 word \<Rightarrow> 16 word" where
  "ntohs w = rd_le (rev (wr_le 2 w))"

lemma rev_8:
  assumes "length c = 8"
  shows "rev c = [c ! 7, c ! 6, c ! 5, c ! 4, c ! 3, c ! 2, c ! 1, c ! 0]"
  using assms by (auto simp: list_eq_iff_nth_eq rev_nth less_Suc_eq_0_disj numeral_eq_Suc)

lemma htonll_rev: "htonll w = rd_le (rev (wr_le 8 w))"
  unfolding htonll_def Let_def by (subst rev_8) simp_all

lemma wr_le_htonll [simp, bytes_simps]: "wr_le 8 (htonll w) = rev (wr_le 8 w)"
  by (simp add: htonll_rev)

lemma ntohll_htonll [simp, bytes_simps]: "ntohll (htonll w) = w"
  by (simp add: ntohll_def htonll_rev [of "htonll w"])

lemma wr_le_htons [simp, bytes_simps]: "wr_le 2 (htons w) = rev (wr_le 2 w)"
  by (simp add: htons_def)

lemma ntohs_htons [simp, bytes_simps]: "ntohs (htons w) = w"
  by (simp add: ntohs_def)

text \<open>The low half of a value that fits two bytes.\<close>

lemma wr_le_high_zero:
  assumes "i < k" "unat (w :: 'a::len word) < 2 ^ (8 * i)"
  shows "wr_le k w ! i = 0"
proof -
  have "drop_bit (8 * i) w = 0"
    using assms(2) by (simp add: unat_drop_bit_eq drop_bit_nat_def flip: unat_eq_0)
  then show ?thesis using assms(1) by (simp add: nth_wr_le)
qed

lemma wr_le_ucast:
  assumes "8 * k \<le> LENGTH('b::len)"
  shows "wr_le k (ucast (w :: 'a::len word) :: 'b word) = wr_le k w"
proof (rule nth_equalityI)
  fix i assume "i < length (wr_le k (ucast w :: 'b word))"
  then have i: "i < k" by simp
  then have "8 * i + 8 \<le> LENGTH('b)" using assms by linarith
  with i show "wr_le k (ucast w :: 'b word) ! i = wr_le k w ! i"
    by (intro bit_word_eqI) (auto simp: bit_wr_le bit_ucast_iff)
qed simp

lemma take_wr_le: "take j (wr_le k w) = wr_le (min j k) w"
  by (simp add: wr_le_def take_map min_def)

end
