(* ===== verification/Ws_Utf8.thy ===== *)
theory Ws_Utf8
  imports Ws_Bytes
begin

section \<open>websocketpp: validation of UTF-8\<close>

text \<open>
  \<open>utf8_validator.hpp\<close>: the table-driven automaton \<open>decode\<close>, the streaming class \<open>validator\<close> and
  \<open>validate\<close>.  The table is a list of bytes, its rows as in the source: 256 character classes, then
  sixteen successors for each of the nine states.  The automaton is proved to accept exactly the
  concatenations of encoded Unicode scalar values.
\<close>

definition utf8_accept :: u32 where "utf8_accept = 0"
definition utf8_reject :: u32 where "utf8_reject = 1"

definition utf8d :: "byte list" where
  "utf8d =
     [0,0,0,0,0,0,0,0,0,0,0,0,0,0,0,0,0,0,0,0,0,0,0,0,0,0,0,0,0,0,0,0,
      0,0,0,0,0,0,0,0,0,0,0,0,0,0,0,0,0,0,0,0,0,0,0,0,0,0,0,0,0,0,0,0,
      0,0,0,0,0,0,0,0,0,0,0,0,0,0,0,0,0,0,0,0,0,0,0,0,0,0,0,0,0,0,0,0,
      0,0,0,0,0,0,0,0,0,0,0,0,0,0,0,0,0,0,0,0,0,0,0,0,0,0,0,0,0,0,0,0,
      1,1,1,1,1,1,1,1,1,1,1,1,1,1,1,1,9,9,9,9,9,9,9,9,9,9,9,9,9,9,9,9,
      7,7,7,7,7,7,7,7,7,7,7,7,7,7,7,7,7,7,7,7,7,7,7,7,7,7,7,7,7,7,7,7,
      8,8,2,2,2,2,2,2,2,2,2,2,2,2,2,2,2,2,2,2,2,2,2,2,2,2,2,2,2,2,2,2,
      10,3,3,3,3,3,3,3,3,3,3,3,3,4,3,3,11,6,6,6,5,8,8,8,8,8,8,8,8,8,8,8,
      0,1,2,3,5,8,7,1,1,1,4,6,1,1,1,1,1,1,1,1,1,1,1,1,1,1,1,1,1,1,1,1,
      1,0,1,1,1,1,1,0,1,0,1,1,1,1,1,1,1,2,1,1,1,1,1,2,1,2,1,1,1,1,1,1,
      1,1,1,1,1,1,1,2,1,1,1,1,1,1,1,1,1,2,1,1,1,1,1,1,1,2,1,1,1,1,1,1,
      1,1,1,1,1,1,1,3,1,3,1,1,1,1,1,1,1,3,1,1,1,1,1,3,1,3,1,1,1,1,1,1,
      1,3,1,1,1,1,1,1,1,1,1,1,1,1,1,1]"

definition utf8_decode :: "u32 \<Rightarrow> u32 \<Rightarrow> byte \<Rightarrow> u32 \<times> u32" where
  "utf8_decode state codep byte =
     (let type = ucast (utf8d ! unat byte) :: u32;
          codep' = (if state \<noteq> utf8_accept then (ucast byte AND 0x3f) OR push_bit 6 codep
            else drop_bit (unat type) 0xff AND ucast byte);
          state' = ucast (utf8d ! unat (256 + state * 16 + type))
      in (state', codep'))"

record validator =
  m_state :: u32
  m_codepoint :: u32

definition new_validator :: validator where
  "new_validator = \<lparr>m_state = utf8_accept, m_codepoint = 0\<rparr>"

definition validator_consume :: "byte \<Rightarrow> validator \<Rightarrow> validator \<times> bool" where
  "validator_consume b v =
     (let (s, c) = utf8_decode (m_state v) (m_codepoint v) b
      in (v\<lparr>m_state := s, m_codepoint := c\<rparr>, s \<noteq> utf8_reject))"

fun validator_decode :: "byte list \<Rightarrow> validator \<Rightarrow> validator \<times> bool" where
  "validator_decode [] v = (v, True)"
| "validator_decode (b # bs) v =
     (let (s, c) = utf8_decode (m_state v) (m_codepoint v) b;
          v' = v\<lparr>m_state := s, m_codepoint := c\<rparr>
      in if s = utf8_reject then (v', False) else validator_decode bs v')"

definition validator_complete :: "validator \<Rightarrow> bool" where
  "validator_complete v \<longleftrightarrow> m_state v = utf8_accept"

definition validator_reset :: "validator \<Rightarrow> validator" where
  "validator_reset v = v\<lparr>m_state := utf8_accept, m_codepoint := 0\<rparr>"

definition validate :: "byte list \<Rightarrow> bool" where
  "validate s =
     (let (v, ok) = validator_decode s new_validator in if \<not> ok then False else validator_complete v)"

subsection \<open>The table\<close>

text \<open>The class of a byte, and what the automaton does in a state with a byte, as ranges.\<close>

definition byte_class :: "nat \<Rightarrow> nat" where
  "byte_class b =
     (if b < 128 then 0 else if b < 144 then 1 else if b < 160 then 9 else if b < 192 then 7
      else if b < 194 then 8 else if b < 224 then 2 else if b = 224 then 10 else if b = 237 then 4
      else if b < 240 then 3 else if b = 240 then 11 else if b < 244 then 6 else if b = 244 then 5 else 8)"

definition class_step :: "nat \<Rightarrow> nat \<Rightarrow> nat" where
  "class_step s t =
     (if s = 0 then [0, 1, 2, 3, 5, 8, 7, 1, 1, 1, 4, 6] ! t
      else if s = 2 \<and> t \<in> {1, 7, 9} then 0
      else if s = 3 \<and> t \<in> {1, 7, 9} then 2
      else if s = 4 \<and> t = 7 then 2
      else if s = 5 \<and> t \<in> {1, 9} then 2
      else if s = 6 \<and> t \<in> {7, 9} then 3
      else if s = 7 \<and> t \<in> {1, 7, 9} then 3
      else if s = 8 \<and> t = 1 then 3 else 1)"

lemma utf8d_classes: "list_all (\<lambda>b. unat (utf8d ! b) = byte_class b) [0..<256]"
  by code_simp

lemma utf8d_successors:
  "list_all (\<lambda>s. list_all (\<lambda>t. unat (utf8d ! (256 + s * 16 + t)) = class_step s t) [0..<12]) [0..<9]"
  by code_simp

lemma byte_class_less: "byte_class b < 12"
  by (simp add: byte_class_def)

lemma class_step_less:
  assumes "t < 12"
  shows "class_step s t < 9"
proof -
  have "list_all (\<lambda>t. [0, 1, 2, 3, 5, 8, 7, 1, 1, 1, 4, 6] ! t < (9 :: nat)) [0..<12]" by code_simp
  then have "[0, 1, 2, 3, 5, 8, 7, 1, 1, 1, 4, 6] ! t < (9 :: nat)" using assms by (simp only: list_all_iff) simp
  then show ?thesis by (simp add: class_step_def)
qed

definition ustep :: "nat \<Rightarrow> nat \<Rightarrow> nat" where
  "ustep s b = class_step s (byte_class b)"

definition urun :: "nat \<Rightarrow> nat list \<Rightarrow> nat" where
  "urun s bs = foldl ustep s bs"

lemma urun_simps [simp]: "urun s [] = s" "urun s (b # bs) = urun (ustep s b) bs"
  "urun s (bs @ cs) = urun (urun s bs) cs"
  by (simp_all add: urun_def)

lemma ustep_less [simp]: "ustep s b < 9"
  by (simp add: ustep_def class_step_less byte_class_less)

lemma ustep_reject [simp]: "ustep (Suc 0) b = Suc 0"
  by (simp add: ustep_def class_step_def)

lemma urun_reject [simp]: "urun (Suc 0) bs = Suc 0"
  by (induction bs) simp_all

lemma utf8_decode_state:
  assumes "unat st < 9"
  shows "unat (fst (utf8_decode st cp b)) = ustep (unat st) (unat b)"
proof -
  have b: "unat b < 256" using unsigned_less [of b, where 'a = nat] by simp
  have c: "unat (utf8d ! unat b) = byte_class (unat b)"
    using utf8d_classes b by (simp add: list_all_iff)
  have t: "unat (ucast (utf8d ! unat b) :: u32) = byte_class (unat b)"
    using c byte_class_less [of "unat b"] by (simp add: unsigned_ucast_eq take_bit_nat_eq_self)
  have i: "unat (256 + st * 16 + ucast (utf8d ! unat b)) = 256 + unat st * 16 + byte_class (unat b)"
    using assms t byte_class_less [of "unat b"] by (simp add: unat_word_ariths)
  have "unat (utf8d ! (256 + unat st * 16 + byte_class (unat b))) = class_step (unat st) (byte_class (unat b))"
    using utf8d_successors assms byte_class_less [of "unat b"] by (simp add: list_all_iff)
  then show ?thesis
    using class_step_less [OF byte_class_less, of "unat st" "unat b"]
    by (simp add: utf8_decode_def Let_def i ustep_def unsigned_ucast_eq take_bit_nat_eq_self)
qed

text \<open>A state that the validator can be in, and where it stands after valid bytes.\<close>

definition validator_ok :: "validator \<Rightarrow> bool" where
  "validator_ok v \<longleftrightarrow> unat (m_state v) < 9 \<and> m_state v \<noteq> utf8_reject"

lemma validator_ok_new [simp]: "validator_ok new_validator"
  by (simp add: validator_ok_def new_validator_def utf8_accept_def utf8_reject_def)

lemma unat_1_iff: "unat (w :: u32) = Suc 0 \<longleftrightarrow> w = 1"
  by (metis One_nat_def unat_1 word_unat_eq_iff)

lemma validator_decode_run:
  assumes "validator_ok v" "validator_decode bs v = (v', ok)"
  shows "(ok \<longleftrightarrow> urun (unat (m_state v)) (map unat bs) \<noteq> 1) \<and>
    unat (m_state v') = urun (unat (m_state v)) (map unat bs) \<and> (ok \<longrightarrow> validator_ok v')"
  using assms
proof (induction bs arbitrary: v)
  case Nil
  then show ?case
    by (auto simp: validator_ok_def utf8_reject_def unat_1_iff)
next
  case (Cons b bs)
  obtain s c where d: "utf8_decode (m_state v) (m_codepoint v) b = (s, c)"
    by (cases "utf8_decode (m_state v) (m_codepoint v) b")
  have s: "unat s = ustep (unat (m_state v)) (unat b)"
    using utf8_decode_state [of "m_state v" "m_codepoint v" b] Cons.prems(1) d by (simp add: validator_ok_def)
  show ?case
  proof (cases "s = utf8_reject")
    case True
    then have "ustep (unat (m_state v)) (unat b) = Suc 0" using s by (simp add: utf8_reject_def)
    then show ?thesis using Cons.prems(2) True d by (auto simp: utf8_reject_def)
  next
    case False
    have "validator_ok (v\<lparr>m_state := s, m_codepoint := c\<rparr>)"
      using False s ustep_less [of "unat (m_state v)" "unat b"] by (simp add: validator_ok_def)
    with Cons.IH Cons.prems(2) False d s show ?thesis by fastforce
  qed
qed

lemma validator_decode_append:
  "validator_decode (xs @ ys) v =
     (let (v', ok) = validator_decode xs v in if ok then validator_decode ys v' else (v', False))"
  by (induction xs arbitrary: v) (auto simp: Let_def split: prod.splits)

lemma validate_run: "validate bs \<longleftrightarrow> urun 0 (map unat bs) = 0"
proof -
  obtain v ok where d: "validator_decode bs new_validator = (v, ok)"
    by (cases "validator_decode bs new_validator")
  have "ok \<longleftrightarrow> urun 0 (map unat bs) \<noteq> 1" "unat (m_state v) = urun 0 (map unat bs)"
    using validator_decode_run [OF validator_ok_new d] by (simp_all add: new_validator_def utf8_accept_def)
  then show ?thesis
    by (simp add: validate_def d validator_complete_def utf8_accept_def flip: unat_eq_0)
qed

subsection \<open>Unicode scalar values\<close>

definition scalar :: "nat \<Rightarrow> bool" where
  "scalar c \<longleftrightarrow> c < 0x110000 \<and> \<not> (0xD800 \<le> c \<and> c < 0xE000)"

definition utf8_encode :: "nat \<Rightarrow> nat list" where
  "utf8_encode c =
     (if c < 0x80 then [c]
      else if c < 0x800 then [192 + c div 64, 128 + c mod 64]
      else if c < 0x10000 then [224 + c div 4096, 128 + c div 64 mod 64, 128 + c mod 64]
      else [240 + c div 262144, 128 + c div 4096 mod 64, 128 + c div 64 mod 64, 128 + c mod 64])"

lemma ustep_cont:
  "128 \<le> b \<Longrightarrow> b < 192 \<Longrightarrow> ustep 2 b = 0" "128 \<le> b \<Longrightarrow> b < 192 \<Longrightarrow> ustep 3 b = 2"
  "160 \<le> b \<Longrightarrow> b < 192 \<Longrightarrow> ustep 4 b = 2" "128 \<le> b \<Longrightarrow> b < 160 \<Longrightarrow> ustep 5 b = 2"
  "144 \<le> b \<Longrightarrow> b < 192 \<Longrightarrow> ustep 6 b = 3" "128 \<le> b \<Longrightarrow> b < 192 \<Longrightarrow> ustep 7 b = 3"
  "128 \<le> b \<Longrightarrow> b < 144 \<Longrightarrow> ustep 8 b = 3"
  by (simp_all add: ustep_def class_step_def byte_class_def)

lemma ustep_lead:
  "b < 128 \<Longrightarrow> ustep 0 b = 0" "194 \<le> b \<Longrightarrow> b < 224 \<Longrightarrow> ustep 0 b = 2" "ustep 0 224 = 4"
  "224 < b \<Longrightarrow> b < 240 \<Longrightarrow> b \<noteq> 237 \<Longrightarrow> ustep 0 b = 3" "ustep 0 237 = 5" "ustep 0 240 = 6"
  "240 < b \<Longrightarrow> b < 244 \<Longrightarrow> ustep 0 b = 7" "ustep 0 244 = 8"
  by (simp_all add: ustep_def class_step_def byte_class_def)

lemma urun_encode: "scalar c \<Longrightarrow> urun 0 (utf8_encode c) = 0"
proof -
  assume sc: "scalar c"
  consider "c < 0x80" | "0x80 \<le> c" "c < 0x800" | "0x800 \<le> c" "c < 0x10000" | "0x10000 \<le> c" "c < 0x110000"
    using sc by (metis not_less scalar_def)
  then show ?thesis
  proof cases
    case 1
    then show ?thesis by (simp add: utf8_encode_def ustep_lead)
  next
    case 2
    then have "194 \<le> 192 + c div 64" "192 + c div 64 < 224" by auto
    then show ?thesis using 2 by (simp add: utf8_encode_def ustep_lead ustep_cont)
  next
    case 3
    have "urun 0 [224 + c div 4096, 128 + c div 64 mod 64] = 2"
    proof (cases "c div 4096 = 0")
      case True
      then have "32 \<le> c div 64 mod 64" using 3 by auto
      then show ?thesis using True by (simp add: ustep_lead ustep_cont)
    next
      case nz: False
      show ?thesis
      proof (cases "c div 4096 = 13")
        case True
        then have "c < 0xD800" using sc by (auto simp: scalar_def)
        then have "c div 64 mod 64 < 32"
          using True mod_mult2_eq [of c 64 64] div_mult_mod_eq [of c 4096] by simp
        then show ?thesis using True by (simp add: ustep_lead ustep_cont)
      next
        case False
        have "c div 4096 < 16" using 3 by auto
        then show ?thesis using False nz by (simp add: ustep_lead ustep_cont)
      qed
    qed
    then show ?thesis using 3 by (simp add: utf8_encode_def ustep_cont)
  next
    case 4
    have "urun 0 [240 + c div 262144, 128 + c div 4096 mod 64] = 3"
    proof (cases "c div 262144 = 0")
      case True
      then have "16 \<le> c div 4096 mod 64" using 4 by auto
      then show ?thesis using True by (simp add: ustep_lead ustep_cont)
    next
      case nz: False
      show ?thesis
      proof (cases "c div 262144 = 4")
        case True
        then have "c div 4096 div 64 = 4" by (simp add: div_mult2_eq [symmetric])
        moreover have "c div 4096 < 272" using 4 by simp
        ultimately have "c div 4096 mod 64 < 16" using div_mult_mod_eq [of "c div 4096" 64] by simp
        then show ?thesis using True by (simp add: ustep_lead ustep_cont)
      next
        case False
        have "c div 262144 < 5" using 4 by auto
        then show ?thesis using False nz by (simp add: ustep_lead ustep_cont)
      qed
    qed
    then show ?thesis using 4 by (simp add: utf8_encode_def ustep_cont)
  qed
qed

text \<open>Conversely, an accepted sequence is taken apart at its lead bytes.\<close>

lemma urun_split:
  assumes "urun s bs = 0" "s \<noteq> 0"
  obtains b cs where "bs = b # cs" "urun (ustep s b) cs = 0"
  using assms by (cases bs) auto

lemma ustep_nonreject:
  "ustep 2 b \<noteq> 1 \<Longrightarrow> 128 \<le> b \<and> b < 192" "ustep 3 b \<noteq> 1 \<Longrightarrow> 128 \<le> b \<and> b < 192"
  "ustep 4 b \<noteq> 1 \<Longrightarrow> 160 \<le> b \<and> b < 192" "ustep 5 b \<noteq> 1 \<Longrightarrow> 128 \<le> b \<and> b < 160"
  "ustep 6 b \<noteq> 1 \<Longrightarrow> 144 \<le> b \<and> b < 192" "ustep 7 b \<noteq> 1 \<Longrightarrow> 128 \<le> b \<and> b < 192"
  "ustep 8 b \<noteq> 1 \<Longrightarrow> 128 \<le> b \<and> b < 144"
  by (simp_all add: ustep_def class_step_def byte_class_def split: if_splits)

lemma urun_0_nonreject: "urun (ustep s b) cs = 0 \<Longrightarrow> ustep s b \<noteq> 1"
  by auto

lemma urun_tail2:
  assumes "urun 2 bs = 0"
  obtains b cs where "bs = b # cs" "128 \<le> b" "b < 192" "urun 0 cs = 0"
proof -
  obtain b cs where "bs = b # cs" "urun (ustep 2 b) cs = 0" using urun_split [OF assms] by auto
  moreover from this have "128 \<le> b \<and> b < 192" using ustep_nonreject(1) urun_0_nonreject by blast
  ultimately show ?thesis using that by (simp add: ustep_cont)
qed

text \<open>The second byte of the states 3 to 8, and the state behind it.\<close>

definition second_range :: "nat \<Rightarrow> nat \<times> nat" where
  "second_range s = (if s = 4 then (160, 192) else if s = 5 then (128, 160) else if s = 6 then (144, 192)
     else if s = 8 then (128, 144) else (128, 192))"

lemma urun_tail:
  assumes "urun s bs = 0" "3 \<le> s" "s \<le> 8"
  obtains b cs where "bs = b # cs" "fst (second_range s) \<le> b" "b < snd (second_range s)"
    "urun (if s \<le> 5 then 2 else 3) cs = 0"
proof -
  obtain b cs where bs: "bs = b # cs" and r: "urun (ustep s b) cs = 0" using urun_split [OF assms(1)] assms(2) by auto
  have nr: "ustep s b \<noteq> 1" using urun_0_nonreject [OF r] .
  have "s = 3 \<or> s = 4 \<or> s = 5 \<or> s = 6 \<or> s = 7 \<or> s = 8" using assms by auto
  then have "fst (second_range s) \<le> b \<and> b < snd (second_range s) \<and> ustep s b = (if s \<le> 5 then 2 else 3)"
    using nr by (elim disjE) (simp_all add: second_range_def ustep_def class_step_def byte_class_def split: if_splits)
  then show ?thesis using that bs r by metis
qed

lemma urun_lead:
  assumes "ustep 0 b \<noteq> 1" "b < 256"
  shows "(b < 128 \<and> ustep 0 b = 0) \<or> (194 \<le> b \<and> b < 224 \<and> ustep 0 b = 2) \<or>
    (224 \<le> b \<and> b < 240 \<and> ustep 0 b = (if b = 224 then 4 else if b = 237 then 5 else 3)) \<or>
    (240 \<le> b \<and> b \<le> 244 \<and> ustep 0 b = (if b = 240 then 6 else if b = 244 then 8 else 7))"
proof -
  have "\<forall>b \<in> set [0..<256]. ustep 0 b = 1 \<or> (b < 128 \<and> ustep 0 b = 0) \<or> (194 \<le> b \<and> b < 224 \<and> ustep 0 b = 2) \<or>
    (224 \<le> b \<and> b < 240 \<and> ustep 0 b = (if b = 224 then 4 else if b = 237 then 5 else 3)) \<or>
    (240 \<le> b \<and> b \<le> 244 \<and> ustep 0 b = (if b = 240 then 6 else if b = 244 then 8 else 7))"
    unfolding list_all_iff [symmetric] by code_simp
  moreover have "b \<in> set [0..<256]" using assms(2) by simp
  ultimately have "ustep 0 b = 1 \<or> ?thesis" by (rule bspec)
  then show ?thesis using assms(1) by blast
qed

lemma accepted_prefix:
  assumes "urun 0 (b # bs) = 0" "b < 256"
  obtains c cs where "b # bs = utf8_encode c @ cs" "scalar c" "urun 0 cs = 0"
proof -
  have r: "urun (ustep 0 b) bs = 0" using assms(1) by simp
  from urun_lead [OF urun_0_nonreject [OF r] assms(2)] show ?thesis
  proof (elim disjE conjE)
    assume "b < 128" "ustep 0 b = 0"
    then show ?thesis using that [of b bs] r by (simp add: utf8_encode_def scalar_def)
  next
    assume two: "194 \<le> b" "b < 224" "ustep 0 b = 2"
    obtain b2 cs where b2: "bs = b2 # cs" "128 \<le> b2" "b2 < 192" "urun 0 cs = 0" using urun_tail2 [of bs] r two(3) by auto
    obtain x where x: "b = 192 + x" using two(1) le_Suc_ex [of 192 b] by auto
    obtain y where y: "b2 = 128 + y" using b2(2) le_Suc_ex by blast
    have "x < 32" "2 \<le> x" "y < 64" using two x y b2 by simp_all
    then show ?thesis
      using that [of "x * 64 + y" cs] b2 x y by (simp add: utf8_encode_def scalar_def)
  next
    assume three: "224 \<le> b" "b < 240" "ustep 0 b = (if b = 224 then 4 else if b = 237 then 5 else 3)"
    define s where "s = ustep 0 b"
    have s: "3 \<le> s" "s \<le> 8" "s \<le> 5" using three(3) by (auto simp: s_def)
    have rs: "urun s bs = 0" using r by (simp add: s_def)
    have sv: "s = (if b = 224 then 4 else if b = 237 then 5 else 3)" using three(3) by (simp add: s_def)
    obtain b2 cs2 where b2: "bs = b2 # cs2" "fst (second_range s) \<le> b2" "b2 < snd (second_range s)" "urun 2 cs2 = 0"
      using urun_tail [OF rs s(1,2)] s(3) by auto
    obtain b3 cs where b3: "cs2 = b3 # cs" "128 \<le> b3" "b3 < 192" "urun 0 cs = 0" using urun_tail2 [OF b2(4)] .
    obtain x where x: "b = 224 + x" using three(1) le_Suc_ex by blast
    have "128 \<le> b2" using b2(2) by (simp add: second_range_def split: if_splits)
    then obtain y where y: "b2 = 128 + y" using le_Suc_ex by blast
    obtain z where z: "b3 = 128 + z" using b3(2) le_Suc_ex by blast
    have xyz: "x < 16" "y < 64" "z < 64" "x = 0 \<longrightarrow> 32 \<le> y" "x = 13 \<longrightarrow> y < 32"
      using three(2) sv b2(2,3) b3(3) unfolding x y z second_range_def by (auto split: if_splits)
    define c where "c = x * 4096 + y * 64 + z"
    have d: "c div 4096 = x" "c div 64 mod 64 = y" "c mod 64 = z"
    proof -
      have e: "c = z + (y + x * 64) * 64" by (simp add: c_def)
      show "c mod 64 = z" using xyz(3) by (simp only: e mod_mult_self1 mod_less)
      have e64: "c div 64 = y + x * 64" using xyz(3) by (simp add: e)
      then show "c div 64 mod 64 = y" using xyz(2) by simp
      have "c div 4096 = c div 64 div 64" by (simp add: div_mult2_eq [symmetric])
      then show "c div 4096 = x" using e64 xyz(2) by simp
    qed
    have "0x800 \<le> c" "c < 0x10000" unfolding c_def using xyz by auto
    moreover have "\<not> (0xD800 \<le> c \<and> c < 0xE000)"
    proof -
      have "x \<le> 12 \<or> x = 13 \<or> 14 \<le> x" by auto
      then show ?thesis unfolding c_def using xyz by (elim disjE) simp_all
    qed
    ultimately have "utf8_encode c = [b, b2, b3]" "scalar c" using d x y z by (simp_all add: utf8_encode_def scalar_def)
    then show ?thesis using that [of c cs] b2(1) b3(1,4) by simp
  next
    assume four: "240 \<le> b" "b \<le> 244" "ustep 0 b = (if b = 240 then 6 else if b = 244 then 8 else 7)"
    define s where "s = ustep 0 b"
    have s: "3 \<le> s" "s \<le> 8" "\<not> s \<le> 5" using four(3) by (auto simp: s_def)
    have rs: "urun s bs = 0" using r by (simp add: s_def)
    have sv: "s = (if b = 240 then 6 else if b = 244 then 8 else 7)" using four(3) by (simp add: s_def)
    obtain b2 cs2 where b2: "bs = b2 # cs2" "fst (second_range s) \<le> b2" "b2 < snd (second_range s)" "urun 3 cs2 = 0"
      using urun_tail [OF rs s(1,2)] s(3) by auto
    obtain b3 cs3 where b3: "cs2 = b3 # cs3" "128 \<le> b3" "b3 < 192" "urun 2 cs3 = 0"
      using urun_tail [OF b2(4)] by (simp add: second_range_def) blast
    obtain b4 cs where b4: "cs3 = b4 # cs" "128 \<le> b4" "b4 < 192" "urun 0 cs = 0" using urun_tail2 [OF b3(4)] .
    obtain x where x: "b = 240 + x" using four(1) le_Suc_ex by blast
    have "128 \<le> b2" using b2(2) by (simp add: second_range_def split: if_splits)
    then obtain y where y: "b2 = 128 + y" using le_Suc_ex by blast
    obtain z where z: "b3 = 128 + z" using b3(2) le_Suc_ex by blast
    obtain w where w: "b4 = 128 + w" using b4(2) le_Suc_ex by blast
    have q: "x \<le> 4" "y < 64" "z < 64" "w < 64" "x = 0 \<longrightarrow> 16 \<le> y" "x = 4 \<longrightarrow> y < 16"
      using four(2) sv b2(2,3) b3(3) b4(3) unfolding x y z w second_range_def by (auto split: if_splits)
    define c where "c = x * 262144 + y * 4096 + z * 64 + w"
    have d: "c div 262144 = x" "c div 4096 mod 64 = y" "c div 64 mod 64 = z" "c mod 64 = w"
    proof -
      have e: "c = w + (z + (y + x * 64) * 64) * 64" by (simp add: c_def)
      show "c mod 64 = w" using q(4) by (simp only: e mod_mult_self1 mod_less)
      have e64: "c div 64 = z + (y + x * 64) * 64" using q(4) by (simp add: e)
      then show "c div 64 mod 64 = z" using q(3) by (simp only: mod_mult_self1 mod_less)
      have "c div 4096 = c div 64 div 64" by (simp add: div_mult2_eq [symmetric])
      then have e4096: "c div 4096 = y + x * 64" using e64 q(3) by simp
      then show "c div 4096 mod 64 = y" using q(2) by (simp only: mod_mult_self1 mod_less)
      have "c div 262144 = c div 4096 div 64" by (simp add: div_mult2_eq [symmetric])
      then show "c div 262144 = x" using e4096 q(2) by simp
    qed
    have "0x10000 \<le> c" "c < 0x110000" unfolding c_def using q by auto
    then have "utf8_encode c = [b, b2, b3, b4]" "scalar c" using d x y z w by (simp_all add: utf8_encode_def scalar_def)
    then show ?thesis using that [of c cs] b2(1) b3(1) b4(1,4) by simp
  qed
qed

lemma accepted_scalars:
  assumes "urun 0 bs = 0" "\<forall>b \<in> set bs. b < 256"
  shows "\<exists>cs. list_all scalar cs \<and> bs = concat (map utf8_encode cs)"
  using assms
proof (induction "length bs" arbitrary: bs rule: less_induct)
  case less
  show ?case
  proof (cases bs)
    case Nil
    then show ?thesis by (intro exI [of _ "[]"]) simp
  next
    case (Cons b bs')
    obtain c cs where c: "bs = utf8_encode c @ cs" "scalar c" "urun 0 cs = 0"
      using accepted_prefix [of b bs'] less.prems Cons by auto
    have "utf8_encode c \<noteq> []" by (simp add: utf8_encode_def)
    then have "length cs < length bs" using c(1) by simp
    then obtain ds where "list_all scalar ds" "cs = concat (map utf8_encode ds)"
      using less.hyps [of cs] c(1,3) less.prems(2) by auto
    then show ?thesis using c by (intro exI [of _ "c # ds"]) simp
  qed
qed

lemma urun_scalars: "list_all scalar cs \<Longrightarrow> urun 0 (concat (map utf8_encode cs)) = 0"
  by (induction cs) (simp_all add: urun_encode)

lemma validate_append: "validate xs \<Longrightarrow> validate ys \<Longrightarrow> validate (xs @ ys)"
  by (simp add: validate_run)

lemma validate_ascii: "list_all (\<lambda>b. b < 128) bs \<Longrightarrow> validate bs"
proof (induction bs)
  case (Cons b bs)
  then have "unat b < 128" by (simp add: word_less_nat_alt)
  then have "ustep 0 (unat b) = 0" by (simp add: ustep_def byte_class_def class_step_def)
  then show ?case using Cons by (simp add: validate_run)
qed (simp add: validate_run)

subsection \<open>Properties\<close>

text \<open>
  C17: \<open>validate\<close> accepts a byte string exactly when it is the concatenation of the UTF-8 encodings of
  Unicode scalar values: no overlong form, no surrogate, nothing above U+10FFFF, no truncated sequence.
\<close>
theorem validate_utf8:
  "validate s \<longleftrightarrow> (\<exists>cs. list_all scalar cs \<and> map unat s = concat (map utf8_encode cs))"
proof
  assume "validate s"
  moreover have "\<forall>b \<in> set (map unat s). b < 256"
    using unsigned_less [where 'b = 8 and 'a = nat] by auto
  ultimately show "\<exists>cs. list_all scalar cs \<and> map unat s = concat (map utf8_encode cs)"
    using accepted_scalars by (simp only: validate_run)
next
  assume "\<exists>cs. list_all scalar cs \<and> map unat s = concat (map utf8_encode cs)"
  then show "validate s" using urun_scalars by (auto simp: validate_run)
qed

end
