(* ===== verification/Ws_Error.thy ===== *)
theory Ws_Error
  imports Effects Ws_Utf8
begin

section \<open>websocketpp: error codes and close codes\<close>

text \<open>
  The error enumerations of the library, its processors, its transport and its extensions with
  their messages (\<open>error.hpp\<close>, \<open>processors/base.hpp\<close>, \<open>transport/base/connection.hpp\<close>,
  \<open>extensions/extension.hpp\<close>), and the close codes of \<open>close.hpp\<close>.  An \<open>lib::error_code\<close> is \<open>None\<close>
  for success, or the category and the value.  \<open>Other\<close> is a code of a foreign category with its
  message.  \<open>Undefined\<close> is no error code: it stands for undefined behaviour on the way to one.
\<close>

subsection \<open>The categories\<close>

datatype processor_error =
    Proc_general | Proc_bad_request | Proc_protocol_violation | Proc_message_too_big
  | Proc_invalid_payload | Proc_invalid_arguments | Proc_invalid_opcode | Proc_control_too_big
  | Proc_invalid_rsv_bit | Proc_fragmented_control | Proc_invalid_continuation
  | Proc_masking_required | Proc_masking_forbidden | Proc_non_minimal_encoding
  | Proc_requires_64bit | Proc_invalid_utf8 | Proc_not_implemented | Proc_invalid_http_method
  | Proc_invalid_http_version | Proc_invalid_http_status | Proc_missing_required_header
  | Proc_sha1_library | Proc_no_protocol_support | Proc_reserved_close_code
  | Proc_invalid_close_code | Proc_reason_requires_code | Proc_subprotocol_parse_error
  | Proc_extension_parse_error | Proc_extensions_disabled | Proc_short_key3

fun processor_error_message :: "processor_error \<Rightarrow> string" where
  "processor_error_message Proc_general = ''Generic processor error''"
| "processor_error_message Proc_bad_request = ''invalid user input''"
| "processor_error_message Proc_protocol_violation = ''Generic protocol violation''"
| "processor_error_message Proc_message_too_big = ''A message was too large''"
| "processor_error_message Proc_invalid_payload = ''A payload contained invalid data''"
| "processor_error_message Proc_invalid_arguments = ''invalid function arguments''"
| "processor_error_message Proc_invalid_opcode = ''invalid opcode''"
| "processor_error_message Proc_control_too_big = ''Control messages are limited to fewer than 125 characters''"
| "processor_error_message Proc_invalid_rsv_bit = ''Invalid use of reserved bits''"
| "processor_error_message Proc_fragmented_control = ''Control messages cannot be fragmented''"
| "processor_error_message Proc_invalid_continuation = ''Invalid message continuation''"
| "processor_error_message Proc_masking_required = ''Clients may not send unmasked frames''"
| "processor_error_message Proc_masking_forbidden = ''Servers may not send masked frames''"
| "processor_error_message Proc_non_minimal_encoding = ''Payload length was not minimally encoded''"
| "processor_error_message Proc_requires_64bit = ''64 bit frames are not supported on 32 bit systems''"
| "processor_error_message Proc_invalid_utf8 = ''Invalid UTF8 encoding''"
| "processor_error_message Proc_not_implemented = ''Operation required not implemented functionality''"
| "processor_error_message Proc_invalid_http_method = ''Invalid HTTP method.''"
| "processor_error_message Proc_invalid_http_version = ''Invalid HTTP version.''"
| "processor_error_message Proc_invalid_http_status = ''Invalid HTTP status.''"
| "processor_error_message Proc_missing_required_header = ''A required HTTP header is missing''"
| "processor_error_message Proc_sha1_library = ''SHA-1 library error''"
| "processor_error_message Proc_no_protocol_support = ''The WebSocket protocol version in use does not support this feature''"
| "processor_error_message Proc_reserved_close_code = ''Reserved close code used''"
| "processor_error_message Proc_invalid_close_code = ''Invalid close code used''"
| "processor_error_message Proc_reason_requires_code = ''Using a close reason requires a valid close code''"
| "processor_error_message Proc_subprotocol_parse_error = ''Error parsing subprotocol header''"
| "processor_error_message Proc_extension_parse_error = ''Error parsing extension header''"
| "processor_error_message Proc_extensions_disabled = ''Extensions are disabled''"
| "processor_error_message Proc_short_key3 = ''Short Hybi00 Key 3 read''"

datatype library_error =
    Lib_general | Lib_send_queue_full | Lib_payload_violation | Lib_endpoint_not_secure
  | Lib_endpoint_unavailable | Lib_invalid_uri | Lib_no_outgoing_buffers
  | Lib_no_incoming_buffers | Lib_invalid_state | Lib_bad_close_code | Lib_reserved_close_code
  | Lib_invalid_close_code | Lib_invalid_utf8 | Lib_invalid_subprotocol | Lib_bad_connection
  | Lib_test | Lib_con_creation_failed | Lib_unrequested_subprotocol | Lib_client_only
  | Lib_server_only | Lib_http_connection_ended | Lib_open_handshake_timeout
  | Lib_close_handshake_timeout | Lib_invalid_port | Lib_async_accept_not_listening
  | Lib_operation_canceled | Lib_rejected | Lib_upgrade_required | Lib_invalid_version
  | Lib_unsupported_version | Lib_http_parse_error | Lib_extension_neg_failed

fun library_error_message :: "library_error \<Rightarrow> string" where
  "library_error_message Lib_general = ''Generic error''"
| "library_error_message Lib_send_queue_full = ''send queue full''"
| "library_error_message Lib_payload_violation = ''payload violation''"
| "library_error_message Lib_endpoint_not_secure = ''endpoint not secure''"
| "library_error_message Lib_endpoint_unavailable = ''endpoint not available''"
| "library_error_message Lib_invalid_uri = ''invalid uri''"
| "library_error_message Lib_no_outgoing_buffers = ''no outgoing message buffers''"
| "library_error_message Lib_no_incoming_buffers = ''no incoming message buffers''"
| "library_error_message Lib_invalid_state = ''invalid state''"
| "library_error_message Lib_bad_close_code = ''Unable to extract close code''"
| "library_error_message Lib_reserved_close_code = ''Extracted close code is in a reserved range''"
| "library_error_message Lib_invalid_close_code = ''Extracted close code is in an invalid range''"
| "library_error_message Lib_invalid_utf8 = ''Invalid UTF-8''"
| "library_error_message Lib_invalid_subprotocol = ''Invalid subprotocol''"
| "library_error_message Lib_bad_connection = ''Bad Connection''"
| "library_error_message Lib_test = ''Test Error''"
| "library_error_message Lib_con_creation_failed = ''Connection creation attempt failed''"
| "library_error_message Lib_unrequested_subprotocol = ''Selected subprotocol was not requested by the client''"
| "library_error_message Lib_client_only = ''Feature not available on server endpoints''"
| "library_error_message Lib_server_only = ''Feature not available on client endpoints''"
| "library_error_message Lib_http_connection_ended = ''HTTP connection ended''"
| "library_error_message Lib_open_handshake_timeout = ''The opening handshake timed out''"
| "library_error_message Lib_close_handshake_timeout = ''The closing handshake timed out''"
| "library_error_message Lib_invalid_port = ''Invalid URI port''"
| "library_error_message Lib_async_accept_not_listening = ''Async Accept not listening''"
| "library_error_message Lib_operation_canceled = ''Operation canceled''"
| "library_error_message Lib_rejected = ''Connection rejected''"
| "library_error_message Lib_upgrade_required = ''Upgrade required''"
| "library_error_message Lib_invalid_version = ''Invalid version''"
| "library_error_message Lib_unsupported_version = ''Unsupported version''"
| "library_error_message Lib_http_parse_error = ''HTTP parse error''"
| "library_error_message Lib_extension_neg_failed = ''Extension negotiation failed''"

datatype transport_error =
    Tr_general | Tr_pass_through | Tr_invalid_num_bytes | Tr_double_read | Tr_operation_aborted
  | Tr_operation_not_supported | Tr_eof | Tr_tls_short_read | Tr_timeout
  | Tr_action_after_shutdown | Tr_tls_error

fun transport_error_message :: "transport_error \<Rightarrow> string" where
  "transport_error_message Tr_general = ''Generic transport policy error''"
| "transport_error_message Tr_pass_through = ''Underlying Transport Error''"
| "transport_error_message Tr_invalid_num_bytes = ''async_read_at_least call requested more bytes than buffer can store''"
| "transport_error_message Tr_double_read = ''Unknown''"
| "transport_error_message Tr_operation_aborted = ''The operation was aborted''"
| "transport_error_message Tr_operation_not_supported = ''The operation is not supported by this transport''"
| "transport_error_message Tr_eof = ''End of File''"
| "transport_error_message Tr_tls_short_read = ''TLS Short Read''"
| "transport_error_message Tr_timeout = ''Timer Expired''"
| "transport_error_message Tr_action_after_shutdown = ''A transport action was requested after shutdown''"
| "transport_error_message Tr_tls_error = ''Generic TLS related error''"

datatype extension_error =
    Ext_general | Ext_disabled

fun extension_error_message :: "extension_error \<Rightarrow> string" where
  "extension_error_message Ext_general = ''Generic extension error''"
| "extension_error_message Ext_disabled = ''Use of methods from disabled extension''"

subsection \<open>Error codes\<close>

datatype ws_error =
    Processor processor_error
  | Library library_error
  | Transport transport_error
  | Extension extension_error
  | Other string
  | Undefined fault

type_synonym ws_ec = "ws_error option"

fun ec_message :: "ws_error \<Rightarrow> string" where
  "ec_message (Processor e) = processor_error_message e"
| "ec_message (Library e) = library_error_message e"
| "ec_message (Transport e) = transport_error_message e"
| "ec_message (Extension e) = extension_error_message e"
| "ec_message (Other s) = s"
| "ec_message (Undefined f) = []"

subsection \<open>Close codes\<close>

type_synonym close_code = "16 word"

definition cc_blank :: close_code where "cc_blank = 0"
definition cc_normal :: close_code where "cc_normal = 1000"
definition cc_going_away :: close_code where "cc_going_away = 1001"
definition cc_protocol_error :: close_code where "cc_protocol_error = 1002"
definition cc_unsupported_data :: close_code where "cc_unsupported_data = 1003"
definition cc_no_status :: close_code where "cc_no_status = 1005"
definition cc_abnormal_close :: close_code where "cc_abnormal_close = 1006"
definition cc_invalid_payload :: close_code where "cc_invalid_payload = 1007"
definition cc_policy_violation :: close_code where "cc_policy_violation = 1008"
definition cc_message_too_big :: close_code where "cc_message_too_big = 1009"
definition cc_extension_required :: close_code where "cc_extension_required = 1010"
definition cc_internal_endpoint_error :: close_code where "cc_internal_endpoint_error = 1011"
definition cc_tls_handshake :: close_code where "cc_tls_handshake = 1015"
definition cc_subprotocol_error :: close_code where "cc_subprotocol_error = 3000"
definition cc_invalid_subprotocol_data :: close_code where "cc_invalid_subprotocol_data = 3001"
definition rsv_start :: close_code where "rsv_start = 1016"
definition rsv_end :: close_code where "rsv_end = 2999"
definition invalid_low :: close_code where "invalid_low = 999"
definition invalid_high :: close_code where "invalid_high = 5000"

lemmas cc_defs = cc_blank_def cc_normal_def cc_going_away_def cc_protocol_error_def cc_unsupported_data_def
  cc_no_status_def cc_abnormal_close_def cc_invalid_payload_def cc_policy_violation_def cc_message_too_big_def
  cc_extension_required_def cc_internal_endpoint_error_def cc_tls_handshake_def cc_subprotocol_error_def
  cc_invalid_subprotocol_data_def rsv_start_def rsv_end_def invalid_low_def invalid_high_def

definition cc_reserved :: "close_code \<Rightarrow> bool" where
  "cc_reserved code \<longleftrightarrow> (code \<ge> rsv_start \<and> code \<le> rsv_end) \<or> code = 1004 \<or> code = 1014"

definition cc_invalid :: "close_code \<Rightarrow> bool" where
  "cc_invalid code \<longleftrightarrow> code \<le> invalid_low \<or> code \<ge> invalid_high \<or>
     code = cc_no_status \<or> code = cc_abnormal_close \<or> code = cc_tls_handshake"

definition cc_terminal :: "close_code \<Rightarrow> bool" where
  "cc_terminal code \<longleftrightarrow> code = cc_protocol_error \<or> code = cc_invalid_payload \<or>
     code = cc_policy_violation \<or> code = cc_message_too_big \<or> code = cc_internal_endpoint_error"

definition cc_string :: "close_code \<Rightarrow> string" where
  "cc_string code =
     (if code = cc_normal then ''Normal close''
      else if code = cc_going_away then ''Going away''
      else if code = cc_protocol_error then ''Protocol error''
      else if code = cc_unsupported_data then ''Unsupported data''
      else if code = cc_no_status then ''No status set''
      else if code = cc_abnormal_close then ''Abnormal close''
      else if code = cc_invalid_payload then ''Invalid payload''
      else if code = cc_policy_violation then ''Policy violoation''
      else if code = cc_message_too_big then ''Message too big''
      else if code = cc_extension_required then ''Extension required''
      else if code = cc_internal_endpoint_error then ''Internal endpoint error''
      else if code = cc_tls_handshake then ''TLS handshake failure''
      else if code = cc_subprotocol_error then ''Generic subprotocol error''
      else if code = cc_invalid_subprotocol_data then ''Invalid subprotocol data''
      else ''Unknown'')"

text \<open>A close payload is the list of its bytes; the result is the code or reason, and the error.\<close>

definition extract_code :: "byte list \<Rightarrow> close_code \<times> ws_ec" where
  "extract_code payload =
     (if length payload = 0 then (cc_no_status, None)
      else if length payload = 1 then (cc_protocol_error, Some (Library Lib_bad_close_code))
      else let code = ntohs (rd_le [payload ! 0, payload ! 1]);
               ec = (if cc_invalid code then Some (Library Lib_invalid_close_code) else None);
               ec' = (if cc_reserved code then Some (Library Lib_reserved_close_code) else ec)
           in (code, ec'))"

definition extract_reason :: "byte list \<Rightarrow> byte list \<times> ws_ec" where
  "extract_reason payload =
     (let reason = (if length payload > 2 then drop 2 payload else []) in
      (reason, if \<not> validate reason then Some (Library Lib_invalid_utf8) else None))"

text \<open>\<open>processor::error::to_ws\<close>.\<close>

definition to_ws :: "ws_error \<Rightarrow> close_code" where
  "to_ws ec =
     (case ec of
        Processor e \<Rightarrow>
          if e \<in> {Proc_protocol_violation, Proc_control_too_big, Proc_invalid_opcode, Proc_invalid_rsv_bit,
                Proc_fragmented_control, Proc_invalid_continuation, Proc_masking_required, Proc_masking_forbidden,
                Proc_reserved_close_code, Proc_invalid_close_code} then cc_protocol_error
          else if e \<in> {Proc_invalid_payload, Proc_invalid_utf8} then cc_invalid_payload
          else if e = Proc_message_too_big then cc_message_too_big
          else cc_internal_endpoint_error
      | _ \<Rightarrow> cc_blank)"

lemma to_ws_terminal: "cc_terminal (to_ws (Processor e))"
  by (simp add: to_ws_def cc_terminal_def)

lemma to_ws_sendable: "\<not> cc_reserved (to_ws (Processor e))" "\<not> cc_invalid (to_ws (Processor e))"
  by (simp_all add: to_ws_def cc_reserved_def cc_invalid_def cc_defs)

text \<open>A code written as the first two bytes of a payload, as \<open>prepare_close\<close> does, is read back.\<close>

lemma extract_code_written:
  assumes "\<not> cc_invalid code" "\<not> cc_reserved code"
  shows "extract_code (wr_le 2 (htons code) @ reason) = (code, None)"
proof -
  obtain c0 c1 where c: "wr_le 2 (htons code) = [c0, c1]"
    by (metis (no_types, lifting) length_wr_le length_0_conv length_Suc_conv numeral_2_eq_2)
  have "rd_le (wr_le 2 (htons code)) = htons code" by (rule rd_le_wr_le) simp
  then have "rd_le [c0, c1] = htons code" by (simp only: c)
  then show ?thesis using assms unfolding c by (simp add: extract_code_def Let_def del: rd_le.simps)
qed

lemma extract_reason_written:
  "length c = 2 \<Longrightarrow> validate reason \<Longrightarrow> extract_reason (c @ reason) = (reason, None)"
  by (cases "reason = []") (auto simp: extract_reason_def)

end
