(* ===== verification/Ws_Frame.thy ===== *)
theory Ws_Frame
  imports Ws_Bytes
begin

section \<open>websocketpp: the layout of frames\<close>

text \<open>
  \<open>frame.hpp\<close>: opcodes, the two parts of a frame header, and the four masking routines.  An
  \<open>opcode::value\<close> is an integer.  An \<open>extended_header\<close> is its array \<open>bytes\<close>, a list of twelve
  bytes.  A \<open>masking_key_type\<close> is its field \<open>i\<close>; its field \<open>c\<close> is \<open>wr_le 4\<close> of it.  A buffer is the
  list of the bytes that the routine is told to work on, so that its length is their argument
  \<open>length\<close>.  \<open>size_t\<close> has eight bytes.
\<close>

subsection \<open>Constants and opcodes\<close>

definition BASIC_HEADER_LENGTH :: nat where "BASIC_HEADER_LENGTH = 2"
definition MAX_EXTENDED_HEADER_LENGTH :: nat where "MAX_EXTENDED_HEADER_LENGTH = 12"

type_synonym opval = int

definition op_continuation :: opval where "op_continuation = 0x0"
definition op_text :: opval where "op_text = 0x1"
definition op_binary :: opval where "op_binary = 0x2"
definition op_rsv3 :: opval where "op_rsv3 = 0x3"
definition op_rsv7 :: opval where "op_rsv7 = 0x7"
definition op_close :: opval where "op_close = 0x8"
definition op_ping :: opval where "op_ping = 0x9"
definition op_pong :: opval where "op_pong = 0xA"
definition op_control_rsvb :: opval where "op_control_rsvb = 0xB"
definition op_control_rsvf :: opval where "op_control_rsvf = 0xF"

lemmas op_defs = op_continuation_def op_text_def op_binary_def op_rsv3_def op_rsv7_def op_close_def
  op_ping_def op_pong_def op_control_rsvb_def op_control_rsvf_def

definition op_reserved :: "opval \<Rightarrow> bool" where
  "op_reserved v \<longleftrightarrow> (v \<ge> op_rsv3 \<and> v \<le> op_rsv7) \<or> (v \<ge> op_control_rsvb \<and> v \<le> op_control_rsvf)"

definition op_invalid :: "opval \<Rightarrow> bool" where
  "op_invalid v \<longleftrightarrow> v > 0xF \<or> v < 0"

definition is_control :: "opval \<Rightarrow> bool" where
  "is_control v \<longleftrightarrow> v \<ge> 0x8"

definition payload_size_basic :: byte where "payload_size_basic = 125"
definition payload_size_extended :: "16 word" where "payload_size_extended = 0xFFFF"
definition close_reason_size :: byte where "close_reason_size = 123"
definition payload_size_code_16bit :: byte where "payload_size_code_16bit = 0x7E"
definition payload_size_code_64bit :: byte where "payload_size_code_64bit = 0x7F"

definition BHB0_OPCODE :: byte where "BHB0_OPCODE = 0x0F"
definition BHB0_RSV3 :: byte where "BHB0_RSV3 = 0x10"
definition BHB0_RSV2 :: byte where "BHB0_RSV2 = 0x20"
definition BHB0_RSV1 :: byte where "BHB0_RSV1 = 0x40"
definition BHB0_FIN :: byte where "BHB0_FIN = 0x80"
definition BHB1_PAYLOAD :: byte where "BHB1_PAYLOAD = 0x7F"
definition BHB1_MASK :: byte where "BHB1_MASK = 0x80"

lemmas bhb_defs = BHB0_OPCODE_def BHB0_RSV3_def BHB0_RSV2_def BHB0_RSV1_def BHB0_FIN_def
  BHB1_PAYLOAD_def BHB1_MASK_def

lemmas size_defs = payload_size_basic_def payload_size_extended_def close_reason_size_def
  payload_size_code_16bit_def payload_size_code_64bit_def

subsection \<open>Headers\<close>

record basic_header =
  b0 :: byte
  b1 :: byte

text \<open>The value of \<open>basic_value\<close>: the payload size, or the code of a longer size field.\<close>

definition basic_value :: "u64 \<Rightarrow> byte" where
  "basic_value sz =
     (if sz \<le> ucast payload_size_basic then ucast sz
      else if sz \<le> ucast payload_size_extended then payload_size_code_16bit
      else payload_size_code_64bit)"

definition make_basic_header ::
  "opval \<Rightarrow> u64 \<Rightarrow> bool \<Rightarrow> bool \<Rightarrow> bool \<Rightarrow> bool \<Rightarrow> bool \<Rightarrow> basic_header" where
  "make_basic_header op sz fin msk rsv1 rsv2 rsv3 =
     \<lparr>b0 = (if fin then BHB0_FIN else 0) OR (if rsv1 then BHB0_RSV1 else 0) OR
        (if rsv2 then BHB0_RSV2 else 0) OR (if rsv3 then BHB0_RSV3 else 0) OR
        (word_of_int op AND BHB0_OPCODE),
      b1 = (if msk then BHB1_MASK else 0) OR basic_value sz\<rparr>"

text \<open>\<open>std::copy\<close> of \<open>chunk\<close> to \<open>bytes + offset\<close>.\<close>

definition store_at :: "nat \<Rightarrow> byte list \<Rightarrow> byte list \<Rightarrow> byte list" where
  "store_at offset chunk bytes = take offset bytes @ chunk @ drop (offset + length chunk) bytes"

definition empty_extended_header :: "byte list" where
  "empty_extended_header = replicate MAX_EXTENDED_HEADER_LENGTH 0"

definition copy_payload :: "u64 \<Rightarrow> byte list \<Rightarrow> byte list \<times> nat" where
  "copy_payload payload_size bytes =
     (let payload_offset =
            (if payload_size \<le> ucast payload_size_basic then 8
             else if payload_size \<le> ucast payload_size_extended then 6 else 0)
      in (store_at 0 (drop payload_offset (wr_le 8 (htonll payload_size))) bytes, 8 - payload_offset))"

definition extended_header_size :: "u64 \<Rightarrow> byte list" where
  "extended_header_size payload_size = fst (copy_payload payload_size empty_extended_header)"

definition extended_header_key :: "u64 \<Rightarrow> u32 \<Rightarrow> byte list" where
  "extended_header_key payload_size masking_key =
     (let (bytes, offset) = copy_payload payload_size empty_extended_header
      in store_at offset (wr_le 4 masking_key) bytes)"

definition get_fin :: "basic_header \<Rightarrow> bool" where
  "get_fin h \<longleftrightarrow> b0 h AND BHB0_FIN = BHB0_FIN"
definition set_fin :: "bool \<Rightarrow> basic_header \<Rightarrow> basic_header" where
  "set_fin v h = h\<lparr>b0 := if v then b0 h OR BHB0_FIN else b0 h AND NOT BHB0_FIN\<rparr>"
definition get_rsv1 :: "basic_header \<Rightarrow> bool" where
  "get_rsv1 h \<longleftrightarrow> b0 h AND BHB0_RSV1 = BHB0_RSV1"
definition set_rsv1 :: "bool \<Rightarrow> basic_header \<Rightarrow> basic_header" where
  "set_rsv1 v h = h\<lparr>b0 := if v then b0 h OR BHB0_RSV1 else b0 h AND NOT BHB0_RSV1\<rparr>"
definition get_rsv2 :: "basic_header \<Rightarrow> bool" where
  "get_rsv2 h \<longleftrightarrow> b0 h AND BHB0_RSV2 = BHB0_RSV2"
definition set_rsv2 :: "bool \<Rightarrow> basic_header \<Rightarrow> basic_header" where
  "set_rsv2 v h = h\<lparr>b0 := if v then b0 h OR BHB0_RSV2 else b0 h AND NOT BHB0_RSV2\<rparr>"
definition get_rsv3 :: "basic_header \<Rightarrow> bool" where
  "get_rsv3 h \<longleftrightarrow> b0 h AND BHB0_RSV3 = BHB0_RSV3"
definition set_rsv3 :: "bool \<Rightarrow> basic_header \<Rightarrow> basic_header" where
  "set_rsv3 v h = h\<lparr>b0 := if v then b0 h OR BHB0_RSV3 else b0 h AND NOT BHB0_RSV3\<rparr>"
definition get_opcode :: "basic_header \<Rightarrow> opval" where
  "get_opcode h = uint (b0 h AND BHB0_OPCODE)"
definition get_masked :: "basic_header \<Rightarrow> bool" where
  "get_masked h \<longleftrightarrow> b1 h AND BHB1_MASK = BHB1_MASK"
definition set_masked :: "bool \<Rightarrow> basic_header \<Rightarrow> basic_header" where
  "set_masked v h = h\<lparr>b1 := if v then b1 h OR BHB1_MASK else b1 h AND NOT BHB1_MASK\<rparr>"
definition get_basic_size :: "basic_header \<Rightarrow> byte" where
  "get_basic_size h = b1 h AND BHB1_PAYLOAD"

definition get_masking_key_offset :: "basic_header \<Rightarrow> nat" where
  "get_masking_key_offset h =
     (if get_basic_size h = payload_size_code_16bit then 2
      else if get_basic_size h = payload_size_code_64bit then 8 else 0)"

definition get_header_len :: "basic_header \<Rightarrow> nat" where
  "get_header_len h =
     BASIC_HEADER_LENGTH + get_masking_key_offset h + (if get_masked h then 4 else 0)"

definition prepare_header :: "basic_header \<Rightarrow> byte list \<Rightarrow> byte list" where
  "prepare_header h e = [b0 h, b1 h] @ take (get_header_len h - BASIC_HEADER_LENGTH) e"

definition get_masking_key :: "basic_header \<Rightarrow> byte list \<Rightarrow> u32" where
  "get_masking_key h e =
     (if \<not> get_masked h then 0
      else rd_le (take 4 (drop (get_masking_key_offset h) e)))"

definition get_extended_size :: "byte list \<Rightarrow> 16 word" where
  "get_extended_size e = ntohs (rd_le (take 2 e))"

definition get_jumbo_size :: "byte list \<Rightarrow> u64" where
  "get_jumbo_size e = ntohll (rd_le (take 8 e))"

definition get_payload_size :: "basic_header \<Rightarrow> byte list \<Rightarrow> u64" where
  "get_payload_size h e =
     (let val = get_basic_size h in
      if val \<le> payload_size_basic then ucast val
      else if val = payload_size_code_16bit then ucast (get_extended_size e)
      else get_jumbo_size e)"

subsection \<open>Masking\<close>

definition prepare_masking_key :: "u32 \<Rightarrow> u64" where
  "prepare_masking_key key =
     (let low_bits = ucast key; high_bits = ucast key in push_bit 32 high_bits OR low_bits)"

text \<open>
  For \<open>offset = 0\<close> the code shifts a 64-bit value by 64, which the language leaves undefined.
  Whether the shift gives zero, as here, or the value itself, as on x86, the result is
  \<open>prepared_key\<close>.
\<close>

definition circshift_prepared_key :: "u64 \<Rightarrow> nat \<Rightarrow> u64" where
  "circshift_prepared_key prepared_key offset =
     (let temp = push_bit ((8 - offset) * 8) prepared_key
      in drop_bit (offset * 8) prepared_key OR temp)"

fun byte_mask_loop :: "byte list \<Rightarrow> byte list \<Rightarrow> nat \<Rightarrow> byte list" where
  "byte_mask_loop [] key_c key_index = []"
| "byte_mask_loop (x # xs) key_c key_index =
     (x XOR key_c ! key_index) # byte_mask_loop xs key_c ((key_index + 1) mod 4)"

definition byte_mask :: "byte list \<Rightarrow> u32 \<Rightarrow> nat \<Rightarrow> byte list" where
  "byte_mask xs key key_offset = byte_mask_loop xs (wr_le 4 key) (key_offset mod 4)"

text \<open>The loop over whole words, shared by the two word-wise routines.\<close>

definition mask_words :: "byte list \<Rightarrow> u64 \<Rightarrow> byte list" where
  "mask_words input prepared_key =
     concat (map (\<lambda>i. wr_le 8 (rd_le (take 8 (drop (i * 8) input)) XOR prepared_key))
       [0..<length input div 8])"

definition word_mask_exact :: "byte list \<Rightarrow> u32 \<Rightarrow> byte list" where
  "word_mask_exact input key =
     (let prepared_key = prepare_masking_key key; n = length input div 8 in
      mask_words input prepared_key @
      map (\<lambda>i. input ! i XOR wr_le 4 key ! (i mod 4)) [n * 8..<length input])"

definition word_mask_circ :: "byte list \<Rightarrow> u64 \<Rightarrow> byte list \<times> u64" where
  "word_mask_circ input prepared_key =
     (let n = length input div 8; l = length input - n * 8; start = length input - l;
          byte_key = wr_le 8 prepared_key in
      (mask_words input prepared_key @
       map (\<lambda>i. input ! (start + i) XOR byte_key ! i) [0..<l],
       circshift_prepared_key prepared_key l))"

definition byte_mask_circ :: "byte list \<Rightarrow> u64 \<Rightarrow> byte list \<times> u64" where
  "byte_mask_circ input prepared_key =
     (let key_c = wr_le 4 (ucast prepared_key :: u32) in
      (map (\<lambda>i. input ! i XOR key_c ! (i mod 4)) [0..<length input],
       circshift_prepared_key prepared_key (length input mod 4)))"

subsection \<open>The masking routines agree\<close>

text \<open>The mask of a stream at position \<open>off\<close>, and the prepared key for what follows there.\<close>

definition mask_from :: "byte list \<Rightarrow> nat \<Rightarrow> byte list \<Rightarrow> byte list" where
  "mask_from key off xs = map (\<lambda>i. xs ! i XOR key ! ((off + i) mod 4)) [0..<length xs]"

definition key_at :: "byte list \<Rightarrow> nat \<Rightarrow> u64" where
  "key_at key off = rd_le (map (\<lambda>i. key ! ((off + i) mod 4)) [0..<8])"

lemma length_mask_from [simp]: "length (mask_from key off xs) = length xs"
  by (simp add: mask_from_def)

lemma nth_mask_from [simp]: "i < length xs \<Longrightarrow> mask_from key off xs ! i = xs ! i XOR key ! ((off + i) mod 4)"
  by (simp add: mask_from_def)

lemma mask_from_Nil [simp]: "mask_from key off [] = []"
  by (simp add: mask_from_def)

lemma mask_from_append:
  "mask_from key off (xs @ ys) = mask_from key off xs @ mask_from key (off + length xs) ys"
  by (rule nth_equalityI) (auto simp: nth_append)

lemma mask_from_mod [simp]: "mask_from key (off mod 4) xs = mask_from key off xs"
  by (simp add: mask_from_def mod_add_left_eq)

lemma key_at_mod [simp]: "key_at key (off mod 4) = key_at key off"
  by (simp only: key_at_def mod_add_left_eq)

lemma mask_from_involution [simp]: "mask_from key off (mask_from key off xs) = xs"
  by (rule nth_equalityI) (auto simp: xor.assoc)

lemma length_byte_mask_loop [simp]: "length (byte_mask_loop xs key k) = length xs"
  by (induction xs arbitrary: k) simp_all

lemma byte_mask_loop_eq: "k < 4 \<Longrightarrow> byte_mask_loop xs key k = mask_from key k xs"
proof (induction xs arbitrary: k)
  case Nil
  then show ?case by simp
next
  case (Cons x xs)
  have "byte_mask_loop xs key ((k + 1) mod 4) = mask_from key (k + 1) xs"
    by (simp only: Cons.IH mod_less_divisor zero_less_numeral mask_from_mod)
  moreover have "mask_from key k [x] = [x XOR key ! k]"
    using Cons.prems by (simp add: mask_from_def)
  ultimately show ?case
    using mask_from_append [of key k "[x]" xs] by simp
qed

lemma byte_mask_eq: "byte_mask xs key off = mask_from (wr_le 4 key) off xs"
  by (simp add: byte_mask_def byte_mask_loop_eq)

lemma wr_le_key_at [simp]: "wr_le 8 (key_at key off) = map (\<lambda>i. key ! ((off + i) mod 4)) [0..<8]"
  by (simp add: key_at_def del: upt_rec_numeral)

lemma bit_key_at:
  "bit (key_at key off) n \<longleftrightarrow> n < 64 \<and> bit (key ! ((off + n div 8) mod 4)) (n mod 8)"
proof (cases "n < 64")
  case True
  then have "n div 8 < 8" by auto
  with True show ?thesis by (simp add: key_at_def bit_rd_le del: upt_rec_numeral)
next
  case False
  then show ?thesis by (simp add: key_at_def bit_rd_le del: upt_rec_numeral)
qed

lemma circshift_key_at:
  assumes "l < 8"
  shows "circshift_prepared_key (key_at key off) l = key_at key (off + l)"
proof (rule bit_word_eqI)
  fix n assume "n < LENGTH(64)"
  then have n: "n < 64" by simp
  have drop: "bit (drop_bit (l * 8) (key_at key off)) n \<longleftrightarrow> l * 8 + n < 64 \<and> bit (key_at key (off + l)) n"
  proof -
    have "(l * 8 + n) div 8 = l + n div 8" "(l * 8 + n) mod 8 = n mod 8" by simp_all
    then show ?thesis using n by (simp add: bit_drop_bit_eq bit_key_at add.assoc)
  qed
  have push: "bit (push_bit ((8 - l) * 8) (key_at key off)) n \<longleftrightarrow>
      (8 - l) * 8 \<le> n \<and> bit (key_at key (off + l)) n"
  proof (cases "(8 - l) * 8 \<le> n")
    case True
    then obtain m where m: "n = m + (8 - l) * 8" by (metis add.commute le_iff_add)
    have "n div 8 = m div 8 + (8 - l)" "n mod 8 = m mod 8" unfolding m by simp_all
    moreover have "(off + l + ((8 - l) + m div 8)) mod 4 = (off + m div 8) mod 4"
    proof -
      have "off + l + ((8 - l) + m div 8) = off + m div 8 + 2 * 4" using assms by simp
      then show ?thesis by (simp only: mod_mult_self1)
    qed
    ultimately show ?thesis using n m by (simp add: bit_push_bit_iff bit_key_at)
  qed (simp add: bit_push_bit_iff)
  have "l * 8 + n < 64 \<or> (8 - l) * 8 \<le> n" by auto
  then show "bit (circshift_prepared_key (key_at key off) l) n = bit (key_at key (off + l)) n"
    unfolding circshift_prepared_key_def Let_def bit_or_iff drop push by blast
qed

lemma prepare_masking_key_eq: "prepare_masking_key key = key_at (wr_le 4 key) 0"
proof (rule bit_word_eqI)
  fix n assume "n < LENGTH(64)"
  then have n: "n < 64" by simp
  have "n div 8 mod 4 < 4" by simp
  moreover have "8 * (n div 8 mod 4) + n mod 8 = n mod 32"
    using mod_mult2_eq [of n 8 4] by simp
  ultimately have "bit (key_at (wr_le 4 key) 0) n = bit key (n mod 32)"
    using n by (simp add: bit_key_at bit_wr_le)
  moreover have "bit (prepare_masking_key key) n = bit key (n mod 32)"
    using n bit_imp_le_length [of key n]
    by (cases "n < 32") (auto simp: prepare_masking_key_def bit_or_iff bit_push_bit_iff bit_ucast_iff le_mod_geq
        dest: bit_u32_bound)
  ultimately show "bit (prepare_masking_key key) n = bit (key_at (wr_le 4 key) 0) n" by simp
qed

lemma mask_one_word:
  assumes "length c = 8"
  shows "wr_le 8 (rd_le c XOR key_at key off) = mask_from key off c"
proof -
  have "wr_le 8 (rd_le c XOR key_at key off) = map2 (XOR) c (map (\<lambda>i. key ! ((off + i) mod 4)) [0..<8])"
    using assms by (simp add: wr_le_xor del: upt_rec_numeral)
  then show ?thesis
    using assms by (simp add: list_eq_iff_nth_eq del: upt_rec_numeral)
qed

lemma mask_words_eq:
  "mask_words xs (key_at key off) = mask_from key off (take (length xs div 8 * 8) xs)"
proof -
  let ?f = "\<lambda>i. wr_le 8 (rd_le (take 8 (drop (i * 8) xs)) XOR key_at key off)"
  have "concat (map ?f [0..<n]) = mask_from key off (take (n * 8) xs)" if "n * 8 \<le> length xs" for n
    using that
  proof (induction n)
    case (Suc n)
    have "?f n = mask_from key off (take 8 (drop (n * 8) xs))"
      using Suc.prems by (intro mask_one_word) simp
    also have "\<dots> = mask_from key ((off + n * 8) mod 4) (take 8 (drop (n * 8) xs))"
    proof -
      have "(off + n * 8) mod 4 = off mod 4" by presburger
      then show ?thesis by (simp only: mask_from_mod)
    qed
    finally have f: "?f n = mask_from key (off + n * 8) (take 8 (drop (n * 8) xs))" by simp
    have "take (Suc n * 8) xs = take (n * 8) xs @ take 8 (drop (n * 8) xs)"
      by (metis add.commute mult_Suc take_add)
    then show ?case
      using Suc f by (simp only: mask_from_append upt_Suc_append le0 map_append concat_append) simp
  qed simp
  then show ?thesis by (simp add: mask_words_def)
qed

lemma mask_tail_eq:
  assumes "d \<le> length xs" "(off' + d) mod 4 = off mod 4"
  shows "map (\<lambda>i. xs ! (d + i) XOR key ! ((off + i) mod 4)) [0..<length xs - d] = mask_from key (off' + d) (drop d xs)"
proof -
  have "(off + i) mod 4 = (off' + d + i) mod 4" for i
    using assms(2) by (metis mod_add_left_eq)
  then show ?thesis using assms(1) by (simp add: mask_from_def)
qed

lemma word_mask_circ_eq:
  "word_mask_circ xs (key_at key off) = (mask_from key off xs, key_at key (off + length xs))"
proof -
  define d where "d = length xs div 8 * 8"
  have d: "d \<le> length xs" "length xs - d < 8" "d mod 4 = 0"
    unfolding d_def by simp_all
  have "map (\<lambda>i. xs ! (d + i) XOR wr_le 8 (key_at key off) ! i) [0..<length xs - d] =
      map (\<lambda>i. xs ! (d + i) XOR key ! ((off + i) mod 4)) [0..<length xs - d]"
    using d(2) by (intro map_cong) (auto simp del: upt_rec_numeral)
  also have "\<dots> = mask_from key (off + d) (drop d xs)"
    using d(1,3) mod_add_right_eq [of off d 4] by (intro mask_tail_eq) simp_all
  finally have t: "map (\<lambda>i. xs ! (d + i) XOR wr_le 8 (key_at key off) ! i) [0..<length xs - d] =
      mask_from key (off + d) (drop d xs)" .
  have "mask_from key off xs = mask_from key off (take d xs) @ mask_from key (off + d) (drop d xs)"
    using mask_from_append [of key off "take d xs" "drop d xs"] d(1) by simp
  moreover have "circshift_prepared_key (key_at key off) (length xs - d) = key_at key (off + length xs)"
  proof -
    have "(off + (length xs - d)) mod 4 = (off + length xs) mod 4"
      using d(1,3) mod_add_right_eq [of "off + (length xs - d)" d 4] by simp
    then show ?thesis using circshift_key_at [OF d(2), of key off] by (metis key_at_mod)
  qed
  ultimately show ?thesis
    using t d(1) unfolding word_mask_circ_def Let_def mask_words_eq d_def [symmetric]
    by (simp only: diff_diff_cancel)
qed

lemma word_mask_exact_eq: "word_mask_exact xs key = mask_from (wr_le 4 key) 0 xs"
proof -
  define d where "d = length xs div 8 * 8"
  have d: "d \<le> length xs" "d mod 4 = 0"
    unfolding d_def by simp_all
  have "map (\<lambda>i. xs ! i XOR wr_le 4 key ! (i mod 4)) [d..<length xs] =
      mask_from (wr_le 4 key) (0 + d) (drop d xs)"
    using d(1) by (auto simp: list_eq_iff_nth_eq)
  then show ?thesis
    using mask_from_append [of "wr_le 4 key" 0 "take d xs" "drop d xs"] d(1)
    by (simp add: word_mask_exact_def Let_def prepare_masking_key_eq mask_words_eq flip: d_def)
qed

lemma byte_mask_circ_eq:
  "byte_mask_circ xs (key_at key off) = (mask_from key off xs, key_at key (off + length xs))"
proof -
  have c: "wr_le 4 (ucast (key_at key off) :: u32) = map (\<lambda>i. key ! ((off + i) mod 4)) [0..<4]"
  proof -
    have "wr_le 4 (ucast (key_at key off) :: u32) = take 4 (wr_le 8 (key_at key off))"
      by (simp add: wr_le_ucast take_wr_le del: wr_le_key_at)
    then show ?thesis by (simp add: take_map del: upt_rec_numeral)
  qed
  have "map (\<lambda>i. xs ! i XOR wr_le 4 (ucast (key_at key off) :: u32) ! (i mod 4)) [0..<length xs] =
      mask_from key off xs"
    unfolding c mask_from_def by (intro map_cong) (auto simp: mod_add_right_eq simp del: upt_rec_numeral)
  moreover have "circshift_prepared_key (key_at key off) (length xs mod 4) = key_at key (off + length xs)"
  proof -
    have "length xs mod 4 < 8" by (rule less_trans [of _ 4]) simp_all
    then show ?thesis
      using circshift_key_at [of "length xs mod 4" key off] by (metis key_at_mod mod_add_right_eq)
  qed
  ultimately show ?thesis by (simp add: byte_mask_circ_def Let_def)
qed

subsection \<open>Reading a header back\<close>

text \<open>The sizes and flags of a header that the constructors made.\<close>

lemma byte_eq_bits: "(x :: byte) = y \<longleftrightarrow>
    (bit x 0 = bit y 0) \<and> (bit x 1 = bit y 1) \<and> (bit x 2 = bit y 2) \<and> (bit x 3 = bit y 3) \<and>
    (bit x 4 = bit y 4) \<and> (bit x 5 = bit y 5) \<and> (bit x 6 = bit y 6) \<and> (bit x 7 = bit y 7)"
  (is "_ \<longleftrightarrow> ?bits")
proof
  assume ?bits
  show "x = y"
  proof (rule bit_word_eqI)
    fix n assume "n < LENGTH(8)"
    then have "n = 0 \<or> n = 1 \<or> n = 2 \<or> n = 3 \<or> n = 4 \<or> n = 5 \<or> n = 6 \<or> n = 7" by auto
    with \<open>?bits\<close> show "bit x n = bit y n" by auto
  qed
qed simp

lemma bhb_bits [simp]:
  "bit BHB0_OPCODE n \<longleftrightarrow> n < 4" "bit BHB0_RSV3 n \<longleftrightarrow> n = 4" "bit BHB0_RSV2 n \<longleftrightarrow> n = 5"
  "bit BHB0_RSV1 n \<longleftrightarrow> n = 6" "bit BHB0_FIN n \<longleftrightarrow> n = 7" "bit BHB1_PAYLOAD n \<longleftrightarrow> n < 7"
  "bit BHB1_MASK n \<longleftrightarrow> n = 7"
proof -
  have e: "BHB0_OPCODE = mask 4" "BHB0_RSV3 = 2 ^ 4" "BHB0_RSV2 = 2 ^ 5" "BHB0_RSV1 = 2 ^ 6" "BHB0_FIN = 2 ^ 7"
    "BHB1_PAYLOAD = mask 7" "BHB1_MASK = 2 ^ 7"
    by (simp_all add: bhb_defs mask_eq_exp_minus_1)
  show "bit BHB0_OPCODE n \<longleftrightarrow> n < 4" "bit BHB0_RSV3 n \<longleftrightarrow> n = 4" "bit BHB0_RSV2 n \<longleftrightarrow> n = 5"
    "bit BHB0_RSV1 n \<longleftrightarrow> n = 6" "bit BHB0_FIN n \<longleftrightarrow> n = 7" "bit BHB1_PAYLOAD n \<longleftrightarrow> n < 7"
    "bit BHB1_MASK n \<longleftrightarrow> n = 7"
    unfolding e bit_mask_iff bit_exp_iff by auto
qed

lemma get_flags_bit:
  "get_fin h \<longleftrightarrow> bit (b0 h) 7" "get_rsv1 h \<longleftrightarrow> bit (b0 h) 6" "get_rsv2 h \<longleftrightarrow> bit (b0 h) 5"
  "get_rsv3 h \<longleftrightarrow> bit (b0 h) 4" "get_masked h \<longleftrightarrow> bit (b1 h) 7"
  by (simp_all add: get_fin_def get_rsv1_def get_rsv2_def get_rsv3_def get_masked_def byte_eq_bits bit_and_iff)

lemma get_set_flags [simp]:
  "get_fin (set_fin v h) = v" "get_rsv1 (set_rsv1 v h) = v" "get_rsv2 (set_rsv2 v h) = v"
  "get_rsv3 (set_rsv3 v h) = v" "get_masked (set_masked v h) = v"
  by (simp_all add: get_flags_bit set_fin_def set_rsv1_def set_rsv2_def set_rsv3_def set_masked_def
      bit_or_iff bit_and_iff bit_not_iff)

lemma basic_value_bit7: "\<not> bit (basic_value sz) 7"
proof -
  have "\<not> bit (ucast sz :: byte) 7" if "sz \<le> 125"
  proof
    assume "bit (ucast sz :: byte) 7"
    then have "bit sz 7" by (simp add: bit_ucast_iff)
    moreover have "unat sz < 2 ^ 7" using that by (simp add: word_le_nat_alt)
    then have "take_bit 7 sz = sz"
      by (simp only: word_unat_eq_iff unsigned_take_bit_eq take_bit_nat_eq_self)
    ultimately show False by (metis bit_take_bit_iff less_irrefl)
  qed
  then show ?thesis by (simp add: basic_value_def size_defs)
qed

lemma flags_make_basic_header [simp]:
  "get_fin (make_basic_header op sz fin msk r1 r2 r3) = fin"
  "get_rsv1 (make_basic_header op sz fin msk r1 r2 r3) = r1"
  "get_rsv2 (make_basic_header op sz fin msk r1 r2 r3) = r2"
  "get_rsv3 (make_basic_header op sz fin msk r1 r2 r3) = r3"
  "get_masked (make_basic_header op sz fin msk r1 r2 r3) = msk"
  by (simp_all add: get_flags_bit make_basic_header_def bit_or_iff bit_and_iff basic_value_bit7)

lemma get_opcode_make_basic_header [simp]:
  "get_opcode (make_basic_header op sz fin msk r1 r2 r3) = op mod 16"
proof -
  have "b0 (make_basic_header op sz fin msk r1 r2 r3) AND BHB0_OPCODE = word_of_int (take_bit 4 op)"
    by (rule bit_word_eqI) (auto simp: make_basic_header_def bit_or_iff bit_and_iff bit_word_of_int_iff bit_take_bit_iff)
  moreover have "uint (word_of_int (take_bit 4 op) :: byte) = take_bit 4 op"
    by (simp add: unsigned_of_int)
  ultimately show ?thesis by (simp add: get_opcode_def take_bit_eq_mod)
qed

lemma get_basic_size_make_basic_header [simp]:
  "get_basic_size (make_basic_header op sz fin msk r1 r2 r3) = basic_value sz"
proof (rule bit_word_eqI)
  fix n assume "n < LENGTH(8)"
  then have "n < 7 \<or> n = 7" by auto
  then show "bit (get_basic_size (make_basic_header op sz fin msk r1 r2 r3)) n = bit (basic_value sz) n"
    using basic_value_bit7 by (auto simp: get_basic_size_def make_basic_header_def bit_or_iff bit_and_iff)
qed

text \<open>The three ways to write a payload size.\<close>

lemma basic_value_cases:
  obtains (short) "unat sz \<le> 125" "basic_value sz = ucast sz"
  | (extended) "125 < unat sz" "unat sz \<le> 0xFFFF" "basic_value sz = 126"
  | (jumbo) "0xFFFF < unat sz" "basic_value sz = 127"
proof -
  have v: "basic_value sz = (if unat sz \<le> 125 then ucast sz else if unat sz \<le> 0xFFFF then 126 else 127)"
    by (simp add: basic_value_def size_defs word_le_nat_alt)
  show thesis
    by (cases "unat sz \<le> 125"; cases "unat sz \<le> 0xFFFF") (use v in \<open>auto intro: that\<close>)
qed

lemma ucast_short: "unat (sz :: u64) \<le> 125 \<Longrightarrow> unat (ucast sz :: byte) = unat sz"
  by (simp add: unsigned_ucast_eq take_bit_nat_eq_self)

definition size_field :: "u64 \<Rightarrow> byte list" where
  "size_field sz =
     (if unat sz \<le> 125 then [] else if unat sz \<le> 0xFFFF then rev (wr_le 2 sz) else rev (wr_le 8 sz))"

lemma length_size_field [simp]:
  "length (size_field sz) = (if unat sz \<le> 125 then 0 else if unat sz \<le> 0xFFFF then 2 else 8)"
  by (simp add: size_field_def)

lemma copy_payload_eq:
  "copy_payload sz bytes = (store_at 0 (size_field sz) bytes, length (size_field sz))"
proof -
  have "drop 6 (rev (wr_le 8 sz)) = rev (wr_le 2 sz)" by (simp add: drop_rev take_wr_le)
  then show ?thesis
    by (simp add: copy_payload_def size_field_def size_defs word_le_nat_alt)
qed

lemma extended_header_size_eq:
  "extended_header_size sz = size_field sz @ replicate (12 - length (size_field sz)) 0"
  by (simp add: extended_header_size_def copy_payload_eq store_at_def empty_extended_header_def
      MAX_EXTENDED_HEADER_LENGTH_def del: length_size_field)

lemma extended_header_key_eq:
  "extended_header_key sz key = size_field sz @ wr_le 4 key @ replicate (8 - length (size_field sz)) 0"
proof -
  have "length (size_field sz) \<le> 8" by simp
  then show ?thesis
    by (simp add: extended_header_key_def copy_payload_eq store_at_def empty_extended_header_def
        MAX_EXTENDED_HEADER_LENGTH_def del: length_size_field)
qed

lemma get_masking_key_offset_make [simp]:
  "get_masking_key_offset (make_basic_header op sz fin msk r1 r2 r3) = length (size_field sz)"
proof (cases sz rule: basic_value_cases)
  case short
  then have "unat (basic_value sz) \<le> 125" using ucast_short by simp
  then have "basic_value sz \<noteq> 126" "basic_value sz \<noteq> 127" by auto
  then show ?thesis using short by (simp add: get_masking_key_offset_def size_defs)
qed (simp_all add: get_masking_key_offset_def size_defs)

lemma get_header_len_make [simp]:
  "get_header_len (make_basic_header op sz fin msk r1 r2 r3) =
     2 + length (size_field sz) + (if msk then 4 else 0)"
  by (simp add: get_header_len_def BASIC_HEADER_LENGTH_def del: length_size_field)

lemma get_payload_size_make:
  "get_payload_size (make_basic_header op sz fin msk r1 r2 r3) (size_field sz @ rest) = sz"
proof (cases sz rule: basic_value_cases)
  case short
  then have "basic_value sz \<le> 125" using ucast_short by (simp add: word_le_nat_alt)
  moreover have "ucast (basic_value sz) = sz"
    using ucast_short [OF short(1)] short by (simp add: word_unat_eq_iff unsigned_ucast_eq take_bit_nat_eq_self)
  ultimately show ?thesis by (simp add: get_payload_size_def size_defs)
next
  case extended
  then have sf: "size_field sz = rev (wr_le 2 sz)" by (simp add: size_field_def)
  have w: "wr_le 2 (ucast sz :: 16 word) = wr_le 2 sz" by (simp add: wr_le_ucast)
  then have "get_extended_size (size_field sz @ rest) = ntohs (htons (ucast sz))"
    by (simp add: get_extended_size_def sf htons_def w)
  moreover have "ucast (ucast sz :: 16 word) = sz"
    using extended(2) by (simp add: word_unat_eq_iff unsigned_ucast_eq unsigned_take_bit_eq take_bit_nat_eq_self)
  ultimately show ?thesis using extended(3) by (simp add: get_payload_size_def Let_def size_defs)
next
  case jumbo
  then have sf: "size_field sz = rev (wr_le 8 sz)" by (simp add: size_field_def)
  have "get_jumbo_size (size_field sz @ rest) = sz"
    by (simp add: get_jumbo_size_def sf flip: htonll_rev)
  then show ?thesis using jumbo(2) by (simp add: get_payload_size_def Let_def size_defs)
qed

lemma get_masking_key_make:
  "get_masking_key (make_basic_header op sz fin msk r1 r2 r3) (size_field sz @ wr_le 4 key @ rest) =
     (if msk then key else 0)"
  by (simp add: get_masking_key_def del: length_size_field)

text \<open>The bytes of a prepared header, with and without a masking key.\<close>

lemma prepare_header_size:
  "prepare_header (make_basic_header op sz fin False r1 r2 r3) (extended_header_size sz) =
     b0 (make_basic_header op sz fin False r1 r2 r3) # b1 (make_basic_header op sz fin False r1 r2 r3) # size_field sz"
  by (simp add: prepare_header_def BASIC_HEADER_LENGTH_def extended_header_size_eq del: length_size_field)

lemma prepare_header_key:
  "prepare_header (make_basic_header op sz fin True r1 r2 r3) (extended_header_key sz key) =
     b0 (make_basic_header op sz fin True r1 r2 r3) # b1 (make_basic_header op sz fin True r1 r2 r3) #
     size_field sz @ wr_le 4 key"
  by (simp add: prepare_header_def BASIC_HEADER_LENGTH_def extended_header_key_eq del: length_size_field)

subsection \<open>Properties\<close>

text \<open>
  Every field of a frame header can be read back from the header that the constructors make: the
  opcode modulo 16, the flags, the payload size of 64 bits and the masking key; the prepared header is
  as long as \<open>get_header_len\<close> says, and its size field is the shortest of the three forms.
\<close>
theorem frame_header_reads_back:
  "let h = make_basic_header op sz fin msk r1 r2 r3;
       e = (if msk then extended_header_key sz key else extended_header_size sz)
   in get_opcode h = op mod 16 \<and> get_fin h = fin \<and> get_masked h = msk \<and>
      get_rsv1 h = r1 \<and> get_rsv2 h = r2 \<and> get_rsv3 h = r3 \<and>
      get_payload_size h e = sz \<and> get_masking_key h e = (if msk then key else 0) \<and>
      length (prepare_header h e) = get_header_len h \<and>
      get_header_len h =
        (if unat sz \<le> 125 then 2 else if unat sz \<le> 65535 then 4 else 10) + (if msk then 4 else 0)"
proof -
  define h where "h = make_basic_header op sz fin msk r1 r2 r3"
  define e where "e = (if msk then extended_header_key sz key else extended_header_size sz)"
  have "get_payload_size h e = sz"
    by (simp add: h_def e_def extended_header_size_eq extended_header_key_eq get_payload_size_make
        del: length_size_field)
  moreover have "get_masking_key h e = (if msk then key else 0)"
    using get_masking_key_make by (cases msk)
      (simp_all add: h_def e_def extended_header_key_eq get_masking_key_def del: length_size_field)
  moreover have "length (prepare_header h e) = get_header_len h"
    by (cases msk) (simp_all add: h_def e_def prepare_header_key prepare_header_size)
  ultimately show ?thesis unfolding h_def e_def Let_def by simp
qed

text \<open>
  C24: The four masking routines compute the same mask: word by word or byte by byte, and for the circular
  ones from any position \<open>off\<close> of the stream with the key prepared for it, returning the key for the position
  behind the data.  Masking twice gives the data back, and a stream may be masked in pieces.
\<close>
theorem masking_routines_agree:
  "word_mask_exact xs key = byte_mask xs key 0 \<and>
   prepare_masking_key key = key_at (wr_le 4 key) 0 \<and>
   word_mask_circ xs (key_at (wr_le 4 key) off) = (byte_mask xs key off, key_at (wr_le 4 key) (off + length xs)) \<and>
   byte_mask_circ xs (key_at (wr_le 4 key) off) = (byte_mask xs key off, key_at (wr_le 4 key) (off + length xs)) \<and>
   byte_mask (byte_mask xs key off) key off = xs \<and>
   byte_mask (xs @ ys) key off = byte_mask xs key off @ byte_mask ys key (off + length xs)"
  by (simp add: word_mask_exact_eq byte_mask_eq word_mask_circ_eq byte_mask_circ_eq
      prepare_masking_key_eq mask_from_append)

end
