(* ===== verification/Ws_Hybi13.thy ===== *)
theory Ws_Hybi13
  imports Ws_Error Ws_Frame
begin

section \<open>websocketpp: the frame processor\<close>

text \<open>
  \<open>processors/hybi13.hpp\<close>, the processor of RFC 6455, with the message buffer of
  \<open>message_buffer/message.hpp\<close> and the disabled compression extension of the configuration the
  program uses.  A payload is the list of its bytes.  \<open>m_bytes_needed\<close> is a \<open>size_t\<close> and keeps its 64
  bits, as the size checks add to it.  A pointer to a message is an option; where the code follows a
  null pointer the model gives the outcome \<open>Undefined Null_pointer\<close>, which \<open>hybi13_inv\<close> rules out.
  A function that works on a buffer gets the list of the bytes it may use and returns how many it used.
\<close>

subsection \<open>Messages\<close>

record ws_msg =
  m_header :: "byte list"
  m_payload :: "byte list"
  m_opcode :: opval
  m_prepared :: bool
  m_fin :: bool
  m_terminal :: bool
  m_compressed :: bool

definition new_message :: "opval \<Rightarrow> ws_msg" where
  "new_message op =
     \<lparr>m_header = [], m_payload = [], m_opcode = op, m_prepared = False, m_fin = True,
      m_terminal = False, m_compressed = False\<rparr>"

text \<open>The constructor without an opcode leaves it indeterminate; it is set before it is read.\<close>

definition blank_message :: ws_msg where
  "blank_message = new_message op_continuation"

definition append_payload :: "byte list \<Rightarrow> ws_msg \<Rightarrow> ws_msg" where
  "append_payload payload m = m\<lparr>m_payload := m_payload m @ payload\<rparr>"

subsection \<open>The disabled compression extension\<close>

definition pmd_is_implemented :: bool where "pmd_is_implemented \<longleftrightarrow> False"
definition pmd_is_enabled :: bool where "pmd_is_enabled \<longleftrightarrow> False"

definition pmd_compress :: "byte list \<Rightarrow> byte list \<Rightarrow> byte list \<times> ws_ec" where
  "pmd_compress inp out = (out, Some (Extension Ext_disabled))"

definition pmd_decompress :: "byte list \<Rightarrow> byte list \<Rightarrow> byte list \<times> ws_ec" where
  "pmd_decompress buf out = (out, Some (Extension Ext_disabled))"

subsection \<open>The state of the processor\<close>

datatype proc_state = HEADER_BASIC | HEADER_EXTENDED | EXTENSION | APPLICATION | READY | FATAL_ERROR

record msg_metadata =
  msg_ptr :: "ws_msg option"
  prepared_key :: u64
  msg_validator :: validator

text \<open>What \<open>m_current_msg\<close> points to.\<close>

datatype msg_slot = Data_msg | Control_msg

record hybi13 =
  m_server :: bool
  m_max_message_size :: u64
  m_basic_header :: basic_header
  m_extended_header :: "byte list"
  m_bytes_needed :: u64
  m_cursor :: nat
  m_data_msg :: msg_metadata
  m_control_msg :: msg_metadata
  m_current_msg :: "msg_slot option"
  hstate :: proc_state

definition empty_metadata :: msg_metadata where
  "empty_metadata = \<lparr>msg_ptr = None, prepared_key = 0, msg_validator = new_validator\<rparr>"

definition make_metadata :: "ws_msg \<Rightarrow> u32 \<Rightarrow> msg_metadata" where
  "make_metadata m key =
     \<lparr>msg_ptr = Some m, prepared_key = prepare_masking_key key, msg_validator = new_validator\<rparr>"

definition reset_headers :: "hybi13 \<Rightarrow> hybi13" where
  "reset_headers h = h\<lparr>hstate := HEADER_BASIC, m_bytes_needed := 2,
     m_basic_header := \<lparr>b0 = 0x00, b1 = 0x00\<rparr>, m_extended_header := empty_extended_header\<rparr>"

text \<open>A new processor; \<open>m_cursor\<close> and \<open>m_current_msg\<close> are indeterminate until a header is complete.\<close>

definition new_hybi13 :: "bool \<Rightarrow> u64 \<Rightarrow> hybi13" where
  "new_hybi13 server max_size = reset_headers
     \<lparr>m_server = server, m_max_message_size = max_size, m_basic_header = \<lparr>b0 = 0, b1 = 0\<rparr>,
      m_extended_header = empty_extended_header, m_bytes_needed = 0, m_cursor = 0,
      m_data_msg = empty_metadata, m_control_msg = empty_metadata, m_current_msg = None,
      hstate = HEADER_BASIC\<rparr>"

definition current_msg :: "hybi13 \<Rightarrow> msg_metadata option" where
  "current_msg h = (case m_current_msg h of None \<Rightarrow> None
     | Some Data_msg \<Rightarrow> Some (m_data_msg h) | Some Control_msg \<Rightarrow> Some (m_control_msg h))"

definition set_current_msg :: "msg_metadata \<Rightarrow> hybi13 \<Rightarrow> hybi13" where
  "set_current_msg md h = (case m_current_msg h of None \<Rightarrow> h
     | Some Data_msg \<Rightarrow> h\<lparr>m_data_msg := md\<rparr> | Some Control_msg \<Rightarrow> h\<lparr>m_control_msg := md\<rparr>)"

subsection \<open>Reading the parts of a frame\<close>

definition copy_basic_header_bytes :: "hybi13 \<Rightarrow> byte list \<Rightarrow> hybi13 \<times> nat" where
  "copy_basic_header_bytes h buf =
     (let bh = m_basic_header h; needed = m_bytes_needed h in
      if length buf = 0 \<or> needed = 0 then (h, 0)
      else if length buf > 1 then
        (if needed = 2 then (h\<lparr>m_basic_header := \<lparr>b0 = buf ! 0, b1 = buf ! 1\<rparr>, m_bytes_needed := needed - 2\<rparr>, 2)
         else (h\<lparr>m_basic_header := bh\<lparr>b1 := buf ! 0\<rparr>, m_bytes_needed := needed - 1\<rparr>, 1))
      else
        (if needed = 2 then (h\<lparr>m_basic_header := bh\<lparr>b0 := buf ! 0\<rparr>, m_bytes_needed := needed - 1\<rparr>, 1)
         else (h\<lparr>m_basic_header := bh\<lparr>b1 := buf ! 0\<rparr>, m_bytes_needed := needed - 1\<rparr>, 1)))"

definition copy_extended_header_bytes :: "hybi13 \<Rightarrow> byte list \<Rightarrow> hybi13 \<times> nat" where
  "copy_extended_header_bytes h buf =
     (let bytes_to_read = min (unat (m_bytes_needed h)) (length buf) in
      (h\<lparr>m_extended_header := store_at (m_cursor h) (take bytes_to_read buf) (m_extended_header h),
         m_cursor := m_cursor h + bytes_to_read,
         m_bytes_needed := m_bytes_needed h - word_of_nat bytes_to_read\<rparr>, bytes_to_read))"

definition process_payload_bytes :: "hybi13 \<Rightarrow> byte list \<Rightarrow> hybi13 \<times> nat \<times> ws_ec" where
  "process_payload_bytes h buf =
     (case current_msg h of
        None \<Rightarrow> (h, 0, Some (Undefined Null_pointer))
      | Some md \<Rightarrow>
        let (buf', key) = (if get_masked (m_basic_header h) then byte_mask_circ buf (prepared_key md)
                           else (buf, prepared_key md));
            md1 = md\<lparr>prepared_key := key\<rparr>
        in case msg_ptr md1 of
             None \<Rightarrow> (set_current_msg md1 h, 0, Some (Undefined Null_pointer))
           | Some m \<Rightarrow>
             let offset = length (m_payload m);
                 (out, ec) = (if pmd_is_enabled \<and> m_compressed m then pmd_decompress buf' (m_payload m)
                              else (m_payload m @ buf', None));
                 md2 = md1\<lparr>msg_ptr := Some (m\<lparr>m_payload := out\<rparr>)\<rparr>
             in if ec \<noteq> None then (set_current_msg md2 h, 0, ec)
                else if m_opcode m = op_text then
                  (let (v, ok) = validator_decode (drop offset out) (msg_validator md2);
                       md3 = md2\<lparr>msg_validator := v\<rparr>
                   in if \<not> ok then (set_current_msg md3 h, 0, Some (Processor Proc_invalid_utf8))
                      else ((set_current_msg md3 h)\<lparr>m_bytes_needed := m_bytes_needed h - word_of_nat (length buf)\<rparr>,
                            length buf, None))
                else ((set_current_msg md2 h)\<lparr>m_bytes_needed := m_bytes_needed h - word_of_nat (length buf)\<rparr>,
                      length buf, None))"

definition validate_incoming_basic_header :: "basic_header \<Rightarrow> bool \<Rightarrow> bool \<Rightarrow> ws_ec" where
  "validate_incoming_basic_header h is_server new_msg =
     (let op = get_opcode h in
      if is_control op \<and> get_basic_size h > payload_size_basic then Some (Processor Proc_control_too_big)
      else if get_rsv1 h \<and> (\<not> pmd_is_enabled \<or> is_control op) then Some (Processor Proc_invalid_rsv_bit)
      else if get_rsv2 h \<or> get_rsv3 h then Some (Processor Proc_invalid_rsv_bit)
      else if op_reserved op then Some (Processor Proc_invalid_opcode)
      else if op_invalid op then Some (Processor Proc_invalid_opcode)
      else if is_control op \<and> \<not> get_fin h then Some (Processor Proc_fragmented_control)
      else if new_msg \<and> op = op_continuation then Some (Processor Proc_invalid_continuation)
      else if \<not> new_msg \<and> \<not> is_control op \<and> op \<noteq> op_continuation then Some (Processor Proc_invalid_continuation)
      else if is_server \<and> \<not> get_masked h then Some (Processor Proc_masking_required)
      else if \<not> is_server \<and> get_masked h then Some (Processor Proc_masking_forbidden)
      else None)"

definition validate_incoming_extended_header :: "basic_header \<Rightarrow> byte list \<Rightarrow> ws_ec" where
  "validate_incoming_extended_header h e =
     (let basic_size = get_basic_size h; payload_size = get_payload_size h e in
      if basic_size = payload_size_code_16bit \<and> payload_size \<le> ucast payload_size_basic
      then Some (Processor Proc_non_minimal_encoding)
      else if basic_size = payload_size_code_64bit \<and> payload_size \<le> ucast payload_size_extended
      then Some (Processor Proc_non_minimal_encoding)
      else None)"

text \<open>\<open>finalize_message\<close>; the error leaves the state as it is.\<close>

definition finalize_message :: "hybi13 \<Rightarrow> hybi13 \<times> ws_ec" where
  "finalize_message h =
     (case current_msg h of
        None \<Rightarrow> (h, Some (Undefined Null_pointer))
      | Some md \<Rightarrow>
        (case msg_ptr md of
           None \<Rightarrow> (h, Some (Undefined Null_pointer))
         | Some m \<Rightarrow>
           let (out, ec) = (if pmd_is_enabled \<and> m_compressed m then pmd_decompress [0x00, 0x00, 0xff, 0xff] (m_payload m)
                            else (m_payload m, None));
               h1 = set_current_msg (md\<lparr>msg_ptr := Some (m\<lparr>m_payload := out\<rparr>)\<rparr>) h
           in if ec \<noteq> None then (h1, ec)
              else if get_opcode (m_basic_header h) = op_text \<and> \<not> validator_complete (msg_validator md)
              then (h1, Some (Processor Proc_invalid_utf8))
              else (h1\<lparr>hstate := READY\<rparr>, None)))"

subsection \<open>consume\<close>

text \<open>The bodies of the loop, one per state.\<close>

definition consume_basic :: "hybi13 \<Rightarrow> byte list \<Rightarrow> hybi13 \<times> nat \<times> ws_ec" where
  "consume_basic h buf =
     (let (h1, n) = copy_basic_header_bytes h buf in
      if m_bytes_needed h1 > 0 then (h1, n, None)
      else case validate_incoming_basic_header (m_basic_header h1) (m_server h1) (msg_ptr (m_data_msg h1) = None) of
          Some e \<Rightarrow> (h1, n, Some e)
        | None \<Rightarrow> (h1\<lparr>hstate := HEADER_EXTENDED, m_cursor := 0,
             m_bytes_needed := word_of_nat (get_header_len (m_basic_header h1) - BASIC_HEADER_LENGTH)\<rparr>, n, None))"

definition start_frame :: "hybi13 \<Rightarrow> hybi13 \<times> ws_ec" where
  "start_frame h =
     (let op = get_opcode (m_basic_header h);
          key = get_masking_key (m_basic_header h) (m_extended_header h) in
      if is_control op then
        (h\<lparr>m_control_msg := make_metadata (new_message op) key, m_current_msg := Some Control_msg\<rparr>, None)
      else case msg_ptr (m_data_msg h) of
          None \<Rightarrow>
            if m_bytes_needed h > m_max_message_size h then (h, Some (Processor Proc_message_too_big))
            else (let m = new_message op;
                      m' = (if pmd_is_enabled then m\<lparr>m_compressed := get_rsv1 (m_basic_header h)\<rparr> else m)
                  in (h\<lparr>m_data_msg := make_metadata m' key, m_current_msg := Some Data_msg\<rparr>, None))
        | Some m \<Rightarrow>
            if word_of_nat (length (m_payload m)) + m_bytes_needed h > m_max_message_size h
            then (h, Some (Processor Proc_message_too_big))
            else (h\<lparr>m_data_msg := (m_data_msg h)\<lparr>prepared_key := prepare_masking_key key\<rparr>,
                    m_current_msg := Some Data_msg\<rparr>, None))"

definition consume_extended :: "hybi13 \<Rightarrow> byte list \<Rightarrow> hybi13 \<times> nat \<times> ws_ec" where
  "consume_extended h buf =
     (let (h1, n) = copy_extended_header_bytes h buf in
      if m_bytes_needed h1 > 0 then (h1, n, None)
      else case validate_incoming_extended_header (m_basic_header h1) (m_extended_header h1) of
          Some e \<Rightarrow> (h1, n, Some e)
        | None \<Rightarrow>
          (let (h2, ec) = start_frame (h1\<lparr>hstate := APPLICATION,
                 m_bytes_needed := get_payload_size (m_basic_header h1) (m_extended_header h1)\<rparr>)
           in (h2, n, ec)))"

definition end_of_frame :: "hybi13 \<Rightarrow> hybi13 \<times> ws_ec" where
  "end_of_frame h =
     (if get_fin (m_basic_header h) then finalize_message h else (reset_headers h, None))"

definition consume_application :: "hybi13 \<Rightarrow> byte list \<Rightarrow> hybi13 \<times> nat \<times> ws_ec" where
  "consume_application h buf =
     (let bytes_to_process = min (unat (m_bytes_needed h)) (length buf);
          (h1, n, ec) = (if bytes_to_process > 0 then process_payload_bytes h (take bytes_to_process buf)
                         else (h, 0, None))
      in if ec \<noteq> None then (h1, n, ec)
         else if m_bytes_needed h1 > 0 then (h1, n, None)
         else let (h2, ec2) = end_of_frame h1 in (h2, n, ec2))"

definition consume_step :: "hybi13 \<Rightarrow> byte list \<Rightarrow> hybi13 \<times> nat \<times> ws_ec" where
  "consume_step h buf =
     (case hstate h of
        HEADER_BASIC \<Rightarrow> consume_basic h buf
      | HEADER_EXTENDED \<Rightarrow> consume_extended h buf
      | EXTENSION \<Rightarrow> (h\<lparr>hstate := APPLICATION\<rparr>, 0, None)
      | APPLICATION \<Rightarrow> consume_application h buf
      | _ \<Rightarrow> (h, 0, Some (Processor Proc_general)))"

text \<open>The condition of the loop.\<close>

definition consuming :: "hybi13 \<Rightarrow> byte list \<Rightarrow> bool" where
  "consuming h buf \<longleftrightarrow> hstate h \<noteq> READY \<and> hstate h \<noteq> FATAL_ERROR \<and> (buf \<noteq> [] \<or> m_bytes_needed h = 0)"

text \<open>A round uses bytes of the buffer or comes closer to the end of the frame.\<close>

definition rank :: "hybi13 \<Rightarrow> nat" where
  "rank h = (case hstate h of HEADER_BASIC \<Rightarrow> if m_bytes_needed h = 0 then 5 else 0
     | HEADER_EXTENDED \<Rightarrow> 4 | EXTENSION \<Rightarrow> 3 | APPLICATION \<Rightarrow> 2 | READY \<Rightarrow> 1 | FATAL_ERROR \<Rightarrow> 0)"

lemma set_current_msg_simps [simp]:
  "hstate (set_current_msg md h) = hstate h" "m_bytes_needed (set_current_msg md h) = m_bytes_needed h"
  "m_basic_header (set_current_msg md h) = m_basic_header h" "m_server (set_current_msg md h) = m_server h"
  "m_max_message_size (set_current_msg md h) = m_max_message_size h"
  "m_extended_header (set_current_msg md h) = m_extended_header h" "m_cursor (set_current_msg md h) = m_cursor h"
  "m_current_msg (set_current_msg md h) = m_current_msg h"
  by (simp_all add: set_current_msg_def split: option.splits msg_slot.splits)

lemma copy_basic_used:
  "copy_basic_header_bytes h buf = (h1, n) \<Longrightarrow>
     n \<le> length buf \<and> (buf \<noteq> [] \<longrightarrow> m_bytes_needed h \<noteq> 0 \<longrightarrow> 0 < n) \<and> hstate h1 = hstate h \<and>
     (m_bytes_needed h = 0 \<longrightarrow> h1 = h)"
  by (cases buf; cases "tl buf") (auto simp: copy_basic_header_bytes_def Let_def split: if_splits)

lemma unat_minus_of_nat:
  assumes "k \<le> unat (w :: u64)"
  shows "unat (w - word_of_nat k) = unat w - k"
proof -
  have "unat w < 2 ^ 64" using unsigned_less [of w, where 'a = nat] by simp
  then have "unat (word_of_nat k :: u64) = k"
    using assms by (simp add: unsigned_of_nat take_bit_nat_eq_self)
  then show ?thesis using assms unat_sub [of "word_of_nat k" w] by (simp add: word_le_nat_alt)
qed

lemma copy_extended_used:
  "copy_extended_header_bytes h buf = (h1, n) \<Longrightarrow>
     n = min (unat (m_bytes_needed h)) (length buf) \<and> hstate h1 = hstate h \<and>
     unat (m_bytes_needed h1) = unat (m_bytes_needed h) - n"
  by (auto simp: copy_extended_header_bytes_def Let_def unat_minus_of_nat)

lemma process_payload_used:
  assumes "process_payload_bytes h buf = (h1, n, None)" "length buf \<le> unat (m_bytes_needed h)"
  shows "n = length buf \<and> hstate h1 = hstate h \<and>
    unat (m_bytes_needed h1) = unat (m_bytes_needed h) - length buf"
  using assms
  by (auto simp: process_payload_bytes_def Let_def unat_minus_of_nat split: option.splits if_splits prod.splits)

lemma u64_gt_0 [simp]: "(0 :: u64) < w \<longleftrightarrow> w \<noteq> 0"
  by (simp add: word_neq_0_conv)

lemma end_of_frame_rank:
  "end_of_frame h = (h1, None) \<Longrightarrow> rank h1 \<le> 1"
  by (auto simp: end_of_frame_def finalize_message_def reset_headers_def rank_def Let_def
      split: if_splits option.splits prod.splits)

lemma start_frame_state: "start_frame h = (h1, ec) \<Longrightarrow> hstate h1 = hstate h"
  by (auto simp: start_frame_def Let_def split: if_splits option.splits)

lemma consume_step_progress:
  assumes "consuming h buf" "consume_step h buf = (h1, n, None)"
  shows "n \<le> length buf \<and> (0 < n \<or> rank h1 < rank h)"
proof (cases "hstate h")
  case HEADER_BASIC
  obtain h2 k where c: "copy_basic_header_bytes h buf = (h2, k)" by (cases "copy_basic_header_bytes h buf")
  note u = copy_basic_used [OF c]
  have "k = n" "rank h1 = 4 \<or> 0 < m_bytes_needed h2"
    using assms(2) HEADER_BASIC c by (auto simp: consume_step_def consume_basic_def rank_def split: if_splits option.splits)
  moreover have "rank h = 5" if "m_bytes_needed h = 0" using HEADER_BASIC that by (simp add: rank_def)
  ultimately show ?thesis using u assms(1) by (cases "m_bytes_needed h = 0") (auto simp: consuming_def)
next
  case HEADER_EXTENDED
  obtain h2 k where c: "copy_extended_header_bytes h buf = (h2, k)" by (cases "copy_extended_header_bytes h buf")
  note u = copy_extended_used [OF c]
  have "k = n" "rank h1 = 2 \<or> 0 < m_bytes_needed h2"
    using assms(2) HEADER_EXTENDED c
    by (auto simp: consume_step_def consume_extended_def rank_def split: if_splits option.splits prod.splits
        dest!: start_frame_state)
  moreover have "rank h = 4" using HEADER_EXTENDED by (simp add: rank_def)
  moreover have "m_bytes_needed h2 = 0" if "m_bytes_needed h = 0" using u that by (simp flip: unat_eq_0)
  ultimately show ?thesis using u assms(1)
    by (cases "m_bytes_needed h = 0") (auto simp: consuming_def min_def unat_eq_0)
next
  case APPLICATION
  show ?thesis
  proof (cases "0 < min (unat (m_bytes_needed h)) (length buf)")
    case True
    define k where "k = min (unat (m_bytes_needed h)) (length buf)"
    have k: "0 < k" "k \<le> length buf" "k \<le> unat (m_bytes_needed h)" using True by (simp_all add: k_def)
    obtain h2 n2 ec2 where p: "process_payload_bytes h (take k buf) = (h2, n2, ec2)"
      by (metis prod_cases3)
    have "ec2 = None" "n = n2"
      using assms(2) APPLICATION k(1) p unfolding consume_step_def consume_application_def k_def [symmetric] Let_def
      by (auto split: if_splits prod.splits)
    then show ?thesis using process_payload_used [of h "take k buf" h2 n2] p k by simp
  next
    case False
    then have "m_bytes_needed h = 0" using assms(1) by (auto simp: consuming_def simp flip: unat_eq_0)
    moreover have "rank h = 2" using APPLICATION by (simp add: rank_def)
    ultimately show ?thesis using assms(2) APPLICATION False end_of_frame_rank [of h h1]
      by (auto simp: consume_step_def consume_application_def Let_def split: prod.splits)
  qed
qed (use assms in \<open>auto simp: consume_step_def consuming_def rank_def\<close>)

text \<open>\<open>consume\<close>; the counter \<open>p\<close> is the number of bytes processed so far.\<close>

function consume_loop :: "hybi13 \<Rightarrow> byte list \<Rightarrow> nat \<Rightarrow> hybi13 \<times> nat \<times> ws_ec" where
  "consume_loop h buf p =
     (if consuming h buf then
        (case consume_step h buf of
           (h1, n, Some e) \<Rightarrow> (h1, p + n, Some e)
         | (h1, n, None) \<Rightarrow> consume_loop h1 (drop n buf) (p + n))
      else (h, p, None))"
  by pat_completeness auto
termination
  by (relation "measures [\<lambda>(h, buf, p). length buf, \<lambda>(h, buf, p). rank h]")
    (auto dest!: consume_step_progress [OF _ sym])

declare consume_loop.simps [simp del]

definition consume :: "hybi13 \<Rightarrow> byte list \<Rightarrow> hybi13 \<times> nat \<times> ws_ec" where
  "consume h buf = consume_loop h buf 0"

definition ready :: "hybi13 \<Rightarrow> bool" where
  "ready h \<longleftrightarrow> hstate h = READY"

definition get_error :: "hybi13 \<Rightarrow> bool" where
  "get_error h \<longleftrightarrow> hstate h = FATAL_ERROR"

text \<open>A null \<open>m_current_msg->msg_ptr\<close> would be followed here; \<open>hybi13_inv\<close> rules it out.\<close>

definition get_message :: "hybi13 \<Rightarrow> hybi13 \<times> ws_msg option" where
  "get_message h =
     (if \<not> ready h then (h, None)
      else let ret = Option.bind (current_msg h) msg_ptr;
               h1 = (case current_msg h of None \<Rightarrow> h | Some md \<Rightarrow> set_current_msg (md\<lparr>msg_ptr := None\<rparr>) h);
               h2 = (case ret of None \<Rightarrow> h1
                 | Some m \<Rightarrow> if is_control (m_opcode m) then h1\<lparr>m_control_msg := (m_control_msg h1)\<lparr>msg_ptr := None\<rparr>\<rparr>
                     else h1\<lparr>m_data_msg := (m_data_msg h1)\<lparr>msg_ptr := None\<rparr>\<rparr>)
           in (reset_headers h2, ret))"

subsection \<open>Preparing frames\<close>

definition masked_copy :: "byte list \<Rightarrow> u32 \<Rightarrow> byte list" where
  "masked_copy i key = byte_mask i key 0"

text \<open>\<open>draw\<close> is what the random generator returns.\<close>

definition prepare_data_frame ::
  "hybi13 \<Rightarrow> u32 \<Rightarrow> ws_msg option \<Rightarrow> ws_msg option \<Rightarrow> ws_msg option \<times> ws_ec" where
  "prepare_data_frame h draw inp outp =
     (case (inp, outp) of
        (Some i, Some out) \<Rightarrow>
          (let op = m_opcode i in
           if is_control op then (outp, Some (Processor Proc_invalid_opcode))
           else if op = op_text \<and> \<not> validate (m_payload i) then (outp, Some (Processor Proc_invalid_payload))
           else
             let msk = \<not> m_server h;
                 compressed = (pmd_is_enabled \<and> m_compressed i);
                 fin = m_fin i;
                 key = (if msk then draw else 0);
                 o1 = (if compressed then fst (pmd_compress (m_payload i) (m_payload out)) else m_payload out)
             in if compressed \<and> length o1 < 4 then (Some (out\<lparr>m_payload := o1\<rparr>), Some (Processor Proc_general))
                else
                  let o2 = (if compressed then
                              (let o' = take (length o1 - 4) o1 in if msk then masked_copy o' key else o')
                            else if msk then masked_copy (m_payload i) key else m_payload i);
                      bh = make_basic_header op (word_of_nat (length o2)) fin msk compressed False False;
                      header = (if msk then prepare_header bh (extended_header_key (word_of_nat (length o2)) key)
                                else prepare_header bh (extended_header_size (word_of_nat (length o2))))
                  in (Some (out\<lparr>m_payload := o2, m_header := header, m_prepared := True, m_opcode := op\<rparr>), None))
      | _ \<Rightarrow> (outp, Some (Processor Proc_invalid_arguments)))"

definition prepare_control ::
  "hybi13 \<Rightarrow> u32 \<Rightarrow> opval \<Rightarrow> byte list \<Rightarrow> ws_msg option \<Rightarrow> ws_msg option \<times> ws_ec" where
  "prepare_control h draw op payload outp =
     (case outp of
        None \<Rightarrow> (outp, Some (Processor Proc_invalid_arguments))
      | Some out \<Rightarrow>
          if \<not> is_control op then (outp, Some (Processor Proc_invalid_opcode))
          else if length payload > unat payload_size_basic then (outp, Some (Processor Proc_control_too_big))
          else let msk = \<not> m_server h;
                   sz = word_of_nat (length payload);
                   bh = make_basic_header op sz True msk False False False;
                   o2 = (if msk then masked_copy payload draw else payload);
                   header = (if msk then prepare_header bh (extended_header_key sz draw)
                             else prepare_header bh (extended_header_size sz))
               in (Some (out\<lparr>m_payload := o2, m_header := header, m_opcode := op, m_prepared := True\<rparr>), None))"

definition prepare_ping :: "hybi13 \<Rightarrow> u32 \<Rightarrow> byte list \<Rightarrow> ws_msg option \<Rightarrow> ws_msg option \<times> ws_ec" where
  "prepare_ping h draw inp outp = prepare_control h draw op_ping inp outp"

definition prepare_pong :: "hybi13 \<Rightarrow> u32 \<Rightarrow> byte list \<Rightarrow> ws_msg option \<Rightarrow> ws_msg option \<times> ws_ec" where
  "prepare_pong h draw inp outp = prepare_control h draw op_pong inp outp"

definition prepare_close ::
  "hybi13 \<Rightarrow> u32 \<Rightarrow> close_code \<Rightarrow> byte list \<Rightarrow> ws_msg option \<Rightarrow> ws_msg option \<times> ws_ec" where
  "prepare_close h draw code reason outp =
     (if cc_reserved code then (outp, Some (Processor Proc_reserved_close_code))
      else if cc_invalid code \<and> code \<noteq> cc_no_status then (outp, Some (Processor Proc_invalid_close_code))
      else if code = cc_no_status \<and> length reason > 0 then (outp, Some (Processor Proc_reason_requires_code))
      else if length reason > unat payload_size_basic - 2 then (outp, Some (Processor Proc_control_too_big))
      else let payload = (if code \<noteq> cc_no_status then wr_le 2 (htons code) @ reason else [])
           in prepare_control h draw op_close payload outp)"

end
