(* ===== verification/Ws_Stream.thy ===== *)
theory Ws_Stream
  imports Ws_Hybi13
begin

section \<open>websocketpp: the frame processor on streams\<close>

text \<open>
  What the processor does with a stream of bytes that arrives in arbitrary pieces.  \<open>receive\<close> is the
  loop of \<open>connection::handle_read_frame\<close> as far as the processor takes part: it collects the messages.
  The lemmas show the invariant of the processor, that pieces do not matter, and that a message that
  one end prepares is the message that the other end gets.
\<close>

subsection \<open>The invariant of the processor\<close>

definition metadata_ok :: "msg_metadata \<Rightarrow> bool" where
  "metadata_ok md \<longleftrightarrow> (\<exists>k off. prepared_key md = key_at k off) \<and> validator_ok (msg_validator md)"

definition hybi13_inv :: "hybi13 \<Rightarrow> bool" where
  "hybi13_inv h \<longleftrightarrow>
     length (m_extended_header h) = 12 \<and> metadata_ok (m_data_msg h) \<and> metadata_ok (m_control_msg h) \<and>
     hstate h \<noteq> EXTENSION \<and> hstate h \<noteq> FATAL_ERROR \<and>
     (hstate h = HEADER_BASIC \<longrightarrow> m_bytes_needed h = 1 \<or> m_bytes_needed h = 2) \<and>
     (hstate h = HEADER_EXTENDED \<longrightarrow> m_cursor h + unat (m_bytes_needed h) \<le> 12) \<and>
     (hstate h = APPLICATION \<or> hstate h = READY \<longrightarrow> Option.bind (current_msg h) msg_ptr \<noteq> None)"

lemma key_at_zero: "key_at [0, 0, 0, 0] 0 = 0"
proof (rule bit_word_eqI)
  fix n assume "n < LENGTH(64)"
  have "[0, 0, 0, 0] ! (n div 8 mod 4) = (0 :: byte)"
    using nth_mem [of "n div 8 mod 4" "[0, 0, 0, 0 :: byte]"] by simp
  then show "bit (key_at [0, 0, 0, 0] 0) n = bit (0 :: u64) n" by (simp add: bit_key_at)
qed

lemma metadata_ok_intros [simp, intro]:
  "metadata_ok empty_metadata" "metadata_ok (make_metadata m key)"
  using key_at_zero
  by (auto simp: metadata_ok_def empty_metadata_def make_metadata_def prepare_masking_key_eq intro!: exI)

lemma metadata_ok_msg_ptr [simp]: "metadata_ok (md\<lparr>msg_ptr := x\<rparr>) = metadata_ok md"
  by (simp add: metadata_ok_def)

lemma metadata_ok_key [simp]: "metadata_ok md \<Longrightarrow> metadata_ok (md\<lparr>prepared_key := prepare_masking_key k\<rparr>)"
  by (auto simp: metadata_ok_def prepare_masking_key_eq)

lemma current_set_current [simp]:
  "current_msg (set_current_msg md h) = (if m_current_msg h = None then None else Some md)"
  by (auto simp: current_msg_def set_current_msg_def split: option.splits msg_slot.splits)

lemma current_msg_cong [simp]:
  "current_msg (h\<lparr>m_bytes_needed := n\<rparr>) = current_msg h" "current_msg (h\<lparr>hstate := s\<rparr>) = current_msg h"
  "current_msg (h\<lparr>m_cursor := c\<rparr>) = current_msg h" "current_msg (h\<lparr>m_basic_header := b\<rparr>) = current_msg h"
  "current_msg (h\<lparr>m_extended_header := e\<rparr>) = current_msg h"
  by (simp_all add: current_msg_def split: option.splits msg_slot.splits)

lemma current_msg_Some: "current_msg h = Some md \<Longrightarrow> m_current_msg h \<noteq> None"
  by (auto simp: current_msg_def split: option.splits)

lemma inv_set_current:
  assumes "hybi13_inv h" "metadata_ok md" "msg_ptr md \<noteq> None"
  shows "hybi13_inv (set_current_msg md h)"
  using assms
  by (auto simp: hybi13_inv_def set_current_msg_def current_msg_def split: option.splits msg_slot.splits)

lemma inv_current_ok: "hybi13_inv h \<Longrightarrow> current_msg h = Some md \<Longrightarrow> metadata_ok md"
  by (auto simp: hybi13_inv_def current_msg_def split: option.splits msg_slot.splits)

lemma length_store_at [simp]:
  "off + length c \<le> length bs \<Longrightarrow> length (store_at off c bs) = length bs"
  by (simp add: store_at_def)

lemma length_empty_extended_header [simp]: "length empty_extended_header = 12"
  by (simp add: empty_extended_header_def MAX_EXTENDED_HEADER_LENGTH_def)

lemma inv_reset [simp]:
  "metadata_ok (m_data_msg h) \<Longrightarrow> metadata_ok (m_control_msg h) \<Longrightarrow> hybi13_inv (reset_headers h)"
  by (simp add: hybi13_inv_def reset_headers_def)

lemma inv_new [simp]: "hybi13_inv (new_hybi13 server mx)"
  by (simp add: new_hybi13_def)

lemma header_len_bound: "get_header_len h - BASIC_HEADER_LENGTH \<le> 12"
  by (simp add: get_header_len_def get_masking_key_offset_def)

lemma inv_consume_basic:
  assumes inv: "hybi13_inv h" and st: "hstate h = HEADER_BASIC" and buf: "buf \<noteq> []"
    and c: "consume_basic h buf = (h1, n, None)"
  shows "hybi13_inv h1"
proof -
  obtain h2 k where cp: "copy_basic_header_bytes h buf = (h2, k)" by (cases "copy_basic_header_bytes h buf")
  have f: "m_extended_header h2 = m_extended_header h" "m_data_msg h2 = m_data_msg h"
    "m_control_msg h2 = m_control_msg h" "hstate h2 = HEADER_BASIC"
    "m_bytes_needed h2 = 0 \<or> m_bytes_needed h2 = 1"
    using cp st buf inv by (auto simp: copy_basic_header_bytes_def Let_def hybi13_inv_def split: if_splits)
  have l: "unat (word_of_nat (get_header_len (m_basic_header h2) - BASIC_HEADER_LENGTH) :: u64) \<le> 12"
    using header_len_bound [of "m_basic_header h2"] by (simp add: unsigned_of_nat take_bit_nat_eq_self)
  show ?thesis
    using c cp f l inv by (auto simp: consume_basic_def hybi13_inv_def split: if_splits option.splits)
qed

lemma inv_start_frame:
  assumes "metadata_ok (m_data_msg h)" "metadata_ok (m_control_msg h)" "length (m_extended_header h) = 12"
    and "hstate h = APPLICATION" "start_frame h = (h1, None)"
  shows "hybi13_inv h1"
  using assms
  by (auto simp: start_frame_def Let_def hybi13_inv_def current_msg_def make_metadata_def [of _ k for k, symmetric]
      split: if_splits option.splits) (auto simp: make_metadata_def)

lemma inv_consume_extended:
  assumes inv: "hybi13_inv h" and st: "hstate h = HEADER_EXTENDED"
    and c: "consume_extended h buf = (h1, n, None)"
  shows "hybi13_inv h1"
proof -
  obtain h2 k where cp: "copy_extended_header_bytes h buf = (h2, k)" by (cases "copy_extended_header_bytes h buf")
  note u = copy_extended_used [OF cp]
  have b: "m_cursor h + unat (m_bytes_needed h) \<le> 12" "length (m_extended_header h) = 12"
    using inv st by (simp_all add: hybi13_inv_def)
  have f: "m_data_msg h2 = m_data_msg h" "m_control_msg h2 = m_control_msg h" "m_cursor h2 = m_cursor h + k"
    "m_extended_header h2 = store_at (m_cursor h) (take k buf) (m_extended_header h)"
    using cp by (auto simp: copy_extended_header_bytes_def Let_def)
  have len: "length (m_extended_header h2) = 12" using f(4) b u by simp
  show ?thesis
  proof (cases "m_bytes_needed h2 = 0")
    case True
    then obtain h3 where "start_frame h3 = (h1, None)" "hstate h3 = APPLICATION" "m_data_msg h3 = m_data_msg h"
      "m_control_msg h3 = m_control_msg h" "m_extended_header h3 = m_extended_header h2"
      using c cp f by (auto simp: consume_extended_def split: option.splits prod.splits)
    then show ?thesis using inv len by (intro inv_start_frame [of h3]) (simp_all add: hybi13_inv_def)
  next
    case False
    then have "h1 = h2" using c cp by (simp add: consume_extended_def)
    then show ?thesis using inv st b u f len by (auto simp: hybi13_inv_def)
  qed
qed

lemma byte_mask_circ_key_ok:
  assumes "\<exists>k off. pk = key_at k off" "byte_mask_circ buf pk = (buf', key)"
  shows "\<exists>k off. key = key_at k off"
  using assms byte_mask_circ_eq by (metis snd_conv)

lemma inv_process_payload:
  assumes inv: "hybi13_inv h" and st: "hstate h = APPLICATION"
    and p: "process_payload_bytes h buf = (h1, n, None)"
  shows "hybi13_inv h1 \<and> hstate h1 = APPLICATION"
proof -
  obtain md m where md: "current_msg h = Some md" "msg_ptr md = Some m"
    using inv st by (auto simp: hybi13_inv_def split: Option.bind_splits)
  have mok: "metadata_ok md" using inv_current_ok [OF inv md(1)] .
  define key where "key = (if get_masked (m_basic_header h) then snd (byte_mask_circ buf (prepared_key md)) else prepared_key md)"
  have kok: "\<exists>k off. key = key_at k off"
    using mok byte_mask_circ_key_ok [of "prepared_key md" buf]
    by (auto simp: key_def metadata_ok_def byte_mask_circ_eq)
  obtain md' where h1: "h1 = (set_current_msg md' h)\<lparr>m_bytes_needed := m_bytes_needed h - word_of_nat (length buf)\<rparr>"
    and md': "prepared_key md' = key" "msg_ptr md' \<noteq> None" "validator_ok (msg_validator md')"
    using p md mok unfolding process_payload_bytes_def key_def metadata_ok_def
    by (auto simp: Let_def pmd_is_enabled_def split: if_splits prod.splits dest: validator_decode_run)
  have "metadata_ok md'" using md' kok by (simp add: metadata_ok_def)
  then have "hybi13_inv (set_current_msg md' h)" using inv_set_current [OF inv] md'(2) by simp
  then show ?thesis using st by (simp add: h1 hybi13_inv_def)
qed

lemma inv_end_of_frame:
  assumes inv: "hybi13_inv h" and st: "hstate h = APPLICATION" and e: "end_of_frame h = (h1, None)"
  shows "hybi13_inv h1"
proof (cases "get_fin (m_basic_header h)")
  case True
  obtain md m where md: "current_msg h = Some md" "msg_ptr md = Some m"
    using inv st by (auto simp: hybi13_inv_def split: Option.bind_splits)
  have "h1 = (set_current_msg (md\<lparr>msg_ptr := Some m\<rparr>) h)\<lparr>hstate := READY\<rparr>"
    using e True md by (auto simp: end_of_frame_def finalize_message_def pmd_is_enabled_def Let_def split: if_splits)
  moreover have "hybi13_inv (set_current_msg (md\<lparr>msg_ptr := Some m\<rparr>) h)"
    by (rule inv_set_current [OF inv]) (use inv_current_ok [OF inv md(1)] in simp_all)
  moreover have "m_current_msg h \<noteq> None" using md(1) current_msg_Some by simp
  ultimately show ?thesis using st by (simp add: hybi13_inv_def)
next
  case False
  then show ?thesis using e inv by (auto simp: end_of_frame_def hybi13_inv_def [of h])
qed

lemma inv_consume_step:
  assumes inv: "hybi13_inv h" and c: "consuming h buf" "consume_step h buf = (h1, n, None)"
  shows "hybi13_inv h1"
proof (cases "hstate h")
  case HEADER_BASIC
  then have "buf \<noteq> []" using inv c(1) by (auto simp: consuming_def hybi13_inv_def)
  then show ?thesis using inv_consume_basic [OF inv HEADER_BASIC] c(2) HEADER_BASIC by (simp add: consume_step_def)
next
  case HEADER_EXTENDED
  then show ?thesis using inv_consume_extended [OF inv HEADER_EXTENDED] c(2) by (simp add: consume_step_def)
next
  case APPLICATION
  define k where "k = min (unat (m_bytes_needed h)) (length buf)"
  obtain h2 n2 where p: "(if k > 0 then process_payload_bytes h (take k buf) else (h, 0, None)) = (h2, n2, None)"
    and e: "if m_bytes_needed h2 > 0 then h1 = h2 else end_of_frame h2 = (h1, None)"
    using c(2) APPLICATION unfolding consume_step_def consume_application_def k_def [symmetric] Let_def
    by (auto split: prod.splits if_splits)
  have "hybi13_inv h2 \<and> hstate h2 = APPLICATION"
    using p inv_process_payload [OF inv APPLICATION, of "take k buf" h2 n2] inv APPLICATION by (auto split: if_splits)
  then show ?thesis using e inv_end_of_frame [of h2 h1] by (auto split: if_splits)
qed (use inv c in \<open>simp_all add: consuming_def hybi13_inv_def [of h]\<close>)

text \<open>The errors of \<open>consume\<close> are those of the processor: nothing undefined is reached.\<close>

lemma inv_consume_step_error:
  assumes inv: "hybi13_inv h" and c: "consuming h buf" "consume_step h buf = (h1, n, Some e)"
  obtains p where "e = Processor p"
proof (cases "hstate h")
  case HEADER_BASIC
  then show ?thesis using c(2) that
    by (auto simp: consume_step_def consume_basic_def validate_incoming_basic_header_def Let_def
        split: prod.splits if_splits option.splits)
next
  case HEADER_EXTENDED
  then show ?thesis using c(2) that
    by (auto simp: consume_step_def consume_extended_def validate_incoming_extended_header_def start_frame_def Let_def
        split: prod.splits if_splits option.splits)
next
  case APPLICATION
  define k where "k = min (unat (m_bytes_needed h)) (length buf)"
  have p: "q = (h', n', Some e') \<Longrightarrow> q = process_payload_bytes h (take k buf) \<Longrightarrow> \<exists>p. e' = Processor p" for q h' n' e'
    using inv APPLICATION
    by (auto simp: process_payload_bytes_def hybi13_inv_def pmd_is_enabled_def Let_def
        split: Option.bind_splits prod.splits if_splits)
  have f: "\<exists>p. e' = Processor p" if e: "end_of_frame h2 = (h', Some e')" and i: "hybi13_inv h2" "hstate h2 = APPLICATION"
    for h2 h' e'
    using e i by (auto simp: end_of_frame_def finalize_message_def hybi13_inv_def pmd_is_enabled_def Let_def
        split: Option.bind_splits prod.splits if_splits)
  have "\<exists>p. e = Processor p"
  proof (cases "0 < k")
    case True
    obtain h2 n2 ec2 where q: "process_payload_bytes h (take k buf) = (h2, n2, ec2)" by (metis prod_cases3)
    show ?thesis
    proof (cases ec2)
      case None
      then have "hybi13_inv h2 \<and> hstate h2 = APPLICATION" using inv_process_payload [OF inv APPLICATION] q by blast
      moreover obtain h3 where "end_of_frame h2 = (h3, Some e)"
        using c(2) APPLICATION True q None unfolding consume_step_def consume_application_def k_def [symmetric] Let_def
        by (auto split: if_splits prod.splits)
      ultimately show ?thesis using f by blast
    next
      case (Some e2)
      then have "e2 = e"
        using c(2) APPLICATION True q unfolding consume_step_def consume_application_def k_def [symmetric] Let_def
        by (auto split: if_splits prod.splits)
      then show ?thesis using p [OF refl] q Some by metis
    qed
  next
    case False
    then obtain h3 where "end_of_frame h = (h3, Some e)"
      using c(2) APPLICATION unfolding consume_step_def consume_application_def k_def [symmetric] Let_def
      by (auto split: if_splits prod.splits)
    then show ?thesis using f inv APPLICATION by blast
  qed
  then show ?thesis using that by blast
qed (use inv c in \<open>simp_all add: consuming_def hybi13_inv_def [of h]\<close>)

subsection \<open>Pieces of a stream\<close>

text \<open>Unmasking and validating a chunk of a message, as one function of its metadata.\<close>

definition chunk_done :: "bool \<Rightarrow> byte list \<Rightarrow> msg_metadata \<Rightarrow> msg_metadata \<times> bool" where
  "chunk_done msk buf md =
     (let (buf', key) = (if msk then byte_mask_circ buf (prepared_key md) else (buf, prepared_key md));
          m = the (msg_ptr md);
          (v, ok) = (if m_opcode m = op_text then validator_decode buf' (msg_validator md) else (msg_validator md, True))
      in (\<lparr>msg_ptr = Some (m\<lparr>m_payload := m_payload m @ buf'\<rparr>), prepared_key = key, msg_validator = v\<rparr>, ok))"

lemma process_payload_chunk:
  assumes "current_msg h = Some md" "msg_ptr md = Some m"
  shows "process_payload_bytes h buf =
    (case chunk_done (get_masked (m_basic_header h)) buf md of
       (md', True) \<Rightarrow> ((set_current_msg md' h)\<lparr>m_bytes_needed := m_bytes_needed h - word_of_nat (length buf)\<rparr>, length buf, None)
     | (md', False) \<Rightarrow> (set_current_msg md' h, 0, Some (Processor Proc_invalid_utf8)))"
  using assms
  by (cases md) (simp add: process_payload_bytes_def chunk_done_def pmd_is_enabled_def Let_def split: prod.splits)

lemma chunk_done_append:
  assumes "metadata_ok md"
  shows "chunk_done msk (xs @ ys) md =
    (case chunk_done msk xs md of
       (md1, True) \<Rightarrow> chunk_done msk ys md1
     | (md1, False) \<Rightarrow> (fst (chunk_done msk (xs @ ys) md), False))"
proof -
  obtain k off where k: "prepared_key md = key_at k off" using assms by (auto simp: metadata_ok_def)
  show ?thesis
    by (cases msk) (auto simp: chunk_done_def k byte_mask_circ_eq mask_from_append validator_decode_append
        Let_def add.assoc split: prod.splits if_splits)
qed

lemma chunk_done_msg_ptr: "chunk_done msk xs md = (md1, ok) \<Longrightarrow> msg_ptr md1 \<noteq> None"
  by (auto simp: chunk_done_def Let_def split: prod.splits)

lemma set_current_again:
  "set_current_msg md' ((set_current_msg md h)\<lparr>m_bytes_needed := n\<rparr>) = (set_current_msg md' h)\<lparr>m_bytes_needed := n\<rparr>"
  by (auto simp: set_current_msg_def split: option.splits msg_slot.splits)

text \<open>The outcome of two computations is the same when an error leaves the state open.\<close>

definition same_outcome :: "'a \<times> 'b \<times> ws_ec \<Rightarrow> 'a \<times> 'b \<times> ws_ec \<Rightarrow> bool" where
  "same_outcome r s \<longleftrightarrow> snd (snd r) = snd (snd s) \<and> (snd (snd r) = None \<longrightarrow> r = s)"

lemma process_payload_append:
  assumes inv: "hybi13_inv h" and st: "hstate h = APPLICATION"
  shows "same_outcome (process_payload_bytes h (xs @ ys))
    (case process_payload_bytes h xs of
       (h1, n1, Some e) \<Rightarrow> (h1, n1, Some e)
     | (h1, n1, None) \<Rightarrow> (case process_payload_bytes h1 ys of (h2, n2, ec) \<Rightarrow> (h2, n1 + n2, ec)))"
proof -
  obtain md m where md: "current_msg h = Some md" "msg_ptr md = Some m"
    using inv st by (auto simp: hybi13_inv_def split: Option.bind_splits)
  note ok = inv_current_ok [OF inv md(1)]
  let ?msk = "get_masked (m_basic_header h)"
  obtain md1 ok1 where c1: "chunk_done ?msk xs md = (md1, ok1)" by (cases "chunk_done ?msk xs md")
  note app = chunk_done_append [OF ok, of ?msk xs ys, unfolded c1]
  show ?thesis
  proof (cases ok1)
    case False
    then show ?thesis using app
      by (auto simp: process_payload_chunk [OF md] c1 same_outcome_def split: prod.splits bool.splits)
  next
    case True
    define h1 where "h1 = (set_current_msg md1 h)\<lparr>m_bytes_needed := m_bytes_needed h - word_of_nat (length xs)\<rparr>"
    have cur: "current_msg h1 = Some md1" using md(1) current_msg_Some by (simp add: h1_def)
    obtain m1 where m1: "msg_ptr md1 = Some m1" using chunk_done_msg_ptr [OF c1] by blast
    have p1: "process_payload_bytes h xs = (h1, length xs, None)"
      using True by (simp add: process_payload_chunk [OF md] c1 h1_def)
    have f: "get_masked (m_basic_header h1) = ?msk" by (simp add: h1_def)
    obtain md2 ok2 where c2: "chunk_done ?msk ys md1 = (md2, ok2)" by (cases "chunk_done ?msk ys md1")
    have c: "chunk_done ?msk (xs @ ys) md = (md2, ok2)" using app True c2 by simp
    note pc = process_payload_chunk [OF md, of "xs @ ys", unfolded c]
    note p2 = process_payload_chunk [OF cur m1, of ys, unfolded f c2]
    show ?thesis
      unfolding p1 pc prod.case option.case p2
      by (cases ok2) (simp_all add: same_outcome_def h1_def set_current_again algebra_simps)
  qed
qed

text \<open>A round of \<open>consume\<close> that used the whole buffer and waits for more.\<close>

definition waiting :: "hybi13 \<Rightarrow> hybi13 \<Rightarrow> bool" where
  "waiting h h1 \<longleftrightarrow> hstate h1 = hstate h \<and> m_bytes_needed h1 \<noteq> 0"

lemma consume_basic_pieces:
  assumes inv: "hybi13_inv h" and st: "hstate h = HEADER_BASIC" and xs: "xs \<noteq> []"
    and c: "consume_basic h xs = (h1, n, ec)"
  shows "(ec = None \<and> waiting h h1 \<and> n = length xs \<and> hybi13_inv h1 \<and>
      (ys \<noteq> [] \<longrightarrow> consume_basic h (xs @ ys) = (case consume_basic h1 ys of (h2, n2, ec) \<Rightarrow> (h2, n + n2, ec)))) \<or>
    (\<not> (ec = None \<and> waiting h h1) \<and> consume_basic h (xs @ ys) = (h1, n, ec))"
proof -
  obtain x xs' where x: "xs = x # xs'" using xs by (cases xs) auto
  have n: "m_bytes_needed h = 1 \<or> m_bytes_needed h = 2" using inv st by (simp add: hybi13_inv_def)
  show ?thesis
  proof (cases "m_bytes_needed h = 2 \<and> xs' = []")
    case True
    define h' where "h' = h\<lparr>m_basic_header := (m_basic_header h)\<lparr>b0 := x\<rparr>, m_bytes_needed := 1\<rparr>"
    have h1: "h1 = h'" "n = 1" "ec = None"
      using c True by (simp_all add: x consume_basic_def copy_basic_header_bytes_def Let_def h'_def)
    have w: "waiting h h'" "hybi13_inv h'"
      using inv st by (simp_all add: waiting_def h'_def hybi13_inv_def current_msg_def)
    have "consume_basic h (xs @ ys) = (case consume_basic h' ys of (h2, n2, ec) \<Rightarrow> (h2, n + n2, ec))" if ysn: "ys \<noteq> []"
    proof -
      obtain y ys' where y: "ys = y # ys'" using ysn by (cases ys) auto
      have "copy_basic_header_bytes h (xs @ ys) = (h'\<lparr>m_basic_header := (m_basic_header h')\<lparr>b1 := y\<rparr>, m_bytes_needed := 0\<rparr>, 2)"
        using True by (simp add: x y copy_basic_header_bytes_def Let_def h'_def)
      moreover have "copy_basic_header_bytes h' ys = (h'\<lparr>m_basic_header := (m_basic_header h')\<lparr>b1 := y\<rparr>, m_bytes_needed := 0\<rparr>, 1)"
        by (simp add: y copy_basic_header_bytes_def Let_def h'_def)
      ultimately show ?thesis
        using h1(2) by (simp add: consume_basic_def split: option.split)
    qed
    then show ?thesis using h1 w True x by simp
  next
    case False
    obtain h2 k where cp: "copy_basic_header_bytes h xs = (h2, k)" by (cases "copy_basic_header_bytes h xs")
    have same: "copy_basic_header_bytes h (xs @ ys) = (h2, k)" "m_bytes_needed h2 = 0" "hstate h2 = HEADER_BASIC"
      using cp n False st by (cases xs'; auto simp: x copy_basic_header_bytes_def Let_def)+
    then have "\<not> (ec = None \<and> waiting h h1)"
      using c cp st by (auto simp: consume_basic_def waiting_def split: option.splits)
    moreover have "consume_basic h (xs @ ys) = (h1, n, ec)"
      using c cp same by (simp add: consume_basic_def)
    ultimately show ?thesis by blast
  qed
qed

lemma store_at_append:
  assumes "off + length xs + length ys \<le> length bs"
  shows "store_at off (xs @ ys) bs = store_at (off + length xs) ys (store_at off xs bs)"
  using assms by (simp add: store_at_def ac_simps)

lemma word_of_nat_diff_diff:
  "(w :: u64) - word_of_nat a - word_of_nat b = w - word_of_nat (a + b)"
  by simp

lemma consume_extended_pieces:
  assumes inv: "hybi13_inv h" and st: "hstate h = HEADER_EXTENDED"
    and c: "consume_extended h xs = (h1, n, ec)"
  shows "(ec = None \<and> waiting h h1 \<and> n = length xs \<and> hybi13_inv h1 \<and>
      consume_extended h (xs @ ys) = (case consume_extended h1 ys of (h2, n2, ec) \<Rightarrow> (h2, n + n2, ec))) \<or>
    (\<not> (ec = None \<and> waiting h h1) \<and> consume_extended h (xs @ ys) = (h1, n, ec))"
proof (cases "unat (m_bytes_needed h) \<le> length xs")
  case True
  have cp: "copy_extended_header_bytes h (xs @ ys) = copy_extended_header_bytes h xs"
    using True by (simp add: copy_extended_header_bytes_def min_def)
  obtain h2 k where k: "copy_extended_header_bytes h xs = (h2, k)" by (cases "copy_extended_header_bytes h xs")
  have "unat (m_bytes_needed h2) = 0" using copy_extended_used [OF k] True by simp
  then have "m_bytes_needed h2 = 0" by (simp add: unat_eq_0)
  then have "\<not> (ec = None \<and> waiting h h1)"
    using c k st by (auto simp: consume_extended_def waiting_def split: option.splits prod.splits dest!: start_frame_state)
  moreover have "consume_extended h (xs @ ys) = (h1, n, ec)"
    using c cp by (simp add: consume_extended_def)
  ultimately show ?thesis by blast
next
  case False
  obtain h2 k where k: "copy_extended_header_bytes h xs = (h2, k)" by (cases "copy_extended_header_bytes h xs")
  note u = copy_extended_used [OF k]
  have kl: "k = length xs" using u False by simp
  have "m_bytes_needed h2 \<noteq> 0" using u False by (auto simp flip: unat_eq_0)
  then have h1: "h1 = h2" "n = k" "ec = None" using c k by (simp_all add: consume_extended_def)
  have i: "m_cursor h + unat (m_bytes_needed h) \<le> 12" "length (m_extended_header h) = 12"
    using inv st by (simp_all add: hybi13_inv_def)
  have "waiting h h1" "hybi13_inv h1"
    using \<open>m_bytes_needed h2 \<noteq> 0\<close> u h1 st inv_consume_extended [OF inv st, of xs h1 n] c
    by (simp_all add: waiting_def)
  moreover have "copy_extended_header_bytes h (xs @ ys) =
      (case copy_extended_header_bytes h1 ys of (h2, n2) \<Rightarrow> (h2, n + n2))"
  proof -
    define r where "r = min (unat (m_bytes_needed h) - length xs) (length ys)"
    have m: "min (unat (m_bytes_needed h)) (length (xs @ ys)) = length xs + r"
      using False by (auto simp: r_def min_def)
    have e1: "h1 = h\<lparr>m_extended_header := store_at (m_cursor h) xs (m_extended_header h),
        m_cursor := m_cursor h + length xs, m_bytes_needed := m_bytes_needed h - word_of_nat (length xs)\<rparr>"
      using k h1 kl False by (simp add: copy_extended_header_bytes_def Let_def)
    have n1: "unat (m_bytes_needed h1) = unat (m_bytes_needed h) - length xs" using u h1 kl by simp
    have "store_at (m_cursor h) (xs @ take r ys) (m_extended_header h) =
        store_at (m_cursor h + length xs) (take r ys) (store_at (m_cursor h) xs (m_extended_header h))"
      using i False by (intro store_at_append) (auto simp: r_def)
    then show ?thesis
      unfolding copy_extended_header_bytes_def Let_def m n1 r_def [symmetric]
      using e1 h1(2) kl by (simp add: add.assoc)
  qed
  ultimately have "waiting h h1 \<and> hybi13_inv h1 \<and>
      consume_extended h (xs @ ys) = (case consume_extended h1 ys of (h2, n2, ec) \<Rightarrow> (h2, n + n2, ec))"
    by (auto simp: consume_extended_def split: prod.splits option.split)
  then show ?thesis using h1 kl by blast
qed

lemma same_outcome_refl [simp]: "same_outcome r r"
  by (simp add: same_outcome_def)

text \<open>What \<open>consume\<close> does after the payload bytes of a round.\<close>

definition after_payload :: "hybi13 \<times> nat \<times> ws_ec \<Rightarrow> hybi13 \<times> nat \<times> ws_ec" where
  "after_payload r = (case r of (h1, n, ec) \<Rightarrow>
     if ec \<noteq> None then (h1, n, ec) else if m_bytes_needed h1 > 0 then (h1, n, None)
     else case end_of_frame h1 of (h2, ec2) \<Rightarrow> (h2, n, ec2))"

lemma consume_application_eq:
  "consume_application h buf =
    (let k = min (unat (m_bytes_needed h)) (length buf) in
     after_payload (if k > 0 then process_payload_bytes h (take k buf) else (h, 0, None)))"
  by (simp add: consume_application_def after_payload_def Let_def split: prod.splits)

lemma end_of_frame_state: "end_of_frame h = (h1, None) \<Longrightarrow> hstate h1 = READY \<or> hstate h1 = HEADER_BASIC"
  by (auto simp: end_of_frame_def finalize_message_def reset_headers_def Let_def split: if_splits option.splits prod.splits)

lemma same_outcome_after_payload:
  "same_outcome r s \<Longrightarrow> same_outcome (after_payload r) (after_payload s)"
  by (auto simp: same_outcome_def after_payload_def split: prod.splits if_splits)

lemma same_outcome_cases:
  assumes "same_outcome r (h, n, ec)"
  obtains "ec = None" "r = (h, n, None)" | h' n' e where "ec = Some e" "r = (h', n', Some e)"
  using assms by (cases ec; cases r) (auto simp: same_outcome_def)

lemma consume_application_pieces:
  assumes inv: "hybi13_inv h" and st: "hstate h = APPLICATION" and con: "consuming h xs"
    and c: "consume_application h xs = (h1, n, ec)"
  shows "(ec = None \<and> waiting h h1 \<and> n = length xs \<and> hybi13_inv h1 \<and>
      (ys \<noteq> [] \<longrightarrow> same_outcome (consume_application h (xs @ ys))
        (case consume_application h1 ys of (h2, n2, ec) \<Rightarrow> (h2, n + n2, ec)))) \<or>
    (\<not> (ec = None \<and> waiting h h1) \<and> same_outcome (consume_application h (xs @ ys)) (h1, n, ec))"
proof (cases "unat (m_bytes_needed h) \<le> length xs")
  case True
  then have m: "min (unat (m_bytes_needed h)) (length xs) = unat (m_bytes_needed h)"
    "min (unat (m_bytes_needed h)) (length (xs @ ys)) = unat (m_bytes_needed h)" by simp_all
  have "consume_application h (xs @ ys) = consume_application h xs"
    unfolding consume_application_eq m Let_def using True by simp
  moreover have "\<not> (ec = None \<and> waiting h h1)"
  proof
    assume w: "ec = None \<and> waiting h h1"
    obtain h2 n2 ec2 where p: "(if unat (m_bytes_needed h) > 0 then process_payload_bytes h (take (unat (m_bytes_needed h)) xs)
        else (h, 0, None)) = (h2, n2, ec2)" by (metis prod_cases3)
    have a: "after_payload (h2, n2, ec2) = (h1, n, None)"
      using c w unfolding consume_application_eq m Let_def p by simp
    then have "ec2 = None" by (auto simp: after_payload_def split: if_splits)
    have "unat (m_bytes_needed h2) = 0"
    proof (cases "unat (m_bytes_needed h) > 0")
      case pos: True
      then have "process_payload_bytes h (take (unat (m_bytes_needed h)) xs) = (h2, n2, None)"
        using p \<open>ec2 = None\<close> by simp
      from process_payload_used [OF this] True show ?thesis by simp
    qed (use p in simp)
    then have "m_bytes_needed h2 = 0" by (simp add: unat_eq_0)
    then obtain h3 where "end_of_frame h2 = (h3, None)" "h3 = h1"
      using a \<open>ec2 = None\<close> by (auto simp: after_payload_def split: prod.splits)
    then show False using end_of_frame_state [of h2 h1] w st by (auto simp: waiting_def)
  qed
  ultimately show ?thesis using c by simp
next
  case False
  then have xs: "xs \<noteq> []" using con by (auto simp: consuming_def simp flip: unat_eq_0)
  have mx: "min (unat (m_bytes_needed h)) (length xs) = length xs" using False by simp
  have cx: "consume_application h xs = after_payload (process_payload_bytes h xs)"
    unfolding consume_application_eq mx Let_def using xs by simp
  define r where "r = min (unat (m_bytes_needed h) - length xs) (length ys)"
  have mr: "min (unat (m_bytes_needed h)) (length (xs @ ys)) = length xs + r" using False by (auto simp: r_def min_def)
  have cxy: "consume_application h (xs @ ys) = after_payload (process_payload_bytes h (xs @ take r ys))"
    unfolding consume_application_eq mr Let_def using xs by simp
  obtain h2 n2 ec2 where p: "process_payload_bytes h xs = (h2, n2, ec2)" by (metis prod_cases3)
  note app = process_payload_append [OF inv st, of xs "take r ys", unfolded p]
  show ?thesis
  proof (cases ec2)
    case (Some e)
    then have "(h1, n, ec) = (h2, n2, Some e)" using c cx p by (simp add: after_payload_def)
    moreover have "same_outcome (after_payload (process_payload_bytes h (xs @ take r ys))) (after_payload (h2, n2, Some e))"
      using app Some by (intro same_outcome_after_payload) simp
    ultimately show ?thesis by (simp add: cxy after_payload_def)
  next
    case None
    have u: "n2 = length xs" "hstate h2 = hstate h" "unat (m_bytes_needed h2) = unat (m_bytes_needed h) - length xs"
      using process_payload_used [of h xs h2 n2] p None False by simp_all
    then have nz: "m_bytes_needed h2 \<noteq> 0" using False by (auto simp flip: unat_eq_0)
    then have h1: "h1 = h2" "n = n2" "ec = None" using c cx p None by (simp_all add: after_payload_def)
    have w: "waiting h h1" "hybi13_inv h1"
      using nz u(2) h1 inv_process_payload [OF inv st, of xs h1 n] p None by (simp_all add: waiting_def)
    have "same_outcome (consume_application h (xs @ ys)) (case consume_application h1 ys of (h2, n2, ec) \<Rightarrow> (h2, n + n2, ec))"
      if ysn: "ys \<noteq> []"
    proof -
      have r: "min (unat (m_bytes_needed h1)) (length ys) = r" "0 < r"
        using u h1 ysn False by (simp_all add: r_def)
      have "consume_application h1 ys = after_payload (process_payload_bytes h1 (take r ys))"
        unfolding consume_application_eq r(1) Let_def using r(2) by simp
      then have "(case consume_application h1 ys of (h2, n2, ec) \<Rightarrow> (h2, n + n2, ec)) =
          after_payload (case process_payload_bytes h1 (take r ys) of (h2, n2, ec) \<Rightarrow> (h2, n + n2, ec))"
        by (auto simp: after_payload_def split: prod.splits)
      then show ?thesis unfolding cxy
        using app None h1 by (simp add: same_outcome_after_payload)
    qed
    then show ?thesis using h1 w u(1) by simp
  qed
qed

lemma consume_step_pieces:
  assumes inv: "hybi13_inv h" and con: "consuming h xs" and c: "consume_step h xs = (h1, n, ec)"
  shows "(ec = None \<and> waiting h h1 \<and> n = length xs \<and> hybi13_inv h1 \<and>
      (ys \<noteq> [] \<longrightarrow> same_outcome (consume_step h (xs @ ys))
        (case consume_step h1 ys of (h2, n2, ec) \<Rightarrow> (h2, n + n2, ec)))) \<or>
    (\<not> (ec = None \<and> waiting h h1) \<and> same_outcome (consume_step h (xs @ ys)) (h1, n, ec))"
proof (cases "hstate h")
  case HEADER_BASIC
  then have "xs \<noteq> []" using inv con by (auto simp: consuming_def hybi13_inv_def)
  then show ?thesis
    using consume_basic_pieces [OF inv HEADER_BASIC _ c [unfolded consume_step_def HEADER_BASIC proc_state.case], of ys]
      HEADER_BASIC by (auto simp: consume_step_def waiting_def)
next
  case HEADER_EXTENDED
  then show ?thesis
    using consume_extended_pieces [OF inv HEADER_EXTENDED c [unfolded consume_step_def HEADER_EXTENDED proc_state.case], of ys]
    by (auto simp: consume_step_def waiting_def)
next
  case APPLICATION
  then show ?thesis
    using consume_application_pieces [OF inv APPLICATION con c [unfolded consume_step_def APPLICATION proc_state.case], of ys]
    by (auto simp: consume_step_def waiting_def)
qed (use inv con in \<open>simp_all add: consuming_def hybi13_inv_def\<close>)

subsection \<open>The messages of a stream\<close>

text \<open>The processor run on all the bytes of a buffer, taking each message out as it is ready.\<close>

definition with_msg :: "ws_msg option \<Rightarrow> hybi13 \<times> ws_msg list \<times> ws_ec \<Rightarrow> hybi13 \<times> ws_msg list \<times> ws_ec" where
  "with_msg m r = (case r of (h, ms, ec) \<Rightarrow> (h, (case m of None \<Rightarrow> ms | Some x \<Rightarrow> x # ms), ec))"

lemma rank_get_message: "hstate h = READY \<Longrightarrow> (h1, m) = get_message h \<Longrightarrow> rank h1 < rank h"
  by (simp add: get_message_def ready_def rank_def reset_headers_def Let_def)

function rx :: "hybi13 \<Rightarrow> byte list \<Rightarrow> hybi13 \<times> ws_msg list \<times> ws_ec" where
  "rx h buf =
     (if hstate h = READY then (case get_message h of (h1, m) \<Rightarrow> with_msg m (rx h1 buf))
      else if consuming h buf then
        (case consume_step h buf of
           (h1, n, Some e) \<Rightarrow> (h1, [], Some e)
         | (h1, n, None) \<Rightarrow> rx h1 (drop n buf))
      else (h, [], None))"
  by pat_completeness auto
termination
  by (relation "measures [\<lambda>(h, buf). length buf, \<lambda>(h, buf). rank h]")
    (auto dest!: consume_step_progress [OF _ sym] intro: rank_get_message)

declare rx.simps [simp del]

lemma rx_code [code]:
  "rx h buf =
     (if hstate h = READY then (case get_message h of (h1, m) \<Rightarrow> with_msg m (rx h1 buf))
      else if consuming h buf then
        (case consume_step h buf of
           (h1, n, ec) \<Rightarrow> if ec = None then rx h1 (drop n buf) else (h1, [], ec))
      else (h, [], None))"
  by (subst rx.simps) (auto split: prod.splits option.splits)

lemma rx_ready: "hstate h = READY \<Longrightarrow> rx h buf = with_msg (snd (get_message h)) (rx (fst (get_message h)) buf)"
  by (subst rx.simps) (simp split: prod.splits)

lemma rx_step:
  "consuming h buf \<Longrightarrow> rx h buf = (case consume_step h buf of
     (h1, n, Some e) \<Rightarrow> (h1, [], Some e) | (h1, n, None) \<Rightarrow> rx h1 (drop n buf))"
  by (subst rx.simps) (simp add: consuming_def)

lemma rx_idle: "hstate h \<noteq> READY \<Longrightarrow> \<not> consuming h buf \<Longrightarrow> rx h buf = (h, [], None)"
  by (subst rx.simps) simp

lemma inv_get_message:
  assumes "hybi13_inv h" "hstate h = READY"
  shows "hybi13_inv (fst (get_message h)) \<and> snd (get_message h) \<noteq> None"
  using assms
  by (auto simp: get_message_def ready_def hybi13_inv_def [of h] Let_def current_msg_def set_current_msg_def
      split: option.splits msg_slot.splits Option.bind_splits)

lemma rx_inv:
  "hybi13_inv h \<Longrightarrow> rx h buf = (h1, ms, None) \<Longrightarrow> hybi13_inv h1 \<and> hstate h1 \<noteq> READY \<and> m_bytes_needed h1 \<noteq> 0"
proof (induction h buf arbitrary: ms rule: rx.induct)
  case (1 h buf)
  consider "hstate h = READY" | "hstate h \<noteq> READY" "consuming h buf" | "hstate h \<noteq> READY" "\<not> consuming h buf" by blast
  then show ?case
  proof cases
    case 1
    obtain h2 m where g: "get_message h = (h2, m)" by (cases "get_message h")
    obtain ms2 where "rx h2 buf = (h1, ms2, None)"
      using "1.prems"(2) rx_ready [OF 1] g by (auto simp: with_msg_def split: prod.splits)
    then show ?thesis using "1.IH"(1) [OF 1 g [symmetric]] inv_get_message [OF "1.prems"(1) 1] g by simp
  next
    case 2
    obtain h2 n ec where c: "consume_step h buf = (h2, n, ec)" by (metis prod_cases3)
    then have "ec = None" "rx h2 (drop n buf) = (h1, ms, None)"
      using "1.prems"(2) rx_step [OF 2(2)] by (cases ec; simp)+
    then show ?thesis using "1.IH"(2) [OF 2 c [symmetric] refl] inv_consume_step [OF "1.prems"(1) 2(2)] c by simp
  next
    case 3
    then have "h1 = h" using "1.prems"(2) rx_idle by simp
    then show ?thesis using 3 "1.prems"(1) by (auto simp: consuming_def hybi13_inv_def)
  qed
qed

text \<open>The same messages and error, and the same state when there was no error.\<close>

definition same_result :: "hybi13 \<times> ws_msg list \<times> ws_ec \<Rightarrow> hybi13 \<times> ws_msg list \<times> ws_ec \<Rightarrow> bool" where
  "same_result r s \<longleftrightarrow> snd r = snd s \<and> (snd (snd r) = None \<longrightarrow> fst r = fst s)"

definition then_rx :: "hybi13 \<times> ws_msg list \<times> ws_ec \<Rightarrow> byte list \<Rightarrow> hybi13 \<times> ws_msg list \<times> ws_ec" where
  "then_rx r ys = (case r of
     (h, ms, Some e) \<Rightarrow> (h, ms, Some e)
   | (h, ms, None) \<Rightarrow> (case rx h ys of (h2, ms2, ec) \<Rightarrow> (h2, ms @ ms2, ec)))"

lemma same_result_refl [simp]: "same_result r r"
  by (simp add: same_result_def)

lemma same_result_sym: "same_result r s \<Longrightarrow> same_result s r"
  by (auto simp: same_result_def)

lemma same_result_trans: "same_result r s \<Longrightarrow> same_result s t \<Longrightarrow> same_result r t"
  by (auto simp: same_result_def)

lemma same_result_with_msg: "same_result r s \<Longrightarrow> same_result (with_msg m r) (with_msg m s)"
  by (auto simp: same_result_def with_msg_def split: prod.splits option.splits)

lemma then_rx_with_msg: "then_rx (with_msg m r) ys = with_msg m (then_rx r ys)"
  by (auto simp: then_rx_def with_msg_def split: prod.splits option.splits)

lemma rx_after_step:
  assumes "same_outcome (consume_step h buf) (h1, n, ec)" "consuming h buf"
  shows "same_result (rx h buf) (case ec of Some e \<Rightarrow> (h1, [], Some e) | None \<Rightarrow> rx h1 (drop n buf))"
  using assms(1)
proof (cases rule: same_outcome_cases)
  case 1
  then show ?thesis by (simp add: rx_step [OF assms(2)])
next
  case 2
  then show ?thesis by (simp add: rx_step [OF assms(2)] same_result_def)
qed

lemma rx_append: "hybi13_inv h \<Longrightarrow> same_result (rx h (xs @ ys)) (then_rx (rx h xs) ys)"
proof (induction h xs rule: rx.induct)
  case (1 h xs)
  note inv = "1.prems"
  consider "hstate h = READY" | "hstate h \<noteq> READY" "consuming h xs" | "hstate h \<noteq> READY" "\<not> consuming h xs" by blast
  then show ?case
  proof cases
    case 1
    obtain h1 m where g: "get_message h = (h1, m)" by (cases "get_message h")
    have "same_result (rx h1 (xs @ ys)) (then_rx (rx h1 xs) ys)"
      using "1.IH"(1) [OF 1 g [symmetric]] inv_get_message [OF inv 1] g by simp
    then show ?thesis
      using g by (simp add: rx_ready [OF 1] then_rx_with_msg same_result_with_msg)
  next
    case 2
    have con: "consuming h (xs @ ys)" using 2(2) by (auto simp: consuming_def)
    obtain h1 n ec where c: "consume_step h xs = (h1, n, ec)" by (metis prod_cases3)
    from consume_step_pieces [OF inv 2(2) c, of ys] show ?thesis
    proof (elim disjE conjE)
      assume w: "ec = None" "waiting h h1" "n = length xs" "hybi13_inv h1"
        and p: "ys \<noteq> [] \<longrightarrow> same_outcome (consume_step h (xs @ ys))
          (case consume_step h1 ys of (h2, n2, ec) \<Rightarrow> (h2, n + n2, ec))"
      have nr: "hstate h1 \<noteq> READY" "\<not> consuming h1 []" using w(2) 2 by (simp_all add: waiting_def consuming_def)
      have rxs: "rx h xs = (h1, [], None)" using w c rx_idle [OF nr] by (simp add: rx_step [OF 2(2)])
      show ?thesis
      proof (cases "ys = []")
        case True
        then show ?thesis using rxs rx_idle [OF nr] by (simp add: then_rx_def)
      next
        case False
        have con1: "consuming h1 ys" using False w(2) 2 by (simp add: waiting_def consuming_def)
        obtain h2 n2 ec2 where c2: "consume_step h1 ys = (h2, n2, ec2)" by (metis prod_cases3)
        have "same_result (rx h (xs @ ys))
            (case ec2 of Some e \<Rightarrow> (h2, [], Some e) | None \<Rightarrow> rx h2 (drop (n + n2) (xs @ ys)))"
          using p False c2 by (intro rx_after_step [OF _ con]) simp
        moreover have "then_rx (rx h xs) ys = (case ec2 of Some e \<Rightarrow> (h2, [], Some e) | None \<Rightarrow> rx h2 (drop n2 ys))"
          using rxs c2 by (cases ec2) (simp_all add: then_rx_def rx_step [OF con1])
        moreover have "drop (n + n2) (xs @ ys) = drop n2 ys" using w(3) by simp
        ultimately show ?thesis by (simp only:)
      qed
    next
      assume p: "\<not> (ec = None \<and> waiting h h1)" "same_outcome (consume_step h (xs @ ys)) (h1, n, ec)"
      note r = rx_after_step [OF p(2) con]
      show ?thesis
      proof (cases ec)
        case None
        then have cn: "consume_step h xs = (h1, n, None)" using c by simp
        have "n \<le> length xs" using consume_step_progress [OF 2(2) cn] by simp
        moreover have "same_result (rx h1 (drop n xs @ ys)) (then_rx (rx h1 (drop n xs)) ys)"
          using "1.IH"(2) [OF 2 cn [symmetric] refl refl] inv_consume_step [OF inv 2(2) cn] by blast
        ultimately show ?thesis
          using r None cn by (auto simp: rx_step [OF 2(2)] intro: same_result_trans)
      next
        case (Some e)
        then show ?thesis using r c by (simp add: rx_step [OF 2(2)] then_rx_def)
      qed
    qed
  next
    case 3
    then have "xs = []" using inv by (auto simp: consuming_def hybi13_inv_def)
    then show ?thesis using 3 by (simp add: rx_idle then_rx_def split: prod.splits)
  qed
qed

lemma then_rx_cong: "same_result r s \<Longrightarrow> same_result (then_rx r ys) (then_rx s ys)"
  by (cases r; cases s) (auto simp: same_result_def then_rx_def split: option.splits)

end
