(* ===== verification/Ws_Roundtrip.thy ===== *)
theory Ws_Roundtrip
  imports Ws_Stream
begin

section \<open>websocketpp: from one end of a connection to the other\<close>

text \<open>
  \<open>receive\<close> is the loop around \<open>consume\<close>, and \<open>feed\<close> calls it for one buffer after another.  The first
  part shows that the loop computes the function \<open>rx\<close> of \<open>Ws_Stream\<close>, so that only the bytes
  matter; the second follows a frame that \<open>prepare_data_frame\<close> made through the processor of the
  peer.
\<close>

subsection \<open>The loop around consume\<close>

partial_function (option) receive ::
  "hybi13 \<Rightarrow> byte list \<Rightarrow> (hybi13 \<times> ws_msg list \<times> ws_ec) option" where
  "receive h buf =
     (if buf = [] then Some (h, [], None)
      else case consume h buf of (h1, n, ec) \<Rightarrow>
        (case ec of
           Some e \<Rightarrow> Some (h1, [], Some e)
         | None \<Rightarrow>
           if ready h1 then
             (case get_message h1 of (h2, m) \<Rightarrow>
                Option.bind (receive h2 (drop n buf)) (\<lambda>r. Some (with_msg m r)))
           else receive h1 (drop n buf)))"

fun feed :: "hybi13 \<Rightarrow> byte list list \<Rightarrow> (hybi13 \<times> ws_msg list \<times> ws_ec) option" where
  "feed h [] = Some (h, [], None)"
| "feed h (c # cs) =
     (case receive h c of
        None \<Rightarrow> None
      | Some (h1, ms, Some e) \<Rightarrow> Some (h1, ms, Some e)
      | Some (h1, ms, None) \<Rightarrow>
          (case feed h1 cs of None \<Rightarrow> None | Some (h2, ms2, ec) \<Rightarrow> Some (h2, ms @ ms2, ec)))"

lemma consume_step_uses:
  assumes "consuming h buf" "consume_step h buf = (h1, n, None)" "m_bytes_needed h \<noteq> 0" "hstate h \<noteq> EXTENSION"
  shows "0 < n"
proof -
  have buf: "buf \<noteq> []" using assms by (simp add: consuming_def)
  have u: "0 < unat (m_bytes_needed h)" using assms(3) by (metis gr0I unat_eq_0)
  show ?thesis
  proof (cases "hstate h")
    case HEADER_BASIC
    then show ?thesis using assms(2,3) buf
      by (auto simp: consume_step_def consume_basic_def split: prod.splits if_splits option.splits dest!: copy_basic_used)
  next
    case HEADER_EXTENDED
    then show ?thesis using assms(2) u buf
      by (auto simp: consume_step_def consume_extended_def split: prod.splits if_splits option.splits
          dest!: copy_extended_used)
  next
    case APPLICATION
    define k where "k = min (unat (m_bytes_needed h)) (length buf)"
    have k: "0 < k" "k \<le> length buf" "k \<le> unat (m_bytes_needed h)" using u buf by (simp_all add: k_def)
    obtain h2 n2 ec2 where p: "process_payload_bytes h (take k buf) = (h2, n2, ec2)" by (metis prod_cases3)
    have "ec2 = None" "n = n2"
      using assms(2) APPLICATION k(1) p unfolding consume_step_def consume_application_def k_def [symmetric] Let_def
      by (auto split: if_splits prod.splits)
    then show ?thesis using process_payload_used [of h "take k buf" h2 n2] p k by simp
  qed (use assms in \<open>auto simp: consuming_def\<close>)
qed

lemma consume_loop_rx:
  "consume_loop h buf p = (h1, q, ec) \<Longrightarrow> hstate h \<noteq> READY \<Longrightarrow>
     (case ec of
        Some e \<Rightarrow> rx h buf = (h1, [], Some e)
      | None \<Rightarrow> p \<le> q \<and> rx h buf = rx h1 (drop (q - p) buf) \<and> \<not> consuming h1 (drop (q - p) buf) \<and>
          (hybi13_inv h \<longrightarrow> hybi13_inv h1 \<and> (consuming h buf \<and> m_bytes_needed h \<noteq> 0 \<longrightarrow> p < q)))"
proof (induction h buf p rule: consume_loop.induct)
  case (1 h buf p)
  show ?case
  proof (cases "consuming h buf")
    case True
    obtain h2 n ec2 where c: "consume_step h buf = (h2, n, ec2)" by (metis prod_cases3)
    show ?thesis
    proof (cases ec2)
      case None
      then have cn: "consume_step h buf = (h2, n, None)" using c by simp
      have l: "consume_loop h2 (drop n buf) (p + n) = (h1, q, ec)"
        using "1.prems"(1) True cn by (subst (asm) consume_loop.simps) simp
      note ih = "1.IH" [OF True cn [symmetric] refl refl l]
      have r: "rx h buf = rx h2 (drop n buf)" using cn by (simp add: rx_step [OF True])
      have use: "hybi13_inv h \<Longrightarrow> m_bytes_needed h \<noteq> 0 \<Longrightarrow> 0 < n"
        using consume_step_uses [OF True cn] by (simp add: hybi13_inv_def)
      show ?thesis
      proof (cases "hstate h2 = READY")
        case ready: True
        then have "consume_loop h2 (drop n buf) (p + n) = (h2, p + n, None)"
          by (subst consume_loop.simps) (simp add: consuming_def)
        then have "h1 = h2" "q = p + n" "ec = None" using l by auto
        then show ?thesis using ready r use inv_consume_step [OF _ True cn] by (auto simp: consuming_def)
      next
        case False
        show ?thesis
        proof (cases ec)
          case None
          then have i: "p + n \<le> q" "rx h2 (drop n buf) = rx h1 (drop (q - (p + n)) (drop n buf))"
            "\<not> consuming h1 (drop (q - (p + n)) (drop n buf))" "hybi13_inv h2 \<longrightarrow> hybi13_inv h1"
            using ih [OF False] by auto
          have "drop (q - (p + n)) (drop n buf) = drop (q - p) buf" using i(1) by simp
          then show ?thesis using i r use inv_consume_step [OF _ True cn] None by auto
        qed (use ih [OF False] r in auto)
      qed
    next
      case (Some e)
      then have "consume_loop h buf p = (h2, p + n, Some e)" using True c by (subst consume_loop.simps) simp
      then show ?thesis using "1.prems" rx_step [OF True] c Some by auto
    qed
  next
    case False
    then have "consume_loop h buf p = (h, p, None)" by (subst consume_loop.simps) simp
    then show ?thesis using "1.prems" False by auto
  qed
qed

lemma receive_rx:
  assumes "hybi13_inv h" "hstate h \<noteq> READY" "m_bytes_needed h \<noteq> 0"
  shows "receive h buf = Some (rx h buf)"
  using assms
proof (induction "length buf" arbitrary: h buf rule: less_induct)
  case less
  show ?case
  proof (cases "buf = []")
    case True
    then show ?thesis using less.prems rx_idle [of h buf] by (subst receive.simps) (simp add: consuming_def)
  next
    case False
    have con: "consuming h buf" using False less.prems by (auto simp: consuming_def hybi13_inv_def)
    obtain h1 n ec where c: "consume h buf = (h1, n, ec)" by (metis prod_cases3)
    note f = consume_loop_rx [OF c [unfolded consume_def] less.prems(2)]
    show ?thesis
    proof (cases ec)
      case (Some e)
      then show ?thesis using c f False by (subst receive.simps) simp
    next
      case None
      have n: "0 < n" and r: "rx h buf = rx h1 (drop n buf)" and nc: "\<not> consuming h1 (drop n buf)" and i: "hybi13_inv h1"
        using f None con less.prems by auto
      have shorter: "length (drop n buf) < length buf" using n False by simp
      show ?thesis
      proof (cases "hstate h1 = READY")
        case True
        obtain h2 m where g: "get_message h1 = (h2, m)" by (cases "get_message h1")
        have "hybi13_inv h2" "hstate h2 \<noteq> READY" "m_bytes_needed h2 \<noteq> 0"
          using inv_get_message [OF i True] g True
          by (auto simp: get_message_def ready_def reset_headers_def Let_def)
        then have "receive h2 (drop n buf) = Some (rx h2 (drop n buf))" using less.hyps [OF shorter] by blast
        then show ?thesis using c None g r True False
          by (subst receive.simps) (simp add: ready_def rx_ready [OF True])
      next
        case nr: False
        then have "drop n buf = []" "m_bytes_needed h1 \<noteq> 0"
          using nc i by (auto simp: consuming_def hybi13_inv_def)
        then show ?thesis using c None r nr False rx_idle [OF nr nc]
          by (subst receive.simps) (simp add: ready_def receive.simps)
      qed
    qed
  qed
qed

lemma feed_rx:
  assumes "hybi13_inv h" "hstate h \<noteq> READY" "m_bytes_needed h \<noteq> 0"
  shows "\<exists>r. feed h chunks = Some r \<and> same_result r (rx h (concat chunks))"
  using assms
proof (induction chunks arbitrary: h)
  case Nil
  then show ?case by (simp add: rx_idle consuming_def)
next
  case (Cons c cs)
  obtain h1 ms ec where r: "rx h c = (h1, ms, ec)" by (metis prod_cases3)
  note app = rx_append [OF Cons.prems(1), of c "concat cs", unfolded r]
  show ?case
  proof (cases ec)
    case None
    then have "hybi13_inv h1 \<and> hstate h1 \<noteq> READY \<and> m_bytes_needed h1 \<noteq> 0"
      using rx_inv [OF Cons.prems(1)] r by simp
    then obtain s where s: "feed h1 cs = Some s" "same_result s (rx h1 (concat cs))" using Cons.IH by blast
    obtain h2 ms2 ec2 where s2: "s = (h2, ms2, ec2)" by (metis prod_cases3)
    obtain h3 ms3 ec3 where s3: "rx h1 (concat cs) = (h3, ms3, ec3)" by (metis prod_cases3)
    have "same_result (h2, ms @ ms2, ec2) (then_rx (h1, ms, ec) (concat cs))"
      using s(2) None by (simp add: s2 s3 then_rx_def same_result_def)
    then have "same_result (h2, ms @ ms2, ec2) (rx h (concat (c # cs)))"
      using same_result_trans [OF _ same_result_sym [OF app]] by simp
    then show ?thesis using r None s s2 receive_rx [OF Cons.prems] by simp
  next
    case (Some e)
    then show ?thesis using app r receive_rx [OF Cons.prems] by (simp add: then_rx_def same_result_sym)
  qed
qed

lemma rx_error:
  "hybi13_inv h \<Longrightarrow> rx h buf = (h1, ms, Some e) \<Longrightarrow> \<exists>p. e = Processor p"
proof (induction h buf arbitrary: ms rule: rx.induct)
  case (1 h buf)
  consider "hstate h = READY" | "hstate h \<noteq> READY" "consuming h buf" | "hstate h \<noteq> READY" "\<not> consuming h buf" by blast
  then show ?case
  proof cases
    case 1
    obtain h2 m where g: "get_message h = (h2, m)" by (cases "get_message h")
    obtain ms2 where "rx h2 buf = (h1, ms2, Some e)"
      using "1.prems"(2) rx_ready [OF 1] g by (auto simp: with_msg_def split: prod.splits)
    then show ?thesis using "1.IH"(1) [OF 1 g [symmetric]] inv_get_message [OF "1.prems"(1) 1] g by simp
  next
    case 2
    obtain h2 n ec where c: "consume_step h buf = (h2, n, ec)" by (metis prod_cases3)
    show ?thesis
    proof (cases ec)
      case None
      then have cn: "consume_step h buf = (h2, n, None)" using c by simp
      then have "rx h2 (drop n buf) = (h1, ms, Some e)" using "1.prems"(2) rx_step [OF 2(2)] by simp
      then show ?thesis using "1.IH"(2) [OF 2 cn [symmetric] refl refl] inv_consume_step [OF "1.prems"(1) 2(2) cn] by blast
    next
      case (Some e2)
      then have "e2 = e" using "1.prems"(2) rx_step [OF 2(2)] c by simp
      then show ?thesis using inv_consume_step_error [OF "1.prems"(1) 2(2)] c Some by metis
    qed
  next
    case 3
    then show ?thesis using "1.prems"(2) rx_idle by simp
  qed
qed

lemma new_hybi13_fields [simp]:
  "hstate (new_hybi13 s mx) = HEADER_BASIC" "m_bytes_needed (new_hybi13 s mx) = 2"
  "m_server (new_hybi13 s mx) = s" "m_max_message_size (new_hybi13 s mx) = mx"
  "m_extended_header (new_hybi13 s mx) = empty_extended_header" "msg_ptr (m_data_msg (new_hybi13 s mx)) = None"
  by (simp_all add: new_hybi13_def reset_headers_def empty_metadata_def)

subsection \<open>A frame through the processor\<close>

text \<open>A processor that waits for the first byte of a frame.\<close>

definition idle :: "hybi13 \<Rightarrow> bool" where
  "idle h \<longleftrightarrow> hybi13_inv h \<and> hstate h = HEADER_BASIC \<and> m_bytes_needed h = 2 \<and>
     m_extended_header h = empty_extended_header"

lemma idle_new [simp]: "idle (new_hybi13 s mx)"
  by (simp add: idle_def)

lemma idle_reset: "metadata_ok (m_data_msg h) \<Longrightarrow> metadata_ok (m_control_msg h) \<Longrightarrow> idle (reset_headers h)"
  using inv_reset [of h] by (simp add: idle_def reset_headers_def)

text \<open>The two bytes of the basic header.\<close>

definition key_bytes :: "bool \<Rightarrow> u32 \<Rightarrow> byte list" where
  "key_bytes msk key = (if msk then wr_le 4 key else [])"

lemma length_key_bytes [simp]: "length (key_bytes msk key) = (if msk then 4 else 0)"
  by (simp add: key_bytes_def)

lemma unat_small [simp]: "n < 2 ^ 64 \<Longrightarrow> unat (word_of_nat n :: u64) = n"
  by (simp add: unsigned_of_nat take_bit_nat_eq_self)

definition in_header :: "basic_header \<Rightarrow> nat \<Rightarrow> hybi13 \<Rightarrow> hybi13" where
  "in_header bh k h = h\<lparr>m_basic_header := bh, m_bytes_needed := word_of_nat k, hstate := HEADER_EXTENDED, m_cursor := 0\<rparr>"

lemma rx_basic_header:
  assumes "idle h" "bh = make_basic_header op sz fin msk r1 r2 r3"
    and "validate_incoming_basic_header bh (m_server h) (msg_ptr (m_data_msg h) = None) = None"
  shows "rx h (b0 bh # b1 bh # buf) =
    rx (in_header bh (length (size_field sz @ key_bytes msk key)) h) buf"
proof -
  have con: "consuming h (b0 bh # b1 bh # buf)" using assms(1) by (simp add: idle_def consuming_def)
  have cp: "copy_basic_header_bytes h (b0 bh # b1 bh # buf) = (h\<lparr>m_basic_header := bh, m_bytes_needed := 0\<rparr>, 2)"
    using assms(1) by (simp add: copy_basic_header_bytes_def Let_def idle_def)
  have "get_header_len bh - BASIC_HEADER_LENGTH = length (size_field sz @ key_bytes msk key)"
    by (simp add: assms(2) BASIC_HEADER_LENGTH_def del: length_size_field)
  then have "consume_step h (b0 bh # b1 bh # buf) =
      (in_header bh (length (size_field sz @ key_bytes msk key)) h, 2, None)"
    using assms(1,3) by (simp add: consume_step_def idle_def consume_basic_def cp in_header_def)
  then show ?thesis by (simp add: rx_step [OF con])
qed

text \<open>The rest of the header; \<open>start_frame\<close> decides what the payload is read into.\<close>

lemma payload_size_minimal:
  "validate_incoming_extended_header (make_basic_header op sz fin msk r1 r2 r3) (size_field sz @ rest) = None"
proof (cases sz rule: basic_value_cases)
  case short
  have "unat (ucast sz :: byte) \<le> 125" using short ucast_short by simp
  then have "(ucast sz :: byte) \<noteq> 126" "(ucast sz :: byte) \<noteq> 127" by auto
  then show ?thesis using short
    by (simp add: validate_incoming_extended_header_def get_payload_size_make size_defs)
qed (simp_all add: validate_incoming_extended_header_def get_payload_size_make size_defs word_le_nat_alt)

lemma get_key_make:
  "get_masking_key (make_basic_header op sz fin msk r1 r2 r3) (size_field sz @ key_bytes msk key @ rest) =
     (if msk then key else 0)"
  using get_masking_key_make [of op sz fin msk r1 r2 r3 key rest]
  by (cases msk) (simp_all add: key_bytes_def get_masking_key_def)

definition header_read :: "basic_header \<Rightarrow> byte list \<Rightarrow> u64 \<Rightarrow> hybi13 \<Rightarrow> hybi13" where
  "header_read bh e sz h = h\<lparr>m_basic_header := bh, m_extended_header := store_at 0 e empty_extended_header,
     m_cursor := length e, hstate := APPLICATION, m_bytes_needed := sz\<rparr>"

lemma rx_extended_header:
  fixes h bh sz key op fin r1 r2 r3 msk
  defines "e \<equiv> size_field sz @ key_bytes msk key"
  assumes "idle h" "bh = make_basic_header op sz fin msk r1 r2 r3"
    and "start_frame (header_read bh e sz h) = (h3, None)"
  shows "rx (in_header bh (length e) h) (e @ buf) = rx h3 buf"
proof -
  let ?h1 = "in_header bh (length e) h"
  have le: "length e \<le> 12" by (simp add: e_def)
  have con: "consuming ?h1 (e @ buf)"
    by (cases "e = []") (simp_all add: consuming_def in_header_def)
  have n: "unat (m_bytes_needed ?h1) = length e" using le by (simp add: in_header_def del: of_nat_numeral)
  have cp: "copy_extended_header_bytes ?h1 (e @ buf) =
      (h\<lparr>m_basic_header := bh, m_extended_header := store_at 0 e empty_extended_header, m_cursor := length e,
        m_bytes_needed := 0, hstate := HEADER_EXTENDED\<rparr>, length e)"
    unfolding copy_extended_header_bytes_def Let_def n using assms(2) by (simp add: in_header_def idle_def)
  have st: "store_at 0 e empty_extended_header = size_field sz @ key_bytes msk key @ drop (length e) empty_extended_header"
    by (simp add: store_at_def e_def)
  have v: "validate_incoming_extended_header bh (store_at 0 e empty_extended_header) = None"
    "get_payload_size bh (store_at 0 e empty_extended_header) = sz"
    by (simp_all add: assms(3) st payload_size_minimal get_payload_size_make)
  have "consume_extended ?h1 (e @ buf) = (h3, length e, None)"
    using assms(4) by (simp add: consume_extended_def cp v header_read_def)
  moreover have "hstate ?h1 = HEADER_EXTENDED" by (simp add: in_header_def)
  ultimately show ?thesis using rx_step [OF con] by (simp add: consume_step_def)
qed

text \<open>The payload, all of it, and the end of the frame.\<close>

lemma rx_payload:
  assumes "hybi13_inv h" "hstate h = APPLICATION" "current_msg h = Some md" "msg_ptr md = Some m"
    and sz: "m_bytes_needed h = word_of_nat (length body)" "length body < 2 ^ 64"
    and chunk: "chunk_done (get_masked (m_basic_header h)) body md = (md1, True)"
    and fin: "end_of_frame ((set_current_msg md1 h)\<lparr>m_bytes_needed := 0\<rparr>) = (h2, None)"
  shows "rx h (body @ buf) = rx h2 buf"
proof -
  have n: "unat (m_bytes_needed h) = length body" using sz by simp
  then have con: "consuming h (body @ buf)"
    using assms(2) by (cases "body = []") (simp_all add: consuming_def unat_eq_0)
  have "consume_application h (body @ buf) = (h2, length body, None)"
  proof (cases "body = []")
    case True
    obtain b where b: "md = b" by simp
    have md1: "md1 = md" using chunk True assms(4)
      by (cases md) (auto simp: chunk_done_def Let_def byte_mask_circ_def circshift_prepared_key_def split: if_splits)
    have "(set_current_msg md h)\<lparr>m_bytes_needed := 0\<rparr> = h"
      using sz(1) True assms(3)
      by (cases h) (auto simp: set_current_msg_def current_msg_def split: option.splits msg_slot.splits)
    then show ?thesis using fin n True md1 by (simp add: consume_application_eq after_payload_def unat_eq_0)
  next
    case False
    have "process_payload_bytes h body = ((set_current_msg md1 h)\<lparr>m_bytes_needed := 0\<rparr>, length body, None)"
      using chunk sz(1) by (simp add: process_payload_chunk [OF assms(3,4)])
    then show ?thesis using n False fin
      by (simp add: consume_application_eq after_payload_def Let_def)
  qed
  then show ?thesis using rx_step [OF con] assms(2) by (simp add: consume_step_def)
qed

subsection \<open>A message from one end to the other\<close>

text \<open>What the receiver gets, and the bytes on the wire.\<close>

definition delivered :: "opval \<Rightarrow> byte list \<Rightarrow> ws_msg" where
  "delivered op payload = (new_message op)\<lparr>m_payload := payload\<rparr>"

definition wire_body :: "bool \<Rightarrow> u32 \<Rightarrow> byte list \<Rightarrow> byte list" where
  "wire_body msk key payload = (if msk then byte_mask payload key 0 else payload)"

definition frame_bytes :: "opval \<Rightarrow> bool \<Rightarrow> bool \<Rightarrow> u32 \<Rightarrow> byte list \<Rightarrow> byte list" where
  "frame_bytes op fin msk key payload =
     (let sz = word_of_nat (length payload); bh = make_basic_header op sz fin msk False False False
      in b0 bh # b1 bh # size_field sz @ key_bytes msk key @ wire_body msk key payload)"

lemma length_wire_body [simp]: "length (wire_body msk key payload) = length payload"
  by (simp add: wire_body_def byte_mask_eq)

lemma prepared_frame_bytes:
  "(if msk then prepare_header (make_basic_header op (word_of_nat (length payload)) fin msk False False False)
        (extended_header_key (word_of_nat (length payload)) key)
    else prepare_header (make_basic_header op (word_of_nat (length payload)) fin msk False False False)
        (extended_header_size (word_of_nat (length payload)))) @ wire_body msk key payload =
   frame_bytes op fin msk key payload"
  by (cases msk) (simp_all add: frame_bytes_def Let_def prepare_header_key prepare_header_size key_bytes_def)

lemma prepare_data_frame_bytes:
  assumes "\<not> is_control (m_opcode m)" "m_opcode m = op_text \<longrightarrow> validate (m_payload m)"
  shows "\<exists>out'. prepare_data_frame h draw (Some m) (Some out) = (Some out', None) \<and>
    m_header out' @ m_payload out' =
      frame_bytes (m_opcode m) (m_fin m) (\<not> m_server h) (if m_server h then 0 else draw) (m_payload m) \<and>
    m_opcode out' = m_opcode m \<and> m_prepared out' \<and> m_terminal out' = m_terminal out"
  using assms prepared_frame_bytes [of "\<not> m_server h" "m_opcode m" "m_payload m" "m_fin m" "if m_server h then 0 else draw"]
  by (auto simp: prepare_data_frame_def pmd_is_enabled_def Let_def masked_copy_def wire_body_def byte_mask_eq)

lemma prepare_control_bytes:
  assumes "is_control op" "length payload \<le> 125"
  shows "\<exists>out'. prepare_control h draw op payload (Some out) = (Some out', None) \<and>
    m_header out' @ m_payload out' = frame_bytes op True (\<not> m_server h) draw payload \<and>
    m_opcode out' = op \<and> m_prepared out' \<and> m_terminal out' = m_terminal out"
proof -
  have k: "key_bytes False draw = key_bytes False 0" "wire_body False draw = wire_body False 0" for draw
    by (simp_all add: key_bytes_def wire_body_def fun_eq_iff)
  show ?thesis
    using assms prepared_frame_bytes [of "\<not> m_server h" op payload True draw]
    by (auto simp: prepare_control_def Let_def masked_copy_def wire_body_def size_defs byte_mask_eq)
qed

text \<open>A payload of a new message, unmasked and validated in one chunk.\<close>

lemma chunk_new_message:
  assumes "op = op_text \<longrightarrow> validate payload"
  shows "\<exists>v. chunk_done msk (wire_body msk key payload) (make_metadata (new_message op) key) =
      (\<lparr>msg_ptr = Some (delivered op payload),
        prepared_key = (if msk then key_at (wr_le 4 key) (length payload) else key_at (wr_le 4 key) 0),
        msg_validator = v\<rparr>, True) \<and>
    validator_ok v \<and> (op = op_text \<longrightarrow> validator_complete v)"
proof -
  have k: "prepare_masking_key key = key_at (wr_le 4 key) 0" by (rule prepare_masking_key_eq)
  have b: "byte_mask_circ (byte_mask payload key 0) (key_at (wr_le 4 key) 0) =
      (payload, key_at (wr_le 4 key) (length payload))"
    by (simp add: byte_mask_circ_eq byte_mask_eq)
  obtain v ok where v: "validator_decode payload new_validator = (v, ok)"
    by (cases "validator_decode payload new_validator")
  show ?thesis
  proof (cases "op = op_text")
    case True
    then have "validate payload" using assms by simp
    then have ok: "ok" "validator_complete v" by (simp_all add: validate_def v split: if_splits)
    have "validator_ok v" using validator_decode_run [OF validator_ok_new v] ok(1) by simp
    then show ?thesis using True v ok
      by (intro exI [of _ v]) (simp add: chunk_done_def make_metadata_def wire_body_def k b new_message_def delivered_def)
  next
    case False
    then show ?thesis
      by (intro exI [of _ new_validator])
        (simp add: chunk_done_def make_metadata_def wire_body_def k b new_message_def delivered_def)
  qed
qed

text \<open>A frame that makes a whole message, into whatever \<open>start_frame\<close> chose for it.\<close>

lemma rx_whole_frame:
  fixes h :: hybi13 and payload :: "byte list"
  assumes "idle h" and lt: "length payload < 2 ^ 64" and op: "op mod 16 = op" "op = op_text \<longrightarrow> validate payload"
    and bh: "bh = make_basic_header op (word_of_nat (length payload)) True msk False False False"
    and e: "e = size_field (word_of_nat (length payload)) @ key_bytes msk key"
    and vb: "validate_incoming_basic_header bh (m_server h) (msg_ptr (m_data_msg h) = None) = None"
    and sf: "start_frame (header_read bh e (word_of_nat (length payload)) h) = (h3, None)"
    and h3: "hybi13_inv h3" "current_msg h3 = Some (make_metadata (new_message op) (if msk then key else 0))"
      "hstate h3 = APPLICATION" "m_basic_header h3 = bh" "m_bytes_needed h3 = word_of_nat (length payload)"
  shows "\<exists>md1. metadata_ok md1 \<and> msg_ptr md1 = Some (delivered op payload) \<and>
    rx h (frame_bytes op True msk key payload @ buf) = rx ((set_current_msg md1 h3)\<lparr>m_bytes_needed := 0, hstate := READY\<rparr>) buf"
proof -
  define key' where "key' = (if msk then key else 0)"
  define md where "md = make_metadata (new_message op) key'"
  have bo: "get_opcode bh = op" "get_masked bh = msk" "get_fin bh" by (simp_all add: bh op(1))
  have wb: "wire_body msk key payload = wire_body msk key' payload" by (simp add: wire_body_def key'_def)
  obtain v where ch: "chunk_done msk (wire_body msk key payload) md =
      (\<lparr>msg_ptr = Some (delivered op payload), prepared_key = (if msk then key_at (wr_le 4 key') (length payload)
          else key_at (wr_le 4 key') 0), msg_validator = v\<rparr>, True)"
    and v: "validator_ok v" "op = op_text \<longrightarrow> validator_complete v"
    using chunk_new_message [OF op(2), of msk key'] unfolding wb md_def by blast
  define md1 where "md1 = fst (chunk_done msk (wire_body msk key payload) md)"
  have md1: "msg_ptr md1 = Some (delivered op payload)" "metadata_ok md1" "msg_validator md1 = v"
    using v(1) by (auto simp: md1_def ch metadata_ok_def)
  have md1': "md1\<lparr>msg_ptr := Some (delivered op payload)\<rparr> = md1" using md1(1) by (cases md1) simp
  have cur: "current_msg h3 = Some md" using h3(2) by (simp add: md_def key'_def)
  have again: "set_current_msg md1 ((set_current_msg md1 h3)\<lparr>m_bytes_needed := 0\<rparr>) = (set_current_msg md1 h3)\<lparr>m_bytes_needed := 0\<rparr>"
    by (rule set_current_again)
  have fin: "end_of_frame ((set_current_msg md1 h3)\<lparr>m_bytes_needed := 0\<rparr>) =
      ((set_current_msg md1 h3)\<lparr>m_bytes_needed := 0, hstate := READY\<rparr>, None)"
    using v(2) bo current_msg_Some [OF cur]
    by (simp add: end_of_frame_def finalize_message_def h3(4) md1 pmd_is_enabled_def Let_def md1' again)
  have "rx h (frame_bytes op True msk key payload @ buf) = rx (in_header bh (length e) h) (e @ wire_body msk key payload @ buf)"
    using rx_basic_header [OF assms(1) bh vb, of "e @ wire_body msk key payload @ buf" key]
    by (simp add: frame_bytes_def Let_def bh [symmetric] e)
  also have "\<dots> = rx h3 (wire_body msk key payload @ buf)"
    unfolding e by (rule rx_extended_header [OF assms(1) bh sf [unfolded e]])
  also have "\<dots> = rx ((set_current_msg md1 h3)\<lparr>m_bytes_needed := 0, hstate := READY\<rparr>) buf"
  proof (rule rx_payload [OF h3(1,3) cur])
    show "msg_ptr md = Some (new_message op)" by (simp add: md_def make_metadata_def)
    show "m_bytes_needed h3 = word_of_nat (length (wire_body msk key payload))" by (simp add: h3(5))
    show "length (wire_body msk key payload) < 2 ^ 64" using lt by simp
    show "chunk_done (get_masked (m_basic_header h3)) (wire_body msk key payload) md = (md1, True)"
      using ch by (simp add: h3(4) bo md1_def)
  qed (rule fin)
  finally show ?thesis using md1(1,2) by blast
qed

lemma header_read_fields [simp]:
  "m_basic_header (header_read bh e sz h) = bh" "m_data_msg (header_read bh e sz h) = m_data_msg h"
  "m_control_msg (header_read bh e sz h) = m_control_msg h" "m_bytes_needed (header_read bh e sz h) = sz"
  "m_max_message_size (header_read bh e sz h) = m_max_message_size h" "m_server (header_read bh e sz h) = m_server h"
  "hstate (header_read bh e sz h) = APPLICATION"
  "m_extended_header (header_read bh e sz h) = store_at 0 e empty_extended_header"
  by (simp_all add: header_read_def)

lemma key_header_read:
  assumes "bh = make_basic_header op sz fin msk r1 r2 r3" "e = size_field sz @ key_bytes msk key"
  shows "get_masking_key bh (store_at 0 e empty_extended_header) = (if msk then key else 0)"
proof -
  have "store_at 0 e empty_extended_header = size_field sz @ key_bytes msk key @ drop (length e) empty_extended_header"
    by (simp add: store_at_def assms(2))
  then show ?thesis by (simp add: assms(1) get_key_make)
qed

lemma take_out_message:
  assumes "hstate h = READY" "current_msg h = Some md" "msg_ptr md = Some m"
    and "metadata_ok md" "metadata_ok (m_data_msg h)" "metadata_ok (m_control_msg h)"
    and "is_control (m_opcode m) \<longleftrightarrow> m_current_msg h = Some Control_msg"
    and "m_current_msg h = Some Data_msg \<or> msg_ptr (m_data_msg h) = None"
  shows "\<exists>h'. get_message h = (h', Some m) \<and> idle h' \<and> msg_ptr (m_data_msg h') = None \<and> m_server h' = m_server h \<and>
    m_max_message_size h' = m_max_message_size h"
proof -
  obtain h' where g: "get_message h = (reset_headers h', Some m)" "metadata_ok (m_data_msg h')" "metadata_ok (m_control_msg h')"
    "msg_ptr (m_data_msg h') = None" "m_server h' = m_server h" "m_max_message_size h' = m_max_message_size h"
    using assms by (auto simp: get_message_def ready_def Let_def current_msg_def set_current_msg_def
        split: option.splits msg_slot.splits)
  then show ?thesis using idle_reset [of h'] by (intro exI [of _ "reset_headers h'"]) (simp add: reset_headers_def)
qed

lemma rx_data_frame:
  assumes h: "idle h" "msg_ptr (m_data_msg h) = None"
    and op: "op = op_text \<or> op = op_binary" "op = op_text \<longrightarrow> validate payload"
    and len: "length payload \<le> unat (m_max_message_size h)"
    and msk: "msk = m_server h"
  shows "\<exists>h'. idle h' \<and> msg_ptr (m_data_msg h') = None \<and> m_server h' = m_server h \<and>
    m_max_message_size h' = m_max_message_size h \<and>
    rx h (frame_bytes op True msk key payload @ buf) = with_msg (Some (delivered op payload)) (rx h' buf)"
proof -
  define sz where "sz = (word_of_nat (length payload) :: u64)"
  define bh where "bh = make_basic_header op sz True msk False False False"
  define e where "e = size_field sz @ key_bytes msk key"
  have lt: "length payload < 2 ^ 64"
    using len unsigned_less [of "m_max_message_size h", where 'a = nat] by simp
  have opn: "op mod 16 = op" "\<not> is_control op" "\<not> op_reserved op" "\<not> op_invalid op" "op \<noteq> op_continuation"
    using op(1) by (auto simp: op_defs is_control_def op_reserved_def op_invalid_def)
  have bo: "get_opcode bh = op" by (simp add: bh_def opn(1))
  have vb: "validate_incoming_basic_header bh (m_server h) (msg_ptr (m_data_msg h) = None) = None"
    using opn h(2) msk by (simp add: validate_incoming_basic_header_def Let_def bo) (simp add: bh_def)
  define md where "md = make_metadata (new_message op) (if msk then key else 0)"
  define h3 where "h3 = (header_read bh e sz h)\<lparr>m_data_msg := md, m_current_msg := Some Data_msg\<rparr>"
  have "\<not> sz > m_max_message_size h" using len lt by (simp add: sz_def word_less_nat_alt)
  then have sf: "start_frame (header_read bh e sz h) = (h3, None)"
    using opn(2) h(2) by (simp add: start_frame_def Let_def bo key_header_read [OF bh_def e_def] pmd_is_enabled_def h3_def md_def)
  have le: "length e \<le> 12" by (simp add: e_def)
  have inv3: "hybi13_inv h3" using h(1) le
    by (simp add: h3_def header_read_def md_def idle_def hybi13_inv_def current_msg_def) (simp add: make_metadata_def)
  obtain md1 where md1: "metadata_ok md1" "msg_ptr md1 = Some (delivered op payload)"
    "rx h (frame_bytes op True msk key payload @ buf) =
       rx ((set_current_msg md1 h3)\<lparr>m_bytes_needed := 0, hstate := READY\<rparr>) buf"
    using rx_whole_frame [OF h(1) lt opn(1) op(2) bh_def [unfolded sz_def] e_def [unfolded sz_def] vb
        sf [unfolded sz_def] inv3, of buf]
    by (auto simp: h3_def current_msg_def md_def sz_def)
  define h4 where "h4 = (set_current_msg md1 h3)\<lparr>m_bytes_needed := 0, hstate := READY\<rparr>"
  obtain h' where "get_message h4 = (h', Some (delivered op payload))" "idle h'" "msg_ptr (m_data_msg h') = None"
    "m_server h' = m_server h4" "m_max_message_size h' = m_max_message_size h4"
    using take_out_message [of h4 md1 "delivered op payload"] md1(1,2) h(1) opn(2)
    by (auto simp: h4_def h3_def set_current_msg_def current_msg_def idle_def hybi13_inv_def delivered_def new_message_def)
  moreover have "hstate h4 = READY" by (simp add: h4_def)
  ultimately show ?thesis
    using md1(3) by (intro exI [of _ h']) (simp add: rx_ready h4_def [symmetric], simp add: h4_def h3_def)
qed

lemma rx_control_frame:
  assumes h: "idle h" and op: "op \<in> {op_close, op_ping, op_pong}" and len: "length payload \<le> 125"
    and data: "msg_ptr (m_data_msg h) = None" and msk: "msk = m_server h"
  shows "\<exists>h'. idle h' \<and> msg_ptr (m_data_msg h') = None \<and> m_server h' = m_server h \<and>
    m_max_message_size h' = m_max_message_size h \<and>
    rx h (frame_bytes op True msk key payload @ buf) = with_msg (Some (delivered op payload)) (rx h' buf)"
proof -
  define sz where "sz = (word_of_nat (length payload) :: u64)"
  define bh where "bh = make_basic_header op sz True msk False False False"
  define e where "e = size_field sz @ key_bytes msk key"
  have lt: "length payload < 2 ^ 64" using len by simp
  have opn: "op mod 16 = op" "is_control op" "\<not> op_reserved op" "\<not> op_invalid op" "op \<noteq> op_continuation" "op \<noteq> op_text"
    using op by (auto simp: op_defs is_control_def op_reserved_def op_invalid_def)
  have bo: "get_opcode bh = op" by (simp add: bh_def opn(1))
  have "unat sz \<le> 125" using len lt by (simp add: sz_def)
  then have "\<not> basic_value sz > 125"
    by (simp add: basic_value_def size_defs word_le_nat_alt word_less_nat_alt ucast_short)
  then have vb: "validate_incoming_basic_header bh (m_server h) (msg_ptr (m_data_msg h) = None) = None"
    using opn msk by (simp add: validate_incoming_basic_header_def Let_def bo) (simp add: bh_def payload_size_basic_def)
  define md where "md = make_metadata (new_message op) (if msk then key else 0)"
  define h3 where "h3 = (header_read bh e sz h)\<lparr>m_control_msg := md, m_current_msg := Some Control_msg\<rparr>"
  have sf: "start_frame (header_read bh e sz h) = (h3, None)"
    using opn(2) by (simp add: start_frame_def Let_def bo key_header_read [OF bh_def e_def] h3_def md_def)
  have le: "length e \<le> 12" by (simp add: e_def)
  have inv3: "hybi13_inv h3" using h(1) le
    by (simp add: h3_def header_read_def md_def idle_def hybi13_inv_def current_msg_def) (simp add: make_metadata_def)
  obtain md1 where md1: "metadata_ok md1" "msg_ptr md1 = Some (delivered op payload)"
    "rx h (frame_bytes op True msk key payload @ buf) =
       rx ((set_current_msg md1 h3)\<lparr>m_bytes_needed := 0, hstate := READY\<rparr>) buf"
    using rx_whole_frame [OF h(1) lt opn(1) _ bh_def [unfolded sz_def] e_def [unfolded sz_def] vb
        sf [unfolded sz_def] inv3, of buf] opn(6)
    by (auto simp: h3_def current_msg_def md_def sz_def)
  define h4 where "h4 = (set_current_msg md1 h3)\<lparr>m_bytes_needed := 0, hstate := READY\<rparr>"
  obtain h' where "get_message h4 = (h', Some (delivered op payload))" "idle h'" "msg_ptr (m_data_msg h') = None"
    "m_server h' = m_server h4" "m_max_message_size h' = m_max_message_size h4"
    using take_out_message [of h4 md1 "delivered op payload"] md1(1,2) h(1) opn(2) data
    by (auto simp: h4_def h3_def set_current_msg_def current_msg_def idle_def hybi13_inv_def delivered_def new_message_def)
  moreover have "hstate h4 = READY" by (simp add: h4_def)
  ultimately show ?thesis
    using md1(3) by (intro exI [of _ h']) (simp add: rx_ready h4_def [symmetric], simp add: h4_def h3_def)
qed

text \<open>A message that may be sent and received, and the bytes that the sender writes for it.\<close>

definition sendable :: "u64 \<Rightarrow> ws_msg \<Rightarrow> bool" where
  "sendable mx m \<longleftrightarrow> (m_opcode m = op_text \<and> validate (m_payload m) \<or> m_opcode m = op_binary) \<and>
     m_fin m \<and> length (m_payload m) \<le> unat mx"

definition wire :: "hybi13 \<Rightarrow> u32 \<Rightarrow> ws_msg \<Rightarrow> byte list" where
  "wire h draw m = (case prepare_data_frame h draw (Some m) (Some blank_message) of
     (Some out, None) \<Rightarrow> m_header out @ m_payload out | _ \<Rightarrow> [])"

lemma wire_frame_bytes:
  assumes "sendable mx m"
  shows "wire h draw m = frame_bytes (m_opcode m) True (\<not> m_server h) (if m_server h then 0 else draw) (m_payload m)"
proof -
  have "\<not> is_control (m_opcode m)" "m_opcode m = op_text \<longrightarrow> validate (m_payload m)" "m_fin m"
    using assms by (auto simp: sendable_def is_control_def op_defs)
  then show ?thesis using prepare_data_frame_bytes [of m h draw blank_message] by (auto simp: wire_def)
qed

lemma rx_messages:
  assumes "idle h" "msg_ptr (m_data_msg h) = None" "m_server sender = (\<not> m_server h)"
    and "list_all (sendable (m_max_message_size h)) ms" "length keys = length ms"
  shows "snd (rx h (concat (map2 (wire sender) keys ms))) = (map (\<lambda>m. delivered (m_opcode m) (m_payload m)) ms, None)"
  using assms(5,1-4)
proof (induction keys ms arbitrary: h rule: list_induct2)
  case Nil
  then show ?case by (simp add: rx_idle consuming_def idle_def)
next
  case (Cons d keys m ms)
  define key where "key = (if m_server sender then 0 else d)"
  have s: "sendable (m_max_message_size h) m" using Cons.prems(4) by simp
  have w: "wire sender d m = frame_bytes (m_opcode m) True (m_server h) key (m_payload m)"
    using wire_frame_bytes [OF s, of sender d] Cons.prems(3) by (simp add: key_def)
  have op: "m_opcode m = op_text \<or> m_opcode m = op_binary" "m_opcode m = op_text \<longrightarrow> validate (m_payload m)"
    "length (m_payload m) \<le> unat (m_max_message_size h)"
    using s by (auto simp: sendable_def op_defs)
  obtain h' where h': "idle h'" "msg_ptr (m_data_msg h') = None" "m_server h' = m_server h"
    "m_max_message_size h' = m_max_message_size h"
    "rx h (wire sender d m @ concat (map2 (wire sender) keys ms)) =
       with_msg (Some (delivered (m_opcode m) (m_payload m))) (rx h' (concat (map2 (wire sender) keys ms)))"
    using rx_data_frame [OF Cons.prems(1,2) op refl, of key] unfolding w by blast
  have "snd (rx h' (concat (map2 (wire sender) keys ms))) = (map (\<lambda>m. delivered (m_opcode m) (m_payload m)) ms, None)"
    using Cons.IH [OF h'(1,2)] h'(3,4) Cons.prems(3,4) by simp
  then show ?case using h'(5) by (simp add: with_msg_def split: prod.splits)
qed

subsection \<open>Properties\<close>

text \<open>
  C16: How a stream is cut into buffers makes no difference: a new processor that is fed one buffer after the
  other delivers the same messages and the same error as for the whole stream at once.  The loop always
  ends, and no null pointer is followed: an error is one of the processor's own.
\<close>
theorem stream_may_be_cut:
  "map_option snd (feed (new_hybi13 server mx) chunks) = map_option snd (receive (new_hybi13 server mx) (concat chunks)) \<and>
   (\<exists>h ms ec. receive (new_hybi13 server mx) (concat chunks) = Some (h, ms, ec) \<and> (ec = None \<or> (\<exists>p. ec = Some (Processor p))))"
proof -
  let ?h = "new_hybi13 server mx"
  have i: "hybi13_inv ?h" "hstate ?h \<noteq> READY" "m_bytes_needed ?h \<noteq> 0" by simp_all
  obtain r where r: "feed ?h chunks = Some r" "same_result r (rx ?h (concat chunks))" using feed_rx [OF i] by blast
  obtain h ms ec where x: "rx ?h (concat chunks) = (h, ms, ec)" by (metis prod_cases3)
  have "ec = None \<or> (\<exists>p. ec = Some (Processor p))" using rx_error [OF i(1)] x by (cases ec) auto
  then show ?thesis using r x by (simp add: receive_rx [OF i] same_result_def)
qed

text \<open>
  C15: What one end sends is what the other end receives: when a sender prepares any number of text and binary
  messages (texts valid UTF-8, none above the size limit), with any masking keys, and the bytes arrive in any
  pieces, the peer delivers exactly those messages, in order, and reports no error.
\<close>
theorem messages_arrive:
  assumes "list_all (sendable mx) ms" "length keys = length ms" "m_server sender = (\<not> server)"
    and "concat chunks = concat (map2 (wire sender) keys ms)"
  shows "map_option snd (feed (new_hybi13 server mx) chunks) =
    Some (map (\<lambda>m. delivered (m_opcode m) (m_payload m)) ms, None)"
proof -
  let ?h = "new_hybi13 server mx"
  have i: "hybi13_inv ?h" "hstate ?h \<noteq> READY" "m_bytes_needed ?h \<noteq> 0" by simp_all
  obtain r where r: "feed ?h chunks = Some r" "same_result r (rx ?h (concat chunks))" using feed_rx [OF i] by blast
  have "snd (rx ?h (concat chunks)) = (map (\<lambda>m. delivered (m_opcode m) (m_payload m)) ms, None)"
    unfolding assms(4) using assms(1-3) by (intro rx_messages) simp_all
  then show ?thesis using r by (simp add: same_result_def)
qed

theorem messages_arrive_witness:
  "map_option snd (feed (new_hybi13 True 1000)
      [take 5 (wire (new_hybi13 False 1000) 0x11223344 (delivered op_text [104, 105])), drop 5 (wire (new_hybi13 False 1000) 0x11223344 (delivered op_text [104, 105]))]) =
    Some (map (\<lambda>m. delivered (m_opcode m) (m_payload m)) [delivered op_text [104, 105]], None)"
proof (rule messages_arrive [of _ _ "[0x11223344]"])
  show "list_all (sendable 1000) [delivered op_text [104, 105]]" by code_simp
qed (simp_all del: append_take_drop_id add: append_take_drop_id)

lemma receive_new: "receive (new_hybi13 server mx) buf = Some (rx (new_hybi13 server mx) buf)"
  by (simp add: receive_rx)

text \<open>The size limit of the program's configuration, \<open>max_message_size\<close> of \<open>config/core.hpp\<close>.\<close>

definition max_message_size :: u64 where
  "max_message_size = 32000000"

text \<open>
  C18: The UTF-8 check at the end of a text message looks at the opcode of the last frame.  When the message
  came in fragments that is a continuation: the end of the text is not checked, whatever the validator's
  state, and a truncated text is delivered that is refused when it comes in one frame.
\<close>
theorem fragmented_text_not_checked:
  "(get_opcode (m_basic_header h) \<noteq> op_text \<longrightarrow> snd (finalize_message h) \<noteq> Some (Processor Proc_invalid_utf8)) \<and>
   map_option snd (receive (new_hybi13 False max_message_size) [0x01, 0x01, 0xE2, 0x80, 0x01, 0x82]) =
     Some ([delivered op_text [0xE2, 0x82]], None) \<and> \<not> validate [0xE2, 0x82] \<and>
   map_option snd (receive (new_hybi13 False max_message_size) [0x81, 0x02, 0xE2, 0x82]) =
     Some ([], Some (Processor Proc_invalid_utf8))"
proof (intro conjI impI)
  assume "get_opcode (m_basic_header h) \<noteq> op_text"
  then show "snd (finalize_message h) \<noteq> Some (Processor Proc_invalid_utf8)"
    by (auto simp: finalize_message_def pmd_is_enabled_def Let_def split: option.splits)
next
  show "map_option snd (receive (new_hybi13 False max_message_size) [0x01, 0x01, 0xE2, 0x80, 0x01, 0x82]) =
     Some ([delivered op_text [0xE2, 0x82]], None)" unfolding receive_new by code_simp
next
  show "\<not> validate [0xE2, 0x82]" by code_simp
next
  show "map_option snd (receive (new_hybi13 False max_message_size) [0x81, 0x02, 0xE2, 0x82]) =
     Some ([], Some (Processor Proc_invalid_utf8))" unfolding receive_new by code_simp
qed

theorem fragmented_text_not_checked_witness:
  "snd (finalize_message (new_hybi13 True 1)) \<noteq> Some (Processor Proc_invalid_utf8)"
proof -
  have "get_opcode (m_basic_header (new_hybi13 True 1)) \<noteq> op_text" by code_simp
  then show ?thesis using fragmented_text_not_checked by blast
qed

text \<open>
  C19: The size check of a continuation frame adds in 64 bits: for a frame whose size makes the sum wrap, every
  limit is passed.  After three bytes of a message and a continuation header the processor waits for 2^64 - 1
  more bytes, with the limit of the configuration at 32000000.
\<close>
theorem continuation_size_wraps:
  "(msg_ptr (m_data_msg h) = Some m \<and> \<not> is_control (get_opcode (m_basic_header h)) \<and>
      m_bytes_needed h = - word_of_nat (length (m_payload m)) \<longrightarrow> snd (start_frame h) = None) \<and>
   map_option (\<lambda>(h, ms, ec). (hstate h, m_bytes_needed h, ms, ec))
     (receive (new_hybi13 False max_message_size)
       [0x02, 0x03, 1, 2, 3, 0x80, 0x7F, 0xFF, 0xFF, 0xFF, 0xFF, 0xFF, 0xFF, 0xFF, 0xFF]) =
     Some (APPLICATION, 0xFFFFFFFFFFFFFFFF, [], None)"
proof (intro conjI impI)
  assume "msg_ptr (m_data_msg h) = Some m \<and> \<not> is_control (get_opcode (m_basic_header h)) \<and>
      m_bytes_needed h = - word_of_nat (length (m_payload m))"
  then show "snd (start_frame h) = None" by (simp add: start_frame_def Let_def)
next
  show "map_option (\<lambda>(h, ms, ec). (hstate h, m_bytes_needed h, ms, ec))
     (receive (new_hybi13 False max_message_size)
       [0x02, 0x03, 1, 2, 3, 0x80, 0x7F, 0xFF, 0xFF, 0xFF, 0xFF, 0xFF, 0xFF, 0xFF, 0xFF]) =
     Some (APPLICATION, 0xFFFFFFFFFFFFFFFF, [], None)" unfolding receive_new by code_simp
qed

definition wrapping_state :: hybi13 where
  "wrapping_state = (new_hybi13 False 1)\<lparr>m_data_msg := make_metadata (new_message op_binary) 0\<rparr>"

theorem continuation_size_wraps_witness:
  "snd (start_frame (wrapping_state\<lparr>m_bytes_needed := 0\<rparr>)) = None"
proof -
  have "msg_ptr (m_data_msg (wrapping_state\<lparr>m_bytes_needed := 0\<rparr>)) = Some (new_message op_binary)"
    "\<not> is_control (get_opcode (m_basic_header (wrapping_state\<lparr>m_bytes_needed := 0\<rparr>)))"
    "m_bytes_needed (wrapping_state\<lparr>m_bytes_needed := 0\<rparr>) = - word_of_nat (length (m_payload (new_message op_binary)))"
    by code_simp+
  then show ?thesis using continuation_size_wraps by blast
qed

end
