(* ===== verification/Ws_Connection.thy ===== *)
theory Ws_Connection
  imports Ws_Roundtrip
begin

section \<open>websocketpp: an open connection\<close>

text \<open>
  The part of \<open>impl/connection_impl.hpp\<close> that runs once the opening handshake is done: sending, the
  write queue, reading frames, control frames, the closing handshake and termination.  The fields of
  \<open>connection\<close> are those of the class that these functions use.  A function returns the new state and,
  in order, what it asks of the transport and which handlers of the application it calls
  (\<open>con_effect\<close>); log output is left out.  The message handler of the application runs inside
  \<open>handle_read_frame\<close> and may call the connection again: it is the argument \<open>app\<close>, which names the
  calls that it makes when it is called for the \<open>n\<close>-th time.  \<open>rng\<close> is the random generator; \<open>m_draws\<close> and
  \<open>handler_calls\<close> count how often it was asked and the message handler was called.  \<open>dispatch\<close>
  of the transport posts, so \<open>write_frame\<close> runs as an event of its own.  A timer pointer is the flag
  whether it is set.
\<close>

datatype con_state = Connecting | Open | Closing | Closed

datatype istate =
    USER_INIT | TRANSPORT_INIT | READ_HTTP_REQUEST | WRITE_HTTP_REQUEST
  | READ_HTTP_RESPONSE | WRITE_HTTP_RESPONSE | PROCESS_HTTP_REQUEST | PROCESS_CONNECTION

datatype terminate_status = T_failed | T_closed | T_unknown

datatype con_effect =
    Post_write_frame
  | Async_write_msgs "ws_msg list"        \<comment> \<open>header and payload of each\<close>
  | Async_read_some_bytes                 \<comment> \<open>\<open>async_read_at_least(1, \<dots>)\<close>\<close>
  | Async_shutdown terminate_status
  | Set_handshake_timer int
  | Cancel_handshake_timer
  | Set_ping_timer int "byte list"
  | Cancel_ping_timer
  | Call_message_handler ws_msg
  | Call_pong_handler "byte list"
  | Call_pong_timeout_handler "byte list"
  | Call_close_handler
  | Call_fail_handler
  | Call_termination_handler

record connection =
  m_is_server :: bool
  con_state :: con_state
  m_internal_state :: istate
  m_processor :: hybi13
  m_send_queue :: "ws_msg list"
  m_send_buffer_size :: nat
  m_current_msgs :: "ws_msg list"
  m_write_flag :: bool
  m_read_flag :: bool
  m_handshake_timer :: bool
  m_ping_timer :: bool
  m_close_handshake_timeout_dur :: int
  m_pong_timeout_dur :: int
  m_local_close_code :: close_code
  m_local_close_reason :: "byte list"
  m_remote_close_code :: close_code
  m_remote_close_reason :: "byte list"
  m_ec :: ws_ec
  m_was_clean :: bool
  m_ping_handler :: "(byte list \<Rightarrow> bool) option"
  m_pong_handler :: bool
  m_pong_timeout_handler :: bool
  m_message_handler :: bool
  m_close_handler :: bool
  m_fail_handler :: bool
  m_termination_handler :: bool
  m_draws :: nat
  handler_calls :: nat

text \<open>Constants of the configuration the program uses.\<close>

definition drop_on_protocol_error :: bool where "drop_on_protocol_error \<longleftrightarrow> False"
definition silent_close :: bool where "silent_close \<longleftrightarrow> False"
definition timeout_close_handshake :: int where "timeout_close_handshake = 5000"
definition timeout_pong :: int where "timeout_pong = 5000"

definition invalid_state :: ws_ec where
  "invalid_state = Some (Library Lib_invalid_state)"

text \<open>
  A connection after its opening handshake.  The members that the constructor sets keep their
  values; the handshake has cancelled its timer and made the processor.
\<close>

definition open_connection :: "bool \<Rightarrow> connection" where
  "open_connection server =
     \<lparr>m_is_server = server, con_state = Open, m_internal_state = PROCESS_CONNECTION,
      m_processor = new_hybi13 server max_message_size, m_send_queue = [], m_send_buffer_size = 0,
      m_current_msgs = [], m_write_flag = False, m_read_flag = True, m_handshake_timer = False,
      m_ping_timer = False, m_close_handshake_timeout_dur = timeout_close_handshake,
      m_pong_timeout_dur = timeout_pong, m_local_close_code = cc_abnormal_close, m_local_close_reason = [],
      m_remote_close_code = cc_abnormal_close, m_remote_close_reason = [], m_ec = None, m_was_clean = False,
      m_ping_handler = None, m_pong_handler = False, m_pong_timeout_handler = False, m_message_handler = True,
      m_close_handler = True, m_fail_handler = True, m_termination_handler = True, m_draws = 0,
      handler_calls = 0\<rparr>"

subsection \<open>Termination\<close>

definition terminate :: "ws_ec \<Rightarrow> connection \<Rightarrow> connection \<times> con_effect list" where
  "terminate ec c =
     (let effs = (if m_handshake_timer c then [Cancel_handshake_timer] else []);
          c1 = c\<lparr>m_handshake_timer := False\<rparr>;
          c2 = (case ec of None \<Rightarrow> c1
            | Some e \<Rightarrow> c1\<lparr>m_ec := ec, m_local_close_code := cc_abnormal_close,
                m_local_close_reason := bytes_of (ec_message e)\<rparr>)
      in case con_state c of
           Connecting \<Rightarrow> (c2\<lparr>con_state := Closed\<rparr>, effs @ [Async_shutdown T_failed])
         | Closed \<Rightarrow> (c2, effs)
         | _ \<Rightarrow> (c2\<lparr>con_state := Closed\<rparr>, effs @ [Async_shutdown T_closed]))"

definition handle_terminate :: "terminate_status \<Rightarrow> connection \<Rightarrow> con_effect list" where
  "handle_terminate tstat c =
     (case tstat of
        T_failed \<Rightarrow> if m_ec c \<noteq> Some (Library Lib_http_connection_ended) \<and> m_fail_handler c then [Call_fail_handler] else []
      | T_closed \<Rightarrow> if m_close_handler c then [Call_close_handler] else []
      | T_unknown \<Rightarrow> []) @
     (if m_termination_handler c then [Call_termination_handler] else [])"

definition handle_close_handshake_timeout :: "ws_ec \<Rightarrow> connection \<Rightarrow> connection \<times> con_effect list" where
  "handle_close_handshake_timeout ec c =
     (if ec = Some (Transport Tr_operation_aborted) then (c, [])
      else if ec \<noteq> None then (c, [])
      else terminate (Some (Library Lib_close_handshake_timeout)) c)"

subsection \<open>The write queue\<close>

definition write_push :: "ws_msg \<Rightarrow> connection \<Rightarrow> connection" where
  "write_push msg c =
     c\<lparr>m_send_buffer_size := m_send_buffer_size c + length (m_payload msg), m_send_queue := m_send_queue c @ [msg]\<rparr>"

definition write_pop :: "connection \<Rightarrow> connection \<times> ws_msg option" where
  "write_pop c =
     (case m_send_queue c of
        [] \<Rightarrow> (c, None)
      | msg # q \<Rightarrow> (c\<lparr>m_send_buffer_size := m_send_buffer_size c - length (m_payload msg), m_send_queue := q\<rparr>, Some msg))"

text \<open>The loop that pulls off the messages that are ready to write.\<close>

function pull_messages :: "connection \<Rightarrow> connection" where
  "pull_messages c =
     (case write_pop c of
        (c1, None) \<Rightarrow> c1
      | (c1, Some msg) \<Rightarrow>
          let c2 = c1\<lparr>m_current_msgs := m_current_msgs c1 @ [msg]\<rparr>
          in if m_terminal msg then c2 else pull_messages c2)"
  by pat_completeness auto
termination
  by (relation "measure (\<lambda>c. length (m_send_queue c))") (auto simp: write_pop_def split: list.splits)

declare pull_messages.simps [simp del]

definition write_frame :: "connection \<Rightarrow> connection \<times> con_effect list" where
  "write_frame c =
     (if m_write_flag c then (c, [])
      else let c1 = pull_messages c in
        if m_current_msgs c1 = [] then (c1, [])
        else (c1\<lparr>m_write_flag := True\<rparr>, [Async_write_msgs (m_current_msgs c1)]))"

text \<open>\<open>m_current_msgs.back()\<close> of an empty vector is undefined; \<open>con_inv\<close> rules it out.\<close>

definition handle_write_frame :: "ws_ec \<Rightarrow> connection \<Rightarrow> connection \<times> con_effect list" where
  "handle_write_frame ec c =
     (let terminal = m_terminal (last (m_current_msgs c)); c1 = c\<lparr>m_current_msgs := []\<rparr>
      in if ec \<noteq> None then terminate ec c1
         else if terminal then terminate None c1
         else let c2 = c1\<lparr>m_write_flag := False\<rparr>
              in (c2, if m_send_queue c2 \<noteq> [] then [Post_write_frame] else []))"

text \<open>The end of every function that queues a message.\<close>

definition push_and_post :: "ws_msg \<Rightarrow> connection \<Rightarrow> connection \<times> con_effect list" where
  "push_and_post msg c =
     (let c1 = write_push msg c
      in (c1, if \<not> m_write_flag c1 \<and> m_send_queue c1 \<noteq> [] then [Post_write_frame] else []))"

subsection \<open>Sending\<close>

text \<open>One number of the generator is used for a frame that a client prepares.\<close>

definition next_draw :: "(nat \<Rightarrow> u32) \<Rightarrow> connection \<Rightarrow> u32" where
  "next_draw rng c = rng (m_draws c)"

definition drawn :: "connection \<Rightarrow> connection" where
  "drawn c = (if m_is_server c then c else c\<lparr>m_draws := m_draws c + 1\<rparr>)"

definition send_msg :: "(nat \<Rightarrow> u32) \<Rightarrow> ws_msg \<Rightarrow> connection \<Rightarrow> connection \<times> con_effect list \<times> ws_ec" where
  "send_msg rng msg c =
     (if con_state c \<noteq> Open then (c, [], invalid_state)
      else if m_prepared msg then
        (let (c1, effs) = push_and_post msg c in (c1, effs, None))
      else case prepare_data_frame (m_processor c) (next_draw rng c) (Some msg) (Some blank_message) of
          (_, Some e) \<Rightarrow> (c, [], Some e)
        | (None, None) \<Rightarrow> (c, [], None)
        | (Some outgoing_msg, None) \<Rightarrow>
            (let (c1, effs) = push_and_post outgoing_msg (drawn c) in (c1, effs, None)))"

definition send_string ::
  "(nat \<Rightarrow> u32) \<Rightarrow> byte list \<Rightarrow> opval \<Rightarrow> connection \<Rightarrow> connection \<times> con_effect list \<times> ws_ec" where
  "send_string rng payload op c =
     send_msg rng ((append_payload payload (new_message op))\<lparr>m_compressed := True\<rparr>) c"

definition send_data ::
  "(nat \<Rightarrow> u32) \<Rightarrow> byte list \<Rightarrow> opval \<Rightarrow> connection \<Rightarrow> connection \<times> con_effect list \<times> ws_ec" where
  "send_data rng payload op c = send_msg rng (append_payload payload (new_message op)) c"

definition ping :: "(nat \<Rightarrow> u32) \<Rightarrow> byte list \<Rightarrow> connection \<Rightarrow> connection \<times> con_effect list \<times> ws_ec" where
  "ping rng payload c =
     (if con_state c \<noteq> Open then (c, [], invalid_state)
      else case prepare_ping (m_processor c) (next_draw rng c) payload (Some blank_message) of
          (_, Some e) \<Rightarrow> (c, [], Some e)
        | (None, None) \<Rightarrow> (c, [], None)
        | (Some msg, None) \<Rightarrow>
            (let c0 = drawn c;
                 (c1, effs1) =
                   (if m_pong_timeout_handler c0 then
                      (let cancel = (if m_ping_timer c0 then [Cancel_ping_timer] else [])
                       in if m_pong_timeout_dur c0 > 0
                          then (c0\<lparr>m_ping_timer := True\<rparr>, cancel @ [Set_ping_timer (m_pong_timeout_dur c0) payload])
                          else (c0, cancel))
                    else (c0, []));
                 (c2, effs2) = push_and_post msg c1
             in (c2, effs1 @ effs2, None)))"

definition handle_pong_timeout :: "byte list \<Rightarrow> ws_ec \<Rightarrow> connection \<Rightarrow> con_effect list" where
  "handle_pong_timeout payload ec c =
     (if ec \<noteq> None then []
      else if m_pong_timeout_handler c then [Call_pong_timeout_handler payload] else [])"

definition pong :: "(nat \<Rightarrow> u32) \<Rightarrow> byte list \<Rightarrow> connection \<Rightarrow> connection \<times> con_effect list \<times> ws_ec" where
  "pong rng payload c =
     (if con_state c \<noteq> Open then (c, [], invalid_state)
      else case prepare_pong (m_processor c) (next_draw rng c) payload (Some blank_message) of
          (_, Some e) \<Rightarrow> (c, [], Some e)
        | (None, None) \<Rightarrow> (c, [], None)
        | (Some msg, None) \<Rightarrow>
            (let (c1, effs) = push_and_post msg (drawn c) in (c1, effs, None)))"

subsection \<open>The closing handshake\<close>

text \<open>Which code and reason \<open>send_close_frame\<close> puts in the frame.\<close>

definition close_info :: "close_code \<Rightarrow> byte list \<Rightarrow> bool \<Rightarrow> connection \<Rightarrow> close_code \<times> byte list" where
  "close_info code reason ack c =
     (if silent_close then (cc_no_status, [])
      else if code \<noteq> cc_blank then (code, reason)
      else if \<not> ack then (cc_no_status, [])
      else if m_remote_close_code c = cc_no_status then (cc_normal, [])
      else (m_remote_close_code c, m_remote_close_reason c))"

definition send_close_frame ::
  "(nat \<Rightarrow> u32) \<Rightarrow> close_code \<Rightarrow> byte list \<Rightarrow> bool \<Rightarrow> bool \<Rightarrow> connection \<Rightarrow> connection \<times> con_effect list \<times> ws_ec" where
  "send_close_frame rng code reason ack terminal c =
     (let (lc, lr) = close_info code reason ack c;
          c1 = c\<lparr>m_local_close_code := lc, m_local_close_reason := lr\<rparr>
      in case prepare_close (m_processor c1) (next_draw rng c1) lc lr (Some blank_message) of
           (_, Some e) \<Rightarrow> (c1, [], Some e)
         | (None, None) \<Rightarrow> (c1, [], None)
         | (Some msg, None) \<Rightarrow>
             (let msg1 = (if terminal then msg\<lparr>m_terminal := True\<rparr> else msg);
                  c2 = (drawn c1)\<lparr>con_state := Closing\<rparr>;
                  c3 = (if ack then c2\<lparr>m_was_clean := True\<rparr> else c2);
                  (c4, effs1) =
                    (if m_close_handshake_timeout_dur c3 > 0
                     then (c3\<lparr>m_handshake_timer := True\<rparr>, [Set_handshake_timer (m_close_handshake_timeout_dur c3)])
                     else (c3, []));
                  (c5, effs2) = push_and_post msg1 c4
              in (c5, effs1 @ effs2, None)))"

definition close :: "(nat \<Rightarrow> u32) \<Rightarrow> close_code \<Rightarrow> byte list \<Rightarrow> connection \<Rightarrow> connection \<times> con_effect list \<times> ws_ec" where
  "close rng code reason c =
     (let tr = take (min (length reason) (unat close_reason_size)) reason
      in if con_state c \<noteq> Open then (c, [], invalid_state)
         else send_close_frame rng code tr False (cc_terminal code) c)"

definition send_close_ack ::
  "(nat \<Rightarrow> u32) \<Rightarrow> close_code \<Rightarrow> byte list \<Rightarrow> connection \<Rightarrow> connection \<times> con_effect list \<times> ws_ec" where
  "send_close_ack rng code reason c = send_close_frame rng code reason True (m_is_server c) c"

text \<open>The result of a call whose error is only logged.\<close>

definition ignore_ec :: "connection \<times> con_effect list \<times> ws_ec \<Rightarrow> connection \<times> con_effect list" where
  "ignore_ec r = (case r of (c, effs, _) \<Rightarrow> (c, effs))"

definition process_close_frame :: "(nat \<Rightarrow> u32) \<Rightarrow> ws_msg \<Rightarrow> connection \<Rightarrow> connection \<times> con_effect list" where
  "process_close_frame rng msg c =
     (let (code, ec) = extract_code (m_payload msg); c1 = c\<lparr>m_remote_close_code := code\<rparr>
      in if ec \<noteq> None then
           (if drop_on_protocol_error then terminate ec c1
            else ignore_ec (send_close_ack rng cc_protocol_error (bytes_of ''Invalid close code'') c1))
         else
           let (reason, ec2) = extract_reason (m_payload msg); c2 = c1\<lparr>m_remote_close_reason := reason\<rparr>
           in if ec2 \<noteq> None then
                (if drop_on_protocol_error then terminate ec2 c2
                 else ignore_ec (send_close_ack rng cc_protocol_error (bytes_of ''Invalid close reason'') c2))
              else if con_state c2 = Open then ignore_ec (send_close_ack rng cc_blank [] c2)
              else if con_state c2 = Closing \<and> \<not> m_was_clean c2 then
                (let c3 = c2\<lparr>m_was_clean := True\<rparr> in if m_is_server c3 then terminate None c3 else (c3, []))
              else (c2, []))"

definition process_control_frame :: "(nat \<Rightarrow> u32) \<Rightarrow> ws_msg \<Rightarrow> connection \<Rightarrow> connection \<times> con_effect list" where
  "process_control_frame rng msg c =
     (let op = m_opcode msg in
      if con_state c = Closed then (c, [])
      else if op \<noteq> op_close \<and> con_state c \<noteq> Open then (c, [])
      else if op = op_ping then
        (if (case m_ping_handler c of None \<Rightarrow> True | Some f \<Rightarrow> f (m_payload msg))
         then ignore_ec (pong rng (m_payload msg) c) else (c, []))
      else if op = op_pong then
        (c, (if m_pong_handler c then [Call_pong_handler (m_payload msg)] else []) @
            (if m_ping_timer c then [Cancel_ping_timer] else []))
      else if op = op_close then process_close_frame rng msg c
      else (c, []))"

subsection \<open>Reading\<close>

text \<open>The calls that the application makes on the connection, from its handlers or any thread.\<close>

datatype api_call =
    Api_send "byte list" opval
  | Api_send_data "byte list" opval
  | Api_send_msg ws_msg
  | Api_ping "byte list"
  | Api_pong "byte list"
  | Api_close close_code "byte list"

definition run_api :: "(nat \<Rightarrow> u32) \<Rightarrow> api_call \<Rightarrow> connection \<Rightarrow> connection \<times> con_effect list" where
  "run_api rng call c = ignore_ec
     (case call of
        Api_send payload op \<Rightarrow> send_string rng payload op c
      | Api_send_data payload op \<Rightarrow> send_data rng payload op c
      | Api_send_msg msg \<Rightarrow> send_msg rng msg c
      | Api_ping payload \<Rightarrow> ping rng payload c
      | Api_pong payload \<Rightarrow> pong rng payload c
      | Api_close code reason \<Rightarrow> close rng code reason c)"

fun run_calls :: "(nat \<Rightarrow> u32) \<Rightarrow> api_call list \<Rightarrow> connection \<Rightarrow> connection \<times> con_effect list" where
  "run_calls rng [] c = (c, [])"
| "run_calls rng (call # calls) c =
     (let (c1, effs1) = run_api rng call c; (c2, effs2) = run_calls rng calls c1 in (c2, effs1 @ effs2))"

type_synonym app = "nat \<Rightarrow> ws_msg \<Rightarrow> api_call list"

text \<open>A message that is ready: to the application, or a control frame.\<close>

definition dispatch_message ::
  "app \<Rightarrow> (nat \<Rightarrow> u32) \<Rightarrow> ws_msg \<Rightarrow> connection \<Rightarrow> connection \<times> con_effect list" where
  "dispatch_message app rng msg c =
     (if \<not> is_control (m_opcode msg) then
        (if con_state c \<noteq> Open then (c, [])
         else if m_message_handler c then
           (let (c1, effs) = run_calls rng (app (handler_calls c) msg) (c\<lparr>handler_calls := handler_calls c + 1\<rparr>)
            in (c1, Call_message_handler msg # effs))
         else (c, []))
      else process_control_frame rng msg c)"

text \<open>\<open>read_frame\<close>, and the answer to a protocol error; the flag says that the handler returned.\<close>

definition read_frame :: "connection \<Rightarrow> con_effect list" where
  "read_frame c = (if \<not> m_read_flag c then [] else [Async_read_some_bytes])"

definition handle_pause_reading :: "connection \<Rightarrow> connection" where
  "handle_pause_reading c = c\<lparr>m_read_flag := False\<rparr>"

definition handle_resume_reading :: "connection \<Rightarrow> connection \<times> con_effect list" where
  "handle_resume_reading c = (let c1 = c\<lparr>m_read_flag := True\<rparr> in (c1, read_frame c1))"

definition protocol_error :: "(nat \<Rightarrow> u32) \<Rightarrow> ws_error \<Rightarrow> connection \<Rightarrow> connection \<times> con_effect list" where
  "protocol_error rng e c =
     (if drop_on_protocol_error then terminate (Some e) c
      else let (c1, effs, close_ec) = close rng (to_ws e) (bytes_of (ec_message e)) c
           in if close_ec \<noteq> None then (let (c2, effs2) = terminate close_ec c1 in (c2, effs @ effs2))
              else (c1, effs))"

partial_function (option) read_loop ::
  "app \<Rightarrow> (nat \<Rightarrow> u32) \<Rightarrow> connection \<Rightarrow> byte list \<Rightarrow> (connection \<times> con_effect list) option" where
  "read_loop app rng c buf =
     (if buf = [] then Some (c, read_frame c)
      else case consume (m_processor c) buf of (h1, n, ec) \<Rightarrow>
        (case ec of
           Some e \<Rightarrow> Some (protocol_error rng e (c\<lparr>m_processor := h1\<rparr>))
         | None \<Rightarrow>
             if ready h1 then
               (case get_message h1 of (h2, m) \<Rightarrow>
                 (case (case m of None \<Rightarrow> (c\<lparr>m_processor := h2\<rparr>, [])
                        | Some msg \<Rightarrow> dispatch_message app rng msg (c\<lparr>m_processor := h2\<rparr>)) of
                    (c1, effs1) \<Rightarrow> Option.bind (read_loop app rng c1 (drop n buf))
                      (\<lambda>(c2, effs2). Some (c2, effs1 @ effs2))))
             else read_loop app rng (c\<lparr>m_processor := h1\<rparr>) (drop n buf)))"

definition handle_read_frame ::
  "app \<Rightarrow> (nat \<Rightarrow> u32) \<Rightarrow> ws_ec \<Rightarrow> byte list \<Rightarrow> connection \<Rightarrow> (connection \<times> con_effect list) option" where
  "handle_read_frame app rng ec buf c =
     (let ecm = (if ec = None \<and> m_internal_state c \<noteq> PROCESS_CONNECTION then invalid_state else ec)
      in if ecm \<noteq> None then
           (if ecm = Some (Transport Tr_eof) \<and> con_state c = Closed then Some (c, [])
            else if ecm = Some (Transport Tr_eof) \<and> con_state c = Closing \<and> \<not> m_is_server c
            then Some (terminate None c)
            else if ecm = invalid_state \<and> con_state c = Closed then Some (c, [])
            else if ecm = Some (Transport Tr_tls_short_read) \<and> con_state c = Closed
            then Some (terminate None c)
            else Some (terminate ecm c))
         else read_loop app rng c buf)"

subsection \<open>Events\<close>

text \<open>
  What can happen to an open connection: a call of the application, and the completion of something
  the connection asked for.  A state of the run counts the operations that are outstanding.
\<close>

datatype con_event =
    Api api_call
  | Write_frame
  | Written_frame ws_ec
  | Read_frame ws_ec "byte list"
  | Close_timeout ws_ec
  | Pong_timeout "byte list" ws_ec
  | Pause_reading
  | Resume_reading
  | Shut_down terminate_status

definition con_step ::
  "app \<Rightarrow> (nat \<Rightarrow> u32) \<Rightarrow> con_event \<Rightarrow> connection \<Rightarrow> (connection \<times> con_effect list) option" where
  "con_step app rng ev c =
     (case ev of
        Api call \<Rightarrow> Some (run_api rng call c)
      | Write_frame \<Rightarrow> Some (write_frame c)
      | Written_frame ec \<Rightarrow> Some (handle_write_frame ec c)
      | Read_frame ec buf \<Rightarrow> handle_read_frame app rng ec buf c
      | Close_timeout ec \<Rightarrow> Some (handle_close_handshake_timeout ec c)
      | Pong_timeout payload ec \<Rightarrow> Some (c, handle_pong_timeout payload ec c)
      | Pause_reading \<Rightarrow> Some (handle_pause_reading c, [])
      | Resume_reading \<Rightarrow> Some (handle_resume_reading c)
      | Shut_down tstat \<Rightarrow> Some (c, handle_terminate tstat c))"

text \<open>
  \<open>con_run app rng c0 evs c effs\<close>: the events \<open>evs\<close> lead from \<open>c0\<close> to \<open>c\<close>, with the effects \<open>effs\<close>.
  A write or a read completes only while one is outstanding; an open connection has started one read.
\<close>

definition writes_of :: "con_effect list \<Rightarrow> ws_msg list list" where
  "writes_of effs = concat (map (\<lambda>e. case e of Async_write_msgs ms \<Rightarrow> [ms] | _ \<Rightarrow> []) effs)"

definition shutdowns :: "con_effect list \<Rightarrow> nat" where
  "shutdowns effs = length (filter (\<lambda>e. case e of Async_shutdown _ \<Rightarrow> True | _ \<Rightarrow> False) effs)"

definition read_requests :: "con_effect list \<Rightarrow> nat" where
  "read_requests effs = length (filter (\<lambda>e. e = Async_read_some_bytes) effs)"

definition completed_reads :: "con_event list \<Rightarrow> nat" where
  "completed_reads evs = length (filter (\<lambda>ev. case ev of Read_frame _ _ \<Rightarrow> True | _ \<Rightarrow> False) evs)"

definition completed_writes :: "con_event list \<Rightarrow> nat" where
  "completed_writes evs = length (filter (\<lambda>ev. case ev of Written_frame _ \<Rightarrow> True | _ \<Rightarrow> False) evs)"

definition possible :: "con_event list \<Rightarrow> con_effect list \<Rightarrow> connection \<Rightarrow> con_event \<Rightarrow> bool" where
  "possible evs effs c ev \<longleftrightarrow> (case ev of
       Written_frame _ \<Rightarrow> m_current_msgs c \<noteq> []
     | Read_frame _ _ \<Rightarrow> completed_reads evs < 1 + read_requests effs
     | _ \<Rightarrow> True)"

inductive con_run ::
  "app \<Rightarrow> (nat \<Rightarrow> u32) \<Rightarrow> connection \<Rightarrow> con_event list \<Rightarrow> connection \<Rightarrow> con_effect list \<Rightarrow> bool"
  for app rng c0 where
  con_start: "con_run app rng c0 [] c0 []"
| con_next: "con_run app rng c0 evs c effs \<Longrightarrow> con_step app rng ev c = Some (c1, effs1) \<Longrightarrow>
     possible evs effs c ev \<Longrightarrow> con_run app rng c0 (evs @ [ev]) c1 (effs @ effs1)"

inductive_cases con_run_snoc: "con_run app rng c0 (evs @ [ev]) c effs"

end
