(* ===== verification/Ws_Session.thy ===== *)
theory Ws_Session
  imports Ws_Connection
begin

section \<open>websocketpp: what holds in every run of a connection\<close>

text \<open>
  The functions of a connection are built from a few steps: they change bookkeeping fields, queue a
  message, start to close, or terminate.  The locale \<open>connection_steps\<close> is the contract of these
  steps; a relation that keeps it holds of every function, up to the loop that reads frames.  Two
  relations are used: \<open>follows\<close> (the write queue, the states, shutdowns) and \<open>no_io\<close> (no read or write is
  started, the flags stay).  \<open>con_run\<close> is then handled by rule induction.
\<close>

subsection \<open>The steps and their contract\<close>

text \<open>The fields that matter for writing and for the state of the connection stay the same.\<close>

definition same_core :: "connection \<Rightarrow> connection \<Rightarrow> bool" where
  "same_core c c' \<longleftrightarrow> con_state c' = con_state c \<and> m_send_queue c' = m_send_queue c \<and>
     m_send_buffer_size c' = m_send_buffer_size c \<and> m_current_msgs c' = m_current_msgs c \<and>
     m_write_flag c' = m_write_flag c \<and> m_read_flag c' = m_read_flag c \<and>
     m_is_server c' = m_is_server c \<and> m_internal_state c' = m_internal_state c"

fun quiet :: "con_effect \<Rightarrow> bool" where
  "quiet (Async_write_msgs _) = False"
| "quiet Async_read_some_bytes = False"
| "quiet (Async_shutdown _) = False"
| "quiet _ = True"

lemma writes_of_append [simp]: "writes_of (xs @ ys) = writes_of xs @ writes_of ys"
  by (simp add: writes_of_def)

lemma shutdowns_append [simp]: "shutdowns (xs @ ys) = shutdowns xs + shutdowns ys"
  by (simp add: shutdowns_def)

lemma read_requests_append [simp]: "read_requests (xs @ ys) = read_requests xs + read_requests ys"
  by (simp add: read_requests_def)

lemma effects_Nil [simp]: "writes_of [] = []" "shutdowns [] = 0" "read_requests [] = 0"
  by (simp_all add: writes_of_def shutdowns_def read_requests_def)

lemma effects_Cons [simp]:
  "writes_of (Async_write_msgs ms # effs) = ms # writes_of effs"
  "shutdowns (Async_shutdown t # effs) = Suc (shutdowns effs)"
  "read_requests (Async_read_some_bytes # effs) = Suc (read_requests effs)"
  "(\<And>ms. e \<noteq> Async_write_msgs ms) \<Longrightarrow> writes_of (e # effs) = writes_of effs"
  "(\<And>t. e \<noteq> Async_shutdown t) \<Longrightarrow> shutdowns (e # effs) = shutdowns effs"
  "e \<noteq> Async_read_some_bytes \<Longrightarrow> read_requests (e # effs) = read_requests effs"
  by (auto simp: writes_of_def shutdowns_def read_requests_def split: con_effect.splits)

lemma quiet_effects:
  "list_all quiet effs \<Longrightarrow> writes_of effs = [] \<and> shutdowns effs = 0 \<and> read_requests effs = 0"
proof (induction effs)
  case (Cons e effs)
  then show ?case by (cases e) simp_all
qed simp

lemma prepare_close_opcode:
  "prepare_close h draw code reason out = (Some msg, None) \<Longrightarrow> m_opcode msg = op_close"
  by (auto simp: prepare_close_def prepare_control_def Let_def split: if_splits option.splits)

lemma send_close_frame_cases:
  assumes "send_close_frame rng code reason ack terminal c = (c1, effs, ec)"
  obtains (failed) "same_core c c1" "effs = []"
  | (queued) cc msg timer effs2 where "same_core c cc" "list_all quiet timer" "m_opcode msg = op_close"
      "push_and_post msg (cc\<lparr>con_state := Closing\<rparr>) = (c1, effs2)" "effs = timer @ effs2"
proof -
  obtain lc lr where info: "close_info code reason ack c = (lc, lr)" by (cases "close_info code reason ack c")
  define c0 where "c0 = c\<lparr>m_local_close_code := lc, m_local_close_reason := lr\<rparr>"
  obtain out pec where prep: "prepare_close (m_processor c0) (next_draw rng c0) lc lr (Some blank_message) = (out, pec)"
    by (cases "prepare_close (m_processor c0) (next_draw rng c0) lc lr (Some blank_message)")
  have eq: "send_close_frame rng code reason ack terminal c =
      (case prepare_close (m_processor c0) (next_draw rng c0) lc lr (Some blank_message) of
           (_, Some e) \<Rightarrow> (c0, [], Some e)
         | (None, None) \<Rightarrow> (c0, [], None)
         | (Some msg, None) \<Rightarrow>
             (let msg1 = (if terminal then msg\<lparr>m_terminal := True\<rparr> else msg);
                  c2 = (drawn c0)\<lparr>con_state := Closing\<rparr>;
                  c3 = (if ack then c2\<lparr>m_was_clean := True\<rparr> else c2);
                  (c4, effs1) =
                    (if m_close_handshake_timeout_dur c3 > 0
                     then (c3\<lparr>m_handshake_timer := True\<rparr>, [Set_handshake_timer (m_close_handshake_timeout_dur c3)])
                     else (c3, []));
                  (c5, effs2) = push_and_post msg1 c4
              in (c5, effs1 @ effs2, None)))"
    unfolding send_close_frame_def info Let_def prod.case c0_def ..
  have same0: "same_core c c0" by (simp add: c0_def same_core_def)
  show ?thesis
  proof (cases "pec = None \<and> out \<noteq> None")
    case False
    then have "c1 = c0" "effs = []" using assms prep unfolding eq by (auto split: option.splits)
    then show ?thesis using failed same0 by simp
  next
    case True
    then obtain msg where msg: "out = Some msg" "pec = None" by auto
    define msg1 where "msg1 = (if terminal then msg\<lparr>m_terminal := True\<rparr> else msg)"
    define timed where "timed \<longleftrightarrow> m_close_handshake_timeout_dur c > 0"
    define cc where "cc = (drawn c0)\<lparr>m_was_clean := (ack \<or> m_was_clean c), m_handshake_timer := (timed \<or> m_handshake_timer c)\<rparr>"
    have op: "m_opcode msg1 = op_close" using prepare_close_opcode [OF prep [unfolded msg]] by (simp add: msg1_def)
    have same: "same_core c cc" by (auto simp: cc_def c0_def same_core_def drawn_def)
    have cc: "cc\<lparr>con_state := Closing\<rparr> =
        (let c3 = (if ack then (drawn c0)\<lparr>con_state := Closing, m_was_clean := True\<rparr> else (drawn c0)\<lparr>con_state := Closing\<rparr>)
         in if timed then c3\<lparr>m_handshake_timer := True\<rparr> else c3)"
      by (simp add: cc_def c0_def drawn_def Let_def)
    have dur: "m_close_handshake_timeout_dur (drawn c0) = m_close_handshake_timeout_dur c" by (simp add: c0_def drawn_def)
    obtain c5 effs2 where push: "push_and_post msg1 (cc\<lparr>con_state := Closing\<rparr>) = (c5, effs2)"
      by (cases "push_and_post msg1 (cc\<lparr>con_state := Closing\<rparr>)")
    have "c1 = c5" "effs = (if timed then [Set_handshake_timer (m_close_handshake_timeout_dur c)] else []) @ effs2"
      using assms push unfolding eq prep msg cc
      by (auto simp: msg1_def [symmetric] timed_def dur Let_def split: if_splits)
    then show ?thesis
      using queued [OF same, of "if timed then [Set_handshake_timer (m_close_handshake_timeout_dur c)] else []" msg1 effs2]
        op push by simp
  qed
qed

locale connection_steps =
  fixes R :: "connection \<Rightarrow> connection \<times> con_effect list \<Rightarrow> bool"
  assumes trans: "R c (c1, effs1) \<Longrightarrow> R c1 (c2, effs2) \<Longrightarrow> R c (c2, effs1 @ effs2)"
    and bookkeeping: "same_core c c1 \<Longrightarrow> list_all quiet effs \<Longrightarrow> R c (c1, effs)"
    and queue_open: "con_state c = Open \<Longrightarrow> R c (push_and_post msg c)"
    and queue_close: "con_state c \<noteq> Closed \<Longrightarrow> m_opcode msg = op_close \<Longrightarrow>
      R c (push_and_post msg (c\<lparr>con_state := Closing\<rparr>))"
    and terminate: "R c (terminate ec c)"
begin

lemma same: "same_core c c1 \<Longrightarrow> R c (c1, [])"
  by (rule bookkeeping) simp_all

lemma stay: "R c (c, [])"
  by (rule same) (simp add: same_core_def)

lemma after: "same_core c c1 \<Longrightarrow> R c1 r \<Longrightarrow> R c r"
  using trans [OF same, of c c1 "fst r" "snd r"] by simp

lemma then_trans: "R c r1 \<Longrightarrow> R (fst r1) r2 \<Longrightarrow> R c (fst r2, snd r1 @ snd r2)"
  using trans [of c "fst r1" "snd r1" "fst r2" "snd r2"] by simp

lemma pair_trans: "R c (c1, effs) \<Longrightarrow> R c1 r \<Longrightarrow> R c (fst r, effs @ snd r)"
  using trans [of c c1 effs "fst r" "snd r"] by simp

lemma queue_after: "con_state c1 = Open \<Longrightarrow> same_core c c1 \<Longrightarrow> R c (push_and_post msg c1)"
  by (rule after [OF _ queue_open])

lemma queue_effects:
  assumes "push_and_post msg c1 = (c2, effs2)" "con_state c1 = Open" "same_core c c1" "list_all quiet effs"
  shows "R c (c2, effs @ effs2)"
  using trans [OF bookkeeping [OF assms(3,4)], of c2 effs2] queue_open [OF assms(2), of msg] assms(1) by simp

lemmas queue_none = queue_effects [where effs = "[]", simplified]
lemmas queue_one = queue_effects [where effs = "[e]" for e, simplified]
lemmas queue_two = queue_effects [where effs = "[e, f]" for e f, simplified]

lemma send_msg: "send_msg rng msg c = (c1, effs, ec) \<Longrightarrow> R c (c1, effs)"
  using stay [of c] queue_after [of c c] queue_after [of "drawn c" c]
  by (auto simp: send_msg_def same_core_def drawn_def invalid_state_def split: if_splits option.splits prod.splits)
    metis+

lemma send_string: "send_string rng payload op c = (c1, effs, ec) \<Longrightarrow> R c (c1, effs)"
  unfolding send_string_def by (rule send_msg)

lemma send_data: "send_data rng payload op c = (c1, effs, ec) \<Longrightarrow> R c (c1, effs)"
  unfolding send_data_def by (rule send_msg)

lemma pong: "pong rng payload c = (c1, effs, ec) \<Longrightarrow> R c (c1, effs)"
  using stay [of c] queue_after [of "drawn c" c]
  by (auto simp: pong_def same_core_def drawn_def invalid_state_def split: if_splits option.splits prod.splits)
    metis+

lemma ping: "ping rng payload c = (c1, effs, ec) \<Longrightarrow> R c (c1, effs)"
  using stay [of c]
  by (auto simp: ping_def same_core_def drawn_def invalid_state_def Let_def
      split: if_splits option.splits prod.splits elim!: queue_none queue_one queue_two)

lemma send_close_frame:
  assumes "con_state c \<noteq> Closed" "send_close_frame rng code reason ack terminal c = (c1, effs, ec)"
  shows "R c (c1, effs)"
  using assms(2)
proof (cases rule: send_close_frame_cases)
  case failed
  then show ?thesis using same by simp
next
  case (queued cc msg timer effs2)
  then have "R cc (c1, effs2)" using queue_close [of cc msg] assms(1) by (simp add: same_core_def)
  then show ?thesis using trans bookkeeping queued by blast
qed

lemma close: "close rng code reason c = (c1, effs, ec) \<Longrightarrow> R c (c1, effs)"
  using stay [of c] send_close_frame [of c]
  by (auto simp: close_def same_core_def Let_def split: if_splits)

lemma ignore_ec: "(\<And>c1 effs ec. r = (c1, effs, ec) \<Longrightarrow> R c (c1, effs)) \<Longrightarrow> R c (ignore_ec r)"
  by (auto simp: ignore_ec_def split: prod.splits)

lemma run_api: "R c (run_api rng call c)"
  unfolding run_api_def
  by (rule ignore_ec) (auto split: api_call.splits dest: send_string send_data send_msg ping pong close)

lemma run_calls: "R c (run_calls rng calls c)"
proof (induction calls arbitrary: c)
  case (Cons call calls)
  show ?case using then_trans [OF run_api Cons.IH] by (simp add: split_def Let_def)
qed (simp add: stay)

lemma process_close_frame: "con_state c \<noteq> Closed \<Longrightarrow> R c (process_close_frame rng msg c)"
proof -
  assume open_or_closing: "con_state c \<noteq> Closed"
  have ack: "R c (ignore_ec (send_close_ack rng code reason c1))" if "same_core c c1" for code reason c1
    using after [OF that] send_close_frame [of c1 rng code reason True "m_is_server c1"] open_or_closing that
    by (intro ignore_ec) (simp add: send_close_ack_def same_core_def)
  show ?thesis
    by (auto simp: process_close_frame_def Let_def same_core_def split: prod.splits
        intro!: ack same after [OF _ terminate])
qed

lemma process_control_frame: "R c (process_control_frame rng msg c)"
proof -
  have "R c (ignore_ec (pong rng (m_payload msg) c))" by (rule ignore_ec) (rule pong)
  moreover have "R c (c, effs)" if "list_all quiet effs" for effs using that by (simp add: bookkeeping same_core_def)
  ultimately show ?thesis using process_close_frame [of c rng msg]
    by (simp add: process_control_frame_def Let_def)
qed

lemma dispatch_message: "R c (dispatch_message app rng msg c)"
proof -
  define c0 where "c0 = c\<lparr>handler_calls := handler_calls c + 1\<rparr>"
  have "R c (c0, [Call_message_handler msg])"
    by (rule bookkeeping) (simp_all add: c0_def same_core_def)
  from pair_trans [OF this run_calls [of "c0" rng "app (handler_calls c) msg"], simplified]
  have "R c (let (c1, effs) = run_calls rng (app (handler_calls c) msg) c0 in (c1, Call_message_handler msg # effs))"
    by (simp add: split_def Let_def)
  then show ?thesis using stay [of c] process_control_frame [of c rng msg]
    by (auto simp: dispatch_message_def c0_def same_core_def)
qed

lemma protocol_error: "R c (protocol_error rng e c)"
proof -
  obtain c1 effs cec where "close rng (to_ws e) (bytes_of (ec_message e)) c = (c1, effs, cec)" by (metis prod_cases3)
  then show ?thesis using close [of rng "to_ws e"] pair_trans [of c c1 effs, OF _ terminate [of c1 cec]] terminate [of c]
    by (simp add: protocol_error_def split_def Let_def)
qed

text \<open>The loop: everything it does, and then perhaps the request for the next read.\<close>

lemma ended: "R c r \<Longrightarrow> \<exists>effs. R c (fst r, effs) \<and> (snd r = effs \<or> snd r = effs @ read_frame (fst r))"
  by (intro exI [of _ "snd r"]) simp

lemma read_loop:
  assumes "read_loop app rng c buf = Some r"
  shows "\<exists>effs. R c (fst r, effs) \<and> (snd r = effs \<or> snd r = effs @ read_frame (fst r))"
proof (rule read_loop.raw_induct [where P = "\<lambda>app rng c buf r. \<exists>effs. R c (fst r, effs) \<and>
    (snd r = effs \<or> snd r = effs @ read_frame (fst r))", OF _ assms], goal_cases)
  case (1 loop app rng c buf r)
  note ih = "1"(1) and body = "1"(2)
  obtain h1 n ec where con: "consume (m_processor c) buf = (h1, n, ec)" by (metis prod_cases3)
  have proc: "same_core c (c\<lparr>m_processor := h\<rparr>)" for h by (simp add: same_core_def)
  consider "buf = []" | e where "buf \<noteq> []" "ec = Some e" | "buf \<noteq> []" "ec = None" "ready h1" | "buf \<noteq> []" "ec = None" "\<not> ready h1"
    by (cases ec) auto
  then show ?case
  proof cases
    case 1
    then have "r = (c, read_frame c)" using body by simp
    then show ?thesis using stay [of c] by (intro exI [of _ "[]"]) simp
  next
    case 2
    then have "r = protocol_error rng e (c\<lparr>m_processor := h1\<rparr>)" using body con by simp
    then show ?thesis using ended [OF after [OF proc protocol_error]] by simp
  next
    case 3
    obtain h2 m where g: "get_message h1 = (h2, m)" by (cases "get_message h1")
    define d where "d = (case m of None \<Rightarrow> (c\<lparr>m_processor := h2\<rparr>, []) | Some msg \<Rightarrow> dispatch_message app rng msg (c\<lparr>m_processor := h2\<rparr>))"
    obtain c1 effs1 where d1: "d = (c1, effs1)" by (cases d)
    have "R c (c1, effs1)"
      unfolding d1 [symmetric] d_def by (cases m) (simp_all add: same [OF proc] after [OF proc dispatch_message])
    moreover obtain r2 where "loop app rng c1 (drop n buf) = Some r2" "r = (fst r2, effs1 @ snd r2)"
    proof -
      have "Option.bind (loop app rng c1 (drop n buf)) (\<lambda>(c2, effs2). Some (c2, effs1 @ effs2)) = Some r"
        using body 3 con g d1 unfolding d_def by simp
      then show ?thesis using that by (auto simp: bind_eq_Some_conv)
    qed
    moreover from this obtain effs2 where "R c1 (fst r2, effs2)" "snd r2 = effs2 \<or> snd r2 = effs2 @ read_frame (fst r2)"
      using ih by blast
    ultimately show ?thesis using trans by fastforce
  next
    case 4
    then have "loop app rng (c\<lparr>m_processor := h1\<rparr>) (drop n buf) = Some r" using body con by simp
    then show ?thesis using ih after [OF proc] by blast
  qed
qed

lemma handle_read_frame:
  "handle_read_frame app rng ec buf c = Some r \<Longrightarrow>
     \<exists>effs. R c (fst r, effs) \<and> (snd r = effs \<or> snd r = effs @ read_frame (fst r))"
  using ended [OF stay [of c]] ended [OF terminate [of c]] read_loop [of app rng c buf r]
  by (auto simp: handle_read_frame_def Let_def invalid_state_def split: if_splits)

end

subsection \<open>The write queue, the states and the shutdown\<close>

text \<open>The buffer size is that of the queue, and only a write that is outstanding holds messages.\<close>

definition con_inv :: "connection \<Rightarrow> bool" where
  "con_inv c \<longleftrightarrow> m_send_buffer_size c = sum_list (map (\<lambda>m. length (m_payload m)) (m_send_queue c)) \<and>
     (m_current_msgs c \<noteq> [] \<longrightarrow> m_write_flag c)"

text \<open>
  Messages leave the queue in the order they came, to the transport; once the connection is not open only
  close frames join it; it does not open again; and it is shut down when it becomes closed.
\<close>

definition follows :: "connection \<Rightarrow> connection \<times> con_effect list \<Rightarrow> bool" where
  "follows c r \<longleftrightarrow> (case r of (c', effs) \<Rightarrow>
     (\<exists>new. concat (writes_of effs) @ m_send_queue c' = m_send_queue c @ new \<and>
        (con_state c \<noteq> Open \<longrightarrow> (\<forall>m \<in> set new. m_opcode m = op_close))) \<and>
     (con_state c \<noteq> Open \<longrightarrow> con_state c' \<noteq> Open) \<and>
     shutdowns effs + (if con_state c = Closed then 1 else 0) = (if con_state c' = Closed then 1 else 0) \<and>
     (con_inv c \<longrightarrow> con_inv c'))"

lemma follows_trans:
  assumes "follows c (c1, effs1)" "follows c1 (c2, effs2)"
  shows "follows c (c2, effs1 @ effs2)"
proof -
  obtain new1 where 1: "concat (writes_of effs1) @ m_send_queue c1 = m_send_queue c @ new1"
    "con_state c \<noteq> Open \<longrightarrow> (\<forall>m \<in> set new1. m_opcode m = op_close)"
    using assms(1) by (auto simp: follows_def)
  obtain new2 where 2: "concat (writes_of effs2) @ m_send_queue c2 = m_send_queue c1 @ new2"
    "con_state c1 \<noteq> Open \<longrightarrow> (\<forall>m \<in> set new2. m_opcode m = op_close)"
    using assms(2) by (auto simp: follows_def)
  have "concat (writes_of (effs1 @ effs2)) @ m_send_queue c2 = m_send_queue c @ (new1 @ new2)"
    using 1(1) 2(1) by simp
  moreover have "con_state c \<noteq> Open \<longrightarrow> (\<forall>m \<in> set (new1 @ new2). m_opcode m = op_close)"
    using 1(2) 2(2) assms(1) by (auto simp: follows_def)
  ultimately have "\<exists>new. concat (writes_of (effs1 @ effs2)) @ m_send_queue c2 = m_send_queue c @ new \<and>
      (con_state c \<noteq> Open \<longrightarrow> (\<forall>m \<in> set new. m_opcode m = op_close))" by blast
  then show ?thesis using assms by (auto simp: follows_def)
qed

lemma follows_bookkeeping:
  "same_core c c1 \<Longrightarrow> list_all quiet effs \<Longrightarrow> follows c (c1, effs)"
  by (simp add: follows_def quiet_effects) (simp add: same_core_def con_inv_def)

lemma push_and_post_simps [simp]:
  "m_send_queue (fst (push_and_post msg c)) = m_send_queue c @ [msg]"
  "m_send_buffer_size (fst (push_and_post msg c)) = m_send_buffer_size c + length (m_payload msg)"
  "con_state (fst (push_and_post msg c)) = con_state c"
  "m_current_msgs (fst (push_and_post msg c)) = m_current_msgs c"
  "m_write_flag (fst (push_and_post msg c)) = m_write_flag c"
  "m_read_flag (fst (push_and_post msg c)) = m_read_flag c"
  "list_all quiet (snd (push_and_post msg c))"
  by (simp_all add: push_and_post_def write_push_def Let_def)

lemma follows_push:
  assumes "con_state c = Open \<or> (con_state c = Closing \<and> m_opcode msg = op_close)"
  shows "follows c (push_and_post msg c)"
  using assms by (simp add: follows_def split_def quiet_effects con_inv_def) auto

lemma terminate_simps [simp]:
  "m_send_queue (fst (terminate ec c)) = m_send_queue c"
  "m_send_buffer_size (fst (terminate ec c)) = m_send_buffer_size c"
  "con_state (fst (terminate ec c)) = Closed"
  "m_current_msgs (fst (terminate ec c)) = m_current_msgs c"
  "m_write_flag (fst (terminate ec c)) = m_write_flag c"
  "m_read_flag (fst (terminate ec c)) = m_read_flag c"
  "writes_of (snd (terminate ec c)) = []" "read_requests (snd (terminate ec c)) = 0"
  "shutdowns (snd (terminate ec c)) = (if con_state c = Closed then 0 else 1)"
  by (simp_all add: terminate_def Let_def split: con_state.splits option.splits)

lemma follows_terminate: "follows c (terminate ec c)"
  by (simp add: follows_def split_def con_inv_def)

interpretation fo: connection_steps follows
proof
  show "follows c (push_and_post msg (c\<lparr>con_state := Closing\<rparr>))"
    if "con_state c \<noteq> Closed" "m_opcode msg = op_close" for c msg
  proof -
    have "follows c (c\<lparr>con_state := Closing\<rparr>, [])" using that by (simp add: follows_def con_inv_def)
    moreover have "follows (c\<lparr>con_state := Closing\<rparr>) (push_and_post msg (c\<lparr>con_state := Closing\<rparr>))"
      by (rule follows_push) (simp add: that(2))
    ultimately show ?thesis
      using follows_trans [of c "c\<lparr>con_state := Closing\<rparr>" "[]" "fst (push_and_post msg (c\<lparr>con_state := Closing\<rparr>))"
          "snd (push_and_post msg (c\<lparr>con_state := Closing\<rparr>))"] by simp
  qed
qed (auto intro: follows_trans follows_bookkeeping follows_push follows_terminate)

text \<open>The functions that write are not built from these steps.\<close>

lemma pull_messages_step:
  "pull_messages c =
     (case m_send_queue c of
        [] \<Rightarrow> c
      | m # q \<Rightarrow>
          let c2 = c\<lparr>m_send_buffer_size := m_send_buffer_size c - length (m_payload m), m_send_queue := q,
                     m_current_msgs := m_current_msgs c @ [m]\<rparr>
          in if m_terminal m then c2 else pull_messages c2)"
  by (cases "m_send_queue c"; subst pull_messages.simps) (simp_all add: write_pop_def)

lemma pull_messages_simps [simp]:
  "con_state (pull_messages c) = con_state c \<and> m_write_flag (pull_messages c) = m_write_flag c \<and>
   m_read_flag (pull_messages c) = m_read_flag c"
proof (induction "m_send_queue c" arbitrary: c)
  case Nil
  then show ?case by (subst (1 2 3) pull_messages_step) simp
next
  case (Cons m q)
  define c2 where "c2 = c\<lparr>m_send_buffer_size := m_send_buffer_size c - length (m_payload m), m_send_queue := q,
                     m_current_msgs := m_current_msgs c @ [m]\<rparr>"
  have "pull_messages c = (if m_terminal m then c2 else pull_messages c2)"
    by (subst pull_messages_step) (simp flip: Cons.hyps(2) add: c2_def Let_def)
  then show ?case using Cons.hyps(1) [of c2] by (simp add: c2_def)
qed

lemma pull_messages_taken:
  "\<exists>taken. m_current_msgs (pull_messages c) = m_current_msgs c @ taken \<and>
     taken @ m_send_queue (pull_messages c) = m_send_queue c \<and>
     (\<forall>m \<in> set (butlast taken). \<not> m_terminal m) \<and>
     (m_send_queue (pull_messages c) = [] \<or> taken \<noteq> [] \<and> m_terminal (last taken)) \<and>
     (m_send_buffer_size c = sum_list (map (\<lambda>m. length (m_payload m)) (m_send_queue c)) \<longrightarrow>
      m_send_buffer_size (pull_messages c) = sum_list (map (\<lambda>m. length (m_payload m)) (m_send_queue (pull_messages c))))"
proof (induction "m_send_queue c" arbitrary: c)
  case Nil
  then have "pull_messages c = c" by (subst pull_messages_step) simp
  then show ?case using Nil by (intro exI [of _ "[]"]) simp
next
  case (Cons m q)
  define c2 where "c2 = c\<lparr>m_send_buffer_size := m_send_buffer_size c - length (m_payload m), m_send_queue := q,
                     m_current_msgs := m_current_msgs c @ [m]\<rparr>"
  have p: "pull_messages c = (if m_terminal m then c2 else pull_messages c2)"
    by (subst pull_messages_step) (simp flip: Cons.hyps(2) add: c2_def Let_def)
  show ?case
  proof (cases "m_terminal m")
    case True
    then show ?thesis using p Cons.hyps(2) [symmetric] by (intro exI [of _ "[m]"]) (simp add: c2_def)
  next
    case False
    obtain taken where t: "m_current_msgs (pull_messages c2) = m_current_msgs c2 @ taken"
      "taken @ m_send_queue (pull_messages c2) = m_send_queue c2" "\<forall>m \<in> set (butlast taken). \<not> m_terminal m"
      "m_send_queue (pull_messages c2) = [] \<or> taken \<noteq> [] \<and> m_terminal (last taken)"
      "m_send_buffer_size c2 = sum_list (map (\<lambda>m. length (m_payload m)) (m_send_queue c2)) \<longrightarrow>
       m_send_buffer_size (pull_messages c2) = sum_list (map (\<lambda>m. length (m_payload m)) (m_send_queue (pull_messages c2)))"
      using Cons.hyps(1) [of c2] by (auto simp: c2_def)
    have "m_send_buffer_size c = sum_list (map (\<lambda>m. length (m_payload m)) (m_send_queue c)) \<longrightarrow>
       m_send_buffer_size (pull_messages c) = sum_list (map (\<lambda>m. length (m_payload m)) (m_send_queue (pull_messages c)))"
      using t(5) p False Cons.hyps(2) [symmetric] by (simp add: c2_def)
    moreover have "m_current_msgs (pull_messages c) = m_current_msgs c @ m # taken"
      using t(1) p False by (simp add: c2_def)
    moreover have "(m # taken) @ m_send_queue (pull_messages c) = m_send_queue c"
      using t(2) p False Cons.hyps(2) by (simp add: c2_def)
    moreover have "\<forall>m \<in> set (butlast (m # taken)). \<not> m_terminal m" using t(3) False by simp
    moreover have "m_send_queue (pull_messages c) = [] \<or> m # taken \<noteq> [] \<and> m_terminal (last (m # taken))"
      using t(4) p False by auto
    ultimately show ?thesis by blast
  qed
qed

lemma follows_write_frame:
  assumes "con_inv c"
  shows "follows c (write_frame c)"
proof (cases "m_write_flag c")
  case True
  then show ?thesis using fo.stay by (simp add: write_frame_def)
next
  case False
  then have cur: "m_current_msgs c = []" using assms by (auto simp: con_inv_def)
  obtain taken where "m_current_msgs (pull_messages c) = taken" "taken @ m_send_queue (pull_messages c) = m_send_queue c"
    using pull_messages_taken [of c] cur by auto
  moreover have "m_send_buffer_size (pull_messages c) = sum_list (map (\<lambda>m. length (m_payload m)) (m_send_queue (pull_messages c)))"
    using pull_messages_taken [of c] assms by (auto simp: con_inv_def)
  ultimately show ?thesis using False
    by (auto simp: write_frame_def Let_def follows_def con_inv_def intro: exI [of _ "[]"])
qed

lemma follows_handle_write_frame: "follows c (handle_write_frame ec c)"
proof -
  have "follows c (c\<lparr>m_current_msgs := []\<rparr>, [])" by (auto simp: follows_def con_inv_def)
  from fo.pair_trans [OF this follows_terminate] show ?thesis
    by (auto simp: handle_write_frame_def Let_def) (auto simp: follows_def con_inv_def)
qed

lemma follows_con_step:
  assumes "con_inv c" "con_step app rng ev c = Some r"
  shows "follows c r"
proof (cases ev)
  case (Read_frame ec buf)
  then obtain effs where "follows c (fst r, effs)" "snd r = effs \<or> snd r = effs @ read_frame (fst r)"
    using fo.handle_read_frame [of app rng ec buf c r] assms(2) by (auto simp: con_step_def)
  moreover have "follows (fst r) (fst r, read_frame (fst r))" by (simp add: follows_def read_frame_def)
  ultimately show ?thesis using follows_trans by (metis prod.collapse)
next
  case (Close_timeout ec)
  then show ?thesis using assms(2) fo.stay follows_terminate by (auto simp: con_step_def handle_close_handshake_timeout_def)
next
  case Resume_reading
  then show ?thesis using assms(2)
    by (auto simp: con_step_def handle_resume_reading_def Let_def follows_def read_frame_def con_inv_def)
next
  case Pause_reading
  then show ?thesis using assms(2) by (auto simp: con_step_def handle_pause_reading_def follows_def con_inv_def)
next
  case (Pong_timeout payload ec)
  then show ?thesis using assms(2) by (auto simp: con_step_def handle_pong_timeout_def follows_def)
next
  case (Shut_down tstat)
  then show ?thesis using assms(2)
    by (auto simp: con_step_def handle_terminate_def follows_def split: terminate_status.splits)
qed (use assms fo.run_api follows_write_frame follows_handle_write_frame in \<open>auto simp: con_step_def\<close>)

subsection \<open>Reads and writes that are outstanding\<close>

definition no_io :: "connection \<Rightarrow> connection \<times> con_effect list \<Rightarrow> bool" where
  "no_io c r \<longleftrightarrow> (case r of (c', effs) \<Rightarrow> writes_of effs = [] \<and> read_requests effs = 0 \<and>
     m_current_msgs c' = m_current_msgs c \<and> m_write_flag c' = m_write_flag c \<and> m_read_flag c' = m_read_flag c)"

interpretation io: connection_steps no_io
proof
  show "no_io c (c1, effs)" if "same_core c c1" "list_all quiet effs" for c c1 effs
    using that by (simp add: no_io_def quiet_effects) (simp add: same_core_def)
qed (auto simp: no_io_def split_def quiet_effects)

text \<open>Once the handshake is over, a connection keeps its role and its internal state.\<close>

definition keeps_role :: "connection \<Rightarrow> connection \<times> con_effect list \<Rightarrow> bool" where
  "keeps_role c r \<longleftrightarrow> m_is_server (fst r) = m_is_server c \<and> m_internal_state (fst r) = m_internal_state c \<and>
     (con_state c \<noteq> Connecting \<longrightarrow> con_state (fst r) \<noteq> Connecting)"

lemma role_simps [simp]:
  "m_is_server (fst (terminate ec c)) = m_is_server c" "m_internal_state (fst (terminate ec c)) = m_internal_state c"
  "m_is_server (fst (push_and_post msg c)) = m_is_server c"
  "m_internal_state (fst (push_and_post msg c)) = m_internal_state c"
  by (simp_all add: terminate_def push_and_post_def write_push_def Let_def split: con_state.splits option.splits)

interpretation role: connection_steps keeps_role
  by unfold_locales (auto simp: keeps_role_def same_core_def)

text \<open>What each event does to the reads and writes.\<close>

lemma con_step_io:
  assumes "con_step app rng ev c = Some (c1, effs)" "\<forall>ec. ev \<noteq> Written_frame ec" "ev \<noteq> Write_frame"
  shows "writes_of effs = [] \<and> m_current_msgs c1 = m_current_msgs c \<and> m_write_flag c1 = m_write_flag c \<and>
    read_requests effs \<le> (if ev = Resume_reading \<or> (\<exists>ec buf. ev = Read_frame ec buf) then 1 else 0)"
proof (cases ev)
  case (Read_frame ec buf)
  then obtain effs1 where "no_io c (c1, effs1)" "effs = effs1 \<or> effs = effs1 @ read_frame c1"
    using io.handle_read_frame [of app rng ec buf c "(c1, effs)"] assms(1) by (auto simp: con_step_def)
  then show ?thesis using Read_frame by (auto simp: no_io_def read_frame_def)
next
  case (Api call)
  then show ?thesis using assms(1) io.run_api [of c rng call] by (simp add: con_step_def no_io_def)
next
  case (Close_timeout ec)
  have "no_io c (handle_close_handshake_timeout ec c)"
    by (simp add: handle_close_handshake_timeout_def io.stay io.terminate)
  then show ?thesis using assms(1) Close_timeout by (simp add: con_step_def no_io_def)
qed (use assms in \<open>auto simp: con_step_def handle_pong_timeout_def handle_terminate_def handle_pause_reading_def
      handle_resume_reading_def read_frame_def Let_def split: terminate_status.splits\<close>)

subsection \<open>Runs\<close>

lemma con_run_follows:
  "con_run app rng c0 evs c effs \<Longrightarrow> con_inv c0 \<Longrightarrow> follows c0 (c, effs) \<and> con_inv c"
proof (induction rule: con_run.induct)
  case con_start
  then show ?case using fo.stay by simp
next
  case (con_next evs c effs ev c1 effs1)
  then have "follows c (c1, effs1)" using follows_con_step by blast
  moreover have "follows c0 (c, effs)" "con_inv c" using con_next by blast+
  ultimately have "follows c0 (c1, effs @ effs1)" "con_inv c1"
    using follows_trans by (blast, simp add: follows_def)
  then show ?case by simp
qed

lemma con_inv_open [simp]: "con_inv (open_connection server)"
  by (simp add: con_inv_def open_connection_def)

lemma open_connection_fields [simp]:
  "con_state (open_connection server) = Open" "m_current_msgs (open_connection server) = []"
  "m_write_flag (open_connection server) = False" "m_send_queue (open_connection server) = []"
  "m_is_server (open_connection server) = server" "m_processor (open_connection server) = new_hybi13 server max_message_size"
  "m_internal_state (open_connection server) = PROCESS_CONNECTION" "m_message_handler (open_connection server)"
  "m_read_flag (open_connection server)"
  by (simp_all add: open_connection_def)

text \<open>
  Everything handed to the transport: a terminal message is the last of it, and after one the write flag is
  never given back; what is outstanding is the end of it.
\<close>

definition written_ok :: "ws_msg list \<Rightarrow> connection \<Rightarrow> bool" where
  "written_ok ws c \<longleftrightarrow> (\<forall>m \<in> set (butlast ws). \<not> m_terminal m) \<and>
     (ws \<noteq> [] \<and> m_terminal (last ws) \<longrightarrow> m_write_flag c) \<and>
     (m_current_msgs c \<noteq> [] \<longrightarrow> (\<exists>pre. ws = pre @ m_current_msgs c))"

lemma written_ok_write_frame:
  assumes "con_inv c" "written_ok ws c" "write_frame c = (c1, effs)"
  shows "written_ok (ws @ concat (writes_of effs)) c1 \<and>
    length (writes_of effs) + (if m_current_msgs c = [] then 0 else 1) = (if m_current_msgs c1 = [] then 0 else 1) \<and>
    read_requests effs = 0"
proof (cases "m_write_flag c")
  case True
  then show ?thesis using assms by (simp add: write_frame_def)
next
  case False
  then have cur: "m_current_msgs c = []" and ws: "\<forall>m \<in> set ws. \<not> m_terminal m"
    using assms(1,2) by (auto simp: con_inv_def written_ok_def) (metis Un_iff append_butlast_last_id list.set_intros(1) set_ConsD set_append empty_iff empty_set)
  obtain taken where "m_current_msgs (pull_messages c) = taken" "\<forall>m \<in> set (butlast taken). \<not> m_terminal m"
    using pull_messages_taken [of c] cur by auto
  then show ?thesis using assms(3) False ws cur
    by (auto simp: write_frame_def Let_def written_ok_def butlast_append split: if_splits dest: in_set_butlastD)
qed

lemma written_ok_handle_write_frame:
  assumes "con_inv c" "written_ok ws c" "handle_write_frame ec c = (c1, effs)" "m_current_msgs c \<noteq> []"
  shows "written_ok ws c1 \<and> writes_of effs = [] \<and> m_current_msgs c1 = [] \<and> read_requests effs = 0"
proof -
  obtain pre where pre: "ws = pre @ m_current_msgs c" using assms(2,4) by (auto simp: written_ok_def)
  have flag: "m_write_flag c" using assms(1,4) by (simp add: con_inv_def)
  have t: "fst (terminate e (c\<lparr>m_current_msgs := []\<rparr>)) = c1 \<Longrightarrow> m_write_flag c1 \<and> m_current_msgs c1 = []" for e
    using flag by auto
  show ?thesis
  proof (cases "ec = None \<and> \<not> m_terminal (last (m_current_msgs c))")
    case True
    then show ?thesis using assms pre by (auto simp: handle_write_frame_def Let_def written_ok_def)
  next
    case False
    then obtain e where "terminate e (c\<lparr>m_current_msgs := []\<rparr>) = (c1, effs)"
      using assms(3) by (auto simp: handle_write_frame_def Let_def split: if_splits)
    then have "c1 = fst (terminate e (c\<lparr>m_current_msgs := []\<rparr>))" "effs = snd (terminate e (c\<lparr>m_current_msgs := []\<rparr>))" by simp_all
    then show ?thesis using flag assms(2) by (simp add: written_ok_def)
  qed
qed

lemma con_run_io:
  assumes "con_run app rng c0 evs c effs" "con_inv c0" "m_current_msgs c0 = []"
  shows "written_ok (concat (writes_of effs)) c \<and>
    length (writes_of effs) = completed_writes evs + (if m_current_msgs c = [] then 0 else 1) \<and>
    read_requests effs \<le> completed_reads evs + length (filter (\<lambda>ev. ev = Resume_reading) evs)"
  using assms
proof (induction rule: con_run.induct)
  case con_start
  then show ?case by (simp add: written_ok_def completed_writes_def)
next
  case (con_next evs c effs ev c1 effs1)
  note ih = con_next.IH [OF con_next.prems]
  have inv: "con_inv c" using con_run_follows [OF con_next.hyps(1) con_next.prems(1)] by simp
  have cw: "completed_writes (evs @ [ev]) = completed_writes evs + (if \<exists>ec. ev = Written_frame ec then 1 else 0)"
    and cr: "completed_reads (evs @ [ev]) = completed_reads evs + (if \<exists>ec buf. ev = Read_frame ec buf then 1 else 0)"
    by (auto simp: completed_writes_def completed_reads_def split: con_event.splits)
  consider "ev = Write_frame" | ec where "ev = Written_frame ec" | "ev \<noteq> Write_frame" "\<forall>ec. ev \<noteq> Written_frame ec" by blast
  then show ?case
  proof cases
    case 1
    then have "write_frame c = (c1, effs1)" using con_next.hyps(2) by (simp add: con_step_def)
    then show ?thesis using written_ok_write_frame [OF inv conjunct1 [OF ih]] ih 1 cw cr by (auto split: if_splits)
  next
    case 2
    then have "handle_write_frame ec c = (c1, effs1)" "m_current_msgs c \<noteq> []"
      using con_next.hyps(2,3) by (simp_all add: con_step_def possible_def)
    then show ?thesis using written_ok_handle_write_frame [OF inv conjunct1 [OF ih]] ih 2 cw cr by auto
  next
    case 3
    then show ?thesis using con_step_io [OF con_next.hyps(2)] ih cw cr
      by (auto simp: written_ok_def)
  qed
qed

text \<open>A list of events performed one after the other, as far as they are possible.\<close>

fun run_events ::
  "app \<Rightarrow> (nat \<Rightarrow> u32) \<Rightarrow> con_event list \<Rightarrow> connection \<Rightarrow> con_effect list \<Rightarrow> con_event list \<Rightarrow>
   (connection \<times> con_effect list) option" where
  "run_events app rng past c effs [] = Some (c, effs)"
| "run_events app rng past c effs (ev # evs) =
     (if possible past effs c ev then
        (case con_step app rng ev c of
           None \<Rightarrow> None
         | Some (c1, effs1) \<Rightarrow> run_events app rng (past @ [ev]) c1 (effs @ effs1) evs)
      else None)"

lemma run_events_run:
  "con_run app rng c0 past c effs \<Longrightarrow> run_events app rng past c effs evs = Some (c1, effs1) \<Longrightarrow>
     con_run app rng c0 (past @ evs) c1 effs1"
proof (induction evs arbitrary: past c effs)
  case (Cons ev evs)
  then obtain c2 effs2 where step: "con_step app rng ev c = Some (c2, effs2)" "possible past effs c ev"
    and rest: "run_events app rng (past @ [ev]) c2 (effs @ effs2) evs = Some (c1, effs1)"
    by (auto split: if_splits option.splits)
  show ?case using Cons.IH [OF con_next [OF Cons.prems(1) step] rest] by simp
qed simp

lemmas run_from_start = run_events_run [OF con_start, simplified]

subsection \<open>Properties\<close>

text \<open>
  C14: A connection is shut down once: in every run from an open connection, whatever is sent, received or
  times out and whatever the handlers of the application call, the transport has been asked for a shutdown
  exactly once if the connection is closed, and not at all otherwise.
\<close>
theorem con_shuts_down_once:
  assumes "con_run app rng (open_connection server) evs c effs"
  shows "shutdowns effs = (if con_state c = Closed then 1 else 0)"
  using con_run_follows [OF assms] by (simp add: follows_def)

definition silent_app :: app where "silent_app n m = []"
definition closing_events :: "con_event list" where
  "closing_events = [Api (Api_send [104, 105] op_text), Api (Api_close cc_protocol_error []), Write_frame, Written_frame None,
     Close_timeout None]"

definition closing_run :: "connection \<times> con_effect list" where
  "closing_run = the (run_events silent_app (\<lambda>_. 0) [] (open_connection True) [] closing_events)"

lemma closing_run:
  "con_run silent_app (\<lambda>_. 0) (open_connection True) closing_events (fst closing_run) (snd closing_run)"
proof -
  have "\<not> Option.is_none (run_events silent_app (\<lambda>_. 0) [] (open_connection True) [] closing_events)" by code_simp
  then show ?thesis unfolding closing_run_def by (intro run_from_start) (auto simp: Option.is_none_def)
qed

theorem con_shuts_down_once_witness:
  "shutdowns (snd closing_run) = 1 \<and> con_state (fst closing_run) = Closed"
proof -
  have "con_state (fst closing_run) = Closed" by code_simp
  then show ?thesis using con_shuts_down_once [OF closing_run] by simp
qed

text \<open>
  C13: The write queue is first in, first out and loses nothing: every event leaves what was written and what is
  queued in place and only appends to it; once the connection is no longer open only close frames are
  appended.  The counter of buffered bytes is that of the queue.
\<close>
theorem con_queue_in_order:
  assumes "con_run app rng (open_connection server) evs c effs" "con_step app rng ev c = Some (c1, effs1)" "possible evs effs c ev"
  shows "(\<exists>new. concat (writes_of (effs @ effs1)) @ m_send_queue c1 = concat (writes_of effs) @ m_send_queue c @ new \<and>
      (con_state c \<noteq> Open \<longrightarrow> list_all (\<lambda>m. m_opcode m = op_close) new \<and> con_state c1 \<noteq> Open)) \<and>
    m_send_buffer_size c1 = sum_list (map (\<lambda>m. length (m_payload m)) (m_send_queue c1))"
proof -
  have inv: "con_inv c" using con_run_follows [OF assms(1)] by simp
  have f: "follows c (c1, effs1)" by (rule follows_con_step [OF inv assms(2)])
  then have "con_inv c1" using inv by (simp add: follows_def)
  then show ?thesis using f by (auto simp: follows_def con_inv_def list_all_iff)
qed

theorem con_queue_in_order_witness:
  "(\<exists>new. concat (writes_of (snd closing_run @ [])) @ m_send_queue (fst closing_run) =
      concat (writes_of (snd closing_run)) @ m_send_queue (fst closing_run) @ new \<and>
      (con_state (fst closing_run) \<noteq> Open \<longrightarrow> list_all (\<lambda>m. m_opcode m = op_close) new \<and> con_state (fst closing_run) \<noteq> Open)) \<and>
   m_send_buffer_size (fst closing_run) = sum_list (map (\<lambda>m. length (m_payload m)) (m_send_queue (fst closing_run)))"
proof (rule con_queue_in_order [OF closing_run])
  have "con_state (fst closing_run) = Closed" by code_simp
  then show "con_step silent_app (\<lambda>_. 0) (Api (Api_send [104] op_text)) (fst closing_run) = Some (fst closing_run, [])"
    by (simp add: con_step_def run_api_def send_string_def send_msg_def ignore_ec_def)
  show "possible closing_events (snd closing_run) (fst closing_run) (Api (Api_send [104] op_text))"
    by (simp add: possible_def)
qed

text \<open>
  At most one write is outstanding: the writes that were started are those that completed and the one whose
  messages the connection still holds.  A message marked terminal is the last that is ever written.
\<close>
theorem con_one_write_outstanding:
  assumes "con_run app rng (open_connection server) evs c effs"
  shows "length (writes_of effs) = completed_writes evs + (if m_current_msgs c = [] then 0 else 1) \<and>
    list_all (\<lambda>m. \<not> m_terminal m) (butlast (concat (writes_of effs)))"
  using con_run_io [OF assms] by (simp add: written_ok_def list_all_iff)

theorem con_one_write_outstanding_witness:
  "length (writes_of (snd closing_run)) = 1 \<and> list_all (\<lambda>m. \<not> m_terminal m) (butlast (concat (writes_of (snd closing_run))))"
proof -
  have "completed_writes closing_events = 1" "m_current_msgs (fst closing_run) = []" by code_simp+
  then show ?thesis using con_one_write_outstanding [OF closing_run] by simp
qed

text \<open>
  Unless the application resumes reading, at most one read is outstanding; the one of the opening handshake
  is the first.  \<open>resume_reading\<close> starts a read without asking whether one is outstanding: pausing and resuming
  an idle connection leaves two reads that fill the same buffer.
\<close>
theorem con_one_read_outstanding:
  "(con_run app rng (open_connection server) evs c effs \<and> Resume_reading \<notin> set evs \<longrightarrow>
      1 + read_requests effs - completed_reads evs \<le> 1) \<and>
   (\<exists>c2 effs2. con_run app rng (open_connection server) [Pause_reading, Resume_reading] c2 effs2 \<and>
      1 + read_requests effs2 - completed_reads [Pause_reading, Resume_reading] = 2)"
proof (intro conjI impI)
  assume a: "con_run app rng (open_connection server) evs c effs \<and> Resume_reading \<notin> set evs"
  then have "filter (\<lambda>ev. ev = Resume_reading) evs = []" by (auto simp: filter_empty_conv)
  then show "1 + read_requests effs - completed_reads evs \<le> 1" using con_run_io [of app rng] a by fastforce
next
  have "run_events app rng [] (open_connection server) [] [Pause_reading, Resume_reading] =
      Some (open_connection server, [Async_read_some_bytes])"
    by (simp add: possible_def con_step_def handle_pause_reading_def handle_resume_reading_def read_frame_def open_connection_def)
  from run_from_start [OF this]
  show "\<exists>c2 effs2. con_run app rng (open_connection server) [Pause_reading, Resume_reading] c2 effs2 \<and>
      1 + read_requests effs2 - completed_reads [Pause_reading, Resume_reading] = 2"
    by (force simp: completed_reads_def)
qed

theorem con_one_read_outstanding_witness:
  "1 + read_requests (snd closing_run) - completed_reads closing_events \<le> 1"
proof -
  have "Resume_reading \<notin> set closing_events" by (simp add: closing_events_def)
  then show ?thesis using con_one_read_outstanding closing_run by blast
qed

end
