(* ===== verification/Ws_Delivery.thy ===== *)
theory Ws_Delivery
  imports Ws_Session
begin

section \<open>websocketpp: two connections and the bytes between them\<close>

text \<open>
  The loop of \<open>handle_read_frame\<close> is brought together with the stream function \<open>rx\<close>: reading a buffer
  dispatches the messages of the stream one after the other.  On this rest the properties of two
  connections that talk to each other: messages reach the handler of the peer, and the closing
  handshake completes; and what happens after a protocol error.
\<close>

subsection \<open>The processor is only read by the other functions\<close>

abbreviation with_proc :: "hybi13 \<Rightarrow> connection \<Rightarrow> connection" where
  "with_proc h c \<equiv> c\<lparr>m_processor := h\<rparr>"

lemma prepare_server:
  assumes "m_server h = m_server h2"
  shows "prepare_data_frame h = prepare_data_frame h2" "prepare_ping h = prepare_ping h2"
    "prepare_pong h = prepare_pong h2" "prepare_close h = prepare_close h2"
proof -
  have c: "prepare_control h = prepare_control h2"
    by (intro ext) (unfold prepare_control_def assms, rule refl)
  show "prepare_data_frame h = prepare_data_frame h2" by (intro ext) (unfold prepare_data_frame_def assms, rule refl)
  show "prepare_ping h = prepare_ping h2" by (intro ext) (unfold prepare_ping_def c, rule refl)
  show "prepare_pong h = prepare_pong h2" by (intro ext) (unfold prepare_pong_def c, rule refl)
  show "prepare_close h = prepare_close h2" by (intro ext) (unfold prepare_close_def c, rule refl)
qed

lemma push_and_post_proc: "push_and_post msg (with_proc h c) = apfst (with_proc h) (push_and_post msg c)"
  by (simp add: push_and_post_def write_push_def Let_def)

lemma drawn_proc [simp]: "drawn (with_proc h c) = with_proc h (drawn c)" "next_draw rng (with_proc h c) = next_draw rng c"
  by (simp_all add: drawn_def next_draw_def)

lemma terminate_proc: "terminate ec (with_proc h c) = apfst (with_proc h) (terminate ec c)"
  by (simp add: terminate_def Let_def split: con_state.splits option.splits)

lemma send_msg_proc:
  "m_server h = m_server (m_processor c) \<Longrightarrow> send_msg rng msg (with_proc h c) = apfst (with_proc h) (send_msg rng msg c)"
  by (simp add: send_msg_def prepare_server [of h] push_and_post_def write_push_def Let_def split: option.splits prod.splits)

lemma pong_proc:
  "m_server h = m_server (m_processor c) \<Longrightarrow> pong rng payload (with_proc h c) = apfst (with_proc h) (pong rng payload c)"
  by (simp add: pong_def prepare_server [of h] push_and_post_def write_push_def Let_def split: option.splits prod.splits)

lemma ping_proc:
  "m_server h = m_server (m_processor c) \<Longrightarrow> ping rng payload (with_proc h c) = apfst (with_proc h) (ping rng payload c)"
  by (simp add: ping_def prepare_server [of h] push_and_post_def write_push_def Let_def split: option.splits prod.splits)

lemma send_close_frame_proc:
  assumes "m_server h = m_server (m_processor c)"
  shows "send_close_frame rng code reason ack terminal (with_proc h c) =
     apfst (with_proc h) (send_close_frame rng code reason ack terminal c)"
proof -
  obtain lc lr where info: "close_info code reason ack c = (lc, lr)" by (cases "close_info code reason ack c")
  have "close_info code reason ack (with_proc h c) = close_info code reason ack c"
    unfolding close_info_def by simp
  then have info2: "close_info code reason ack (with_proc h c) = (lc, lr)" using info by simp
  obtain out pec where "prepare_close (m_processor c) (rng (m_draws c)) lc lr (Some blank_message) = (out, pec)"
    by (cases "prepare_close (m_processor c) (rng (m_draws c)) lc lr (Some blank_message)")
  note facts = info info2 this prepare_server [OF assms]
  show ?thesis
  proof (cases "pec = None \<and> out \<noteq> None")
    case True
    then show ?thesis
      by (auto simp: send_close_frame_def facts next_draw_def push_and_post_def write_push_def drawn_def Let_def)
  next
    case False
    then show ?thesis by (cases out; cases pec) (simp_all add: send_close_frame_def facts next_draw_def Let_def)
  qed
qed

lemma close_proc:
  "m_server h = m_server (m_processor c) \<Longrightarrow> close rng code reason (with_proc h c) = apfst (with_proc h) (close rng code reason c)"
  by (simp add: close_def send_close_frame_proc Let_def)

lemma ignore_ec_proc: "ignore_ec (apfst f r) = apfst f (ignore_ec r)"
  by (simp add: ignore_ec_def split: prod.splits)

lemma run_api_proc:
  "m_server h = m_server (m_processor c) \<Longrightarrow> run_api rng call (with_proc h c) = apfst (with_proc h) (run_api rng call c)"
  by (cases call) (simp_all add: run_api_def send_string_def send_data_def send_msg_proc ping_proc pong_proc close_proc ignore_ec_proc)

text \<open>Without a change of the processor: it stays the same.\<close>

lemma keeps_proc:
  assumes "\<And>h. m_server h = m_server (m_processor c) \<Longrightarrow> f (with_proc h c) = apfst (with_proc h) (f c)"
  shows "m_processor (fst (f c)) = m_processor c"
proof -
  have "f c = apfst (with_proc (m_processor c)) (f c)" using assms [of "m_processor c"] by simp
  then have "fst (f c) = with_proc (m_processor c) (fst (f c))" by (metis fst_apfst)
  then show ?thesis by (metis connection.select_convs(4) connection.surjective connection.update_convs(4))
qed

lemma run_api_keeps [simp]: "m_processor (fst (run_api rng call c)) = m_processor c"
  by (rule keeps_proc) (rule run_api_proc)

lemma run_calls_proc:
  "m_server h = m_server (m_processor c) \<Longrightarrow> run_calls rng calls (with_proc h c) = apfst (with_proc h) (run_calls rng calls c)"
proof (induction calls arbitrary: c)
  case (Cons call calls)
  obtain c1 effs1 where c1: "run_api rng call c = (c1, effs1)" by (cases "run_api rng call c")
  have "m_server h = m_server (m_processor c1)" using Cons.prems run_api_keeps [of rng call c] c1 by simp
  from Cons.IH [OF this] show ?case using run_api_proc [OF Cons.prems, of rng call] c1
    by (simp split: prod.splits)
qed simp

lemma process_close_frame_proc:
  assumes "m_server h = m_server (m_processor c)"
  shows "process_close_frame rng msg (with_proc h c) = apfst (with_proc h) (process_close_frame rng msg c)"
proof -
  have ack: "ignore_ec (send_close_ack rng code reason (with_proc h c1)) = apfst (with_proc h) (ignore_ec (send_close_ack rng code reason c1))"
    if "m_processor c1 = m_processor c" for code reason c1
    using send_close_frame_proc [of h c1] assms that by (simp add: send_close_ack_def ignore_ec_proc)
  obtain code ec where code: "extract_code (m_payload msg) = (code, ec)" by (cases "extract_code (m_payload msg)")
  obtain reason ec2 where reason: "extract_reason (m_payload msg) = (reason, ec2)" by (cases "extract_reason (m_payload msg)")
  define c1 where "c1 = c\<lparr>m_remote_close_code := code\<rparr>"
  define c2 where "c2 = c1\<lparr>m_remote_close_reason := reason\<rparr>"
  define c3 where "c3 = c2\<lparr>m_was_clean := True\<rparr>"
  have upd: "(with_proc h c)\<lparr>m_remote_close_code := code\<rparr> = with_proc h c1"
    "(with_proc h c1)\<lparr>m_remote_close_reason := reason\<rparr> = with_proc h c2"
    "(with_proc h c2)\<lparr>m_was_clean := True\<rparr> = with_proc h c3"
    by (simp_all add: c1_def c2_def c3_def)
  have proc: "m_processor c1 = m_processor c" "m_processor c2 = m_processor c" by (simp_all add: c1_def c2_def)
  have sel: "con_state (with_proc h c2) = con_state c2" "m_was_clean (with_proc h c2) = m_was_clean c2"
    "m_is_server (with_proc h c3) = m_is_server c3" by simp_all
  show ?thesis
    unfolding process_close_frame_def Let_def code reason prod.case upd c1_def [symmetric] c2_def [symmetric]
      c3_def [symmetric] sel
    using ack [OF proc(1)] ack [OF proc(2)] by (simp add: terminate_proc)
qed

lemma process_control_frame_proc:
  assumes "m_server h = m_server (m_processor c)"
  shows "process_control_frame rng msg (with_proc h c) = apfst (with_proc h) (process_control_frame rng msg c)"
  using process_close_frame_proc [OF assms, of rng msg] pong_proc [OF assms, of rng "m_payload msg"]
  by (simp add: process_control_frame_def Let_def ignore_ec_proc)

lemma dispatch_message_proc:
  assumes "m_server h = m_server (m_processor c)"
  shows "dispatch_message app rng msg (with_proc h c) = apfst (with_proc h) (dispatch_message app rng msg c)"
proof -
  have upd: "(with_proc h c)\<lparr>handler_calls := n\<rparr> = with_proc h (c\<lparr>handler_calls := n\<rparr>)" for n by simp
  show ?thesis
    using run_calls_proc [of h "c\<lparr>handler_calls := handler_calls c + 1\<rparr>" rng "app (handler_calls c) msg"]
      process_control_frame_proc [OF assms, of rng msg] assms
    unfolding dispatch_message_def upd by (simp split: prod.splits)
qed

lemma dispatch_message_keeps [simp]: "m_processor (fst (dispatch_message app rng msg c)) = m_processor c"
  by (rule keeps_proc) (rule dispatch_message_proc)

subsection \<open>Reading a buffer is dispatching the messages of the stream\<close>

fun dispatch_all :: "app \<Rightarrow> (nat \<Rightarrow> u32) \<Rightarrow> ws_msg list \<Rightarrow> connection \<Rightarrow> connection \<times> con_effect list" where
  "dispatch_all app rng [] c = (c, [])"
| "dispatch_all app rng (m # ms) c =
     (let (c1, effs1) = dispatch_message app rng m c; (c2, effs2) = dispatch_all app rng ms c1 in (c2, effs1 @ effs2))"

lemma dispatch_all_no_io: "no_io c (dispatch_all app rng ms c)"
proof (induction ms arbitrary: c)
  case (Cons m ms)
  show ?case using io.then_trans [OF io.dispatch_message Cons.IH] by (simp add: split_def Let_def)
qed (simp add: io.stay)

definition read_end :: "(nat \<Rightarrow> u32) \<Rightarrow> ws_ec \<Rightarrow> connection \<Rightarrow> connection \<times> con_effect list" where
  "read_end rng ec c = (case ec of None \<Rightarrow> (c, read_frame c) | Some e \<Rightarrow> protocol_error rng e c)"

definition read_all ::
  "app \<Rightarrow> (nat \<Rightarrow> u32) \<Rightarrow> hybi13 \<times> ws_msg list \<times> ws_ec \<Rightarrow> connection \<Rightarrow> connection \<times> con_effect list" where
  "read_all app rng r c =
     (case r of (h, ms, ec) \<Rightarrow>
        (let (c1, effs1) = dispatch_all app rng ms (with_proc h c); (c2, effs2) = read_end rng ec c1 in (c2, effs1 @ effs2)))"

definition same_config :: "hybi13 \<Rightarrow> hybi13 \<Rightarrow> bool" where
  "same_config h h1 \<longleftrightarrow> m_server h1 = m_server h \<and> m_max_message_size h1 = m_max_message_size h"

lemma same_config_pieces:
  "copy_basic_header_bytes h buf = (h1, n) \<Longrightarrow> same_config h h1"
  "copy_extended_header_bytes h buf = (h1, n) \<Longrightarrow> same_config h h1"
  "start_frame h = (h1, ec) \<Longrightarrow> same_config h h1"
  "finalize_message h = (h1, ec) \<Longrightarrow> same_config h h1"
  "same_config h (reset_headers h)"
  "process_payload_bytes h buf = (h1, n, ec) \<Longrightarrow> same_config h h1"
  by (auto simp: same_config_def copy_basic_header_bytes_def copy_extended_header_bytes_def start_frame_def
      finalize_message_def reset_headers_def process_payload_bytes_def Let_def
      split: if_splits option.splits prod.splits)

lemma same_config_trans: "same_config h h1 \<Longrightarrow> same_config h1 h2 \<Longrightarrow> same_config h h2"
  by (simp add: same_config_def)

lemma same_config_step:
  assumes "consume_step h buf = (h1, n, ec)"
  shows "same_config h h1"
proof (cases "hstate h")
  case HEADER_BASIC
  obtain h2 k where c: "copy_basic_header_bytes h buf = (h2, k)" by (cases "copy_basic_header_bytes h buf")
  have "same_config h2 h1" using assms HEADER_BASIC
    by (auto simp: consume_step_def consume_basic_def c same_config_def split: if_splits option.splits)
  then show ?thesis using same_config_pieces(1) [OF c] same_config_trans by blast
next
  case HEADER_EXTENDED
  obtain h2 k where c: "copy_extended_header_bytes h buf = (h2, k)" by (cases "copy_extended_header_bytes h buf")
  have "same_config h2 h1" using assms HEADER_EXTENDED
    by (auto simp: consume_step_def consume_extended_def c split: if_splits option.splits prod.splits dest!: same_config_pieces(3))
      (simp_all add: same_config_def)
  then show ?thesis using same_config_pieces(2) [OF c] same_config_trans by blast
next
  case APPLICATION
  define bytes where "bytes = min (unat (m_bytes_needed h)) (length buf)"
  obtain h2 k ec2 where c: "(if bytes > 0 then process_payload_bytes h (take bytes buf) else (h, 0, None)) = (h2, k, ec2)"
    by (metis prod_cases3)
  have "same_config h h2" using c same_config_pieces(6) by (auto simp: same_config_def split: if_splits)
  moreover have "same_config h2 h1" using assms APPLICATION c same_config_pieces(4,5) [of h2]
    by (auto simp: consume_step_def consume_application_def Let_def bytes_def [symmetric] end_of_frame_def same_config_def
        split: if_splits prod.splits)
  ultimately show ?thesis by (rule same_config_trans)
qed (use assms in \<open>auto simp: consume_step_def same_config_def\<close>)

lemma same_config_get_message: "same_config h (fst (get_message h))"
  by (auto simp: get_message_def Let_def same_config_def reset_headers_def split: option.splits)

lemma rx_config: "same_config h (fst (rx h buf))"
proof (induction h buf rule: rx.induct)
  case (1 h buf)
  consider "hstate h = READY" | "hstate h \<noteq> READY" "consuming h buf" | "hstate h \<noteq> READY" "\<not> consuming h buf" by blast
  then show ?case
  proof cases
    case 1
    obtain h2 m where g: "get_message h = (h2, m)" by (cases "get_message h")
    show ?thesis using "1.IH"(1) [OF 1 g [symmetric]] same_config_get_message [of h] g rx_ready [OF 1, of buf] same_config_trans
      by (auto simp: with_msg_def split: prod.splits)
  next
    case 2
    obtain h2 n ec where c: "consume_step h buf = (h2, n, ec)" by (metis prod_cases3)
    note s = same_config_step [OF c]
    show ?thesis
    proof (cases ec)
      case None
      then have cn: "consume_step h buf = (h2, n, None)" using c by simp
      show ?thesis using "1.IH"(2) [OF 2 cn [symmetric] refl refl] s rx_step [OF 2(2)] cn same_config_trans by auto
    qed (use s c rx_step [OF 2(2)] in simp)
  next
    case 3
    then show ?thesis by (simp add: rx_idle same_config_def)
  qed
qed

lemma dispatch_all_proc:
  assumes "m_server h = m_server (m_processor c)"
  shows "dispatch_all app rng ms (with_proc h c) = apfst (with_proc h) (dispatch_all app rng ms c)"
  using assms
proof (induction ms arbitrary: c)
  case (Cons m ms)
  obtain c1 effs1 where c1: "dispatch_message app rng m c = (c1, effs1)" by (cases "dispatch_message app rng m c")
  have "m_server h = m_server (m_processor c1)" using Cons.prems dispatch_message_keeps [of app rng m c] c1 by simp
  from Cons.IH [OF this] show ?case using dispatch_message_proc [OF Cons.prems, of app rng m] c1
    by (simp split: prod.splits)
qed simp

lemma read_all_first:
  assumes "m_server (fst r) = m_server (m_processor c)"
  shows "read_all app rng (with_msg (Some msg) r) c =
    (let (c1, effs1) = dispatch_message app rng msg c; (c2, effs2) = read_all app rng r c1 in (c2, effs1 @ effs2))"
proof -
  obtain h ms ec where r: "r = (h, ms, ec)" by (metis prod_cases3)
  obtain c1 effs1 where "dispatch_message app rng msg c = (c1, effs1)" by (cases "dispatch_message app rng msg c")
  then show ?thesis using assms dispatch_message_proc [of h c app rng msg]
    by (simp add: read_all_def with_msg_def r split: prod.splits)
qed

lemma with_proc_again [simp]: "read_all app rng r (with_proc h c) = read_all app rng r c"
  by (simp add: read_all_def split: prod.splits)

lemma read_loop_rx:
  assumes "hybi13_inv (m_processor c)" "hstate (m_processor c) \<noteq> READY" "m_bytes_needed (m_processor c) \<noteq> 0"
  shows "read_loop app rng c buf = Some (read_all app rng (rx (m_processor c) buf) c)"
  using assms
proof (induction "length buf" arbitrary: c buf rule: less_induct)
  case less
  let ?h = "m_processor c"
  show ?case
  proof (cases "buf = []")
    case True
    then have "rx ?h buf = (?h, [], None)" using less.prems rx_idle [of ?h buf] by (simp add: consuming_def)
    then show ?thesis using True by (subst read_loop.simps) (simp add: read_all_def read_end_def)
  next
    case False
    have con: "consuming ?h buf" using False less.prems by (auto simp: consuming_def hybi13_inv_def)
    obtain h1 n ec where c: "consume ?h buf = (h1, n, ec)" by (metis prod_cases3)
    note f = consume_loop_rx [OF c [unfolded consume_def] less.prems(2)]
    show ?thesis
    proof (cases ec)
      case (Some e)
      then show ?thesis using c f False by (subst read_loop.simps) (simp add: read_all_def read_end_def split: prod.splits)
    next
      case None
      have n: "0 < n" and r: "rx ?h buf = rx h1 (drop n buf)" and nc: "\<not> consuming h1 (drop n buf)" and i: "hybi13_inv h1"
        using f None con less.prems by auto
      have shorter: "length (drop n buf) < length buf" using n False by simp
      show ?thesis
      proof (cases "hstate h1 = READY")
        case True
        obtain h2 m where g: "get_message h1 = (h2, m)" by (cases "get_message h1")
        have h2: "hybi13_inv h2" "hstate h2 \<noteq> READY" "m_bytes_needed h2 \<noteq> 0"
          using inv_get_message [OF i True] g True
          by (auto simp: get_message_def ready_def reset_headers_def Let_def)
        have rr: "rx ?h buf = with_msg m (rx h2 (drop n buf))" using r rx_ready [OF True] g by simp
        define d where "d = (case m of None \<Rightarrow> (with_proc h2 c, []) | Some msg \<Rightarrow> dispatch_message app rng msg (with_proc h2 c))"
        obtain c1 effs1 where d1: "d = (c1, effs1)" by (cases d)
        have "m_processor (fst d) = h2" by (simp add: d_def split: option.split)
        then have "read_loop app rng c1 (drop n buf) = Some (read_all app rng (rx h2 (drop n buf)) c1)"
          using less.hyps [OF shorter, of c1] h2 d1 by simp
        then have "read_loop app rng c buf =
            Some (let (c2, effs2) = read_all app rng (rx h2 (drop n buf)) c1 in (c2, effs1 @ effs2))"
          using c None g True False d1 d_def by (subst read_loop.simps) (simp add: ready_def split: prod.splits)
        also have "(let (c2, effs2) = read_all app rng (rx h2 (drop n buf)) c1 in (c2, effs1 @ effs2)) =
            read_all app rng (rx ?h buf) (with_proc h2 c)"
        proof (cases m)
          case None
          then show ?thesis using d1 rr by (simp add: d_def with_msg_def split: prod.splits)
        next
          case (Some msg)
          have "m_server (fst (rx h2 (drop n buf))) = m_server h2" using rx_config [of h2] by (simp add: same_config_def)
          then show ?thesis using d1 rr Some read_all_first [of "rx h2 (drop n buf)" "with_proc h2 c" app rng msg]
            by (simp add: d_def split: prod.splits)
        qed
        finally show ?thesis by simp
      next
        case nr: False
        then have e: "drop n buf = []" "m_bytes_needed h1 \<noteq> 0"
          using nc i by (auto simp: consuming_def hybi13_inv_def)
        have "rx ?h buf = (h1, [], None)" using r rx_idle [OF nr nc] by simp
        moreover have "read_loop app rng (with_proc h1 c) [] = Some (with_proc h1 c, read_frame (with_proc h1 c))"
          by (subst read_loop.simps) simp
        ultimately show ?thesis using c None nr False e
          by (subst read_loop.simps) (simp add: ready_def read_all_def read_end_def)
      qed
    qed
  qed
qed

subsection \<open>From the application of one end to the application of the other\<close>

text \<open>The buffers that reads deliver, one after the other; the messages the application's handler gets.\<close>

fun read_bufs ::
  "app \<Rightarrow> (nat \<Rightarrow> u32) \<Rightarrow> byte list list \<Rightarrow> connection \<Rightarrow> (connection \<times> con_effect list) option" where
  "read_bufs app rng [] c = Some (c, [])"
| "read_bufs app rng (buf # bufs) c =
     Option.bind (handle_read_frame app rng None buf c) (\<lambda>(c1, effs1).
     Option.bind (read_bufs app rng bufs c1) (\<lambda>(c2, effs2). Some (c2, effs1 @ effs2)))"

definition handled :: "con_effect list \<Rightarrow> ws_msg list" where
  "handled effs = concat (map (\<lambda>e. case e of Call_message_handler m \<Rightarrow> [m] | _ \<Rightarrow> []) effs)"

lemma handled_simps [simp]:
  "handled [] = []" "handled (xs @ ys) = handled xs @ handled ys"
  "handled (Call_message_handler m # effs) = m # handled effs"
  "handled (Post_write_frame # effs) = handled effs" "handled (Async_read_some_bytes # effs) = handled effs"
  "handled (Set_handshake_timer t # effs) = handled effs" "handled (Set_ping_timer t p # effs) = handled effs" "handled (Cancel_ping_timer # effs) = handled effs"
  by (simp_all add: handled_def)

definition never_closes :: "app \<Rightarrow> bool" where
  "never_closes app \<longleftrightarrow> (\<forall>n m. list_all (\<lambda>call. case call of Api_close _ _ \<Rightarrow> False | _ \<Rightarrow> True) (app n m))"

text \<open>What stays the same while messages are handled by an application that does not close.\<close>

definition still_open :: "connection \<Rightarrow> connection \<times> con_effect list \<Rightarrow> bool" where
  "still_open c r \<longleftrightarrow> con_state (fst r) = con_state c \<and> m_message_handler (fst r) = m_message_handler c \<and>
     m_internal_state (fst r) = m_internal_state c \<and> m_processor (fst r) = m_processor c \<and> handled (snd r) = []"

lemma still_open_api:
  assumes "case call of Api_close _ _ \<Rightarrow> False | _ \<Rightarrow> True"
  shows "still_open c (run_api rng call c)"
proof -
  have s: "still_open c (ignore_ec (send_msg rng msg c))" for msg
    by (simp add: send_msg_def still_open_def ignore_ec_def push_and_post_def write_push_def drawn_def Let_def
        split: prod.splits option.splits)
  have "still_open c (ignore_ec (ping rng payload c))" for payload
    by (simp add: ping_def still_open_def ignore_ec_def push_and_post_def write_push_def drawn_def Let_def
        split: prod.splits option.splits)
  moreover have "still_open c (ignore_ec (pong rng payload c))" for payload
    by (simp add: pong_def still_open_def ignore_ec_def push_and_post_def write_push_def drawn_def Let_def
        split: prod.splits option.splits)
  ultimately show ?thesis using assms s by (cases call) (auto simp: run_api_def send_string_def send_data_def)
qed

lemma still_open_calls:
  "list_all (\<lambda>call. case call of Api_close _ _ \<Rightarrow> False | _ \<Rightarrow> True) calls \<Longrightarrow> still_open c (run_calls rng calls c)"
proof (induction calls arbitrary: c)
  case (Cons call calls)
  obtain c1 effs1 where c1: "run_api rng call c = (c1, effs1)" by (cases "run_api rng call c")
  show ?case using still_open_api [of call c rng] Cons.IH [of c1] Cons.prems c1
    by (auto simp: still_open_def split: prod.splits)
qed (simp add: still_open_def)

lemma dispatch_all_data:
  assumes "never_closes app" "list_all (\<lambda>m. \<not> is_control (m_opcode m)) ms" "con_state c = Open" "m_message_handler c"
  shows "\<exists>c1 effs. dispatch_all app rng ms c = (c1, effs) \<and> handled effs = ms \<and> con_state c1 = Open \<and>
    m_message_handler c1 \<and> m_internal_state c1 = m_internal_state c \<and> m_processor c1 = m_processor c"
  using assms(2-)
proof (induction ms arbitrary: c)
  case (Cons m ms)
  define c0 where "c0 = c\<lparr>handler_calls := handler_calls c + 1\<rparr>"
  obtain c1 effs1 where c1: "run_calls rng (app (handler_calls c) m) c0 = (c1, effs1)" by (metis prod.exhaust)
  have "still_open c0 (c1, effs1)"
    using still_open_calls [of "app (handler_calls c) m" c0 rng] assms(1) c1 by (simp add: never_closes_def)
  then have o: "con_state c1 = Open" "m_message_handler c1" "m_internal_state c1 = m_internal_state c" "m_processor c1 = m_processor c"
    "handled effs1 = []" using Cons.prems by (simp_all add: still_open_def c0_def)
  moreover have "dispatch_message app rng m c = (c1, Call_message_handler m # effs1)"
    using Cons.prems c1 by (simp add: dispatch_message_def c0_def)
  ultimately show ?case using Cons.IH [of c1] Cons.prems(1) by auto
qed simp

lemma read_bufs_data:
  assumes "never_closes app" "hybi13_inv (m_processor c)" "hstate (m_processor c) \<noteq> READY" "m_bytes_needed (m_processor c) \<noteq> 0"
    and "con_state c = Open" "m_message_handler c" "m_internal_state c = PROCESS_CONNECTION"
    and "snd (rx (m_processor c) (concat bufs)) = (ms, None)" "list_all (\<lambda>m. \<not> is_control (m_opcode m)) ms"
  shows "\<exists>c1 effs. read_bufs app rng bufs c = Some (c1, effs) \<and> handled effs = ms \<and> con_state c1 = Open"
  using assms(2-)
proof (induction bufs arbitrary: c ms)
  case Nil
  then show ?case by (simp add: rx_idle consuming_def)
next
  case (Cons buf bufs)
  obtain h1 ms1 ec where r: "rx (m_processor c) buf = (h1, ms1, ec)" by (metis prod_cases3)
  have "same_result (rx (m_processor c) (buf @ concat bufs)) (then_rx (h1, ms1, ec) (concat bufs))"
    using rx_append [OF Cons.prems(1), of buf "concat bufs"] r by simp
  then have t: "snd (then_rx (h1, ms1, ec) (concat bufs)) = (ms, None)" using Cons.prems(7) by (simp add: same_result_def)
  then have ec: "ec = None" by (cases ec) (simp_all add: then_rx_def)
  obtain ms2 where ms2: "snd (rx h1 (concat bufs)) = (ms2, None)" "ms = ms1 @ ms2"
    using t ec by (auto simp: then_rx_def split: prod.splits)
  have i: "hybi13_inv h1" "hstate h1 \<noteq> READY" "m_bytes_needed h1 \<noteq> 0" using rx_inv [OF Cons.prems(1)] r ec by simp_all
  obtain c1 effs1 where d: "dispatch_all app rng ms1 (with_proc h1 c) = (c1, effs1)" "handled effs1 = ms1"
    "con_state c1 = Open" "m_message_handler c1" "m_internal_state c1 = PROCESS_CONNECTION" "m_processor c1 = h1"
    using dispatch_all_data [OF assms(1), of ms1 "with_proc h1 c" rng] Cons.prems ms2(2) by auto
  have "handle_read_frame app rng None buf c = Some (c1, effs1 @ read_frame c1)"
    using Cons.prems(1-3,6) d r ec by (simp add: handle_read_frame_def read_loop_rx read_all_def read_end_def)
  moreover have "handled (read_frame c1) = []" by (simp add: read_frame_def)
  moreover obtain c2 effs2 where "read_bufs app rng bufs c1 = Some (c2, effs2)" "handled effs2 = ms2" "con_state c2 = Open"
    using Cons.IH [of c1 ms2] i d ms2 Cons.prems(8) by auto
  ultimately show ?case using d(2) ms2(2) by simp
qed

text \<open>The sender: the frames are queued in order, and none is terminal.\<close>

definition frame_of :: "ws_msg \<Rightarrow> byte list" where
  "frame_of m = m_header m @ m_payload m"

lemma send_string_queues:
  assumes "con_state c = Open" "sendable mx m"
  shows "\<exists>out effs. send_string rng (m_payload m) (m_opcode m) c = (fst (push_and_post out (drawn c)), effs, None) \<and>
    frame_of out = wire (m_processor c) (next_draw rng c) m \<and> \<not> m_terminal out"
proof -
  define m0 where "m0 = (append_payload (m_payload m) (new_message (m_opcode m)))\<lparr>m_compressed := True\<rparr>"
  have m0: "m_opcode m0 = m_opcode m" "m_payload m0 = m_payload m" "m_fin m0" "\<not> m_prepared m0"
    by (simp_all add: m0_def append_payload_def new_message_def)
  have ok: "\<not> is_control (m_opcode m0)" "m_opcode m0 = op_text \<longrightarrow> validate (m_payload m0)"
    using assms(2) m0 by (auto simp: sendable_def is_control_def op_defs)
  obtain out where out: "prepare_data_frame (m_processor c) (next_draw rng c) (Some m0) (Some blank_message) = (Some out, None)"
    "frame_of out = wire (m_processor c) (next_draw rng c) m" "m_terminal out = m_terminal blank_message"
    using prepare_data_frame_bytes [OF ok, of "m_processor c" "next_draw rng c" blank_message]
      wire_frame_bytes [OF assms(2)] m0 by (auto simp: frame_of_def)
  have "send_string rng (m_payload m) (m_opcode m) c = send_msg rng m0 c"
    by (simp add: send_string_def m0_def)
  then show ?thesis using out assms(1) m0(4)
    by (intro exI [of _ out]) (simp add: send_msg_def blank_message_def new_message_def split: prod.splits)
qed

lemma run_sends:
  assumes "con_state c = Open" "list_all (sendable mx) ms"
  shows "\<exists>keys outs c1 effs. run_calls rng (map (\<lambda>m. Api_send (m_payload m) (m_opcode m)) ms) c = (c1, effs) \<and>
    length keys = length ms \<and> m_send_queue c1 = m_send_queue c @ outs \<and>
    concat (map frame_of outs) = concat (map2 (wire (m_processor c)) keys ms) \<and>
    list_all (\<lambda>m. \<not> m_terminal m) outs \<and> length outs = length ms \<and>
    m_write_flag c1 = m_write_flag c \<and> m_current_msgs c1 = m_current_msgs c \<and> con_state c1 = Open"
  using assms
proof (induction ms arbitrary: c)
  case (Cons m ms)
  obtain out effs where out: "send_string rng (m_payload m) (m_opcode m) c = (fst (push_and_post out (drawn c)), effs, None)"
    "frame_of out = wire (m_processor c) (next_draw rng c) m" "\<not> m_terminal out"
    using send_string_queues [of c mx m rng] Cons.prems by auto
  define c1 where "c1 = fst (push_and_post out (drawn c))"
  have api: "run_api rng (Api_send (m_payload m) (m_opcode m)) c = (c1, effs)"
    using out(1) by (simp add: run_api_def ignore_ec_def c1_def)
  have c1: "con_state c1 = Open" "m_send_queue c1 = m_send_queue c @ [out]" "m_write_flag c1 = m_write_flag c"
    "m_current_msgs c1 = m_current_msgs c" "m_processor c1 = m_processor c"
    using Cons.prems(1) run_api_keeps [of rng "Api_send (m_payload m) (m_opcode m)" c] api
    by (simp_all add: c1_def drawn_def)
  obtain keys outs c2 effs2 where ih: "run_calls rng (map (\<lambda>m. Api_send (m_payload m) (m_opcode m)) ms) c1 = (c2, effs2)"
    "length keys = length ms" "m_send_queue c2 = m_send_queue c1 @ outs"
    "concat (map frame_of outs) = concat (map2 (wire (m_processor c1)) keys ms)" "list_all (\<lambda>m. \<not> m_terminal m) outs"
    "length outs = length ms" "m_write_flag c2 = m_write_flag c1" "m_current_msgs c2 = m_current_msgs c1" "con_state c2 = Open"
    using Cons.IH [OF c1(1)] Cons.prems(2) by auto
  show ?case
    using ih c1 api out by (intro exI [of _ "next_draw rng c # keys"] exI [of _ "out # outs"]) simp
qed simp

lemma write_frame_all:
  assumes "\<not> m_write_flag c" "m_current_msgs c = []" "list_all (\<lambda>m. \<not> m_terminal m) (m_send_queue c)" "m_send_queue c \<noteq> []"
  shows "snd (write_frame c) = [Async_write_msgs (m_send_queue c)]"
proof -
  obtain taken where t: "m_current_msgs (pull_messages c) = taken" "taken @ m_send_queue (pull_messages c) = m_send_queue c"
    "m_send_queue (pull_messages c) = [] \<or> taken \<noteq> [] \<and> m_terminal (last taken)"
    using pull_messages_taken [of c] assms(2) by auto
  have "m_send_queue (pull_messages c) = []"
  proof (rule ccontr)
    assume "m_send_queue (pull_messages c) \<noteq> []"
    then have "last taken \<in> set (m_send_queue c)" "m_terminal (last taken)" using t(2,3) by (auto simp flip: t(2))
    then show False using assms(3) by (auto simp: list_all_iff)
  qed
  then show ?thesis using assms t by (simp add: write_frame_def Let_def)
qed

subsection \<open>Close frames between the two ends\<close>

lemma prepare_close_bytes:
  assumes "\<not> cc_reserved code" "\<not> cc_invalid code" "length reason \<le> 123"
  shows "\<exists>out. prepare_close h draw code reason (Some blank_message) = (Some out, None) \<and>
    frame_of out = frame_bytes op_close True (\<not> m_server h) draw (wr_le 2 (htons code) @ reason) \<and> \<not> m_terminal out"
proof -
  have "code \<noteq> cc_no_status" using assms(2) by (auto simp: cc_invalid_def)
  moreover have "is_control op_close" "length (wr_le 2 (htons code) @ reason) \<le> 125"
    using assms(3) by (simp_all add: is_control_def op_defs)
  ultimately show ?thesis
    using prepare_control_bytes [of op_close "wr_le 2 (htons code) @ reason" h draw blank_message] assms
    by (auto simp: prepare_close_def size_defs frame_of_def blank_message_def new_message_def)
qed

text \<open>A close frame that can be sent, and the connection after it.\<close>

definition closing_with :: "ws_msg \<Rightarrow> bool \<Rightarrow> bool \<Rightarrow> close_code \<Rightarrow> byte list \<Rightarrow> connection \<Rightarrow> connection \<Rightarrow> bool" where
  "closing_with msg ack terminal code reason c c1 \<longleftrightarrow>
     m_send_queue c1 = m_send_queue c @ [msg] \<and> con_state c1 = Closing \<and> m_was_clean c1 = (ack \<or> m_was_clean c) \<and>
     m_local_close_code c1 = code \<and> m_local_close_reason c1 = reason \<and>
     m_remote_close_code c1 = m_remote_close_code c \<and> m_remote_close_reason c1 = m_remote_close_reason c \<and>
     m_processor c1 = m_processor c \<and> m_write_flag c1 = m_write_flag c \<and> m_current_msgs c1 = m_current_msgs c \<and>
     m_is_server c1 = m_is_server c \<and> m_internal_state c1 = m_internal_state c \<and> m_terminal msg = terminal \<and>
     m_read_flag c1 = m_read_flag c \<and>
     (\<exists>draw. frame_of msg = frame_bytes op_close True (\<not> m_server (m_processor c)) draw (wr_le 2 (htons code) @ reason))"

lemma send_close_frame_sends:
  assumes "close_info code0 reason0 ack c = (code, reason)" "\<not> cc_reserved code" "\<not> cc_invalid code" "length reason \<le> 123"
  shows "\<exists>msg c1 effs. send_close_frame rng code0 reason0 ack terminal c = (c1, effs, None) \<and>
    closing_with msg ack terminal code reason c c1 \<and> handled effs = []"
proof -
  obtain out where "prepare_close (m_processor c) (rng (m_draws c)) code reason (Some blank_message) = (Some out, None)"
    "frame_of out = frame_bytes op_close True (\<not> m_server (m_processor c)) (rng (m_draws c)) (wr_le 2 (htons code) @ reason)"
    "\<not> m_terminal out"
    using prepare_close_bytes [OF assms(2-4)] by blast
  then show ?thesis
    by (intro exI [of _ "if terminal then out\<lparr>m_terminal := True\<rparr> else out"])
      (auto simp: send_close_frame_def assms(1) next_draw_def closing_with_def push_and_post_def write_push_def drawn_def
        frame_of_def Let_def)
qed

lemma write_frame_close:
  assumes "\<not> m_write_flag c" "m_current_msgs c = []" "m_send_queue c = [msg]"
  shows "write_frame c = (fst (write_frame c), [Async_write_msgs [msg]]) \<and> m_send_queue (fst (write_frame c)) = [] \<and>
    m_current_msgs (fst (write_frame c)) = [msg] \<and>
    con_state (fst (write_frame c)) = con_state c \<and> m_was_clean (fst (write_frame c)) = m_was_clean c \<and>
    m_processor (fst (write_frame c)) = m_processor c \<and> m_is_server (fst (write_frame c)) = m_is_server c \<and>
    m_internal_state (fst (write_frame c)) = m_internal_state c"
proof -
  define c2 where "c2 = c\<lparr>m_send_buffer_size := m_send_buffer_size c - length (m_payload msg), m_send_queue := [],
    m_current_msgs := [msg]\<rparr>"
  have "pull_messages c2 = c2" by (subst pull_messages_step) (simp add: c2_def)
  then have "pull_messages c = c2" using assms by (subst pull_messages_step) (simp add: c2_def [symmetric] Let_def)
  then show ?thesis using assms by (simp add: write_frame_def c2_def)
qed

text \<open>A connection that is open and idle: nothing is queued or being written, no frame is half read.\<close>

definition quiescent :: "connection \<Rightarrow> bool" where
  "quiescent c \<longleftrightarrow> con_state c = Open \<and> m_internal_state c = PROCESS_CONNECTION \<and> \<not> m_was_clean c \<and>
     m_send_queue c = [] \<and> m_current_msgs c = [] \<and> \<not> m_write_flag c \<and>
     idle (m_processor c) \<and> msg_ptr (m_data_msg (m_processor c)) = None \<and> m_server (m_processor c) = m_is_server c"

lemma quiescent_open [simp]: "quiescent (open_connection server)"
  by (simp add: quiescent_def) (simp add: open_connection_def)

lemma read_close_frame:
  assumes "idle (m_processor c)" "msg_ptr (m_data_msg (m_processor c)) = None" "m_internal_state c = PROCESS_CONNECTION"
    and "\<not> cc_invalid code" "\<not> cc_reserved code" "length reason \<le> 123"
  shows "\<exists>h1. m_server h1 = m_server (m_processor c) \<and>
    handle_read_frame app rng None (frame_bytes op_close True (m_server (m_processor c)) key (wr_le 2 (htons code) @ reason)) c =
      Some (let (c1, effs) = process_control_frame rng (delivered op_close (wr_le 2 (htons code) @ reason)) (with_proc h1 c)
            in (c1, effs @ read_frame c1))"
proof -
  let ?h = "m_processor c" and ?p = "wr_le 2 (htons code) @ reason"
  have i: "hybi13_inv ?h" "hstate ?h \<noteq> READY" "m_bytes_needed ?h \<noteq> 0" using assms(1) by (simp_all add: idle_def)
  obtain h1 where h1: "idle h1" "m_server h1 = m_server ?h"
    "rx ?h (frame_bytes op_close True (m_server ?h) key ?p @ []) = with_msg (Some (delivered op_close ?p)) (rx h1 [])"
    using rx_control_frame [OF assms(1), of op_close ?p "m_server ?h" key "[]"] assms(2,6) by auto
  have "rx h1 [] = (h1, [], None)" using h1(1) by (simp add: rx_idle consuming_def idle_def)
  then have "rx ?h (frame_bytes op_close True (m_server ?h) key ?p) = (h1, [delivered op_close ?p], None)"
    using h1(3) by (simp add: with_msg_def)
  moreover have "is_control op_close" by (simp add: is_control_def op_defs)
  moreover have "m_opcode (delivered op_close ?p) = op_close" by (simp add: delivered_def new_message_def)
  ultimately show ?thesis using h1(2) assms(3) i
    by (intro exI [of _ h1]) (simp add: handle_read_frame_def read_loop_rx read_all_def read_end_def dispatch_message_def
        split: prod.splits)
qed

subsection \<open>Properties\<close>

text \<open>
  C20: Messages get from one application to the other: when the application of one end sends any number of text
  and binary messages (texts valid UTF-8, none above the size limit), and the bytes that the connection
  then hands to its transport arrive at the other end in any pieces, the message handler there is
  called with exactly these messages, in order, whatever it sends itself; the connection stays open.
\<close>
theorem sent_messages_reach_handler:
  assumes "list_all (sendable max_message_size) ms"
    and "run_calls rng (map (\<lambda>m. Api_send (m_payload m) (m_opcode m)) ms) (open_connection (\<not> server)) = (s1, effs1)"
    and "write_frame s1 = (s2, [Async_write_msgs out])"
    and "concat bufs = concat (map frame_of out)" "never_closes app"
  shows "\<exists>c effs. read_bufs app rng2 bufs (open_connection server) = Some (c, effs) \<and>
    handled effs = map (\<lambda>m. delivered (m_opcode m) (m_payload m)) ms \<and> con_state c = Open"
proof -
  let ?h = "new_hybi13 server max_message_size"
  obtain keys outs where outs: "length keys = length ms" "m_send_queue s1 = outs"
    "concat (map frame_of outs) = concat (map2 (wire (new_hybi13 (\<not> server) max_message_size)) keys ms)"
    "list_all (\<lambda>m. \<not> m_terminal m) outs" "\<not> m_write_flag s1" "m_current_msgs s1 = []"
    using run_sends [of "open_connection (\<not> server)" max_message_size ms rng] assms(1,2) by auto
  have "out = outs"
  proof (cases "outs = []")
    case True
    then show ?thesis using assms(3) outs(2,5,6) pull_messages_taken [of s1]
      by (auto simp: write_frame_def Let_def split: if_splits)
  next
    case False
    then show ?thesis using write_frame_all [of s1] assms(3) outs by simp
  qed
  then have "snd (rx ?h (concat bufs)) = (map (\<lambda>m. delivered (m_opcode m) (m_payload m)) ms, None)"
    unfolding assms(4) using outs(1,3) assms(1) by (simp add: rx_messages)
  moreover have "list_all (\<lambda>m. \<not> is_control (m_opcode m)) (map (\<lambda>m. delivered (m_opcode m) (m_payload m)) ms)"
    using assms(1) by (auto simp: list_all_iff sendable_def delivered_def new_message_def is_control_def op_defs)
  ultimately show ?thesis using read_bufs_data [OF assms(5), of "open_connection server" bufs] by simp
qed

definition echo_app :: app where "echo_app n m = [Api_send (m_payload m) (m_opcode m)]"

theorem sent_messages_reach_handler_witness:
  "\<exists>c effs. read_bufs echo_app (\<lambda>_. 0)
      (case write_frame (fst (run_calls (\<lambda>_. 0x11223344) [Api_send [104, 105] op_text, Api_send [0xFF] op_binary] (open_connection False))) of
         (s2, [Async_write_msgs out]) \<Rightarrow> map (\<lambda>b. [b]) (concat (map frame_of out)) | _ \<Rightarrow> []) (open_connection True) = Some (c, effs) \<and>
    handled effs = [delivered op_text [104, 105], delivered op_binary [0xFF]] \<and> con_state c = Open"
proof -
  let ?ms = "[delivered op_text [104, 105], delivered op_binary [0xFF]]"
  let ?calls = "[Api_send [104, 105] op_text, Api_send [0xFF] op_binary]"
  let ?s = "fst (run_calls (\<lambda>_. 0x11223344) ?calls (open_connection False))"
  have "validate [104, 105]" by code_simp
  then have ok: "list_all (sendable max_message_size) ?ms"
    by (simp add: sendable_def delivered_def new_message_def max_message_size_def)
  have calls: "?calls = map (\<lambda>m. Api_send (m_payload m) (m_opcode m)) ?ms" by (simp add: delivered_def new_message_def)
  obtain out where out: "snd (write_frame ?s) = [Async_write_msgs out]"
  proof -
    have "case snd (write_frame ?s) of [Async_write_msgs _] \<Rightarrow> True | _ \<Rightarrow> False" by code_simp
    then show ?thesis using that by (auto split: list.splits con_effect.splits)
  qed
  then have w: "write_frame ?s = (fst (write_frame ?s), [Async_write_msgs out])" by (metis prod.collapse)
  have "concat (map (\<lambda>b. [b]) xs) = xs" for xs :: "byte list" by (induction xs) simp_all
  moreover have "never_closes echo_app" by (simp add: never_closes_def echo_app_def)
  ultimately have "\<exists>c effs. read_bufs echo_app (\<lambda>_. 0) (map (\<lambda>b. [b]) (concat (map frame_of out))) (open_connection True) = Some (c, effs) \<and>
    handled effs = map (\<lambda>m. delivered (m_opcode m) (m_payload m)) ?ms \<and> con_state c = Open"
    using w calls by (intro sent_messages_reach_handler [OF ok, of _ True ?s _ "fst (write_frame ?s)" out]) (simp_all add: prod_eq_iff)
  then show ?thesis using out by (simp add: delivered_def new_message_def split_def)
qed

text \<open>
  The three parts of the closing handshake: the frame of the end that begins, the answer of the peer, and
  what the first end does with the answer.
\<close>

definition valid_close :: "close_code \<Rightarrow> byte list \<Rightarrow> bool" where
  "valid_close code reason \<longleftrightarrow> \<not> cc_invalid code \<and> \<not> cc_reserved code \<and> length reason \<le> 123 \<and> validate reason"

definition close_payload :: "close_code \<Rightarrow> byte list \<Rightarrow> byte list" where
  "close_payload code reason = wr_le 2 (htons code) @ reason"

lemma close_payload_extract:
  assumes "valid_close code reason"
  shows "extract_code (close_payload code reason) = (code, None)" "extract_reason (close_payload code reason) = (reason, None)"
  unfolding close_payload_def
  using extract_code_written [of code reason] extract_reason_written [of "wr_le 2 (htons code)" reason] assms
  by (simp_all add: valid_close_def del: wr_le_htons)

lemma delivered_fields [simp]: "m_payload (delivered op p) = p" "m_opcode (delivered op p) = op"
  by (simp_all add: delivered_def new_message_def)

lemma process_close:
  assumes "con_state c \<noteq> Closed"
  shows "process_control_frame rng (delivered op_close p) c = process_close_frame rng (delivered op_close p) c"
proof -
  have "op_close \<noteq> op_ping" "op_close \<noteq> op_pong" by (simp_all add: op_defs)
  then show ?thesis using assms by (simp add: process_control_frame_def Let_def)
qed

lemma close_begins:
  assumes "quiescent c" "valid_close code reason" "\<not> cc_terminal code"
  shows "\<exists>f a effs. close rng code reason c = (a, effs, None) \<and> closing_with f False False code reason c a"
proof -
  note v = assms(2) [unfolded valid_close_def]
  have "code \<noteq> cc_blank" using v by (auto simp: cc_invalid_def cc_defs)
  then have info: "close_info code reason False c = (code, reason)" by (simp add: close_info_def silent_close_def)
  have "take (min (length reason) (unat close_reason_size)) reason = reason" using v by (simp add: size_defs)
  then show ?thesis
    using send_close_frame_sends [OF info, of rng False] v assms(1,3) by (auto simp: close_def Let_def quiescent_def)
qed

lemma close_answered:
  assumes "valid_close code reason" "con_state c = Open"
  shows "\<exists>f c1 effs. process_control_frame rng (delivered op_close (close_payload code reason)) c = (c1, effs) \<and>
    closing_with f True (m_is_server c) code reason (c\<lparr>m_remote_close_code := code, m_remote_close_reason := reason\<rparr>) c1"
proof -
  define c0 where "c0 = c\<lparr>m_remote_close_code := code, m_remote_close_reason := reason\<rparr>"
  note v = assms(1) [unfolded valid_close_def]
  have "code \<noteq> cc_no_status" using v by (auto simp: cc_invalid_def)
  then have "close_info cc_blank [] True c0 = (code, reason)"
    by (simp add: close_info_def silent_close_def c0_def)
  then obtain f c1 effs where f: "send_close_frame rng cc_blank [] True (m_is_server c) c0 = (c1, effs, None)"
    "closing_with f True (m_is_server c) code reason c0 c1"
    using send_close_frame_sends v by blast
  have "process_control_frame rng (delivered op_close (close_payload code reason)) c = (c1, effs)"
    using f(1) close_payload_extract [OF assms(1)] assms(2)
    by (simp add: process_close process_close_frame_def send_close_ack_def ignore_ec_def c0_def)
  then show ?thesis using f(2) unfolding c0_def by blast
qed

lemma close_acknowledged:
  assumes "valid_close code reason" "con_state c = Closing" "\<not> m_was_clean c"
  shows "\<exists>c1 effs. process_control_frame rng (delivered op_close (close_payload code reason)) c = (c1, effs) \<and>
    m_was_clean c1 \<and> con_state c1 = (if m_is_server c then Closed else Closing) \<and>
    m_remote_close_code c1 = code \<and> m_remote_close_reason c1 = reason \<and> m_is_server c1 = m_is_server c"
  using close_payload_extract [OF assms(1)] assms(2,3)
  by (simp add: process_close process_close_frame_def terminate_def)

lemma read_close:
  assumes "idle (m_processor c)" "msg_ptr (m_data_msg (m_processor c)) = None" "m_internal_state c = PROCESS_CONNECTION"
    and "valid_close code reason" "frame_of f = frame_bytes op_close True (m_server (m_processor c)) key (close_payload code reason)"
  shows "\<exists>h1. m_server h1 = m_server (m_processor c) \<and> handle_read_frame app rng None (frame_of f) c =
      Some (let (c1, effs) = process_control_frame rng (delivered op_close (close_payload code reason)) (with_proc h1 c)
            in (c1, effs @ read_frame c1))"
  using read_close_frame [OF assms(1-3), of code reason app rng key] assms(4,5)
  by (simp add: valid_close_def close_payload_def)

lemma close_read_and_answered:
  assumes "quiescent c" "valid_close code reason"
    and "frame_of f = frame_bytes op_close True (m_server (m_processor c)) key (close_payload code reason)"
  shows "\<exists>b effs g key2. handle_read_frame app rng None (frame_of f) c = Some (b, effs) \<and>
    snd (write_frame b) = [Async_write_msgs [g]] \<and> m_terminal g = m_is_server c \<and> m_was_clean b \<and> con_state b = Closing \<and>
    m_remote_close_code b = code \<and> m_remote_close_reason b = reason \<and>
    \<not> m_write_flag b \<and> m_current_msgs b = [] \<and> m_send_queue b = [g] \<and> m_is_server b = m_is_server c \<and>
    frame_of g = frame_bytes op_close True (\<not> m_is_server c) key2 (close_payload code reason)"
proof -
  note q = assms(1) [unfolded quiescent_def]
  obtain h where h: "m_server h = m_server (m_processor c)" "handle_read_frame app rng None (frame_of f) c =
      Some (let (c1, effs) = process_control_frame rng (delivered op_close (close_payload code reason)) (with_proc h c)
            in (c1, effs @ read_frame c1))"
    using read_close [OF _ _ _ assms(2,3)] q by blast
  obtain g b effs where b: "process_control_frame rng (delivered op_close (close_payload code reason)) (with_proc h c) = (b, effs)"
    "closing_with g True (m_is_server c) code reason ((with_proc h c)\<lparr>m_remote_close_code := code, m_remote_close_reason := reason\<rparr>) b"
    using close_answered [OF assms(2), of "with_proc h c" rng] q by auto
  have "snd (write_frame b) = [Async_write_msgs [g]]"
    using write_frame_close [of b g] b(2) q by (auto simp: closing_with_def dest: arg_cong [of _ _ snd])
  moreover obtain key2 where "frame_of g = frame_bytes op_close True (\<not> m_is_server c) key2 (close_payload code reason)"
    using b(2) h(1) q by (auto simp: closing_with_def close_payload_def)
  ultimately show ?thesis using h(2) b q by (auto simp: closing_with_def)
qed

lemma read_frame_shutdowns:
  assumes "handle_read_frame app rng ec buf c = Some (c1, effs)"
  shows "shutdowns effs + (if con_state c = Closed then 1 else 0) = (if con_state c1 = Closed then 1 else 0)"
proof -
  obtain effs0 where f: "follows c (c1, effs0)" "effs = effs0 \<or> effs = effs0 @ read_frame c1"
    using fo.handle_read_frame [OF assms] by auto
  have "shutdowns (read_frame c1) = 0" by (simp add: read_frame_def)
  then have "shutdowns effs = shutdowns effs0" using f(2) by auto
  then show ?thesis using f(1) by (simp add: follows_def)
qed

text \<open>The frame that a closing end wrote: a terminal one makes it ask for the shutdown.\<close>

lemma close_frame_written:
  assumes "\<not> m_write_flag c" "m_current_msgs c = []" "m_send_queue c = [msg]" "con_state c = Closing"
  shows "\<exists>w effs. handle_write_frame None (fst (write_frame c)) = (w, effs) \<and>
    con_state w = (if m_terminal msg then Closed else Closing) \<and> shutdowns effs = (if m_terminal msg then 1 else 0) \<and>
    m_was_clean w = m_was_clean c \<and> m_processor w = m_processor c \<and> m_is_server w = m_is_server c \<and>
    m_internal_state w = m_internal_state c"
proof -
  note w = write_frame_close [OF assms(1-3)]
  show ?thesis
  proof (cases "m_terminal msg")
    case True
    then show ?thesis using w assms(4) by (simp add: handle_write_frame_def terminate_def Let_def)
  next
    case False
    then show ?thesis using w assms(4) by (simp add: handle_write_frame_def Let_def)
  qed
qed

lemma eof_ends_closing_client:
  assumes "con_state c = Closing" "\<not> m_is_server c"
  shows "handle_read_frame app rng (Some (Transport Tr_eof)) [] c = Some (terminate None c)"
  using assms by (simp add: handle_read_frame_def)

text \<open>The messages of the processor's errors fit into a close frame.\<close>

lemma processor_error_message_ascii:
  "length (processor_error_message e) \<le> 123 \<and> list_all (\<lambda>b. b < 128) (bytes_of (processor_error_message e))"
proof (cases e)
qed (simp_all only: processor_error_message.simps; code_simp)+

lemma valid_close_error: "valid_close (to_ws (Processor e)) (bytes_of (processor_error_message e))"
  using processor_error_message_ascii [of e] to_ws_sendable validate_ascii by (simp add: valid_close_def)

lemma close_sends:
  assumes "con_state c = Open" "\<not> cc_invalid code" "\<not> cc_reserved code"
  shows "\<exists>f a effs. close rng code reason c = (a, effs, None) \<and>
    closing_with f False (cc_terminal code) code (take 123 reason) c a \<and> handled effs = []"
proof -
  have "code \<noteq> cc_blank" using assms(2) by (auto simp: cc_invalid_def cc_defs)
  then have info: "close_info code (take 123 reason) False c = (code, take 123 reason)"
    by (simp add: close_info_def silent_close_def)
  have "take (min (length reason) (unat close_reason_size)) reason = take 123 reason"
    by (simp add: size_defs min_def)
  then show ?thesis
    using send_close_frame_sends [OF info assms(3,2), of rng "cc_terminal code"] assms(1) by (auto simp: close_def Let_def)
qed

text \<open>
  C26: The closing handshake completes: an application closes an idle connection with a code that is not
  terminal and a valid reason; its frame is written and read by the peer, whose acknowledgement is
  written and read back.  Then both ends count the close as clean and both know code and reason.  The end
  that is the server has closed, and asked its transport for a shutdown exactly once: when it read the
  acknowledgement, if it began, and otherwise when its own, marked terminal, was written.  The client has not
  asked for any and waits; the end of the stream closes it, and it asks for its only shutdown then.
\<close>
theorem closing_handshake_completes:
  assumes "quiescent c1" "quiescent c2" "m_is_server c2 = (\<not> m_is_server c1)" "valid_close code reason" "\<not> cc_terminal code"
  shows "\<exists>a1 e1 f1 w1 e2 b1 e3 f2 b2 e4 a2 e5.
    close rng1 code reason c1 = (a1, e1, None) \<and> snd (write_frame a1) = [Async_write_msgs [f1]] \<and> \<not> m_terminal f1 \<and>
    handle_write_frame None (fst (write_frame a1)) = (w1, e2) \<and>
    handle_read_frame app2 rng2 None (frame_of f1) c2 = Some (b1, e3) \<and> snd (write_frame b1) = [Async_write_msgs [f2]] \<and>
    m_terminal f2 = m_is_server c2 \<and> m_was_clean b1 \<and> con_state b1 = Closing \<and>
    m_remote_close_code b1 = code \<and> m_remote_close_reason b1 = reason \<and>
    handle_write_frame None (fst (write_frame b1)) = (b2, e4) \<and>
    handle_read_frame app1 rng1 None (frame_of f2) w1 = Some (a2, e5) \<and>
    m_was_clean a2 \<and> m_remote_close_code a2 = code \<and> m_remote_close_reason a2 = reason \<and>
    con_state a2 = (if m_is_server c1 then Closed else Closing) \<and> con_state b2 = (if m_is_server c2 then Closed else Closing) \<and>
    shutdowns (e1 @ e2 @ e5) = (if m_is_server c1 then 1 else 0) \<and> shutdowns (e3 @ e4) = (if m_is_server c2 then 1 else 0) \<and>
    (let waiting = (if m_is_server c1 then b2 else a2) in \<exists>ended e6.
       handle_read_frame app3 rng3 (Some (Transport Tr_eof)) [] waiting = Some (ended, e6) \<and>
       con_state ended = Closed \<and> shutdowns e6 = 1 \<and> m_ec ended = m_ec waiting)"
proof -
  note q = assms(1,2) [unfolded quiescent_def]
  obtain f1 a1 e1 where 1: "close rng1 code reason c1 = (a1, e1, None)" "closing_with f1 False False code reason c1 a1"
    using close_begins [OF assms(1,4,5)] by blast
  have a1: "\<not> m_write_flag a1" "m_current_msgs a1 = []" "m_send_queue a1 = [f1]" "con_state a1 = Closing" "\<not> m_terminal f1"
    "\<not> m_was_clean a1" "m_processor a1 = m_processor c1" "m_is_server a1 = m_is_server c1" "m_internal_state a1 = PROCESS_CONNECTION"
    using 1(2) q(1) by (auto simp: closing_with_def)
  have e1: "shutdowns e1 = 0" using fo.close [OF 1(1)] a1(4) q(1) by (simp add: follows_def)
  obtain w e2 where w: "handle_write_frame None (fst (write_frame a1)) = (w, e2)" "con_state w = Closing" "shutdowns e2 = 0"
    "\<not> m_was_clean w" "m_processor w = m_processor c1" "m_is_server w = m_is_server c1" "m_internal_state w = PROCESS_CONNECTION"
    using close_frame_written [OF a1(1-4)] a1(5-) by auto
  have f1: "snd (write_frame a1) = [Async_write_msgs [f1]]" using write_frame_close [OF a1(1-3)] by (metis snd_conv)
  obtain key where "frame_of f1 = frame_bytes op_close True (m_server (m_processor c2)) key (close_payload code reason)"
    using 1(2) q assms(3) by (auto simp: closing_with_def close_payload_def)
  from close_read_and_answered [OF assms(2,4) this, of app2 rng2] obtain b1 e3 f2 key2
    where 2: "handle_read_frame app2 rng2 None (frame_of f1) c2 = Some (b1, e3)" "snd (write_frame b1) = [Async_write_msgs [f2]]"
      "m_terminal f2 = m_is_server c2" "m_was_clean b1" "con_state b1 = Closing" "m_remote_close_code b1 = code" "m_remote_close_reason b1 = reason"
      "frame_of f2 = frame_bytes op_close True (m_server (m_processor w)) key2 (close_payload code reason)"
      and b1: "\<not> m_write_flag b1" "m_current_msgs b1 = []" "m_send_queue b1 = [f2]" "m_is_server b1 = m_is_server c2"
    using q w assms(3) by auto
  have e3: "shutdowns e3 = 0" using read_frame_shutdowns [OF 2(1)] 2(5) q(2) by simp
  obtain b2 e4 where b2: "handle_write_frame None (fst (write_frame b1)) = (b2, e4)" "con_state b2 = (if m_is_server c2 then Closed else Closing)"
    "shutdowns e4 = (if m_is_server c2 then 1 else 0)" "m_is_server b2 = m_is_server c2"
    using close_frame_written [OF b1(1-3) 2(5)] 2(3) b1(4) by auto
  obtain h3 where h3: "handle_read_frame app1 rng1 None (frame_of f2) w =
      Some (let (c, effs) = process_control_frame rng1 (delivered op_close (close_payload code reason)) (with_proc h3 w)
            in (c, effs @ read_frame c))"
    using read_close [OF _ _ w(7) assms(4) 2(8)] q(1) w(5) by auto
  obtain a2 e0 where p: "process_control_frame rng1 (delivered op_close (close_payload code reason)) (with_proc h3 w) = (a2, e0)"
    "m_was_clean a2" "con_state a2 = (if m_is_server c1 then Closed else Closing)" "m_remote_close_code a2 = code" "m_remote_close_reason a2 = reason"
    "m_is_server a2 = m_is_server c1"
    using close_acknowledged [OF assms(4), of "with_proc h3 w" rng1] w by auto
  define e5 where "e5 = e0 @ read_frame a2"
  have a2: "handle_read_frame app1 rng1 None (frame_of f2) w = Some (a2, e5)" using h3 p(1) by (simp add: e5_def)
  have e5: "shutdowns e5 = (if m_is_server c1 then 1 else 0)" using read_frame_shutdowns [OF a2] p(3) w(2) by simp
  define waiting where "waiting = (if m_is_server c1 then b2 else a2)"
  have "con_state waiting = Closing" "\<not> m_is_server waiting"
    using p(3,6) b2(2,4) assms(3) by (simp_all add: waiting_def)
  then have "handle_read_frame app3 rng3 (Some (Transport Tr_eof)) [] waiting = Some (terminate None waiting)"
    "con_state (fst (terminate None waiting)) = Closed" "shutdowns (snd (terminate None waiting)) = 1"
    "m_ec (fst (terminate None waiting)) = m_ec waiting"
    by (simp_all add: eof_ends_closing_client) (simp add: terminate_def)
  then have fin: "let waiting = (if m_is_server c1 then b2 else a2) in \<exists>ended e6.
       handle_read_frame app3 rng3 (Some (Transport Tr_eof)) [] waiting = Some (ended, e6) \<and>
       con_state ended = Closed \<and> shutdowns e6 = 1 \<and> m_ec ended = m_ec waiting"
    unfolding waiting_def [symmetric] Let_def
    by (intro exI [of _ "fst (terminate None waiting)"] exI [of _ "snd (terminate None waiting)"]) simp
  have sh: "shutdowns (e1 @ e2 @ e5) = (if m_is_server c1 then 1 else 0)" "shutdowns (e3 @ e4) = (if m_is_server c2 then 1 else 0)"
    using e1 w(3) e5 e3 b2(3) by simp_all
  show ?thesis
    by (intro exI conjI, rule 1(1), rule f1, rule a1(5), rule w(1), rule 2(1), rule 2(2), rule 2(3), rule 2(4), rule 2(5),
        rule 2(6), rule 2(7), rule b2(1), rule a2, rule p(2), rule p(4), rule p(5), rule p(3), rule b2(2), rule sh(1), rule sh(2), rule fin)
qed

theorem closing_handshake_completes_witness:
  "\<exists>f2 a2 e5 ended e6. handle_read_frame silent_app (\<lambda>_. 7) None (frame_of f2)
      (fst (handle_write_frame None (fst (write_frame (fst (close (\<lambda>_. 7) cc_going_away [98, 121, 101] (open_connection False))))))) = Some (a2, e5) \<and>
    con_state a2 = Closing \<and> m_remote_close_reason a2 = [98, 121, 101] \<and>
    handle_read_frame silent_app (\<lambda>_. 7) (Some (Transport Tr_eof)) [] a2 = Some (ended, e6) \<and> con_state ended = Closed \<and> shutdowns e6 = 1"
proof -
  have "validate [98, 121, 101]" by code_simp
  then have "valid_close cc_going_away [98, 121, 101]" "\<not> cc_terminal cc_going_away"
    by (simp_all add: valid_close_def cc_invalid_def cc_reserved_def cc_terminal_def cc_defs)
  from closing_handshake_completes [OF quiescent_open [of False] quiescent_open [of True] _ this, of "\<lambda>_. 7" silent_app "\<lambda>_. 9" silent_app silent_app "\<lambda>_. 7"]
  show ?thesis by (auto simp: prod_eq_iff Let_def open_connection_def)
qed

text \<open>
  C27: A protocol error ends the connection: when the bytes that arrive on an open connection break the protocol,
  the messages before the error are handled and, if the application has not closed, a close frame is queued
  that carries the code of the error and its message, and is terminal; nothing more is read.  When the
  connection was closing already it is terminated.
\<close>
theorem protocol_error_closes:
  assumes "receive (new_hybi13 server max_message_size) buf = Some (h, ms, Some e)"
    and "list_all (\<lambda>m. \<not> is_control (m_opcode m)) ms" "never_closes app"
  shows "\<exists>p c f c1 effs. e = Processor p \<and> handle_read_frame app rng None buf (open_connection server) = Some (c1, effs) \<and>
    handled effs = ms \<and> read_requests effs = 0 \<and>
    closing_with f False True (to_ws e) (bytes_of (ec_message e)) c c1 \<and>
    con_state (fst (protocol_error rng e c1)) = Closed"
proof -
  let ?c = "open_connection server"
  let ?h = "new_hybi13 server max_message_size"
  have r: "rx ?h buf = (h, ms, Some e)" using assms(1) by (simp add: receive_rx)
  then obtain p where p: "e = Processor p" using rx_error [of ?h] by fastforce
  obtain c effs where d: "dispatch_all app rng ms (with_proc h ?c) = (c, effs)" "handled effs = ms" "con_state c = Open"
    using dispatch_all_data [OF assms(3,2), of "with_proc h ?c" rng] by auto
  note v = valid_close_error [of p, unfolded valid_close_def] to_ws_terminal [of p]
  obtain f c1 effs1 where f: "close rng (to_ws e) (bytes_of (ec_message e)) c = (c1, effs1, None)"
    "closing_with f False True (to_ws e) (bytes_of (ec_message e)) c c1" "handled effs1 = []"
    using close_sends [OF d(3), of "to_ws e" rng "bytes_of (ec_message e)"] v p by auto
  have read: "handle_read_frame app rng None buf ?c = Some (c1, effs @ effs1)"
    using r d(1) f(1) by (simp add: handle_read_frame_def read_loop_rx read_all_def read_end_def protocol_error_def
        drop_on_protocol_error_def)
  have "read_requests effs1 = 0" "read_requests effs = 0"
    using io.close [OF f(1)] dispatch_all_no_io [of "with_proc h ?c" app rng ms] d(1) by (simp_all add: no_io_def)
  moreover have "con_state (fst (protocol_error rng e c1)) = Closed"
    using f(2) by (simp add: protocol_error_def drop_on_protocol_error_def close_def closing_with_def invalid_state_def split_def)
  ultimately show ?thesis using p read d(2) f(2,3) by auto
qed

theorem protocol_error_closes_witness:
  "\<exists>f c c1 effs. handle_read_frame silent_app (\<lambda>_. 0) None [0x81, 0x82, 0, 0, 0, 0, 104, 105, 0x81, 0x01, 0x61] (open_connection True) = Some (c1, effs) \<and>
    handled effs = [delivered op_text [104, 105]] \<and> closing_with f False True cc_protocol_error (bytes_of ''Clients may not send unmasked frames'') c c1"
proof -
  have "snd (rx (new_hybi13 True max_message_size) [0x81, 0x82, 0, 0, 0, 0, 104, 105, 0x81, 0x01, 0x61]) =
      ([delivered op_text [104, 105]], Some (Processor Proc_masking_required))" by code_simp
  then obtain h where "receive (new_hybi13 True max_message_size) [0x81, 0x82, 0, 0, 0, 0, 104, 105, 0x81, 0x01, 0x61] =
      Some (h, [delivered op_text [104, 105]], Some (Processor Proc_masking_required))"
    by (metis receive_new prod.collapse)
  moreover have "list_all (\<lambda>m. \<not> is_control (m_opcode m)) [delivered op_text [104, 105]]" "never_closes silent_app"
    "to_ws (Processor Proc_masking_required) = cc_protocol_error"
    by (simp_all add: is_control_def op_defs never_closes_def silent_app_def to_ws_def)
  ultimately show ?thesis using protocol_error_closes [of True _ h _ _ silent_app "\<lambda>_. 0"] by fastforce
qed

lemma refuse_reason:
  assumes "con_state c = Open" "\<not> cc_invalid code" "\<not> cc_reserved code" "\<not> validate reason"
  shows "\<exists>c1 effs. process_control_frame rng (delivered op_close (close_payload code reason)) c = (c1, effs) \<and>
    m_local_close_code c1 = cc_protocol_error \<and> m_local_close_reason c1 = bytes_of ''Invalid close reason'' \<and> con_state c1 = Closing"
proof -
  define c0 where "c0 = c\<lparr>m_remote_close_code := code, m_remote_close_reason := reason\<rparr>"
  have "reason \<noteq> []" using assms(4) validate_ascii [of "[]"] by auto
  then have ex: "extract_code (close_payload code reason) = (code, None)"
    "extract_reason (close_payload code reason) = (reason, Some (Library Lib_invalid_utf8))"
    using extract_code_written [OF assms(2,3), of reason] assms(4)
    by (simp_all add: close_payload_def extract_reason_def del: wr_le_htons)
  have info: "close_info cc_protocol_error (bytes_of ''Invalid close reason'') True c0 =
      (cc_protocol_error, bytes_of ''Invalid close reason'')"
    by (simp add: close_info_def silent_close_def cc_defs)
  have "\<not> cc_reserved cc_protocol_error" "\<not> cc_invalid cc_protocol_error"
    by (simp_all add: cc_reserved_def cc_invalid_def cc_defs)
  then obtain f c1 effs where "send_close_frame rng cc_protocol_error (bytes_of ''Invalid close reason'') True (m_is_server c) c0 = (c1, effs, None)"
    "closing_with f True (m_is_server c) cc_protocol_error (bytes_of ''Invalid close reason'') c0 c1"
    using send_close_frame_sends [OF info] by fastforce
  then show ?thesis using ex assms(1)
    by (simp add: process_close process_close_frame_def send_close_ack_def ignore_ec_def drop_on_protocol_error_def c0_def
        closing_with_def)
qed

text \<open>
  \<open>close\<close> cuts the reason to 123 bytes wherever that falls.  When it falls inside a character, the peer
  takes the frame for invalid and answers with a protocol error of its own, although the application gave a
  valid reason and code.
\<close>
theorem cut_reason_is_refused:
  assumes "quiescent c1" "quiescent c2" "m_is_server c2 = (\<not> m_is_server c1)" "\<not> cc_invalid code" "\<not> cc_reserved code"
    and "\<not> validate (take 123 reason)"
  shows "\<exists>a1 e1 f1 b1 e2. close rng1 code reason c1 = (a1, e1, None) \<and> snd (write_frame a1) = [Async_write_msgs [f1]] \<and>
    handle_read_frame app2 rng2 None (frame_of f1) c2 = Some (b1, e2) \<and> con_state b1 = Closing \<and>
    m_local_close_code b1 = cc_protocol_error \<and> m_local_close_reason b1 = bytes_of ''Invalid close reason''"
proof -
  note q = assms(1,2) [unfolded quiescent_def]
  obtain f1 a1 e1 where 1: "close rng1 code reason c1 = (a1, e1, None)"
    "closing_with f1 False (cc_terminal code) code (take 123 reason) c1 a1"
    using close_sends [OF _ assms(4,5), of c1 rng1 reason] q(1) by auto
  have w: "snd (write_frame a1) = [Async_write_msgs [f1]]"
    using write_frame_close [of a1 f1] 1(2) q(1) by (auto simp: closing_with_def dest: arg_cong [of _ _ snd])
  obtain key where key: "frame_of f1 = frame_bytes op_close True (m_server (m_processor c2)) key (close_payload code (take 123 reason))"
    using 1(2) q assms(3) by (auto simp: closing_with_def close_payload_def)
  obtain h2 where h2: "handle_read_frame app2 rng2 None (frame_of f1) c2 =
      Some (let (c, effs) = process_control_frame rng2 (delivered op_close (close_payload code (take 123 reason))) (with_proc h2 c2)
            in (c, effs @ read_frame c))"
    using read_close_frame [of c2 code "take 123 reason" app2 rng2 key] q(2) assms(4,5) key
    unfolding close_payload_def by auto
  obtain b1 e2 where "process_control_frame rng2 (delivered op_close (close_payload code (take 123 reason))) (with_proc h2 c2) = (b1, e2)"
    "m_local_close_code b1 = cc_protocol_error" "m_local_close_reason b1 = bytes_of ''Invalid close reason''" "con_state b1 = Closing"
    using refuse_reason [of "with_proc h2 c2" code "take 123 reason" rng2] q(2) assms(4-6) by auto
  then show ?thesis using 1 w h2 by auto
qed

definition euro_reason :: "byte list" where
  "euro_reason = 97 # concat (replicate 42 [0xE2, 0x82, 0xAC])"

theorem cut_reason_is_refused_witness:
  "validate euro_reason \<and> (\<exists>f1 b1 e2. snd (write_frame (fst (close (\<lambda>_. 0) cc_normal euro_reason (open_connection True)))) = [Async_write_msgs [f1]] \<and>
    handle_read_frame silent_app (\<lambda>_. 0) None (frame_of f1) (open_connection False) = Some (b1, e2) \<and>
    m_local_close_code b1 = cc_protocol_error)"
proof
  show "validate euro_reason" by code_simp
  have "\<not> validate (take 123 euro_reason)" by code_simp
  moreover have "\<not> cc_invalid cc_normal" "\<not> cc_reserved cc_normal" by (simp_all add: cc_invalid_def cc_reserved_def cc_defs)
  ultimately show "\<exists>f1 b1 e2. snd (write_frame (fst (close (\<lambda>_. 0) cc_normal euro_reason (open_connection True)))) = [Async_write_msgs [f1]] \<and>
    handle_read_frame silent_app (\<lambda>_. 0) None (frame_of f1) (open_connection False) = Some (b1, e2) \<and>
    m_local_close_code b1 = cc_protocol_error"
    using cut_reason_is_refused [OF quiescent_open [of True] quiescent_open [of False], of cc_normal euro_reason "\<lambda>_. 0" silent_app "\<lambda>_. 0"]
    by fastforce
qed

end
