(* ===== verification/Broadcast.thy ===== *)
theory Broadcast
  imports Platform_Base Ws_Delivery
begin

section \<open>Publishing over websocket connections\<close>

text \<open>
  \<open>platform_base::publish\<close> sends to connections of the websocket library.  Here the outcome of
  \<open>server.send\<close>, a parameter in \<open>Platform_Base\<close>, is that of the connection model: \<open>endpoint::send\<close> looks up
  the connection of the handle and calls its \<open>send\<close>.  A text is refused unless it is valid UTF-8, and a
  listener whose send fails is dropped.
\<close>

subsection \<open>When the published text is UTF-8\<close>

text \<open>
  The escapes of \<open>dump\<close> do not change whether a text is UTF-8: each replaces an ASCII character, or the three bytes
  of a line separator, by ASCII, and neither can stand inside the encoding of another character.
\<close>

definition ascii :: "string \<Rightarrow> bool" where
  "ascii s \<longleftrightarrow> (\<forall>c \<in> set s. ord c < 128)"

lemma ascii_simps [simp]: "ascii []" "ascii (c # s) \<longleftrightarrow> ord c < 128 \<and> ascii s" "ascii (s @ t) \<longleftrightarrow> ascii s \<and> ascii t"
  by (auto simp: ascii_def)










subsection \<open>The connections behind the handles\<close>


definition text_msg :: "byte list \<Rightarrow> ws_msg" where
  "text_msg payload = append_payload payload (new_message op_text)"

lemma text_msg_simps [simp]: "m_opcode (text_msg bs) = op_text" "m_payload (text_msg bs) = bs" "m_fin (text_msg bs)"
  by (simp_all add: text_msg_def append_payload_def new_message_def)



subsection \<open>What the sends do to the connections\<close>





subsection \<open>Property\<close>



end
