(* ===== verification/Http_Text.thy ===== *)
theory Http_Text
  imports Json_Value
begin

section \<open>websocketpp/http: tokens, white space, parameter lists, headers\<close>

text \<open>
  The parts of \<open>http/constants.hpp\<close>, \<open>http/parser.hpp\<close> and \<open>utilities.hpp\<close> that work on text.  A range
  \<open>[begin, end)\<close> is the string of its characters; an iterator into it is the rest of the range from there, so
  that a function that returns \<open>begin\<close> returns its argument.
\<close>

subsection \<open>Characters\<close>

definition header_token :: "nat list" where
  "header_token = replicate 32 0 @
     [0,1,0,1,1,1,1,1,0,0,1,1,0,1,1,0,
      1,1,1,1,1,1,1,1,1,1,0,0,0,0,0,0,
      0,1,1,1,1,1,1,1,1,1,1,1,1,1,1,1,
      1,1,1,1,1,1,1,1,1,1,1,0,0,0,1,1,
      1,1,1,1,1,1,1,1,1,1,1,1,1,1,1,1,
      1,1,1,1,1,1,1,1,1,1,1,0,1,0,1,0] @ replicate 128 0"

definition is_not_token_char :: "char \<Rightarrow> bool" where
  "is_not_token_char c \<longleftrightarrow> header_token ! ord c = 0"

definition is_whitespace_char :: "char \<Rightarrow> bool" where
  "is_whitespace_char c \<longleftrightarrow> ord c = 9 \<or> ord c = 32"

definition CR :: char where "CR = CHR 0x0D"
definition LF :: char where "LF = CHR 0x0A"

definition header_delimiter :: string where
  "header_delimiter = [CR, LF]"

definition max_header_size :: nat where "max_header_size = 16000"
definition max_body_size :: nat where "max_body_size = 32000000"

subsection \<open>Status codes\<close>

type_synonym status_code = int

fun status_string :: "status_code \<Rightarrow> string" where
  "status_string code =
     (if code = 0 then ''Uninitialized'' else if code = 100 then ''Continue''
      else if code = 101 then ''Switching Protocols'' else if code = 200 then ''OK''
      else if code = 201 then ''Created'' else if code = 202 then ''Accepted''
      else if code = 203 then ''Non Authoritative Information'' else if code = 204 then ''No Content''
      else if code = 205 then ''Reset Content'' else if code = 206 then ''Partial Content''
      else if code = 300 then ''Multiple Choices'' else if code = 301 then ''Moved Permanently''
      else if code = 302 then ''Found'' else if code = 303 then ''See Other''
      else if code = 304 then ''Not Modified'' else if code = 305 then ''Use Proxy''
      else if code = 307 then ''Temporary Redirect'' else if code = 400 then ''Bad Request''
      else if code = 401 then ''Unauthorized'' else if code = 402 then ''Payment Required''
      else if code = 403 then ''Forbidden'' else if code = 404 then ''Not Found''
      else if code = 405 then ''Method Not Allowed'' else if code = 406 then ''Not Acceptable''
      else if code = 407 then ''Proxy Authentication Required'' else if code = 408 then ''Request Timeout''
      else if code = 409 then ''Conflict'' else if code = 410 then ''Gone''
      else if code = 411 then ''Length Required'' else if code = 412 then ''Precondition Failed''
      else if code = 413 then ''Request Entity Too Large'' else if code = 414 then ''Request-URI Too Long''
      else if code = 415 then ''Unsupported Media Type'' else if code = 416 then ''Requested Range Not Satisfiable''
      else if code = 417 then ''Expectation Failed'' else if code = 418 then ''I'' @ CHR 0x27 # ''m a teapot''
      else if code = 426 then ''Upgrade Required'' else if code = 428 then ''Precondition Required''
      else if code = 429 then ''Too Many Requests'' else if code = 431 then ''Request Header Fields Too Large''
      else if code = 500 then ''Internal Server Error'' else if code = 501 then ''Not Implemented''
      else if code = 502 then ''Bad Gateway'' else if code = 503 then ''Service Unavailable''
      else if code = 504 then ''Gateway Timeout'' else if code = 505 then ''HTTP Version Not Supported''
      else if code = 510 then ''Not Extended'' else if code = 511 then ''Network Authentication Required''
      else ''Unknown'')"

declare status_string.simps [simp del]

subsection \<open>Tokens and white space\<close>

definition extract_token :: "string \<Rightarrow> string \<times> string" where
  "extract_token s = (takeWhile (\<lambda>c. \<not> is_not_token_char c) s, dropWhile (\<lambda>c. \<not> is_not_token_char c) s)"

text \<open>
  The loop of \<open>extract_quoted_string\<close>: \<open>rest\<close> is the range from \<open>marker\<close>.  The character before a quote that
  follows the marker at once is a quote, so it is no backslash.
\<close>

lemma dropWhile_shorter: "dropWhile P s \<noteq> [] \<Longrightarrow> length (tl (dropWhile P s)) < length s"
  using length_dropWhile_le [of P s] by (cases "dropWhile P s") auto

function quoted_loop :: "string \<Rightarrow> string \<Rightarrow> (string \<times> string) option" where
  "quoted_loop s rest =
     (let seg = takeWhile (\<lambda>c. c \<noteq> CHR 0x22) rest; post = dropWhile (\<lambda>c. c \<noteq> CHR 0x22) rest
      in if post = [] then None
         else if seg \<noteq> [] \<and> last seg = CHR 0x5C then quoted_loop (s @ butlast seg @ [CHR 0x22]) (tl post)
         else Some (s @ seg, tl post))"
  by pat_completeness auto

termination by (relation "measure (\<lambda>(s, rest). length rest)") (auto simp only: in_measure prod.case wf_measure intro!: dropWhile_shorter)

declare quoted_loop.simps [simp del]

definition extract_quoted_string :: "string \<Rightarrow> string \<times> string" where
  "extract_quoted_string s =
     (if s = [] \<or> hd s \<noteq> CHR 0x22 then ([], s)
      else case quoted_loop [] (tl s) of None \<Rightarrow> ([], s) | Some r \<Rightarrow> r)"

definition extract_lws :: "string \<Rightarrow> string" where
  "extract_lws s =
     (let it = (if 2 < length s \<and> s ! 0 = CR \<and> s ! 1 = LF \<and> is_whitespace_char (s ! 2) then drop 3 s else s)
      in dropWhile is_whitespace_char it)"

lemma length_extract_lws: "length (extract_lws s) \<le> length s"
  using length_dropWhile_le [of is_whitespace_char "drop 3 s"] length_dropWhile_le [of is_whitespace_char s]
  by (auto simp: extract_lws_def Let_def)

lemma extract_lws_shorter: "extract_lws s \<noteq> s \<Longrightarrow> length (extract_lws s) < length s"
proof -
  have drop: "length (dropWhile P t) = length t \<Longrightarrow> dropWhile P t = t" for P and t :: string
    by (metis append_self_conv2 length_0_conv length_append takeWhile_dropWhile_id add_cancel_left_left)
  assume "extract_lws s \<noteq> s"
  then show ?thesis
    using length_dropWhile_le [of is_whitespace_char "drop 3 s"] length_dropWhile_le [of is_whitespace_char s]
      drop [of is_whitespace_char s]
    by (auto simp: extract_lws_def Let_def split: if_splits intro: le_neq_implies_less)
qed

text \<open>Two iterators into the same range are equal when they are at the same place.\<close>

function extract_all_lws :: "string \<Rightarrow> string" where
  "extract_all_lws old_it =
     (let new_it = extract_lws old_it
      in if new_it \<noteq> [] \<and> old_it \<noteq> new_it then extract_all_lws new_it else new_it)"
  by pat_completeness auto
termination by (relation "measure length") (auto intro: extract_lws_shorter)

declare extract_all_lws.simps [simp del]

lemma length_extract_all_lws: "length (extract_all_lws s) \<le> length s"
proof (induction s rule: extract_all_lws.induct)
  case (1 s)
  then show ?case using length_extract_lws [of s]
    by (simp add: extract_all_lws.simps [of s] Let_def) (meson le_trans)
qed

definition strip_lws :: "string \<Rightarrow> string" where
  "strip_lws input =
     (let b = extract_all_lws input
      in if b = [] then []
         else let r = extract_all_lws (rev input)
         in if r = [] then [] else drop (length input - length b) (take (length r) input))"

subsection \<open>Parameter lists\<close>

type_synonym attribute_list = "(string \<times> string) list"
type_synonym parameter_list = "(string \<times> attribute_list) list"

text \<open>
  A step of the loop of \<open>extract_attributes\<close>: stop with the cursor, fail, or go on.
\<close>

datatype loop_step = Stop string attribute_list | Fail attribute_list | Again string attribute_list

definition attribute_step :: "bool \<Rightarrow> string \<Rightarrow> attribute_list \<Rightarrow> loop_step" where
  "attribute_step first cursor attributes =
     (let c1 = extract_all_lws cursor in
      if c1 = [] then Stop c1 attributes
      else if \<not> first \<and> hd c1 \<noteq> CHR '';'' then Stop c1 attributes
      else
        let c2 = extract_all_lws (if first then c1 else tl c1);
            (name, c3) = extract_token c2
        in if name = [] then Fail attributes
           else let c4 = extract_all_lws c3 in
             if c4 = [] \<or> hd c4 \<noteq> CHR ''='' then Again c4 (map_set name [] attributes)
             else let c6 = extract_all_lws (tl c4) in
               if c6 = [] then Fail attributes
               else let (quoted, c7) = extract_quoted_string c6 in
                 if c7 \<noteq> c6 then Again c7 (map_set name quoted attributes)
                 else let (token, c8) = extract_token c6 in
                   if token = [] then Fail attributes else Again c8 (map_set name token attributes))"

lemma extract_token_eqs:
  "extract_token s = (w, rest) \<Longrightarrow> s = w @ rest \<and> (\<forall>c \<in> set w. \<not> is_not_token_char c)"
  by (auto simp: extract_token_def dest: set_takeWhileD)

lemma quoted_loop_shorter: "quoted_loop s rest = Some (q, r) \<Longrightarrow> length r < length rest"
proof (induction s rest rule: quoted_loop.induct)
  case (1 s rest)
  have "dropWhile (\<lambda>c. c \<noteq> CHR 0x22) rest \<noteq> [] \<Longrightarrow> length (tl (dropWhile (\<lambda>c. c \<noteq> CHR 0x22) rest)) < length rest"
    by (rule dropWhile_shorter)
  with 1 show ?case
    by (auto simp: quoted_loop.simps [of s rest] Let_def split: if_splits intro: less_trans)
qed

lemma length_extract_quoted: "extract_quoted_string s = (q, r) \<Longrightarrow> length r \<le> length s"
  using quoted_loop_shorter [of "[]" "tl s" q r]
  by (auto simp: extract_quoted_string_def split: if_splits option.splits)

lemma attribute_step_shorter: "attribute_step first cursor attrs = Again c a \<Longrightarrow> length c < length cursor"
proof -
  assume step: "attribute_step first cursor attrs = Again c a"
  define c2 where "c2 = extract_all_lws (if first then extract_all_lws cursor else tl (extract_all_lws cursor))"
  obtain name c3 where c3: "extract_token c2 = (name, c3)" by (cases "extract_token c2")
  have "length c2 \<le> length cursor"
    using length_extract_all_lws [of cursor] length_extract_all_lws [of "extract_all_lws cursor"]
      length_extract_all_lws [of "tl (extract_all_lws cursor)"] by (auto simp: c2_def)
  then have "name \<noteq> [] \<Longrightarrow> length c3 < length cursor" using extract_token_eqs [OF c3] by (cases name) auto
  moreover have "length (extract_all_lws c3) \<le> length c3"
    "length (extract_all_lws (tl (extract_all_lws c3))) \<le> length c3"
    using length_extract_all_lws [of c3] length_extract_all_lws [of "tl (extract_all_lws c3)"] by simp_all
  then have "name \<noteq> [] \<and> length c \<le> length c3"
    using step c3 by (auto simp: attribute_step_def Let_def c2_def [symmetric]
        dest: length_extract_quoted extract_token_eqs split: if_splits prod.splits)
  ultimately show ?thesis by simp
qed

function attributes_loop :: "bool \<Rightarrow> string \<Rightarrow> attribute_list \<Rightarrow> string option \<times> attribute_list" where
  "attributes_loop first cursor attributes =
     (if cursor = [] then (Some cursor, attributes)
      else case attribute_step first cursor attributes of
          Stop c a \<Rightarrow> (Some c, a)
        | Fail a \<Rightarrow> (None, a)
        | Again c a \<Rightarrow> attributes_loop False c a)"
  by pat_completeness auto
termination by (relation "measure (\<lambda>(f, c, a). length c)") (auto dest: attribute_step_shorter)

declare attributes_loop.simps [simp del]

definition extract_attributes :: "string \<Rightarrow> attribute_list \<Rightarrow> string \<times> attribute_list" where
  "extract_attributes s attributes =
     (if s = [] then (s, attributes)
      else case attributes_loop True s attributes of
          (None, a) \<Rightarrow> (s, a)
        | (Some cursor, a) \<Rightarrow> (cursor, a))"


text \<open>
  \<open>extract_parameters\<close>: the loop gives the parameters it has read, and no cursor where the code returns
  \<open>begin\<close> for a syntax error.
\<close>

lemma attributes_loop_shorter: "attributes_loop first cursor attrs = (Some c, a) \<Longrightarrow> length c \<le> length cursor"
proof (induction first cursor attrs rule: attributes_loop.induct)
  case (1 first cursor attrs)
  have stop: "attribute_step first cursor attrs = Stop c b \<Longrightarrow> length c \<le> length cursor" for b
    using length_extract_all_lws [of cursor]
    by (auto simp: attribute_step_def Let_def split: if_splits prod.splits)
  show ?case
    using 1 stop attribute_step_shorter [of first cursor attrs]
    by (auto simp: attributes_loop.simps [of first cursor attrs] split: if_splits loop_step.splits intro: le_trans less_imp_le)
qed

lemma length_extract_attributes: "extract_attributes s attrs = (r, a) \<Longrightarrow> length r \<le> length s"
  by (auto simp: extract_attributes_def split: if_splits prod.splits option.splits dest: attributes_loop_shorter)

function parameters_loop :: "string \<Rightarrow> parameter_list \<Rightarrow> string option \<times> parameter_list" where
  "parameters_loop cursor parameters =
     (if cursor = [] then (Some cursor, parameters)
      else let c1 = extract_all_lws cursor in
        if c1 = [] then (Some c1, parameters)
        else let (parameter_name, c2) = extract_token c1 in
          if parameter_name = [] then (None, parameters)
          else let c3 = extract_all_lws c2 in
            if c3 = [] then (Some c3, parameters @ [(parameter_name, [])])
            else let (acursor, attributes) = (if hd c3 = CHR '';'' then extract_attributes (tl c3) [] else (c3, [])) in
              if hd c3 = CHR '';'' \<and> acursor = tl c3 then (None, parameters)
              else let ps = parameters @ [(parameter_name, attributes)]; c4 = extract_all_lws acursor in
                if c4 = [] \<or> hd c4 \<noteq> CHR '','' then (Some c4, ps)
                else if tl c4 = [] then (None, ps)
                else parameters_loop (tl c4) ps)"
  by pat_completeness auto

termination
proof (relation "measure (\<lambda>(c, p). length c)")
  fix cursor parameters c1 x name c2 c3 y acursor attributes ps c4
  assume a: "cursor \<noteq> []" "c1 = extract_all_lws cursor" "c1 \<noteq> []" "x = extract_token c1" "(name, c2) = x" "name \<noteq> []"
    "c3 = extract_all_lws c2" "c3 \<noteq> []"
    "y = (if hd c3 = CHR '';'' then extract_attributes (tl c3) [] else (c3, []))" "(acursor, attributes) = y"
    "c4 = extract_all_lws acursor"
  have "length acursor \<le> length c3" using a(9,10) length_extract_attributes [of "tl c3" "[]" acursor attributes]
    by (auto split: if_splits)
  moreover have "length c4 \<le> length acursor" "length c3 \<le> length c2" "length c1 \<le> length cursor"
    using a length_extract_all_lws by simp_all
  moreover have "length c2 < length c1" using extract_token_eqs [of c1 name c2] a(4-6) by auto
  ultimately show "((tl c4, ps), cursor, parameters) \<in> measure (\<lambda>(c, p). length c)" by simp
qed simp

declare parameters_loop.simps [simp del]

definition extract_parameters :: "string \<Rightarrow> parameter_list \<Rightarrow> string \<times> parameter_list" where
  "extract_parameters s parameters =
     (if s = [] then (s, parameters)
      else case parameters_loop s parameters of
          (None, ps) \<Rightarrow> (s, ps)
        | (Some cursor, ps) \<Rightarrow> (cursor, ps))"

text \<open>True for an error.\<close>

definition parse_parameter_list :: "string \<Rightarrow> parameter_list \<Rightarrow> bool \<times> parameter_list" where
  "parse_parameter_list s out =
     (if s = [] then (False, out)
      else let (it, ps) = extract_parameters s out in (it = s, ps))"

subsection \<open>Header maps\<close>

text \<open>
  \<open>std::map\<close> with the comparison \<open>ci_less\<close>: keys are compared in lower case, and a key keeps the spelling
  it was inserted with.
\<close>

definition tolower :: "char \<Rightarrow> char" where
  "tolower c = (if 65 \<le> ord c \<and> ord c \<le> 90 then char_of (ord c + 32) else c)"

fun ci_less :: "string \<Rightarrow> string \<Rightarrow> bool" where
  "ci_less s1 [] = False"
| "ci_less [] (b # s2) = True"
| "ci_less (a # s1) (b # s2) =
     (if ord (tolower a) < ord (tolower b) then True
      else if ord (tolower b) < ord (tolower a) then False else ci_less s1 s2)"

definition ci_eq :: "string \<Rightarrow> string \<Rightarrow> bool" where
  "ci_eq s1 s2 \<longleftrightarrow> \<not> ci_less s1 s2 \<and> \<not> ci_less s2 s1"

type_synonym headers = "(string \<times> string) list"

fun hdr_find :: "string \<Rightarrow> headers \<Rightarrow> string option" where
  "hdr_find key [] = None"
| "hdr_find key ((k, v) # hs) = (if ci_eq key k then Some v else hdr_find key hs)"

fun hdr_set :: "string \<Rightarrow> string \<Rightarrow> headers \<Rightarrow> headers" where
  "hdr_set key val [] = [(key, val)]"
| "hdr_set key val ((k, v) # hs) =
     (if ci_less key k then (key, val) # (k, v) # hs
      else if ci_less k key then (k, v) # hdr_set key val hs
      else (k, val) # hs)"

definition hdr_erase :: "string \<Rightarrow> headers \<Rightarrow> headers" where
  "hdr_erase key hs = filter (\<lambda>(k, v). \<not> ci_eq key k) hs"

definition hdr_ok :: "headers \<Rightarrow> bool" where
  "hdr_ok hs \<longleftrightarrow> sorted_wrt ci_less (map fst hs)"

text \<open>The interface: a map whose keys count as the same when \<open>same\<close> says so.\<close>

locale keyed_map =
  fixes look :: "'k \<Rightarrow> 'm \<Rightarrow> 'v option"
    and put :: "'k \<Rightarrow> 'v \<Rightarrow> 'm \<Rightarrow> 'm"
    and del :: "'k \<Rightarrow> 'm \<Rightarrow> 'm"
    and same :: "'k \<Rightarrow> 'k \<Rightarrow> bool"
    and ok :: "'m \<Rightarrow> bool"
  assumes ok_put: "ok m \<Longrightarrow> ok (put k v m)"
    and ok_del: "ok m \<Longrightarrow> ok (del k m)"
    and look_put: "ok m \<Longrightarrow> look j (put k v m) = (if same j k then Some v else look j m)"
    and look_del: "ok m \<Longrightarrow> look j (del k m) = (if same j k then None else look j m)"
    and same_refl: "same k k"
begin

lemma look_put_same: "ok m \<Longrightarrow> look k (put k v m) = Some v"
  by (simp add: look_put same_refl)

lemma ok_put_all: "ok m \<Longrightarrow> ok (fold (\<lambda>(k, v). put k v) kvs m)"
  by (induction kvs arbitrary: m) (auto simp: ok_put)

lemma look_put_other: "ok m \<Longrightarrow> list_all (\<lambda>(k, v). \<not> same j k) kvs \<Longrightarrow> look j (fold (\<lambda>(k, v). put k v) kvs m) = look j m"
  by (induction kvs arbitrary: m) (auto simp: ok_put look_put)

end

definition ci_key :: "string \<Rightarrow> nat list" where
  "ci_key s = map (\<lambda>c. ord (tolower c)) s"

lemma ci_less_key: "ci_less s t \<longleftrightarrow> ci_key s < ci_key t"
  by (induction s t rule: ci_less.induct) (auto simp: ci_key_def)

lemma ci_eq_key: "ci_eq s t \<longleftrightarrow> ci_key s = ci_key t"
  by (auto simp: ci_eq_def ci_less_key)

lemma ci_eq_refl [simp]: "ci_eq s s"
  by (simp add: ci_eq_key)

lemma ci_less_order:
  "\<not> ci_less s s" "ci_less s t \<Longrightarrow> \<not> ci_eq s t" "ci_less s t \<Longrightarrow> ci_less t u \<Longrightarrow> ci_less s u"
  "ci_eq s t \<Longrightarrow> ci_eq t u \<longleftrightarrow> ci_eq s u" "ci_eq s t \<Longrightarrow> ci_less u s \<longleftrightarrow> ci_less u t"
  by (auto simp: ci_less_key ci_eq_key)

lemma fst_hdr_set: "k \<in> fst ` set (hdr_set key v hs) \<Longrightarrow> k = key \<or> k \<in> fst ` set hs"
  by (induction key v hs rule: hdr_set.induct) (auto split: if_splits)

lemma hdr_ok_Cons: "hdr_ok ((k, v) # hs) \<longleftrightarrow> (\<forall>k' \<in> fst ` set hs. ci_less k k') \<and> hdr_ok hs"
  by (auto simp: hdr_ok_def)

lemma hdr_ok_set: "hdr_ok hs \<Longrightarrow> hdr_ok (hdr_set key v hs)"
proof (induction key v hs rule: hdr_set.induct)
  case (2 key val k v hs)
  consider "ci_less key k" | "\<not> ci_less key k" "ci_less k key" | "\<not> ci_less key k" "\<not> ci_less k key" by blast
  then show ?case
  proof cases
    case 1
    then have "\<forall>k' \<in> fst ` set hs. ci_less key k'" using 2(2) ci_less_order(3) [OF 1] by (auto simp: hdr_ok_Cons)
    then show ?thesis using 1 2(2) by (simp add: hdr_ok_Cons)
  next
    case 2
    then have "\<forall>k' \<in> fst ` set (hdr_set key val hs). ci_less k k'"
      using \<open>hdr_ok ((k, v) # hs)\<close> unfolding hdr_ok_Cons by (metis fst_hdr_set)
    then show ?thesis using 2 "2.IH" \<open>hdr_ok ((k, v) # hs)\<close> by (simp add: hdr_ok_Cons)
  qed (use 2 in \<open>simp add: hdr_ok_Cons\<close>)
qed (simp add: hdr_ok_def)

lemma hdr_find_set: "hdr_ok hs \<Longrightarrow> hdr_find j (hdr_set key v hs) = (if ci_eq j key then Some v else hdr_find j hs)"
proof (induction key v hs rule: hdr_set.induct)
  case (2 key val k v hs)
  consider "ci_less key k" | "\<not> ci_less key k" "ci_less k key" | "\<not> ci_less key k" "\<not> ci_less k key" by blast
  then show ?case
  proof cases
    case 2
    then have "ci_eq j key \<Longrightarrow> \<not> ci_eq j k" by (auto simp: ci_less_key ci_eq_key)
    then show ?thesis using 2 "2.IH" \<open>hdr_ok ((k, v) # hs)\<close> by (simp add: hdr_ok_Cons)
  next
    case 3
    then have "ci_eq j k = ci_eq j key" by (auto simp: ci_less_key ci_eq_key)
    then show ?thesis using 3 by simp
  qed simp
qed simp

lemma hdr_find_filter: "(\<And>k v. \<not> P (k, v) \<Longrightarrow> \<not> ci_eq j k) \<Longrightarrow> hdr_find j (filter P hs) = hdr_find j hs"
  by (induction hs) auto

lemma hdr_find_None: "(\<And>k v. (k, v) \<in> set hs \<Longrightarrow> \<not> ci_eq j k) \<Longrightarrow> hdr_find j hs = None"
  by (induction hs) force+

interpretation hm: keyed_map hdr_find hdr_set hdr_erase ci_eq hdr_ok
proof unfold_locales
  fix m :: headers and j k :: string
  assume "hdr_ok m"
  then show "hdr_ok (hdr_erase k m)"
    by (auto simp: hdr_ok_def hdr_erase_def sorted_wrt_map intro: sorted_wrt_filter)
  show "hdr_find j (hdr_erase k m) = (if ci_eq j k then None else hdr_find j m)"
    using ci_less_order(4) [of j k]
    by (auto simp: hdr_erase_def ci_eq_key intro!: hdr_find_None hdr_find_filter)
qed (simp_all add: hdr_ok_set hdr_find_set)

text \<open>A key behind all others goes to the end.\<close>

lemma hdr_set_snoc: "hdr_ok (hs @ [(k, v)]) \<Longrightarrow> hdr_set k v hs = hs @ [(k, v)]"
  by (induction hs) (auto simp: hdr_ok_def ci_less_key)

lemma hdr_find_notin: "hdr_ok (hs @ [(k, v)]) \<Longrightarrow> hdr_find k hs = None"
  by (rule hdr_find_None) (force simp: hdr_ok_def sorted_wrt_append ci_less_key ci_eq_key)

end
