(* ===== verification/Http_Message.thy ===== *)
theory Http_Message
  imports Http_Text
begin

section \<open>websocketpp/http: requests and responses\<close>

text \<open>
  \<open>http/parser.hpp\<close>, \<open>request.hpp\<close>, \<open>response.hpp\<close> and their implementations: the objects that read a
  message from the buffers of the transport, line by line, and print one.  A function that throws returns
  the exception and the object as it is then.
\<close>

datatype body_encoding = unknown | plain | chunked

record http =
  m_version :: string
  m_headers :: headers
  m_header_bytes :: nat
  m_body :: string
  m_body_bytes_needed :: nat
  m_body_bytes_max :: nat
  m_body_encoding :: body_encoding

text \<open>\<open>http::exception\<close>: the message for the log and the status code.\<close>

type_synonym http_exception = "string \<times> status_code"

datatype consumed = Took nat | Throw http_exception | Null_deref

subsection \<open>The base class\<close>

definition get_header :: "string \<Rightarrow> 'a http_scheme \<Rightarrow> string" where
  "get_header key p = (case hdr_find key (m_headers p) of None \<Rightarrow> [] | Some v \<Rightarrow> v)"

definition get_header_as_plist :: "string \<Rightarrow> 'a http_scheme \<Rightarrow> parameter_list \<Rightarrow> bool \<times> parameter_list" where
  "get_header_as_plist key p out =
     (case hdr_find key (m_headers p) of
        None \<Rightarrow> (False, out)
      | Some v \<Rightarrow> if v = [] then (False, out) else parse_parameter_list v out)"

definition append_header :: "string \<Rightarrow> string \<Rightarrow> 'a http_scheme \<Rightarrow> http_exception option \<times> 'a http_scheme" where
  "append_header key val p =
     (if list_ex is_not_token_char key then (Some (''Invalid header name'', 400), p)
      else if get_header key p = [] then (None, p\<lparr>m_headers := hdr_set key val (m_headers p)\<rparr>)
      else (None, p\<lparr>m_headers := hdr_set key (get_header key p @ '', '' @ val) (m_headers p)\<rparr>))"

definition replace_header :: "string \<Rightarrow> string \<Rightarrow> 'a http_scheme \<Rightarrow> 'a http_scheme" where
  "replace_header key val p = p\<lparr>m_headers := hdr_set key val (m_headers p)\<rparr>"

definition remove_header :: "string \<Rightarrow> 'a http_scheme \<Rightarrow> 'a http_scheme" where
  "remove_header key p = p\<lparr>m_headers := hdr_erase key (m_headers p)\<rparr>"

definition set_body :: "string \<Rightarrow> 'a http_scheme \<Rightarrow> 'a http_scheme" where
  "set_body val p =
     (if val = [] then (remove_header ''Content-Length'' p)\<lparr>m_body := []\<rparr>
      else (replace_header ''Content-Length'' (dec (length val)) p)\<lparr>m_body := val\<rparr>)"

text \<open>\<open>strtoul\<close> with base 10: a minus sign negates in the unsigned type, and too large a value gives the maximum.\<close>

definition strtoul10 :: "string \<Rightarrow> nat" where
  "strtoul10 s =
     (let t = dropWhile is_space (c_str s);
          u = (if t \<noteq> [] \<and> (hd t = CHR ''-'' \<or> hd t = CHR ''+'') then tl t else t);
          v = digits_val (takeWhile isdig u)
      in if 2 ^ 64 \<le> v then 2 ^ 64 - 1
         else if t \<noteq> [] \<and> hd t = CHR ''-'' then (2 ^ 64 - v) mod 2 ^ 64 else v)"

definition prepare_body :: "'a http_scheme \<Rightarrow> http_exception option \<times> bool \<times> 'a http_scheme" where
  "prepare_body p =
     (let cl_header = get_header ''Content-Length'' p in
      if cl_header \<noteq> [] then
        let p1 = p\<lparr>m_body_bytes_needed := strtoul10 cl_header\<rparr> in
        if m_body_bytes_max p1 < m_body_bytes_needed p1 then (Some (''HTTP message body too large'', 413), False, p1)
        else (None, True, p1\<lparr>m_body_encoding := plain\<rparr>)
      else (None, False, p))"

definition process_body :: "string \<Rightarrow> 'a http_scheme \<Rightarrow> consumed \<times> 'a http_scheme" where
  "process_body buf p =
     (case m_body_encoding p of
        plain \<Rightarrow>
          (let processed = min (m_body_bytes_needed p) (length buf)
           in (Took processed, p\<lparr>m_body := m_body p @ take processed buf,
                 m_body_bytes_needed := m_body_bytes_needed p - processed\<rparr>))
      | _ \<Rightarrow> (Throw (''Unexpected body encoding'', 500), p))"

definition body_ready :: "'a http_scheme \<Rightarrow> bool" where
  "body_ready p \<longleftrightarrow> m_body_bytes_needed p = 0"

definition process_header :: "string \<Rightarrow> 'a http_scheme \<Rightarrow> http_exception option \<times> 'a http_scheme" where
  "process_header line p =
     (case find_char (CHR '':'') line of
        None \<Rightarrow> (Some (''Invalid header line'', 400), p)
      | Some n \<Rightarrow> append_header (strip_lws (take n line)) (strip_lws (drop (n + 1) line)) p)"

definition raw_headers :: "'a http_scheme \<Rightarrow> string" where
  "raw_headers p = concat (map (\<lambda>(k, v). k @ '': '' @ v @ header_delimiter) (m_headers p))"

subsection \<open>The loop over the lines of a header\<close>

text \<open>
  \<open>request::consume\<close> and \<open>response::consume\<close> contain the same loop with their own code for a line, for the
  blank line and for the end of the bytes; here these are arguments.  \<open>s\<close> is the range from \<open>begin\<close> to the
  end of \<open>m_buf\<close>.  \<open>sizeof(header_delimiter)\<close> counts the terminating NUL.
\<close>

definition size_exceeded :: http_exception where
  "size_exceeded = (''Maximum header size exceeded.'', 431)"

lemma str_find_crlf: "str_find header_delimiter s = Some n \<Longrightarrow> n + 2 \<le> length s"
proof -
  assume "str_find header_delimiter s = Some n"
  from str_find_Some_split [OF this] have "length s = length (take n s) + length header_delimiter + length (drop (n + length header_delimiter) s)" "n \<le> length s"
    by (metis add.assoc length_append, simp)
  then show ?thesis by (simp add: header_delimiter_def)
qed

function lines_loop ::
  "(string \<Rightarrow> 'a http_scheme \<Rightarrow> http_exception option \<times> 'a http_scheme) \<Rightarrow>
   (string \<Rightarrow> 'a http_scheme \<Rightarrow> consumed \<times> 'a http_scheme) \<Rightarrow>
   (string \<Rightarrow> 'a http_scheme \<Rightarrow> consumed \<times> 'a http_scheme) \<Rightarrow>
   string \<Rightarrow> 'a http_scheme \<Rightarrow> consumed \<times> 'a http_scheme" where
  "lines_loop on_line on_blank on_end s r =
     (case str_find header_delimiter s of
        None \<Rightarrow>
          (let r1 = r\<lparr>m_header_bytes := m_header_bytes r + (length s + 3)\<rparr>
           in if max_header_size < m_header_bytes r1 then (Throw size_exceeded, r1)
              else on_end s (r1\<lparr>m_header_bytes := m_header_bytes r1 - length s\<rparr>))
      | Some n \<Rightarrow>
          (let r1 = r\<lparr>m_header_bytes := m_header_bytes r + (n + 3)\<rparr>
           in if max_header_size < m_header_bytes r1 then (Throw size_exceeded, r1)
              else if n = 0 then on_blank s r1
              else case on_line (take n s) r1 of
                  (Some e, r2) \<Rightarrow> (Throw e, r2)
                | (None, r2) \<Rightarrow> lines_loop on_line on_blank on_end (drop (n + 2) s) r2))"
  by pat_completeness auto

termination by (relation "measure (\<lambda>(l, b, e, s, r). length s)") (auto dest: str_find_crlf)

declare lines_loop.simps [simp del]

subsection \<open>Requests\<close>

record request = http +
  rq_buf :: "string option"
  rq_method :: string
  rq_uri :: string
  rq_ready :: bool

definition new_request :: request where
  "new_request =
     \<lparr>m_version = [], m_headers = [], m_header_bytes = 0, m_body = [], m_body_bytes_needed = 0,
      m_body_bytes_max = max_body_size, m_body_encoding = unknown,
      rq_buf = Some [], rq_method = [], rq_uri = [], rq_ready = False\<rparr>"

definition set_method :: "string \<Rightarrow> request \<Rightarrow> http_exception option \<times> request" where
  "set_method method r =
     (if list_ex is_not_token_char method then (Some (''Invalid method token.'', 400), r)
      else (None, r\<lparr>rq_method := method\<rparr>))"

definition request_process :: "string \<Rightarrow> request \<Rightarrow> http_exception option \<times> request" where
  "request_process line r =
     (case find_char (CHR '' '') line of
        None \<Rightarrow> (Some (''Invalid request line1'', 400), r)
      | Some n \<Rightarrow>
          (case set_method (take n line) r of
             (Some e, r1) \<Rightarrow> (Some e, r1)
           | (None, r1) \<Rightarrow>
               (let rest = drop (n + 1) line in
                case find_char (CHR '' '') rest of
                  None \<Rightarrow> (Some (''Invalid request line2'', 400), r1)
                | Some k \<Rightarrow> (None, r1\<lparr>rq_uri := take k rest, m_version := drop (k + 1) rest\<rparr>))))"

definition request_line :: "string \<Rightarrow> request \<Rightarrow> http_exception option \<times> request" where
  "request_line line r = (if rq_method r = [] then request_process line r else process_header line r)"

text \<open>The blank line: \<open>buf\<close> are the bytes of this call, \<open>s\<close> the range from the blank line on.\<close>

definition request_blank :: "string \<Rightarrow> string \<Rightarrow> request \<Rightarrow> consumed \<times> request" where
  "request_blank buf s r =
     (if rq_method r = [] \<or> get_header ''Host'' r = [] then (Throw (''Incomplete Request'', 400), r)
      else let bytes_processed = length buf + 2 - length s; r2 = r\<lparr>rq_buf := None\<rparr>
        in case prepare_body r2 of
            (Some e, _, r3) \<Rightarrow> (Throw e, r3)
          | (None, False, r3) \<Rightarrow> (Took bytes_processed, r3\<lparr>rq_ready := True\<rparr>)
          | (None, True, r3) \<Rightarrow>
              (case process_body (drop bytes_processed buf) r3 of
                 (Took k, r4) \<Rightarrow>
                   (Took (bytes_processed + k), if body_ready r4 then r4\<lparr>rq_ready := True\<rparr> else r4)
               | res \<Rightarrow> res))"

definition request_end :: "string \<Rightarrow> string \<Rightarrow> request \<Rightarrow> consumed \<times> request" where
  "request_end buf s r = (Took (length buf), r\<lparr>rq_buf := Some s\<rparr>)"

definition request_consume :: "string \<Rightarrow> request \<Rightarrow> consumed \<times> request" where
  "request_consume buf r =
     (if rq_ready r then (Took 0, r)
      else if 0 < m_body_bytes_needed r then
        (case process_body buf r of
           (Took k, r1) \<Rightarrow> (Took k, if body_ready r1 then r1\<lparr>rq_ready := True\<rparr> else r1)
         | res \<Rightarrow> res)
      else case rq_buf r of
          None \<Rightarrow> (Null_deref, r)
        | Some old \<Rightarrow>
            lines_loop request_line (request_blank buf) (request_end buf) (old @ buf) (r\<lparr>rq_buf := Some (old @ buf)\<rparr>))"

definition request_raw_head :: "request \<Rightarrow> string" where
  "request_raw_head r =
     rq_method r @ '' '' @ rq_uri r @ '' '' @ m_version r @ header_delimiter @ raw_headers r @ header_delimiter"

definition request_raw :: "request \<Rightarrow> string" where
  "request_raw r =
     rq_method r @ '' '' @ rq_uri r @ '' '' @ m_version r @ header_delimiter @ raw_headers r @ header_delimiter @ m_body r"

subsection \<open>Responses\<close>

datatype response_state = RESPONSE_LINE | HEADERS | BODY | DONE

record response = http +
  rs_status_msg :: string
  rs_read :: nat
  rs_buf :: "string option"
  rs_status_code :: status_code
  rs_state :: response_state

definition new_response :: response where
  "new_response =
     \<lparr>m_version = [], m_headers = [], m_header_bytes = 0, m_body = [], m_body_bytes_needed = 0,
      m_body_bytes_max = max_body_size, m_body_encoding = unknown,
      rs_status_msg = [], rs_read = 0, rs_buf = Some [], rs_status_code = 0, rs_state = RESPONSE_LINE\<rparr>"

definition set_status :: "status_code \<Rightarrow> response \<Rightarrow> response" where
  "set_status code r = r\<lparr>rs_status_code := code, rs_status_msg := status_string code\<rparr>"

definition set_status_msg :: "status_code \<Rightarrow> string \<Rightarrow> response \<Rightarrow> response" where
  "set_status_msg code msg r = r\<lparr>rs_status_code := code, rs_status_msg := msg\<rparr>"

text \<open>Formatted input of an \<open>int\<close> and of a \<open>size_t\<close>; \<open>None\<close> sets \<open>failbit\<close>.\<close>

definition scan_integer :: "string \<Rightarrow> (bool \<times> nat) option" where
  "scan_integer s =
     (let t = dropWhile is_space s;
          u = (if t \<noteq> [] \<and> (hd t = CHR ''-'' \<or> hd t = CHR ''+'') then tl t else t);
          ds = takeWhile isdig u
      in if ds = [] then None else Some (hd t = CHR ''-'', digits_val ds))"

definition read_int :: "string \<Rightarrow> int option" where
  "read_int s =
     (case scan_integer s of
        None \<Rightarrow> None
      | Some (neg, v) \<Rightarrow>
          (let k = (if neg then - int v else int v) in if - (2 ^ 31) \<le> k \<and> k < 2 ^ 31 then Some k else None))"

definition read_size :: "string \<Rightarrow> nat option" where
  "read_size s =
     (case scan_integer s of
        None \<Rightarrow> None
      | Some (neg, v) \<Rightarrow> if 2 ^ 64 \<le> v then None else Some (if neg then (2 ^ 64 - v) mod 2 ^ 64 else v))"

definition response_process :: "string \<Rightarrow> response \<Rightarrow> http_exception option \<times> response" where
  "response_process line r =
     (case find_char (CHR '' '') line of
        None \<Rightarrow> (Some (''Invalid response line'', 400), r)
      | Some n \<Rightarrow>
          (let r1 = r\<lparr>m_version := take n line\<rparr>; rest = drop (n + 1) line in
           case find_char (CHR '' '') rest of
             None \<Rightarrow> (Some (''Invalid request line'', 400), r1)
           | Some k \<Rightarrow>
               (case read_int (take k rest) of
                  None \<Rightarrow> (Some (''Unable to parse response code'', 400), r1)
                | Some code \<Rightarrow> (None, set_status_msg code (drop (k + 1) rest) r1))))"

definition response_process_body :: "string \<Rightarrow> response \<Rightarrow> nat \<times> response" where
  "response_process_body buf r =
     (if rs_read r = 0 then (0, r\<lparr>rs_state := DONE\<rparr>)
      else let to_read = (if rs_read r \<le> length buf then rs_read r else length buf);
               r1 = (if rs_read r \<le> length buf then r\<lparr>rs_state := DONE\<rparr> else r)
           in (to_read, r1\<lparr>m_body := m_body r @ take to_read buf, rs_read := rs_read r - to_read\<rparr>))"

definition response_line :: "string \<Rightarrow> response \<Rightarrow> http_exception option \<times> response" where
  "response_line line r =
     (if rs_state r = RESPONSE_LINE then
        (case response_process line r of
           (Some e, r1) \<Rightarrow> (Some e, r1)
         | (None, r1) \<Rightarrow> (None, r1\<lparr>rs_state := HEADERS\<rparr>))
      else process_header line r)"

definition response_blank :: "string \<Rightarrow> string \<Rightarrow> response \<Rightarrow> consumed \<times> response" where
  "response_blank buf s r =
     (if rs_state r = RESPONSE_LINE then (Throw (''Incomplete Request'', 400), r)
      else let content_length = get_header ''Content-Length'' r in
        case (if content_length = [] then Some 0 else read_size content_length) of
          None \<Rightarrow> (Throw (''Unable to parse Content-Length header'', 400), r)
        | Some k \<Rightarrow>
            (let r2 = r\<lparr>rs_read := k, rs_state := BODY\<rparr>;
                 taken = length buf + 2 - length s;
                 (body, r3) = (if taken < length buf then response_process_body (drop taken buf) r2 else (0, r2))
             in (Took (taken + body), r3\<lparr>rs_buf := None\<rparr>)))"

definition response_end :: "string \<Rightarrow> string \<Rightarrow> response \<Rightarrow> consumed \<times> response" where
  "response_end buf s r = (Took (length buf), r\<lparr>rs_buf := Some s, rs_read := rs_read r + length buf\<rparr>)"

definition response_consume :: "string \<Rightarrow> response \<Rightarrow> consumed \<times> response" where
  "response_consume buf r =
     (case rs_state r of
        DONE \<Rightarrow> (Took 0, r)
      | BODY \<Rightarrow> apfst Took (response_process_body buf r)
      | _ \<Rightarrow>
          (case rs_buf r of
             None \<Rightarrow> (Null_deref, r)
           | Some old \<Rightarrow>
               lines_loop response_line (response_blank buf) (response_end buf) (old @ buf) (r\<lparr>rs_buf := Some (old @ buf)\<rparr>)))"

definition response_ready :: "response \<Rightarrow> bool" where
  "response_ready r \<longleftrightarrow> rs_state r = DONE"

definition headers_ready :: "response \<Rightarrow> bool" where
  "headers_ready r \<longleftrightarrow> rs_state r = BODY \<or> rs_state r = DONE"

definition response_raw :: "response \<Rightarrow> string" where
  "response_raw r =
     m_version r @ '' '' @ dec_int (rs_status_code r) @ '' '' @ rs_status_msg r @ header_delimiter @ raw_headers r @ header_delimiter @ m_body r"

end
