(* ===== verification/Http_Stream.thy ===== *)
theory Http_Stream
  imports Http_Message
begin

section \<open>Reading a message in pieces\<close>

text \<open>
  \<open>consume\<close> is called for every buffer that arrives.  \<open>scan_lines\<close> is the loop without its continuations:
  where it stops.  From it follows that cutting the bytes changes nothing but the count of the header bytes,
  which each call raises by \<open>sizeof(header_delimiter)\<close> once too often.
\<close>

subsection \<open>Searching for the delimiter\<close>

lemma has_prefix_short: "length p \<le> length s \<Longrightarrow> has_prefix p (s @ t) = has_prefix p s"
  by (simp add: has_prefix_def)

lemma str_find_append: "str_find p s = Some n \<Longrightarrow> str_find p (s @ t) = Some n"
proof (induction s arbitrary: n)
  case Nil
  then show ?case by (cases t) (auto split: if_splits)
next
  case (Cons c s)
  have "length p \<le> length (c # s)" using str_find_Some_split [OF Cons.prems]
    by (metis le_add2 length_append le_trans le_add1)
  then have "has_prefix p (c # s @ t) = has_prefix p (c # s)" using has_prefix_short [of p "c # s" t] by simp
  then show ?case using Cons by (auto split: if_splits)
qed

lemma str_find_middle: "p \<noteq> [] \<Longrightarrow> str_find p (x @ p @ y) \<noteq> None"
proof (induction x)
  case Nil
  then show ?case by (cases p) (auto split: if_splits)
qed auto

lemma crlf_split: "str_find header_delimiter s = Some n \<Longrightarrow> s = take n s @ header_delimiter @ drop (n + 2) s"
  using str_find_Some_split [of header_delimiter s n] by (simp add: header_delimiter_def)

subsection \<open>Where the loop stops\<close>

datatype 'r scanned = At_end string 'r | At_blank string 'r | Failed http_exception 'r

function scan_lines ::
  "(string \<Rightarrow> 'a http_scheme \<Rightarrow> http_exception option \<times> 'a http_scheme) \<Rightarrow> string \<Rightarrow> 'a http_scheme \<Rightarrow> 'a http_scheme scanned" where
  "scan_lines on_line s r =
     (case str_find header_delimiter s of
        None \<Rightarrow> if max_header_size < m_header_bytes r + (length s + 3)
                then Failed size_exceeded (r\<lparr>m_header_bytes := m_header_bytes r + (length s + 3)\<rparr>)
                else At_end s (r\<lparr>m_header_bytes := m_header_bytes r + 3\<rparr>)
      | Some n \<Rightarrow>
          (let r1 = r\<lparr>m_header_bytes := m_header_bytes r + (n + 3)\<rparr>
           in if max_header_size < m_header_bytes r1 then Failed size_exceeded r1
              else if n = 0 then At_blank s r1
              else case on_line (take n s) r1 of
                  (Some e, r2) \<Rightarrow> Failed e r2
                | (None, r2) \<Rightarrow> scan_lines on_line (drop (n + 2) s) r2))"
  by pat_completeness auto
termination by (relation "measure (\<lambda>(l, s, r). length s)") (auto dest: str_find_crlf)

declare scan_lines.simps [simp del]

definition count :: "nat \<Rightarrow> 'a http_scheme \<Rightarrow> 'a http_scheme" where
  "count k r = r\<lparr>m_header_bytes := m_header_bytes r + k\<rparr>"

lemma scan_None:
  "str_find header_delimiter s = None \<Longrightarrow> scan_lines l s r =
     (if max_header_size < m_header_bytes r + (length s + 3) then Failed size_exceeded (count (length s + 3) r)
      else At_end s (count 3 r))"
  by (simp add: scan_lines.simps [of l s r] count_def)

lemma scan_Some:
  "str_find header_delimiter s = Some n \<Longrightarrow> scan_lines l s r =
     (if max_header_size < m_header_bytes r + (n + 3) then Failed size_exceeded (count (n + 3) r)
      else if n = 0 then At_blank s (count (n + 3) r)
      else case l (take n s) (count (n + 3) r) of
          (Some e, r2) \<Rightarrow> Failed e r2
        | (None, r2) \<Rightarrow> scan_lines l (drop (n + 2) s) r2)"
  by (simp add: scan_lines.simps [of l s r] count_def Let_def)

lemma loop_None:
  "str_find header_delimiter s = None \<Longrightarrow> lines_loop l b e s r =
     (if max_header_size < m_header_bytes r + (length s + 3) then (Throw size_exceeded, count (length s + 3) r)
      else e s (count 3 r))"
  by (simp add: lines_loop.simps [of l b e s r] count_def Let_def)

lemma loop_Some:
  "str_find header_delimiter s = Some n \<Longrightarrow> lines_loop l b e s r =
     (if max_header_size < m_header_bytes r + (n + 3) then (Throw size_exceeded, count (n + 3) r)
      else if n = 0 then b s (count (n + 3) r)
      else case l (take n s) (count (n + 3) r) of
          (Some x, r2) \<Rightarrow> (Throw x, r2)
        | (None, r2) \<Rightarrow> lines_loop l b e (drop (n + 2) s) r2)"
  by (simp add: lines_loop.simps [of l b e s r] count_def Let_def)

lemma lines_induct [case_names End Line]:
  assumes "\<And>s r. str_find header_delimiter s = None \<Longrightarrow> P s r"
    and "\<And>s r n. str_find header_delimiter s = Some n \<Longrightarrow> (\<And>r2. P (drop (n + 2) s) r2) \<Longrightarrow> P s r"
  shows "P s r"
proof (induction "length s" arbitrary: s r rule: less_induct)
  case less
  show ?case
  proof (cases "str_find header_delimiter s")
    case (Some n)
    then have "length (drop (n + 2) s) < length s" using str_find_crlf [OF Some] by simp
    then show ?thesis using assms(2) [OF Some] less by blast
  qed (rule assms(1))
qed

lemma lines_loop_scan:
  "lines_loop l b e s r =
     (case scan_lines l s r of At_end p r1 \<Rightarrow> e p r1 | At_blank t r1 \<Rightarrow> b t r1 | Failed x r1 \<Rightarrow> (Throw x, r1))"
  by (induction s r rule: lines_induct) (auto simp: loop_None scan_None loop_Some scan_Some split: option.split prod.split)

text \<open>More bytes: the loop goes on where it stopped, with three bytes counted less.\<close>

lemma scan_append:
  assumes "\<And>r1. scan_lines l s r \<noteq> Failed size_exceeded r1"
  shows "scan_lines l (s @ t) r =
     (case scan_lines l s r of
        At_end p r1 \<Rightarrow> scan_lines l (p @ t) (r1\<lparr>m_header_bytes := m_header_bytes r1 - 3\<rparr>)
      | At_blank s1 r1 \<Rightarrow> At_blank (s1 @ t) r1
      | Failed e r1 \<Rightarrow> Failed e r1)"
  using assms
proof (induction s r rule: lines_induct)
  case (End s r)
  have "max_header_size < m_header_bytes r + (length s + 3) \<Longrightarrow> scan_lines l s r = Failed size_exceeded (count (length s + 3) r)"
    using End.hyps by (simp add: scan_None)
  with End.prems have "\<not> max_header_size < m_header_bytes r + (length s + 3)" by blast
  then show ?case using End.hyps by (simp add: scan_None count_def)
next
  case (Line s r n)
  have st: "drop (n + 2) (s @ t) = drop (n + 2) s @ t" "take n (s @ t) = take n s"
    using str_find_crlf [OF Line.hyps] by simp_all
  note eqs = scan_Some [OF Line.hyps] scan_Some [OF str_find_append [OF Line.hyps, of t], unfolded st]
  obtain e r2 where e: "l (take n s) (count (n + 3) r) = (e, r2)" by (cases "l (take n s) (count (n + 3) r)")
  show ?case
  proof (cases "max_header_size < m_header_bytes r + (n + 3) \<or> n = 0 \<or> e \<noteq> None")
    case True
    then show ?thesis by (cases e) (auto simp: eqs e)
  next
    case False
    then have "e = None" by (cases e) auto
    with False have "scan_lines l s r = scan_lines l (drop (n + 2) s) r2" "scan_lines l (s @ t) r = scan_lines l (drop (n + 2) s @ t) r2"
      by (simp_all add: eqs e)
    moreover have "scan_lines l (drop (n + 2) s) r2 \<noteq> Failed size_exceeded r1" for r1 using Line.prems calculation(1) by simp
    ultimately show ?thesis using Line.IH [of r2] by simp
  qed
qed

text \<open>The range that is left is an end of the bytes.\<close>

lemma scan_blank: "scan_lines l s r = At_blank t r1 \<Longrightarrow> \<exists>pre y. s = pre @ t \<and> t = header_delimiter @ y"
proof (induction s r rule: lines_induct)
  case (Line s r n)
  note split = crlf_split [OF Line.hyps]
  show ?case
  proof (cases "n = 0")
    case True
    then have "s = header_delimiter @ drop (0 + 2) s" using split by (metis append_Nil take0)
    moreover have "t = s" using Line.prems True by (auto simp: scan_Some [OF Line.hyps] split: if_splits)
    ultimately show ?thesis by (metis append_Nil)
  next
    case False
    then obtain r2 where "scan_lines l (drop (n + 2) s) r2 = At_blank t r1"
      using Line.prems by (auto simp: scan_Some [OF Line.hyps] split: if_splits prod.splits option.splits)
    then obtain pre y where "drop (n + 2) s = pre @ t" "t = header_delimiter @ y" using Line.IH by blast
    then show ?thesis using split by (metis append_assoc)
  qed
qed (simp add: scan_None split: if_splits)

lemma scan_end: "scan_lines l s r = At_end t r1 \<Longrightarrow> str_find header_delimiter t = None \<and> 3 \<le> m_header_bytes r1"
  by (induction s r rule: lines_induct) (auto simp: scan_None scan_Some count_def split: if_splits prod.splits option.splits)

text \<open>A change of the object that the handling of a line commutes with; a higher count may exceed the limit.\<close>

lemma scan_upd:
  assumes "\<And>x r. l x (upd r) = apsnd upd (l x r)"
    and "\<And>r. m_header_bytes (upd r) = m_header_bytes r + d" and "\<And>k r. count k (upd r) = upd (count k r)"
  shows "scan_lines l s (upd r) = map_scanned upd (scan_lines l s r) \<or>
    0 < d \<and> (\<exists>r1. scan_lines l s (upd r) = Failed size_exceeded r1)"
proof (induction s r rule: lines_induct)
  case (End s r)
  then show ?case using assms(2,3) by (simp add: scan_None)
next
  case (Line s r n)
  obtain e r2 where "l (take n s) (count (n + 3) r) = (e, r2)" by (cases "l (take n s) (count (n + 3) r)")
  then show ?case using Line.IH [of r2] assms by (simp add: scan_Some [OF Line.hyps] split: option.split)
qed

lemma scan_inv:
  assumes "\<And>x r e r2. I r \<Longrightarrow> l x r = (e, r2) \<Longrightarrow> I r2" "\<And>k r. I r \<Longrightarrow> I (count k r)" "I r"
  shows "case scan_lines l s r of At_end p r1 \<Rightarrow> I r1 | At_blank t r1 \<Rightarrow> I r1 | Failed x r1 \<Rightarrow> I r1"
  using assms(3)
proof (induction s r rule: lines_induct)
  case (Line s r n)
  obtain e r2 where "l (take n s) (count (n + 3) r) = (e, r2)" by (cases "l (take n s) (count (n + 3) r)")
  then show ?case using Line.IH [of r2] Line.prems assms by (simp add: scan_Some [OF Line.hyps] split: option.split) blast
qed (simp add: scan_None assms(2))


subsection \<open>Requests\<close>

definition rebuf :: "nat \<Rightarrow> string option \<Rightarrow> request \<Rightarrow> request" where
  "rebuf d b r = (count d r)\<lparr>rq_buf := b\<rparr>"

lemma get_header_cong [simp]:
  "get_header key (count d r) = get_header key r" "get_header key (rq_buf_update f q) = get_header key q"
  by (simp_all add: get_header_def count_def)

lemma append_header_rebuf: "append_header key val (rebuf d b r) = apsnd (rebuf d b) (append_header key val r)"
  by (simp add: append_header_def rebuf_def count_def get_header_def)

lemma process_header_rebuf: "process_header x (rebuf d b r) = apsnd (rebuf d b) (process_header x r)"
  by (cases "find_char (CHR '':'') x") (simp_all add: process_header_def append_header_rebuf del: find_char_None)

lemma request_line_rebuf: "request_line x (rebuf d b r) = apsnd (rebuf d b) (request_line x r)"
proof -
  have "request_process x (rebuf d b r) = apsnd (rebuf d b) (request_process x r)"
    by (simp add: request_process_def set_method_def rebuf_def count_def Let_def del: find_char_None split: option.split)
  then show ?thesis by (simp add: request_line_def process_header_rebuf) (simp add: rebuf_def count_def)
qed

lemma scan_rebuf:
  "scan_lines request_line s (rebuf d b r) = map_scanned (rebuf d b) (scan_lines request_line s r) \<or>
    0 < d \<and> (\<exists>r1. scan_lines request_line s (rebuf d b r) = Failed size_exceeded r1)"
  by (rule scan_upd) (simp_all add: request_line_rebuf, simp_all add: rebuf_def count_def)

text \<open>The two phases of a request that is not ready, and what a call of \<open>consume\<close> shows of it.\<close>

definition in_head :: "request \<Rightarrow> bool" where
  "in_head r \<longleftrightarrow> \<not> rq_ready r \<and> m_body_bytes_needed r = 0"

definition in_body :: "request \<Rightarrow> bool" where
  "in_body r \<longleftrightarrow> \<not> rq_ready r \<and> 0 < m_body_bytes_needed r \<and> m_body_encoding r = plain"

definition readable :: "request \<Rightarrow> bool" where
  "readable r \<longleftrightarrow> in_head r \<and> (\<exists>old. rq_buf r = Some old \<and> str_find header_delimiter old = None) \<or> in_body r"

definition same_request :: "request \<Rightarrow> request \<Rightarrow> bool" where
  "same_request r1 r2 \<longleftrightarrow> r1\<lparr>m_header_bytes := 0\<rparr> = r2\<lparr>m_header_bytes := 0\<rparr>"

definition same_outcome :: "nat \<Rightarrow> consumed \<times> request \<Rightarrow> consumed \<times> request \<Rightarrow> bool" where
  "same_outcome j o1 o2 \<longleftrightarrow>
     (case (o1, o2) of ((x, r1), (y, r2)) \<Rightarrow>
        (case x of Took k \<Rightarrow> y = Took (j + k) \<and> same_request r1 r2 | _ \<Rightarrow> y = x))"

lemma same_request_refl [simp]: "same_request r r"
  by (simp add: same_request_def)

lemma in_head_line: "in_head r \<Longrightarrow> request_line x r = (e, r2) \<Longrightarrow> in_head r2"
  by (auto simp: request_line_def request_process_def set_method_def process_header_def append_header_def in_head_def Let_def
      split: if_splits option.splits prod.splits)

lemma in_head_scan:
  "in_head r \<Longrightarrow> case scan_lines request_line s r of At_end p r1 \<Rightarrow> in_head r1 | At_blank t r1 \<Rightarrow> in_head r1 | Failed x r1 \<Rightarrow> in_head r1"
  by (rule scan_inv [where I = in_head]) (erule (1) in_head_line, simp_all add: in_head_def count_def)

lemma in_body_consume:
  assumes "in_body r"
  shows "request_consume a r = (Took (min (m_body_bytes_needed r) (length a)),
    r\<lparr>m_body := m_body r @ take (m_body_bytes_needed r) a, m_body_bytes_needed := m_body_bytes_needed r - length a,
      rq_ready := m_body_bytes_needed r \<le> length a\<rparr>)"
  using assms by (simp add: in_body_def request_consume_def process_body_def body_ready_def Let_def)

text \<open>The blank line: bytes that come later are only read as the body.\<close>

lemma blank_shift:
  assumes "length s \<le> length b + 2"
  shows "same_outcome (length a) (request_blank b s (rebuf d x r)) (request_blank (a @ b) s r)"
proof -
  have "drop (length a + length b + 2 - length s) (a @ b) = drop (length b + 2 - length s) b" using assms by simp
  then show ?thesis using assms
    by (auto simp: request_blank_def rebuf_def count_def prepare_body_def process_body_def body_ready_def same_outcome_def
        same_request_def get_header_def Let_def split: option.split prod.split)
qed

lemma blank_more:
  assumes "in_head q" "2 \<le> length s" "request_blank a s q = (x, r1)"
  shows "case x of
      Took k \<Rightarrow> k \<le> length a \<and>
        (if rq_ready r1 then request_blank (a @ b) (s @ b) q = (Took k, r1)
         else k = length a \<and> readable r1 \<and> same_outcome (length a) (request_consume b r1) (request_blank (a @ b) (s @ b) q))
    | _ \<Rightarrow> request_blank (a @ b) (s @ b) q = (x, r1)"
proof -
  define k where "k = length a + 2 - length s"
  have k: "k \<le> length a" "length (a @ b) + 2 - length (s @ b) = k" using assms(2) by (simp_all add: k_def)
  define q1 where "q1 = q\<lparr>rq_buf := None\<rparr>"
  note blank = request_blank_def Let_def k_def [symmetric] k(2) q1_def [symmetric]
  consider "rq_method q = [] \<or> get_header ''Host'' q = []" | "\<not> (rq_method q = [] \<or> get_header ''Host'' q = [])" "get_header ''Content-Length'' q = []"
    | "\<not> (rq_method q = [] \<or> get_header ''Host'' q = [])" "get_header ''Content-Length'' q \<noteq> []" by blast
  then show ?thesis
  proof cases
    case 1
    then show ?thesis using assms(3) by (auto simp: blank)
  next
    case 2
    then have "prepare_body q1 = (None, False, q1)" by (simp add: prepare_body_def q1_def)
    then show ?thesis using assms(2,3) 2 by (auto simp: blank)
  next
    case 3
    define n where "n = strtoul10 (get_header ''Content-Length'' q)"
    define q2 where "q2 = q1\<lparr>m_body_bytes_needed := n\<rparr>"
    have p: "prepare_body q1 = (if m_body_bytes_max q2 < n then (Some (''HTTP message body too large'', 413), False, q2)
        else (None, True, q2\<lparr>m_body_encoding := plain\<rparr>))"
      using 3 by (simp add: prepare_body_def q1_def q2_def n_def Let_def)
    show ?thesis
    proof (cases "m_body_bytes_max q2 < n")
      case True
      then show ?thesis using assms(3) 3(1) p by (auto simp: blank)
    next
      case False
      have blank': "request_blank c t q = (Took (k + min n (length c - k)),
          q2\<lparr>m_body_encoding := plain, m_body := m_body q @ take (min n (length c - k)) (drop k c),
            m_body_bytes_needed := n - min n (length c - k), rq_ready := n \<le> length c - k\<rparr>)"
        if "length c + 2 - length t = k" for c t
        using that assms(1) 3(1) p False
        by (auto simp: request_blank_def Let_def q1_def [symmetric] process_body_def body_ready_def)
           (simp_all add: q2_def q1_def in_head_def)
      note x = blank' [of a s] blank' [of "a @ b" "s @ b"]
      show ?thesis
      proof (cases "n \<le> length a - k")
        case True
        then show ?thesis using x assms(3) k by (auto simp: k_def)
      next
        case False
        then have b: "in_body r1" "x = Took (length a)" using x(1) assms(3) k by (auto simp: k_def in_body_def)
        have r1: "r1 = q2\<lparr>m_body_encoding := plain, m_body := m_body q @ drop k a, m_body_bytes_needed := n - (length a - k), rq_ready := False\<rparr>"
          using x(1) assms(3) False by (auto simp: k_def)
        define m where "m = n - (length a - k)"
        have m: "n = (length a - k) + m" "0 < m" using False by (simp_all add: m_def)
        have len: "length (a @ b) - k = (length a - k) + length b" using k(1) by simp
        have "min n ((length a - k) + length b) = (length a - k) + min m (length b)" unfolding m(1) by simp
        moreover have "take ((length a - k) + min m (length b)) (drop k (a @ b)) = drop k a @ take m b"
          using k(1) by (simp add: min_def)
        moreover have "n - ((length a - k) + min m (length b)) = m - length b" unfolding m(1) by simp
        moreover have "n \<le> (length a - k) + length b \<longleftrightarrow> m \<le> length b" unfolding m(1) by simp
        ultimately have "request_blank (a @ b) (s @ b) q = (Took (k + ((length a - k) + min m (length b))),
            q2\<lparr>m_body_encoding := plain, m_body := m_body q @ drop k a @ take m b, m_body_bytes_needed := m - length b,
              rq_ready := m \<le> length b\<rparr>)"
          using x(2) k(2) unfolding len by simp
        moreover have "request_consume b r1 = (Took (min m (length b)), r1\<lparr>m_body := m_body q @ drop k a @ take m b,
            m_body_bytes_needed := m - length b, rq_ready := m \<le> length b\<rparr>)"
          using in_body_consume [OF b(1), of b] by (simp add: r1 m_def [symmetric])
        moreover have "\<not> rq_ready r1" by (simp add: r1)
        ultimately show ?thesis using b k(1) by (simp add: readable_def r1 same_outcome_def same_request_def)
      qed
    qed
  qed
qed


text \<open>Two calls of \<open>consume\<close> and one with the bytes of both.\<close>

lemma consume_head:
  "in_head r \<Longrightarrow> rq_buf r = Some old \<Longrightarrow> request_consume a r =
     (case scan_lines request_line (old @ a) (rebuf 0 (Some (old @ a)) r) of
        At_end p r1 \<Rightarrow> (Took (length a), r1\<lparr>rq_buf := Some p\<rparr>)
      | At_blank t r1 \<Rightarrow> request_blank a t r1
      | Failed e r1 \<Rightarrow> (Throw e, r1))"
  by (simp add: request_consume_def in_head_def lines_loop_scan request_end_def rebuf_def count_def cong: scanned.case_cong)

lemma request_line_not_size: "request_line x r = (Some e, r1) \<Longrightarrow> e \<noteq> size_exceeded"
  by (auto simp: request_line_def request_process_def set_method_def process_header_def append_header_def size_exceeded_def Let_def
      split: if_splits option.splits prod.splits)

lemma same_outcome_trans: "same_outcome j o1 o2 \<Longrightarrow> same_outcome 0 o3 o2 \<Longrightarrow> same_outcome j o1 o3"
  by (auto simp: same_outcome_def same_request_def split: prod.splits consumed.splits)

text \<open>At most one byte of the blank line was there before.\<close>

lemma blank_is_new:
  assumes "scan_lines l (p @ b) r = At_blank t r1" "str_find header_delimiter p = None"
  shows "length t \<le> length b + 2"
proof (rule ccontr)
  assume long: "\<not> length t \<le> length b + 2"
  obtain pre y where t: "p @ b = pre @ t" "t = header_delimiter @ y" using scan_blank [OF assms(1)] by blast
  have "length pre + 2 \<le> length p" using long arg_cong [OF t(1), of length] by simp
  then have "take 2 (drop (length pre) p) = take 2 (drop (length pre) (p @ b))" by simp
  also have "\<dots> = header_delimiter" unfolding t by (simp add: header_delimiter_def)
  finally have "p = take (length pre) p @ header_delimiter @ drop 2 (drop (length pre) p)"
    by (metis append_take_drop_id)
  then show False using str_find_middle [of header_delimiter] assms(2) by (metis header_delimiter_def list.discI)
qed

lemma consume_readable:
  assumes "readable r" "request_consume a r = (Took k, r1)" "\<not> rq_ready r1"
  shows "readable r1"
proof (cases "in_body r")
  case True
  then show ?thesis using assms in_body_consume [OF True, of a] by (auto simp: readable_def in_body_def)
next
  case False
  then obtain old where h: "in_head r" "rq_buf r = Some old" using assms(1) by (auto simp: readable_def)
  define r0 where "r0 = rebuf 0 (Some (old @ a)) r"
  have ih: "in_head r0" using h(1) by (simp add: r0_def rebuf_def in_head_def count_def)
  note one = consume_head [OF h, of a, folded r0_def] and i = in_head_scan [OF ih, of "old @ a"]
  show ?thesis
  proof (cases "scan_lines request_line (old @ a) r0")
    case (At_blank t r')
    then show ?thesis using one assms(2,3) i blank_more [of r' t a "Took k" r1 "[]"] scan_blank [OF At_blank]
      by (auto simp: header_delimiter_def)
  next
    case (At_end p r')
    then show ?thesis using one assms(2) i scan_end [OF At_end] by (auto simp: readable_def in_head_def)
  qed (use one assms(2) in simp)
qed

lemma request_cut:
  assumes "readable r" "request_consume a r = (x, r1)" "x \<noteq> Throw size_exceeded"
    and "\<And>k. x = Took k \<Longrightarrow> \<not> rq_ready r1 \<Longrightarrow> fst (request_consume b r1) \<noteq> Throw size_exceeded"
  shows "case x of
      Took k \<Rightarrow> k \<le> length a \<and>
        (if rq_ready r1 then \<exists>r2. request_consume (a @ b) r = (Took k, r2) \<and> same_request r1 r2
         else k = length a \<and> readable r1 \<and> same_outcome (length a) (request_consume b r1) (request_consume (a @ b) r))
    | _ \<Rightarrow> fst (request_consume (a @ b) r) = x"
proof (cases "in_body r")
  case True
  note c = in_body_consume [OF True]
  show ?thesis
  proof (cases "m_body_bytes_needed r \<le> length a")
    case True
    then have "x = Took (m_body_bytes_needed r)" "rq_ready r1" "request_consume (a @ b) r = (x, r1)"
      using assms(2) c [of a] c [of "a @ b"] by auto
    then show ?thesis using True by auto
  next
    case False
    then have r1: "x = Took (length a)" "r1 = r\<lparr>m_body := m_body r @ a, m_body_bytes_needed := m_body_bytes_needed r - length a, rq_ready := False\<rparr>"
      using assms(2) c [of a] by auto
    then have "in_body r1" using False \<open>in_body r\<close> by (simp add: in_body_def)
    note c1 = in_body_consume [OF this, of b]
    have "min (m_body_bytes_needed r) (length a + length b) = length a + min (m_body_bytes_needed r - length a) (length b)"
      using False by simp
    moreover have "m_body_bytes_needed r \<le> length a + length b \<longleftrightarrow> m_body_bytes_needed r - length a \<le> length b" using False by auto
    ultimately show ?thesis using c1 c [of "a @ b"] False \<open>in_body r1\<close>
      by (simp add: r1 same_outcome_def readable_def)
  qed
next
  case False
  then obtain old where h: "in_head r" "rq_buf r = Some old" and old: "str_find header_delimiter old = None" using assms(1) by (auto simp: readable_def)
  define W where "W = Some (old @ a @ b)"
  define r0 where "r0 = rebuf 0 (Some (old @ a)) r"
  have rW: "rebuf 0 W r = rebuf 0 W r0" by (simp add: r0_def rebuf_def count_def)
  have ih: "in_head r0" using h(1) by (simp add: r0_def rebuf_def in_head_def count_def)
  note one = consume_head [OF h, of a, folded r0_def]
  have whole: "request_consume (a @ b) r =
     (case scan_lines request_line ((old @ a) @ b) (rebuf 0 W r0) of
        At_end p r1 \<Rightarrow> (Took (length (a @ b)), r1\<lparr>rq_buf := Some p\<rparr>)
      | At_blank t r1 \<Rightarrow> request_blank (a @ b) t r1
      | Failed e r1 \<Rightarrow> (Throw e, r1))"
    using consume_head [OF h, of "a @ b"] by (simp add: rW W_def [symmetric])
  have up: "scan_lines request_line (old @ a) (rebuf 0 W r0) = map_scanned (rebuf 0 W) (scan_lines request_line (old @ a) r0)"
    using scan_rebuf [of "old @ a" 0 W r0] by simp
  have ns: "scan_lines request_line (old @ a) (rebuf 0 W r0) \<noteq> Failed size_exceeded r'" for r'
    using assms(2,3) one unfolding up by (cases "scan_lines request_line (old @ a) r0") auto
  note app = scan_append [of request_line "old @ a" "rebuf 0 W r0" b, OF ns, unfolded up]
  show ?thesis
  proof (cases "scan_lines request_line (old @ a) r0")
    case (Failed e r')
    then show ?thesis using whole app one assms(2) by auto
  next
    case (At_blank t r')
    have q: "in_head r'" using in_head_scan [OF ih, of "old @ a"] At_blank by simp
    have t: "2 \<le> length t" using scan_blank [OF At_blank] by (auto simp: header_delimiter_def)
    have x: "request_blank a t r' = (x, r1)" using one assms(2) At_blank by simp
    have w: "request_consume (a @ b) r = request_blank (a @ b) (t @ b) (rebuf 0 W r')" using whole app At_blank by simp
    have o: "same_outcome 0 (request_consume (a @ b) r) (request_blank (a @ b) (t @ b) r')"
      using blank_shift [of "t @ b" "a @ b" "[]" 0 W r'] blank_is_new [OF At_blank old] by (simp add: w)
    note m = blank_more [OF q t x, of b]
    show ?thesis
    proof (cases x)
      case (Took k)
      show ?thesis
      proof (cases "rq_ready r1")
        case True
        then have "request_blank (a @ b) (t @ b) r' = (Took k, r1)" using m Took by simp
        then show ?thesis using o m Took True
          by (auto simp: same_outcome_def same_request_def split: prod.splits consumed.splits)
      next
        case False
        then show ?thesis using m Took same_outcome_trans [OF _ o] by simp
      qed
    qed (use m o in \<open>auto simp: same_outcome_def split: prod.splits consumed.splits\<close>)
  next
    case (At_end p r')
    have q: "in_head r'" using in_head_scan [OF ih, of "old @ a"] At_end by simp
    have p: "str_find header_delimiter p = None" "3 \<le> m_header_bytes r'" using scan_end [OF At_end] by simp_all
    have x: "x = Took (length a)" "r1 = r'\<lparr>rq_buf := Some p\<rparr>" using one assms(2) At_end by simp_all
    have h1: "in_head r1" "rq_buf r1 = Some p" using q by (simp_all add: x in_head_def)
    define w0 where "w0 = (rebuf 0 W r')\<lparr>m_header_bytes := m_header_bytes (rebuf 0 W r') - 3\<rparr>"
    define B where "B = Some (p @ b)"
    have r1: "rebuf 0 B r1 = rebuf 3 B w0" using p(2) by (simp add: x w0_def rebuf_def count_def)
    note two = consume_head [OF h1, of b, folded B_def, unfolded r1]
    have w: "request_consume (a @ b) r =
      (case scan_lines request_line (p @ b) w0 of
          At_end p r1 \<Rightarrow> (Took (length (a @ b)), r1\<lparr>rq_buf := Some p\<rparr>)
        | At_blank t r1 \<Rightarrow> request_blank (a @ b) t r1
        | Failed e r1 \<Rightarrow> (Throw e, r1))"
      using whole app At_end by (simp add: w0_def)
    have up: "scan_lines request_line (p @ b) (rebuf 3 B w0) = map_scanned (rebuf 3 B) (scan_lines request_line (p @ b) w0)"
      using scan_rebuf [of "p @ b" 3 B w0] assms(4) [OF x(1)] two h1(1) by (auto simp: in_head_def)
    have "same_outcome (length a) (request_consume b r1) (request_consume (a @ b) r)"
    proof (cases "scan_lines request_line (p @ b) w0")
      case (At_blank t r2)
      then show ?thesis using two w up blank_shift [OF blank_is_new [OF At_blank p(1)], of a 3 B r2] by simp
    qed (simp_all add: two w up, simp_all add: same_outcome_def same_request_def rebuf_def count_def)
    then show ?thesis using h1 p(1) by (simp add: x(1) readable_def) (simp add: in_head_def)
  qed
qed


subsection \<open>All the pieces\<close>

text \<open>The calls of \<open>consume\<close> for the buffers of a request until it is ready; then the bytes that are left.\<close>

fun feed_request :: "string list \<Rightarrow> nat \<Rightarrow> request \<Rightarrow> consumed \<times> request \<times> string" where
  "feed_request [] j r = (Took j, r, [])"
| "feed_request (buf # bufs) j r =
     (case request_consume buf r of
        (Took k, r1) \<Rightarrow> if rq_ready r1 then (Took (j + k), r1, drop k buf @ concat bufs) else feed_request bufs (j + k) r1
      | (x, r1) \<Rightarrow> (x, r1, []))"

lemma readable_new [simp]: "readable new_request"
  by (simp add: readable_def in_head_def new_request_def header_delimiter_def)

lemma same_request_trans [trans]: "same_request r1 r2 \<Longrightarrow> same_request r2 r3 \<Longrightarrow> same_request r1 r3"
  by (simp add: same_request_def)

lemma feed_request_pieces:
  assumes "readable r" "bufs \<noteq> []" "feed_request bufs j r = (x, r1, rest)" "x \<noteq> Throw size_exceeded"
  shows "\<exists>y r2. request_consume (concat bufs) r = (y, r2) \<and>
    (case x of
       Took n \<Rightarrow> (\<exists>k. n = j + k \<and> y = Took k \<and> same_request r1 r2 \<and> (rq_ready r1 \<longrightarrow> rest = drop k (concat bufs)))
     | _ \<Rightarrow> y = x)"
  using assms
proof (induction bufs arbitrary: j r)
  case (Cons c cs)
  obtain xc rc where c: "request_consume c r = (xc, rc)" by (cases "request_consume c r")
  have nsz: "xc \<noteq> Throw size_exceeded" using Cons.prems(3,4) c by auto
  obtain y r2 where y: "request_consume (c @ concat cs) r = (y, r2)" by (cases "request_consume (c @ concat cs) r")
  show ?case
  proof (cases "\<exists>k. xc = Took k \<and> \<not> rq_ready rc \<and> cs \<noteq> []")
    case False
    then consider "cs = []" | k where "xc = Took k" "rq_ready rc" | "\<nexists>k. xc = Took k" by blast
    then show ?thesis
    proof cases
      case 1
      then show ?thesis using Cons.prems(3) c by (auto split: consumed.splits if_splits)
    next
      case 2
      then show ?thesis using Cons.prems(3) c y request_cut [OF Cons.prems(1) c nsz, of "concat cs"] by auto
    next
      case 3
      then show ?thesis using Cons.prems(3) c y request_cut [OF Cons.prems(1) c nsz, of "concat cs"]
        by (cases xc) auto
    qed
  next
    case True
    then obtain k where k: "xc = Took k" "\<not> rq_ready rc" "cs \<noteq> []" by blast
    have f: "feed_request cs (j + k) rc = (x, r1, rest)" using Cons.prems(3) c k by simp
    have rd: "readable rc" using consume_readable [OF Cons.prems(1)] c k by simp
    obtain yc rc2 where yc: "request_consume (concat cs) rc = (yc, rc2)"
      "case x of Took n \<Rightarrow> (\<exists>k'. n = j + k + k' \<and> yc = Took k' \<and> same_request r1 rc2 \<and> (rq_ready r1 \<longrightarrow> rest = drop k' (concat cs))) | _ \<Rightarrow> yc = x"
      using Cons.IH [OF rd k(3) f Cons.prems(4)] by blast
    then have ns: "fst (request_consume (concat cs) rc) \<noteq> Throw size_exceeded"
      using Cons.prems(4) by (cases x) auto
    have m: "k = length c \<and> readable rc \<and> same_outcome (length c) (request_consume (concat cs) rc) (request_consume (c @ concat cs) r)"
      using request_cut [OF Cons.prems(1) c nsz, of "concat cs"] k ns by simp
    show ?thesis
      using yc m y by (cases x) (auto simp: same_outcome_def intro: same_request_trans)
  qed
qed simp

text \<open>Small buffers: each of them adds three to the count.\<close>

lemma no_CR: "CR \<notin> set s \<Longrightarrow> str_find header_delimiter s = None"
  by (induction s) (auto simp: header_delimiter_def)

lemma bytewise_exceeds:
  assumes "in_head r" "rq_buf r = Some old" "CR \<notin> set old \<union> set s" "m_header_bytes r = 3 * length old"
    and "length old \<le> 4000" "4001 \<le> length old + length s"
  shows "fst (feed_request (map (\<lambda>c. [c]) s) j r) = Throw size_exceeded"
  using assms
proof (induction s arbitrary: old j r)
  case (Cons c s)
  have f: "str_find header_delimiter (old @ [c]) = None" using Cons.prems(3) by (intro no_CR) auto
  note eq = consume_head [OF Cons.prems(1,2), of "[c]", unfolded scan_None [OF f]]
  show ?case
  proof (cases "length old = 4000")
    case True
    then show ?thesis using eq Cons.prems(4) by (simp add: max_header_size_def rebuf_def count_def)
  next
    case False
    define r1 where "r1 = (count 3 (rebuf 0 (Some (old @ [c])) r))\<lparr>rq_buf := Some (old @ [c])\<rparr>"
    have "request_consume [c] r = (Took 1, r1)"
      using eq Cons.prems(4,5) False by (simp add: max_header_size_def rebuf_def count_def r1_def)
    moreover have "in_head r1" "rq_buf r1 = Some (old @ [c])" "m_header_bytes r1 = 3 * length (old @ [c])"
      using Cons.prems(1,4) by (simp_all add: r1_def in_head_def rebuf_def count_def)
    ultimately show ?thesis using Cons.IH [of r1 "old @ [c]" "j + 1"] Cons.prems False by (simp add: in_head_def)
  qed
qed simp

subsection \<open>Properties\<close>

text \<open>
  C35: A request may arrive in any pieces: unless the size limit is reported, feeding the buffers one after
  the other until the request is ready gives the same request, the same exception and the same bytes left
  over as one call with all the bytes.
\<close>
theorem request_may_be_cut:
  assumes "bufs \<noteq> []" "feed_request bufs 0 new_request = (x, r1, rest)" "x \<noteq> Throw size_exceeded"
  shows "\<exists>y r2. request_consume (concat bufs) new_request = (y, r2) \<and>
    (case x of
       Took k \<Rightarrow> y = Took k \<and> same_request r1 r2 \<and> (rq_ready r1 \<longrightarrow> rest = drop k (concat bufs))
     | _ \<Rightarrow> y = x)"
  using feed_request_pieces [OF readable_new assms] by (cases x) auto

text \<open>A request in three buffers, the first of which ends between the two characters of a line end; four bytes follow it.\<close>

definition sample_pieces :: "string list" where
  "sample_pieces = [''GET / HTTP/1.1'' @ [CR], [LF] @ ''Host: a'' @ header_delimiter @ [CR], [LF] @ ''rest'']"

lemmas consume_eval = new_request_def request_consume_def loop_None loop_Some header_delimiter_def CR_def LF_def max_header_size_def count_def
  request_line_def request_process_def set_method_def is_not_token_char_def header_token_def nth_append nth_Cons'
  request_end_def process_header_def append_header_def strip_lws_def extract_all_lws.simps extract_lws_def
  is_whitespace_char_def get_header_def request_blank_def prepare_body_def Let_def ci_eq_def tolower_def

theorem request_may_be_cut_witness:
  "fst (feed_request sample_pieces 0 new_request) = Took 27 \<and> fst (request_consume (concat sample_pieces) new_request) = Took 27"
proof -
  obtain r1 rest where f: "feed_request sample_pieces 0 new_request = (Took 27, r1, rest)"
  proof -
    have "fst (feed_request sample_pieces 0 new_request) = Took 27" by (simp add: sample_pieces_def consume_eval)
    then show thesis using that by (metis prod.collapse)
  qed
  then show ?thesis using request_may_be_cut [OF _ f] by (auto simp: sample_pieces_def)
qed

text \<open>
  C38: The size limit depends on the pieces: a header line of 4001 to 15997 bytes is accepted in one buffer,
  but exceeds the limit of 16000 bytes when it arrives byte by byte, since every buffer counts three bytes more.
\<close>
theorem size_limit_depends_on_pieces:
  assumes "CR \<notin> set s" "4001 \<le> length s" "length s \<le> 15997"
  shows "fst (request_consume s new_request) = Took (length s) \<and>
    fst (feed_request (map (\<lambda>c. [c]) s) 0 new_request) = Throw size_exceeded"
proof
  have h: "in_head new_request" "rq_buf new_request = Some []" by (simp_all add: in_head_def new_request_def)
  show "fst (request_consume s new_request) = Took (length s)"
    using consume_head [OF h, of s] assms by (simp add: scan_None no_CR rebuf_def count_def max_header_size_def new_request_def)
  show "fst (feed_request (map (\<lambda>c. [c]) s) 0 new_request) = Throw size_exceeded"
    by (rule bytewise_exceeds [OF h]) (use assms in \<open>simp_all add: new_request_def\<close>)
qed

theorem size_limit_depends_on_pieces_witness:
  "fst (feed_request (map (\<lambda>c. [c]) (replicate 5000 (CHR ''a''))) 0 new_request) = Throw size_exceeded"
proof -
  have "CR \<notin> set (replicate 5000 (CHR ''a''))" "4001 \<le> length (replicate 5000 (CHR ''a''))"
    "length (replicate 5000 (CHR ''a'')) \<le> 15997"
    by (simp_all only: length_replicate set_replicate_conv_if CR_def) simp_all
  from size_limit_depends_on_pieces [OF this] show ?thesis by blast
qed

end
