(* ===== verification/Http_Roundtrip.thy ===== *)
theory Http_Roundtrip
  imports Http_Stream
begin

section \<open>What is printed is read back\<close>

text \<open>
  \<open>raw\<close> prints a request or a response, \<open>consume\<close> reads it.  A header map reads back when its keys are
  tokens and its values have no carriage return and no white space at either end.
\<close>

subsection \<open>Lines\<close>

lemma ws_not_CR: "is_whitespace_char CR = False"
  by (simp add: is_whitespace_char_def CR_def)

lemma extract_lws_no_CR: "CR \<notin> set s \<Longrightarrow> extract_lws s = dropWhile is_whitespace_char s"
  by (cases s) (auto simp: extract_lws_def Let_def)

lemma extract_all_lws_no_CR: "CR \<notin> set s \<Longrightarrow> extract_all_lws s = dropWhile is_whitespace_char s"
proof (induction s rule: extract_all_lws.induct)
  case (1 s)
  have "CR \<notin> set (dropWhile is_whitespace_char s)" using 1(2) by (meson set_dropWhileD)
  then show ?case using 1 extract_lws_no_CR [of s]
    by (auto simp: extract_all_lws.simps [of s] Let_def dropWhile_idem)
qed

definition trimmed :: "string \<Rightarrow> bool" where
  "trimmed v \<longleftrightarrow> CR \<notin> set v \<and> (v = [] \<or> \<not> is_whitespace_char (hd v) \<and> \<not> is_whitespace_char (last v))"

lemma dropWhile_trimmed: "v \<noteq> [] \<Longrightarrow> \<not> P (hd v) \<Longrightarrow> dropWhile P v = v"
  by (cases v) auto

lemma strip_lws_trimmed: "trimmed v \<Longrightarrow> strip_lws v = v"
proof (cases "v = []")
  case False
  assume "trimmed v"
  with False have t: "CR \<notin> set v" "CR \<notin> set (rev v)" "\<not> is_whitespace_char (hd v)" "\<not> is_whitespace_char (hd (rev v))"
    by (auto simp: trimmed_def hd_rev)
  have "extract_all_lws v = v" using t(1,3) False by (simp add: extract_all_lws_no_CR dropWhile_trimmed)
  moreover have "extract_all_lws (rev v) = rev v" using t(2,4) False by (simp add: extract_all_lws_no_CR dropWhile_trimmed)
  ultimately show ?thesis using False by (simp add: strip_lws_def)
qed (simp add: strip_lws_def extract_all_lws.simps [of "[]"] extract_lws_def)

lemma strip_lws_space: "trimmed v \<Longrightarrow> strip_lws (CHR '' '' # v) = v"
proof (cases "v = []")
  case True
  then show ?thesis by (simp add: strip_lws_def extract_all_lws_no_CR CR_def is_whitespace_char_def)
next
  case False
  assume "trimmed v"
  with False have t: "CR \<notin> set v" "\<not> is_whitespace_char (hd v)" "\<not> is_whitespace_char (hd (rev v))"
    by (auto simp: trimmed_def hd_rev)
  have sp: "CR \<noteq> CHR '' ''" "is_whitespace_char (CHR '' '')" by (simp_all add: CR_def is_whitespace_char_def)
  have "extract_all_lws (CHR '' '' # v) = dropWhile is_whitespace_char (CHR '' '' # v)"
    using t(1) sp(1) by (intro extract_all_lws_no_CR) auto
  then have "extract_all_lws (CHR '' '' # v) = v" using t(2) sp(2) False by (simp add: dropWhile_trimmed)
  moreover have "extract_all_lws (rev v @ [CHR '' '']) = rev v @ [CHR '' '']"
    using t(1,3) False by (subst extract_all_lws_no_CR) (auto simp: CR_def intro!: dropWhile_trimmed)
  ultimately show ?thesis using False by (simp add: strip_lws_def)
qed

definition token :: "string \<Rightarrow> bool" where
  "token s \<longleftrightarrow> s \<noteq> [] \<and> \<not> list_ex is_not_token_char s"

lemma not_token_chars: "is_not_token_char CR" "is_not_token_char (CHR '':'')" "is_not_token_char (CHR '' '')"
  by (simp_all add: is_not_token_char_def header_token_def nth_append nth_Cons' CR_def)

lemma whitespace_not_token: "is_whitespace_char c \<Longrightarrow> is_not_token_char c"
  by (auto simp: is_whitespace_char_def is_not_token_char_def header_token_def nth_append nth_Cons')

lemma token_chars: "token s \<Longrightarrow> c \<in> set s \<Longrightarrow> \<not> is_not_token_char c"
  by (auto simp: token_def list_ex_iff)

lemma token_trimmed: "token s \<Longrightarrow> trimmed s"
  using token_chars [of s] not_token_chars whitespace_not_token
  by (auto simp: trimmed_def token_def) (metis list.set_sel(1), metis last_in_set)

lemma find_crlf: "CR \<notin> set l \<Longrightarrow> str_find header_delimiter (l @ header_delimiter @ t) = Some (length l)"
  by (induction l) (auto simp: header_delimiter_def)

subsection \<open>Header lines\<close>

definition headers_ok :: "headers \<Rightarrow> bool" where
  "headers_ok hs \<longleftrightarrow> hdr_ok hs \<and> (\<forall>(k, v) \<in> set hs. token k \<and> trimmed v)"

definition header_line :: "string \<times> string \<Rightarrow> string" where
  "header_line kv = fst kv @ '': '' @ snd kv"

lemma raw_headers_lines: "raw_headers p = concat (map (\<lambda>h. header_line h @ header_delimiter) (m_headers p))"
  by (simp add: raw_headers_def header_line_def case_prod_unfold)

lemma header_line_no_CR: "token k \<Longrightarrow> trimmed v \<Longrightarrow> CR \<notin> set (header_line (k, v))"
  using token_chars [of k CR] not_token_chars(1) by (auto simp: header_line_def trimmed_def CR_def)

lemma process_header_line:
  assumes "headers_ok (m_headers r @ [(k, v)])"
  shows "process_header (header_line (k, v)) r = (None, r\<lparr>m_headers := m_headers r @ [(k, v)]\<rparr>)"
proof -
  have kv: "token k" "trimmed v" "hdr_ok (m_headers r @ [(k, v)])" using assms by (auto simp: headers_ok_def)
  have "CHR '':'' \<notin> set k" using token_chars [OF kv(1)] not_token_chars(2) by blast
  then have "find_char (CHR '':'') (header_line (k, v)) = Some (length k)"
    using find_char_append [of "CHR '':''" k "CHR '' '' # v"] by (simp add: header_line_def)
  moreover have "take (length k) (header_line (k, v)) = k" "drop (length k + 1) (header_line (k, v)) = CHR '' '' # v"
    by (simp_all add: header_line_def)
  ultimately have "process_header (header_line (k, v)) r = append_header k v r"
    using strip_lws_trimmed [OF token_trimmed [OF kv(1)]] strip_lws_space [OF kv(2)] by (simp add: process_header_def)
  moreover have "get_header k r = []" using hdr_find_notin [OF kv(3)] by (simp add: get_header_def)
  ultimately show ?thesis using kv(1) hdr_set_snoc [OF kv(3)] by (simp add: append_header_def token_def)
qed

definition line_count :: "headers \<Rightarrow> nat" where
  "line_count hs = sum_list (map (\<lambda>h. length (header_line h) + 3) hs)"

lemma scan_headers:
  assumes "\<And>x r. P r \<Longrightarrow> l x r = process_header x r" "\<And>r k hs. P r \<Longrightarrow> P ((count k r)\<lparr>m_headers := hs\<rparr>)"
    and "\<And>r k. P r \<Longrightarrow> P (count k r)"
    and "P r" "headers_ok (m_headers r @ hs)" "m_header_bytes r + line_count hs + 3 \<le> max_header_size"
  shows "scan_lines l (concat (map (\<lambda>h. header_line h @ header_delimiter) hs) @ header_delimiter @ t) r =
    At_blank (header_delimiter @ t) ((count (line_count hs + 3) r)\<lparr>m_headers := m_headers r @ hs\<rparr>)"
  using assms(4-6)
proof (induction hs arbitrary: r)
  case Nil
  have "str_find header_delimiter (header_delimiter @ t) = Some 0" using find_crlf [of "[]" t] by simp
  then show ?case using Nil by (simp add: scan_Some line_count_def count_def)
next
  case (Cons h hs)
  obtain k v where h: "h = (k, v)" by (cases h)
  have ok: "headers_ok (m_headers r @ [(k, v)])" using Cons.prems(2) h
    by (auto simp: headers_ok_def hdr_ok_def sorted_wrt_append)
  then have CR: "CR \<notin> set (header_line h)" using header_line_no_CR [of k v] h by (auto simp: headers_ok_def)
  define s where "s = concat (map (\<lambda>h. header_line h @ header_delimiter) hs) @ header_delimiter @ t"
  define r1 where "r1 = (count (length (header_line h) + 3) r)\<lparr>m_headers := m_headers r @ [h]\<rparr>"
  have "l (header_line h) (count (length (header_line h) + 3) r) = (None, r1)"
    using assms(1) [OF assms(3) [OF Cons.prems(1)]] process_header_line [of "count (length (header_line h) + 3) r" k v] ok h
    by (simp add: r1_def) (simp add: count_def)
  moreover have "header_line h \<noteq> []" by (simp add: header_line_def)
  moreover have "length (header_line h) + 3 + m_header_bytes r \<le> max_header_size"
    using Cons.prems(3) by (simp add: line_count_def)
  ultimately have "scan_lines l (header_line h @ header_delimiter @ s) r = scan_lines l s r1"
    using scan_Some [OF find_crlf [OF CR, of s], of l r] by (simp add: header_delimiter_def)
  moreover have "scan_lines l s r1 = At_blank (header_delimiter @ t) ((count (line_count hs + 3) r1)\<lparr>m_headers := m_headers r1 @ hs\<rparr>)"
    unfolding s_def
  proof (rule Cons.IH)
    show "P r1" using assms(2) [OF Cons.prems(1)] by (simp add: r1_def)
    show "headers_ok (m_headers r1 @ hs)" using Cons.prems(2) by (simp add: r1_def)
    show "m_header_bytes r1 + line_count hs + 3 \<le> max_header_size"
      using Cons.prems(3) by (simp add: r1_def count_def line_count_def)
  qed
  ultimately show ?case by (simp add: s_def r1_def count_def line_count_def)
qed

text \<open>The first line, then the headers.\<close>

lemma scan_message:
  assumes "\<And>x r. P r \<Longrightarrow> l x r = process_header x r" "\<And>r k hs. P r \<Longrightarrow> P ((count k r)\<lparr>m_headers := hs\<rparr>)"
    and "\<And>r k. P r \<Longrightarrow> P (count k r)"
    and "l first (count (length first + 3) r) = (None, r1)" "P r1" "m_headers r1 = []" "CR \<notin> set first" "first \<noteq> []"
    and "m_header_bytes r = 0" "m_header_bytes r1 = length first + 3"
    and "headers_ok hs" "length first + line_count hs + 6 \<le> max_header_size"
  shows "scan_lines l (first @ header_delimiter @ concat (map (\<lambda>h. header_line h @ header_delimiter) hs) @ header_delimiter @ t) r =
    At_blank (header_delimiter @ t) ((count (line_count hs + 3) r1)\<lparr>m_headers := hs\<rparr>)"
proof -
  define s where "s = concat (map (\<lambda>h. header_line h @ header_delimiter) hs) @ header_delimiter @ t"
  have "\<not> max_header_size < m_header_bytes r + (length first + 3)" "length first \<noteq> 0" using assms(8,9,12) by simp_all
  then have "scan_lines l (first @ header_delimiter @ s) r = scan_lines l (drop (length first + 2) (first @ header_delimiter @ s)) r1"
    using scan_Some [OF find_crlf [OF assms(7), of s], of l r] assms(4) by simp
  moreover have "drop (length first + 2) (first @ header_delimiter @ s) = s" by (simp add: header_delimiter_def)
  moreover have "scan_lines l s r1 = At_blank (header_delimiter @ t) ((count (line_count hs + 3) r1)\<lparr>m_headers := m_headers r1 @ hs\<rparr>)"
    unfolding s_def by (rule scan_headers [where P = P]) (use assms in simp_all)
  ultimately show ?thesis using assms(6) by (simp add: s_def)
qed

lemma length_header_lines: "length (concat (map (\<lambda>h. header_line h @ header_delimiter) hs)) + length hs = line_count hs"
  by (induction hs) (simp_all add: line_count_def header_delimiter_def)

subsection \<open>Requests\<close>

definition request_wf :: "request \<Rightarrow> bool" where
  "request_wf r \<longleftrightarrow> token (rq_method r) \<and> CHR '' '' \<notin> set (rq_uri r) \<and> CR \<notin> set (rq_uri r) \<and> CR \<notin> set (m_version r) \<and>
     headers_ok (m_headers r) \<and> get_header ''Host'' r \<noteq> [] \<and> get_header ''Content-Length'' r = []"

definition request_first :: "request \<Rightarrow> string" where
  "request_first r = rq_method r @ '' '' @ rq_uri r @ '' '' @ m_version r"

lemma request_raw_head_lines:
  "request_raw_head r = request_first r @ header_delimiter @ concat (map (\<lambda>h. header_line h @ header_delimiter) (m_headers r)) @ header_delimiter"
  by (simp add: request_raw_head_def request_first_def raw_headers_lines)

lemma request_process_first:
  assumes "token m" "CHR '' '' \<notin> set u"
  shows "request_process (m @ '' '' @ u @ '' '' @ v) r = (None, r\<lparr>rq_method := m, rq_uri := u, m_version := v\<rparr>)"
proof -
  have "CHR '' '' \<notin> set m" using token_chars [OF assms(1)] not_token_chars(3) by blast
  then show ?thesis using assms find_char_append [of "CHR '' ''" m "u @ '' '' @ v"] find_char_append [of "CHR '' ''" u v]
    by (simp add: request_process_def set_method_def token_def Let_def)
qed

text \<open>The request that has been read.\<close>

definition request_read :: "request \<Rightarrow> request" where
  "request_read r = new_request\<lparr>m_version := m_version r, m_headers := m_headers r,
     m_header_bytes := length (request_raw_head r) + length (m_headers r) + 2,
     rq_buf := None, rq_method := rq_method r, rq_uri := rq_uri r, rq_ready := True\<rparr>"

lemma request_reads_back:
  assumes "request_wf r" "length (request_raw_head r) + length (m_headers r) + 2 \<le> max_header_size"
  shows "request_consume (request_raw_head r @ t) new_request = (Took (length (request_raw_head r)), request_read r)"
proof -
  note wf = assms(1) [unfolded request_wf_def]
  define hs where "hs = m_headers r"
  define first where "first = request_first r"
  define b where "b = request_raw_head r @ t"
  define r0 where "r0 = rebuf 0 (Some b) new_request"
  define r1 where "r1 = (count (length first + 3) r0)\<lparr>rq_method := rq_method r, rq_uri := rq_uri r, m_version := m_version r\<rparr>"
  have b: "b = first @ header_delimiter @ concat (map (\<lambda>h. header_line h @ header_delimiter) hs) @ header_delimiter @ t"
    by (simp add: b_def request_raw_head_lines first_def hs_def)
  have r0: "rq_method r0 = []" "m_headers r0 = []" "m_header_bytes r0 = 0"
    by (simp_all add: r0_def rebuf_def count_def new_request_def)
  have len: "length (request_raw_head r) + length hs + 2 = length first + line_count hs + 6"
    using length_header_lines [of hs] by (simp add: request_raw_head_lines first_def hs_def header_delimiter_def)
  have "CR \<notin> set (rq_method r)" using wf token_chars not_token_chars(1) by blast
  then have f: "CR \<notin> set first" "first \<noteq> []" using wf
    by (auto simp: first_def request_first_def token_def CR_def)
  have l: "request_line first (count (length first + 3) r0) = (None, r1)"
    using wf request_process_first [of "rq_method r" "rq_uri r" "m_version r"] r0
    by (simp add: request_line_def first_def request_first_def r1_def count_def)
  have "scan_lines request_line b r0 = At_blank (header_delimiter @ t) ((count (line_count hs + 3) r1)\<lparr>m_headers := hs\<rparr>)"
    unfolding b
  proof (rule scan_message [where P = "\<lambda>q. rq_method q \<noteq> []"])
    show "request_line first (count (length first + 3) r0) = (None, r1)" by (rule l)
    show "length first + line_count hs + 6 \<le> max_header_size" using assms(2) len by (simp add: hs_def)
  qed (use wf f r0 in \<open>auto simp: request_line_def r1_def count_def hs_def token_def\<close>)
  moreover have "in_head new_request" "rq_buf new_request = Some []" by (simp_all add: in_head_def new_request_def)
  ultimately have "request_consume b new_request = request_blank b (header_delimiter @ t) ((count (line_count hs + 3) r1)\<lparr>m_headers := hs\<rparr>)"
    using consume_head [of new_request "[]" b] by (simp add: r0_def)
  also have "\<dots> = (Took (length (request_raw_head r)), request_read r)"
  proof -
    define q where "q = ((count (line_count hs + 3) r1)\<lparr>m_headers := hs\<rparr>)"
    have "rq_method q \<noteq> []" "get_header ''Host'' q \<noteq> []" "get_header ''Content-Length'' q = []" "m_body_bytes_needed q = 0"
      using wf by (simp_all add: q_def r1_def count_def token_def get_header_def hs_def r0_def rebuf_def new_request_def)
    moreover have "length b + 2 - length (header_delimiter @ t) = length (request_raw_head r)" by (simp add: b_def header_delimiter_def)
    ultimately have "request_blank b (header_delimiter @ t) q = (Took (length (request_raw_head r)), q\<lparr>rq_buf := None, rq_ready := True\<rparr>)"
      by (simp add: request_blank_def prepare_body_def Let_def)
    moreover have "q\<lparr>rq_buf := None, rq_ready := True\<rparr> = request_read r"
      using len by (simp add: q_def r1_def r0_def rebuf_def count_def request_read_def new_request_def hs_def)
    ultimately show ?thesis by (simp add: q_def)
  qed
  finally show ?thesis by (simp add: b_def)
qed

subsection \<open>Responses\<close>

definition response_wf :: "response \<Rightarrow> bool" where
  "response_wf r \<longleftrightarrow> CHR '' '' \<notin> set (m_version r) \<and> CR \<notin> set (m_version r) \<and> 0 \<le> rs_status_code r \<and> rs_status_code r < 2 ^ 31 \<and>
     CR \<notin> set (rs_status_msg r) \<and> headers_ok (m_headers r) \<and> get_header ''Content-Length'' r = [] \<and> m_body r = []"

definition response_first :: "response \<Rightarrow> string" where
  "response_first r = m_version r @ '' '' @ dec_int (rs_status_code r) @ '' '' @ rs_status_msg r"

lemma response_raw_lines:
  "m_body r = [] \<Longrightarrow> response_raw r = response_first r @ header_delimiter @ concat (map (\<lambda>h. header_line h @ header_delimiter) (m_headers r)) @ header_delimiter"
  by (simp add: response_raw_def response_first_def raw_headers_lines)

lemma read_int_dec: "k < 2 ^ 31 \<Longrightarrow> read_int (dec k) = Some (int k)"
proof -
  assume k: "k < 2 ^ 31"
  obtain c ds where d: "dec k = c # ds" using dec_nonempty [of k] by (cases "dec k") auto
  have digs: "list_all isdig (c # ds)" using dec_digits [of k] d by simp
  then have c: "isdig c" by simp
  then have sp: "\<not> is_space c" "c \<noteq> CHR ''-''" "c \<noteq> CHR ''+''" by (auto simp: is_space_def isdig_def)
  have "takeWhile isdig (c # ds) = c # ds" using digs by (simp add: takeWhile_eq_all_conv list_all_iff)
  then have "scan_integer (dec k) = Some (False, k)"
    using sp digits_val_dec [of k] unfolding d by (simp add: scan_integer_def Let_def)
  then show ?thesis using k by (simp add: read_int_def)
qed

lemma response_process_first:
  assumes "CHR '' '' \<notin> set v" "0 \<le> code" "code < 2 ^ 31"
  shows "response_process (v @ '' '' @ dec_int code @ '' '' @ msg) r =
    (None, r\<lparr>m_version := v, rs_status_code := code, rs_status_msg := msg\<rparr>)"
proof -
  have d: "dec_int code = dec (nat code)" using assms(2) by (simp add: dec_int_def)
  have "CHR '' '' \<notin> set (dec (nat code))" using dec_digits [of "nat code"] by (auto simp: list_all_iff isdig_def)
  moreover have "read_int (dec (nat code)) = Some code" using read_int_dec [of "nat code"] assms(2,3) by simp
  ultimately show ?thesis using assms(1)
      find_char_append [of "CHR '' ''" v "dec (nat code) @ '' '' @ msg"] find_char_append [of "CHR '' ''" "dec (nat code)" msg]
    by (simp add: response_process_def set_status_msg_def d Let_def)
qed

text \<open>
  The response that has been read.  Without a content length the body is never read, and the state depends on
  whether bytes follow the head in the same buffer.
\<close>

definition response_read :: "bool \<Rightarrow> response \<Rightarrow> response" where
  "response_read behind r = new_response\<lparr>m_version := m_version r, m_headers := m_headers r,
     m_header_bytes := length (response_raw r) + length (m_headers r) + 2,
     rs_buf := None, rs_status_code := rs_status_code r, rs_status_msg := rs_status_msg r,
     rs_state := (if behind then DONE else BODY)\<rparr>"

lemma response_reads_back:
  assumes "response_wf r" "length (response_raw r) + length (m_headers r) + 2 \<le> max_header_size"
  shows "response_consume (response_raw r @ t) new_response = (Took (length (response_raw r)), response_read (t \<noteq> []) r)"
proof -
  note wf = assms(1) [unfolded response_wf_def]
  define hs where "hs = m_headers r"
  define first where "first = response_first r"
  define b where "b = response_raw r @ t"
  define r0 where "r0 = new_response\<lparr>rs_buf := Some b\<rparr>"
  define r1 where "r1 = (count (length first + 3) r0)\<lparr>m_version := m_version r, rs_status_code := rs_status_code r,
    rs_status_msg := rs_status_msg r, rs_state := HEADERS\<rparr>"
  have b: "b = first @ header_delimiter @ concat (map (\<lambda>h. header_line h @ header_delimiter) hs) @ header_delimiter @ t"
    using wf by (simp add: b_def response_raw_lines first_def hs_def)
  have r0: "rs_state r0 = RESPONSE_LINE" "m_headers r0 = []" "m_header_bytes r0 = 0"
    by (simp_all add: r0_def new_response_def)
  have len: "length (response_raw r) + length hs + 2 = length first + line_count hs + 6"
    using length_header_lines [of hs] wf by (simp add: response_raw_lines first_def hs_def header_delimiter_def)
  have "CR \<notin> set (dec (nat (rs_status_code r)))"
    using dec_digits [of "nat (rs_status_code r)"] by (auto simp: list_all_iff isdig_def CR_def)
  then have f: "CR \<notin> set first" "first \<noteq> []" using wf
    by (auto simp: first_def response_first_def dec_int_def CR_def)
  have l: "response_line first (count (length first + 3) r0) = (None, r1)"
    using wf response_process_first [of "m_version r" "rs_status_code r" "rs_status_msg r"] r0
    by (simp add: response_line_def first_def response_first_def r1_def count_def)
  have "scan_lines response_line b r0 = At_blank (header_delimiter @ t) ((count (line_count hs + 3) r1)\<lparr>m_headers := hs\<rparr>)"
    unfolding b
  proof (rule scan_message [where P = "\<lambda>q. rs_state q \<noteq> RESPONSE_LINE"])
    show "response_line first (count (length first + 3) r0) = (None, r1)" by (rule l)
    show "length first + line_count hs + 6 \<le> max_header_size" using assms(2) len by (simp add: hs_def)
  qed (use wf f r0 in \<open>auto simp: response_line_def r1_def count_def hs_def\<close>)
  then have "response_consume b new_response = response_blank b (header_delimiter @ t) ((count (line_count hs + 3) r1)\<lparr>m_headers := hs\<rparr>)"
    by (simp add: response_consume_def lines_loop_scan r0_def new_response_def)
  also have "\<dots> = (Took (length (response_raw r)), response_read (t \<noteq> []) r)"
  proof -
    define q where "q = ((count (line_count hs + 3) r1)\<lparr>m_headers := hs\<rparr>)"
    have "rs_state q \<noteq> RESPONSE_LINE" "get_header ''Content-Length'' q = []"
      using wf by (simp_all add: q_def r1_def count_def get_header_def hs_def)
    moreover have "length b + 2 - length (header_delimiter @ t) = length (response_raw r)" by (simp add: b_def header_delimiter_def)
    moreover have "length (response_raw r) < length b \<longleftrightarrow> t \<noteq> []" by (simp add: b_def)
    ultimately have "response_blank b (header_delimiter @ t) q = (Took (length (response_raw r)),
        q\<lparr>rs_read := 0, rs_state := (if t \<noteq> [] then DONE else BODY), rs_buf := None\<rparr>)"
      by (simp add: response_blank_def response_process_body_def Let_def)
    moreover have "q\<lparr>rs_read := 0, rs_state := (if t \<noteq> [] then DONE else BODY), rs_buf := None\<rparr> = response_read (t \<noteq> []) r"
      using len by (simp add: q_def r1_def r0_def count_def response_read_def new_response_def hs_def)
    ultimately show ?thesis by (simp add: q_def)
  qed
  finally show ?thesis by (simp add: b_def)
qed

subsection \<open>Property\<close>

text \<open>
  C36: What \<open>raw\<close> prints, \<open>consume\<close> reads back: method, uri, version and headers of a request, version, status
  and headers of a response, with the bytes that follow left over.
\<close>
theorem http_messages_read_back:
  assumes "request_wf q" "length (request_raw_head q) + length (m_headers q) + 2 \<le> max_header_size"
    and "response_wf s" "length (response_raw s) + length (m_headers s) + 2 \<le> max_header_size"
  shows "(\<exists>q1. request_consume (request_raw_head q @ t) new_request = (Took (length (request_raw_head q)), q1) \<and> rq_ready q1 \<and>
      rq_method q1 = rq_method q \<and> rq_uri q1 = rq_uri q \<and> m_version q1 = m_version q \<and> m_headers q1 = m_headers q) \<and>
    (\<exists>s1. response_consume (response_raw s @ t) new_response = (Took (length (response_raw s)), s1) \<and> headers_ready s1 \<and>
      rs_status_code s1 = rs_status_code s \<and> rs_status_msg s1 = rs_status_msg s \<and> m_version s1 = m_version s \<and>
      m_headers s1 = m_headers s)"
  using request_reads_back [OF assms(1,2), of t] response_reads_back [OF assms(3,4), of t]
  by (simp add: request_read_def response_read_def new_request_def new_response_def headers_ready_def)

definition sample_request :: request where
  "sample_request = new_request\<lparr>rq_method := ''GET'', rq_uri := ''/a'', m_version := ''HTTP/1.1'',
     m_headers := [(''Host'', ''b''), (''X'', ''c, d'')]\<rparr>"

definition sample_response :: response where
  "sample_response = new_response\<lparr>m_version := ''HTTP/1.1'', rs_status_code := 404, rs_status_msg := ''Not Found'',
     m_headers := [(''Server'', ''b''), (''X'', [])]\<rparr>"

lemmas header_eval = headers_ok_def hdr_ok_def token_def trimmed_def list_ex_iff is_not_token_char_def header_token_def nth_append
  nth_Cons' is_whitespace_char_def CR_def get_header_def ci_eq_def tolower_def

theorem http_messages_read_back_witness:
  "rs_status_code (snd (response_consume (response_raw sample_response) new_response)) = 404 \<and>
   rq_uri (snd (request_consume (request_raw_head sample_request) new_request)) = ''/a''"
proof -
  have wf: "request_wf sample_request" "response_wf sample_response"
    by (simp_all add: request_wf_def response_wf_def sample_request_def sample_response_def new_request_def new_response_def header_eval)
  have len: "length (request_raw_head sample_request) + length (m_headers sample_request) + 2 \<le> max_header_size"
    "length (response_raw sample_response) + length (m_headers sample_response) + 2 \<le> max_header_size"
    by (simp_all add: request_raw_head_def response_raw_def raw_headers_def header_delimiter_def sample_request_def sample_response_def
        new_request_def new_response_def max_header_size_def dec_int_def dec.simps)
  show ?thesis using http_messages_read_back [OF wf(1) len(1) wf(2) len(2), of "[]"]
    by (auto simp: sample_request_def sample_response_def)
qed

end
