(* ===== verification/Ws_Uri.thy ===== *)
theory Ws_Uri
  imports Http_Message
begin

section \<open>websocketpp/uri: websocket URIs\<close>

text \<open>
  \<open>uri.hpp\<close>.  The constructor that parses a string leaves fields unset when it returns early; they are empty
  here, and nothing reads them since \<open>get_valid\<close> is false.
\<close>

record uri =
  u_scheme :: string
  u_host :: string
  u_resource :: string
  u_port :: "16 word"
  u_secure :: bool
  u_valid :: bool

definition uri_default_port :: "16 word" where "uri_default_port = 80"
definition uri_default_secure_port :: "16 word" where "uri_default_secure_port = 443"

definition default_port :: "bool \<Rightarrow> 16 word" where
  "default_port secure = (if secure then uri_default_secure_port else uri_default_port)"

text \<open>\<open>atoi\<close> is \<open>strtol\<close>, which saturates, cut to an \<open>int\<close>.\<close>

definition strtol10 :: "string \<Rightarrow> int" where
  "strtol10 s =
     (let t = dropWhile is_space (c_str s);
          u = (if t \<noteq> [] \<and> (hd t = CHR ''-'' \<or> hd t = CHR ''+'') then tl t else t);
          v = int (digits_val (takeWhile isdig u));
          k = (if t \<noteq> [] \<and> hd t = CHR ''-'' then - v else v)
      in max (- (2 ^ 63)) (min k (2 ^ 63 - 1)))"

text \<open>The port, and whether there is an error.\<close>

definition get_port_from_string :: "bool \<Rightarrow> string \<Rightarrow> 16 word \<times> bool" where
  "get_port_from_string secure port =
     (if port = [] then (default_port secure, False)
      else let t_port = (word_of_int (strtol10 port) :: u32)
           in (ucast t_port, 65535 < t_port \<or> t_port = 0))"

definition is_secure_scheme :: "string \<Rightarrow> bool" where
  "is_secure_scheme scheme \<longleftrightarrow> scheme = ''wss'' \<or> scheme = ''https''"

definition resource_or_root :: "string \<Rightarrow> string" where
  "resource_or_root resource = (if resource = [] then ''/'' else resource)"

definition uri_of_host :: "string \<Rightarrow> string \<Rightarrow> string \<Rightarrow> uri" where
  "uri_of_host scheme host resource =
     \<lparr>u_scheme = scheme, u_host = host, u_resource = resource_or_root resource,
      u_port = default_port (is_secure_scheme scheme), u_secure = is_secure_scheme scheme, u_valid = True\<rparr>"

definition uri_of_host_port :: "string \<Rightarrow> string \<Rightarrow> string \<Rightarrow> string \<Rightarrow> uri" where
  "uri_of_host_port scheme host port resource =
     (let (p, ec) = get_port_from_string (is_secure_scheme scheme) port in
      \<lparr>u_scheme = scheme, u_host = host, u_resource = resource_or_root resource,
       u_port = p, u_secure = is_secure_scheme scheme, u_valid = \<not> ec\<rparr>)"

subsection \<open>Parsing\<close>

definition no_uri :: uri where
  "no_uri = \<lparr>u_scheme = [], u_host = [], u_resource = [], u_port = 0, u_secure = False, u_valid = False\<rparr>"

text \<open>The scheme, and what follows \<open>://\<close>; each needs at least one character more.\<close>

definition parse_scheme :: "string \<Rightarrow> (string \<times> bool \<times> string) option" where
  "parse_scheme s =
     (if 7 \<le> length s \<and> take 6 s = ''wss://'' then Some (''wss'', True, drop 6 s)
      else if 6 \<le> length s \<and> take 5 s = ''ws://'' then Some (''ws'', False, drop 5 s)
      else if 8 \<le> length s \<and> take 7 s = ''http://'' then Some (''http'', False, drop 7 s)
      else if 9 \<le> length s \<and> take 8 s = ''https://'' then Some (''https'', True, drop 8 s)
      else None)"

text \<open>
  The host, whether a port follows, and the rest.  In a bracketed literal the brackets are dropped; what
  follows it must be a slash or a colon.
\<close>

definition parse_host :: "string \<Rightarrow> (string \<times> bool \<times> string) option" where
  "parse_host it =
     (if it \<noteq> [] \<and> hd it = CHR ''['' then
        (let host = takeWhile (\<lambda>c. c \<noteq> CHR '']'') (tl it); rest = dropWhile (\<lambda>c. c \<noteq> CHR '']'') (tl it)
         in case rest of
             [] \<Rightarrow> None
           | _ # after \<Rightarrow>
               (case after of
                  [] \<Rightarrow> Some (host, False, [])
                | c # s \<Rightarrow> if c = CHR ''/'' then Some (host, False, s) else if c = CHR '':'' then Some (host, True, s) else None))
      else
        (let host = takeWhile (\<lambda>c. c \<noteq> CHR ''/'' \<and> c \<noteq> CHR '':'') it;
             rest = dropWhile (\<lambda>c. c \<noteq> CHR ''/'' \<and> c \<noteq> CHR '':'') it
         in case rest of [] \<Rightarrow> Some (host, False, []) | c # s \<Rightarrow> Some (host, c = CHR '':'', s)))"

text \<open>The port ends at a slash, which the resource starts with in any case.\<close>

definition parse_uri :: "string \<Rightarrow> uri" where
  "parse_uri s =
     (case parse_scheme s of
        None \<Rightarrow> no_uri
      | Some (scheme, secure, it) \<Rightarrow>
          (case parse_host it of
             None \<Rightarrow> no_uri\<lparr>u_scheme := scheme, u_secure := secure\<rparr>
           | Some (host, with_port, rest) \<Rightarrow>
               (let port = (if with_port then takeWhile (\<lambda>c. c \<noteq> CHR ''/'') rest else []);
                    it2 = (if with_port then tl (dropWhile (\<lambda>c. c \<noteq> CHR ''/'') rest) else rest);
                    (p, ec) = get_port_from_string secure port;
                    u = no_uri\<lparr>u_scheme := scheme, u_secure := secure, u_host := host, u_port := p\<rparr>
                in if ec then u else u\<lparr>u_resource := CHR ''/'' # it2, u_valid := True\<rparr>)))"

subsection \<open>Printing\<close>

definition get_host_port :: "uri \<Rightarrow> string" where
  "get_host_port u =
     (if u_port u = default_port (u_secure u) then u_host u else u_host u @ '':'' @ dec (unat (u_port u)))"

definition uri_str :: "uri \<Rightarrow> string" where
  "uri_str u =
     u_scheme u @ ''://'' @ u_host u @
     (if u_port u \<noteq> default_port (u_secure u) then '':'' @ dec (unat (u_port u)) else []) @ u_resource u"

subsection \<open>The \<open>Host\<close> header\<close>

definition rfind_char :: "char \<Rightarrow> string \<Rightarrow> nat option" where
  "rfind_char c s = map_option (\<lambda>n. length s - 1 - n) (find_char c (rev s))"

definition get_uri_from_host :: "request \<Rightarrow> string \<Rightarrow> uri" where
  "get_uri_from_host r scheme =
     (let h = get_header ''Host'' r in
      case (rfind_char (CHR '':'') h, rfind_char (CHR '']'') h) of
        (None, _) \<Rightarrow> uri_of_host scheme h (rq_uri r)
      | (Some last_colon, Some last_sbrace) \<Rightarrow>
          if last_colon < last_sbrace then uri_of_host scheme h (rq_uri r)
          else uri_of_host_port scheme (take last_colon h) (drop (last_colon + 1) h) (rq_uri r)
      | (Some last_colon, None) \<Rightarrow>
          uri_of_host_port scheme (take last_colon h) (drop (last_colon + 1) h) (rq_uri r))"

subsection \<open>Ports\<close>

lemma unat_u16: "unat (p :: 16 word) < 65536"
  using unsigned_less [of p, where 'a = nat] by simp

lemma small_clamp: "0 \<le> k \<Longrightarrow> k < 65536 \<Longrightarrow> max (- (2 ^ 63)) (min k (2 ^ 63 - 1)) = (k :: int)"
  by simp

lemma port_up: "unat (ucast (p :: 16 word) :: u32) = unat p"
proof -
  have "take_bit 32 (unat p) = unat p" using unat_u16 [of p] by (intro take_bit_nat_eq_self) simp
  then show ?thesis by (simp only: unsigned_ucast_eq) simp
qed

lemma port_dec:
  assumes "p \<noteq> 0"
  shows "get_port_from_string secure (dec (unat (p :: 16 word))) = (p, False)"
proof -
  obtain c ds where d: "dec (unat p) = c # ds" using dec_nonempty [of "unat p"] by (cases "dec (unat p)") auto
  have digs: "list_all isdig (c # ds)" using dec_digits [of "unat p"] d by simp
  then have c: "\<not> is_space c" "c \<noteq> CHR ''-''" "c \<noteq> CHR ''+''" "CHR 0x00 \<notin> set (c # ds)"
    by (auto simp: is_space_def isdig_def list_all_iff)
  have "takeWhile isdig (c # ds) = c # ds" using digs by (simp add: takeWhile_eq_all_conv list_all_iff)
  moreover have "c_str (c # ds) = c # ds" using c(4) by (rule c_str_no_nul)
  moreover have "digits_val (c # ds) = unat p" using digits_val_dec [of "unat p"] d by simp
  ultimately have "strtol10 (dec (unat p)) = max (- (2 ^ 63)) (min (int (unat p)) (2 ^ 63 - 1))"
    unfolding d strtol10_def Let_def using c(1-3) by simp
  also have "\<dots> = int (unat p)" by (rule small_clamp) (use unat_u16 [of p] in linarith)+
  finally have "strtol10 (dec (unat p)) = int (unat p)" .
  moreover have "word_of_int (int (unat p)) = (ucast p :: u32)" by (simp only: ucast_eq uint_nat)
  moreover have "ucast (ucast p :: u32) = p" by (rule bit_word_eqI) (auto simp: bit_ucast_iff)
  moreover have "(ucast p :: u32) \<noteq> 0" using assms port_up [of p] by (metis unsigned_0 unsigned_word_eqI)
  moreover have "\<not> 65535 < (ucast p :: u32)" using port_up [of p] unat_u16 [of p] unfolding word_less_nat_alt by simp
  ultimately show ?thesis by (simp add: get_port_from_string_def d Let_def)
qed

subsection \<open>Properties\<close>

definition plain_host :: "string \<Rightarrow> bool" where
  "plain_host h \<longleftrightarrow> CHR ''/'' \<notin> set h \<and> CHR '':'' \<notin> set h \<and> CHR '']'' \<notin> set h \<and> (h = [] \<or> hd h \<noteq> CHR ''['')"

definition uri_wf :: "uri \<Rightarrow> bool" where
  "uri_wf u \<longleftrightarrow> (u_scheme u, u_secure u) \<in> {(''wss'', True), (''ws'', False), (''http'', False), (''https'', True)} \<and>
     plain_host (u_host u) \<and> u_port u \<noteq> 0 \<and> (\<exists>s. u_resource u = CHR ''/'' # s) \<and> u_valid u"

lemma takeWhile_to: "\<forall>c \<in> set xs. P c \<Longrightarrow> \<not> P y \<Longrightarrow> takeWhile P (xs @ y # ys) = xs \<and> dropWhile P (xs @ y # ys) = y # ys"
  by (induction xs) auto

lemma dec_no_slash: "c \<in> set (dec n) \<Longrightarrow> c \<noteq> CHR ''/'' \<and> c \<noteq> CHR '':'' \<and> c \<noteq> CHR '']''"
  using dec_digits [of n] by (auto simp: list_all_iff isdig_def)

lemma parse_host_plain:
  assumes "plain_host h" "y = CHR ''/'' \<or> y = CHR '':''"
  shows "parse_host (h @ y # s) = Some (h, y = CHR '':'', s)"
proof -
  have "\<forall>c \<in> set h. c \<noteq> CHR ''/'' \<and> c \<noteq> CHR '':''" using assms(1) by (auto simp: plain_host_def)
  note t = takeWhile_to [OF this, of y s]
  have "\<not> (h @ y # s \<noteq> [] \<and> hd (h @ y # s) = CHR ''['')" using assms by (cases h) (auto simp: plain_host_def)
  then show ?thesis using t assms(2) by (auto simp: parse_host_def Let_def)
qed

lemma uri_from_host_header:
  assumes "uri_wf u" "get_header ''Host'' r = get_host_port u" "rq_uri r = u_resource u"
  shows "get_uri_from_host r (u_scheme u) = u"
proof -
  note wf = assms(1) [unfolded uri_wf_def]
  obtain s where s: "u_resource u = CHR ''/'' # s" using wf by blast
  have sec: "is_secure_scheme (u_scheme u) = u_secure u" using wf by (auto simp: is_secure_scheme_def)
  have no: "CHR '':'' \<notin> set (u_host u)" "CHR '']'' \<notin> set (u_host u)" using wf by (auto simp: plain_host_def)
  have res: "resource_or_root (u_resource u) = u_resource u" by (simp add: resource_or_root_def s)
  show "get_uri_from_host r (u_scheme u) = u"
  proof (cases "u_port u = default_port (u_secure u)")
    case True
    have "rfind_char (CHR '':'') (u_host u) = None" "rfind_char (CHR '']'') (u_host u) = None"
      using no by (simp_all add: rfind_char_def)
    then show ?thesis using True assms(2,3) wf
      by (simp add: get_uri_from_host_def get_host_port_def uri_of_host_def res sec)
  next
    case False
    have d: "CHR '':'' \<notin> set (dec (unat (u_port u)))" "CHR '']'' \<notin> set (dec (unat (u_port u)))"
      using dec_no_slash [of _ "unat (u_port u)"] by blast+
    have "rfind_char (CHR '':'') (u_host u @ '':'' @ dec (unat (u_port u))) = Some (length (u_host u))"
      using find_char_append [of "CHR '':''" "rev (dec (unat (u_port u)))" "rev (u_host u)"] d by (simp add: rfind_char_def)
    moreover have "rfind_char (CHR '']'') (u_host u @ '':'' @ dec (unat (u_port u))) = None"
      using no d by (simp add: rfind_char_def)
    ultimately show ?thesis using False assms(2,3) wf port_dec [of "u_port u" "u_secure u"]
      by (simp add: get_uri_from_host_def get_host_port_def uri_of_host_port_def res sec)
  qed
qed

text \<open>
  C37: A URI with a plain host name reads back from its text, every field of it, and the server that gets its
  host and port in the \<open>Host\<close> header recovers host, port and resource.
\<close>
theorem uri_reads_back:
  assumes "uri_wf u" "get_header ''Host'' r = get_host_port u" "rq_uri r = u_resource u"
  shows "parse_uri (uri_str u) = u \<and> get_uri_from_host r (u_scheme u) = u"
proof
  note wf = assms(1) [unfolded uri_wf_def]
  obtain s where s: "u_resource u = CHR ''/'' # s" using wf by blast
  have scheme: "parse_scheme (u_scheme u @ ''://'' @ t @ CHR ''/'' # v) = Some (u_scheme u, u_secure u, t @ CHR ''/'' # v)" for t v
    using wf by (auto simp: parse_scheme_def)
  define ps where "ps = (if u_port u \<noteq> default_port (u_secure u) then '':'' @ dec (unat (u_port u)) else [])"
  have host: "parse_host (u_host u @ ps @ CHR ''/'' # s) = Some (u_host u, u_port u \<noteq> default_port (u_secure u),
      (if u_port u \<noteq> default_port (u_secure u) then dec (unat (u_port u)) @ CHR ''/'' # s else s))"
    using wf parse_host_plain [of "u_host u" "CHR ''/''" s] parse_host_plain [of "u_host u" "CHR '':''" "dec (unat (u_port u)) @ CHR ''/'' # s"]
    by (simp add: ps_def)
  have port: "takeWhile (\<lambda>c. c \<noteq> CHR ''/'') (dec n @ CHR ''/'' # s) = dec n"
    "dropWhile (\<lambda>c. c \<noteq> CHR ''/'') (dec n @ CHR ''/'' # s) = CHR ''/'' # s" for n
    using takeWhile_to [of "dec n" "\<lambda>c. c \<noteq> CHR ''/''" "CHR ''/''" s] dec_no_slash [of _ n] by auto
  have "uri_str u = u_scheme u @ ''://'' @ (u_host u @ ps) @ CHR ''/'' # s" by (simp add: uri_str_def ps_def s)
  then show "parse_uri (uri_str u) = u"
    using scheme [of "u_host u @ ps" s] host port wf port_dec [of "u_port u" "u_secure u"] s
    by (cases "u_port u = default_port (u_secure u)")
      (auto simp: parse_uri_def no_uri_def get_port_from_string_def Let_def)
  show "get_uri_from_host r (u_scheme u) = u" using assms by (rule uri_from_host_header)
qed

definition sample_uri :: uri where
  "sample_uri = \<lparr>u_scheme = ''ws'', u_host = ''tvgw.yy.com'', u_resource = ''/websocket'', u_port = 26101, u_secure = False, u_valid = True\<rparr>"

theorem uri_reads_back_witness: "parse_uri (uri_str sample_uri) = sample_uri"
proof -
  define r where "r = new_request\<lparr>m_headers := [(''Host'', get_host_port sample_uri)], rq_uri := ''/websocket''\<rparr>"
  have "uri_wf sample_uri" by (simp add: uri_wf_def sample_uri_def plain_host_def)
  moreover have "get_header ''Host'' r = get_host_port sample_uri" "rq_uri r = u_resource sample_uri"
    by (simp_all add: r_def get_header_def ci_eq_def sample_uri_def)
  ultimately show ?thesis using uri_reads_back by blast
qed

text \<open>
  An IPv6 literal loses its brackets when it is parsed, and a default port is not printed: the server takes
  the last group of the address for the port.
\<close>
theorem ipv6_host_is_misread:
  assumes "get_header ''Host'' r = get_host_port (parse_uri ''ws://[2001:db8::9]/'')"
  shows "u_valid (parse_uri ''ws://[2001:db8::9]/'') \<and> u_host (parse_uri ''ws://[2001:db8::9]/'') = ''2001:db8::9'' \<and>
    u_port (parse_uri ''ws://[2001:db8::9]/'') = 80 \<and>
    u_valid (get_uri_from_host r ''ws'') \<and> u_host (get_uri_from_host r ''ws'') = ''2001:db8:'' \<and> u_port (get_uri_from_host r ''ws'') = 9"
proof -
  have p: "parse_uri ''ws://[2001:db8::9]/'' =
      \<lparr>u_scheme = ''ws'', u_host = ''2001:db8::9'', u_resource = ''/'', u_port = 80, u_secure = False, u_valid = True\<rparr>"
    by (simp add: parse_uri_def parse_scheme_def parse_host_def get_port_from_string_def default_port_def uri_default_port_def no_uri_def)
  have "get_header ''Host'' r = ''2001:db8::9''"
    using assms unfolding p by (simp add: get_host_port_def default_port_def uri_default_port_def)
  then show ?thesis unfolding p
    by (simp add: get_uri_from_host_def rfind_char_def uri_of_host_port_def get_port_from_string_def strtol10_def c_str_def
        is_space_def isdig_def digits_val_def digit_val_def)
qed

theorem ipv6_host_is_misread_witness:
  "u_port (get_uri_from_host (new_request\<lparr>m_headers := [(''Host'', get_host_port (parse_uri ''ws://[2001:db8::9]/''))]\<rparr>) ''ws'') = 9"
proof -
  have "get_header ''Host'' (new_request\<lparr>m_headers := [(''Host'', get_host_port (parse_uri ''ws://[2001:db8::9]/''))]\<rparr>) =
      get_host_port (parse_uri ''ws://[2001:db8::9]/'')"
    by (simp add: get_header_def ci_eq_def)
  from ipv6_host_is_misread [OF this] show ?thesis by blast
qed

end
