(* ===== verification/Ws_Sha1.thy ===== *)
theory Ws_Sha1
  imports Ws_Bytes
begin

section \<open>websocketpp/sha1: the hash of the opening handshake\<close>

text \<open>
  \<open>sha1/sha1.hpp\<close>.  The round buffer \<open>w[80]\<close> is a list of 80 words that each block reuses; \<open>calc\<close> declares it
  without a value, so its first contents are an argument.  The hash is proved to be the one of the standard,
  written below over the padded message, for every message of less than 512 MiB.
\<close>

type_synonym regs = "u32 \<times> u32 \<times> u32 \<times> u32 \<times> u32"

definition rol :: "u32 \<Rightarrow> nat \<Rightarrow> u32" where
  "rol v steps = push_bit steps v OR drop_bit (32 - steps) v"

definition clearWBuffert :: "u32 list \<Rightarrow> u32 list" where
  "clearWBuffert buffert = fold (\<lambda>pos w. w[pos := 0]) (rev [0..<16]) buffert"

subsection \<open>One block\<close>

text \<open>The macro: \<open>func\<close> stands for an expression over the registers \<open>b\<close>, \<open>c\<close>, \<open>d\<close>.\<close>

definition sha1macro :: "(u32 \<Rightarrow> u32 \<Rightarrow> u32 \<Rightarrow> u32) \<Rightarrow> u32 \<Rightarrow> u32 \<Rightarrow> regs \<Rightarrow> regs" where
  "sha1macro func val w_round s =
     (case s of (a, b, c, d, e) \<Rightarrow> (rol a 5 + func b c d + e + val + w_round, a, rol b 30, c, d))"

definition func_choose :: "u32 \<Rightarrow> u32 \<Rightarrow> u32 \<Rightarrow> u32" where
  "func_choose b c d = (b AND c) OR (NOT b AND d)"

definition func_parity :: "u32 \<Rightarrow> u32 \<Rightarrow> u32 \<Rightarrow> u32" where
  "func_parity b c d = b XOR c XOR d"

definition func_majority :: "u32 \<Rightarrow> u32 \<Rightarrow> u32 \<Rightarrow> u32" where
  "func_majority b c d = (b AND c) OR (b AND d) OR (c AND d)"

definition first_round :: "nat \<Rightarrow> regs \<times> u32 list \<Rightarrow> regs \<times> u32 list" where
  "first_round n st = (case st of (s, w) \<Rightarrow> (sha1macro func_choose 0x5a827999 (w ! n) s, w))"

definition next_round :: "(u32 \<Rightarrow> u32 \<Rightarrow> u32 \<Rightarrow> u32) \<Rightarrow> u32 \<Rightarrow> nat \<Rightarrow> regs \<times> u32 list \<Rightarrow> regs \<times> u32 list" where
  "next_round func val n st =
     (case st of (s, w) \<Rightarrow>
        let w1 = w[n := rol (w ! (n - 3) XOR w ! (n - 8) XOR w ! (n - 14) XOR w ! (n - 16)) 1]
        in (sha1macro func val (w1 ! n) s, w1))"

definition add_regs :: "regs \<Rightarrow> regs \<Rightarrow> regs" where
  "add_regs r s =
     (case (r, s) of ((r0, r1, r2, r3, r4), (a, b, c, d, e)) \<Rightarrow> (r0 + a, r1 + b, r2 + c, r3 + d, r4 + e))"

definition innerHash :: "regs \<Rightarrow> u32 list \<Rightarrow> regs \<times> u32 list" where
  "innerHash res w =
     (let st0 = fold first_round [0..<16] (res, w);
          st1 = fold (next_round func_choose 0x5a827999) [16..<20] st0;
          st2 = fold (next_round func_parity 0x6ed9eba1) [20..<40] st1;
          st3 = fold (next_round func_majority 0x8f1bbcdc) [40..<60] st2;
          (s, w1) = fold (next_round func_parity 0xca62c1d6) [60..<80] st3
      in (add_regs res s, w1))"

subsection \<open>The message\<close>

definition init_regs :: regs where
  "init_regs = (0x67452301, 0xefcdab89, 0x98badcfe, 0x10325476, 0xc3d2e1f0)"

definition load_word :: "byte list \<Rightarrow> nat \<Rightarrow> u32" where
  "load_word sarray i = ucast (sarray ! (i + 3)) OR push_bit 8 (ucast (sarray ! (i + 2)))
     OR push_bit 16 (ucast (sarray ! (i + 1))) OR push_bit 24 (ucast (sarray ! i))"

definition load_block :: "byte list \<Rightarrow> nat \<Rightarrow> u32 list \<Rightarrow> u32 list" where
  "load_block sarray currentBlock w =
     fold (\<lambda>roundPos w. w[roundPos := load_word sarray (currentBlock + 4 * roundPos)]) [0..<16] w"

function full_blocks :: "byte list \<Rightarrow> nat \<Rightarrow> regs \<times> u32 list \<Rightarrow> nat \<times> regs \<times> u32 list" where
  "full_blocks sarray currentBlock (res, w) =
     (if 64 \<le> length sarray \<and> currentBlock \<le> length sarray - 64
      then full_blocks sarray (currentBlock + 64) (innerHash res (load_block sarray currentBlock w))
      else (currentBlock, res, w))"
  by pat_completeness auto
termination by (relation "measure (\<lambda>(sarray, cur, _). length sarray + 64 - cur)") auto

declare full_blocks.simps [simp del]

text \<open>\<open>w[k >> 2] |= b << ((3 - (k & 3)) << 3)\<close>\<close>

definition or_byte :: "nat \<Rightarrow> u32 \<Rightarrow> u32 list \<Rightarrow> u32 list" where
  "or_byte k b w = w[k div 4 := w ! (k div 4) OR push_bit ((3 - k mod 4) * 8) b]"

definition last_bytes :: "byte list \<Rightarrow> nat \<Rightarrow> nat \<Rightarrow> u32 list \<Rightarrow> u32 list" where
  "last_bytes sarray currentBlock endCurrentBlock w =
     fold (\<lambda>k. or_byte k (ucast (sarray ! (k + currentBlock)))) [0..<endCurrentBlock] w"

definition store_hash :: "regs \<Rightarrow> byte list" where
  "store_hash res =
     (case res of (a, b, c, d, e) \<Rightarrow>
        map (\<lambda>hashByte. ucast (drop_bit ((3 - hashByte mod 4) * 8) ([a, b, c, d, e] ! (hashByte div 4)) AND 0xff)) [0..<20])"

definition calc :: "u32 list \<Rightarrow> byte list \<Rightarrow> byte list" where
  "calc junk src =
     (let bytelength = length src;
          (currentBlock, res, w) = full_blocks src 0 (init_regs, junk);
          endCurrentBlock = bytelength - currentBlock;
          w1 = last_bytes src currentBlock endCurrentBlock (clearWBuffert w);
          w2 = or_byte endCurrentBlock 0x80 w1;
          (res3, w3) = (if 56 \<le> endCurrentBlock then apsnd clearWBuffert (innerHash res w2) else (res, w2));
          w4 = w3[15 := word_of_nat (bytelength * 8)]
      in store_hash (fst (innerHash res3 w4)))"

subsection \<open>The standard\<close>

text \<open>
  FIPS 180-4, written on its own: nothing below is a function of the code.  A word is the number that four
  bytes make, the first one the highest; a message is padded to whole blocks by a 1 bit, zeros and its length
  in bits; a block is sixteen words, expanded to eighty; each word makes one round; the five registers, put
  down with the highest byte first, are the digest.
\<close>

definition fips_word :: "byte \<Rightarrow> byte \<Rightarrow> byte \<Rightarrow> byte \<Rightarrow> u32" where
  "fips_word b0 b1 b2 b3 = word_of_nat (unat b0 * 2 ^ 24 + unat b1 * 2 ^ 16 + unat b2 * 2 ^ 8 + unat b3)"

definition fips_bytes :: "u32 \<Rightarrow> byte list" where
  "fips_bytes h = [word_of_nat (unat h div 2 ^ 24), word_of_nat (unat h div 2 ^ 16), word_of_nat (unat h div 2 ^ 8), word_of_nat (unat h)]"

definition fips_H0 :: regs where
  "fips_H0 = (0x67452301, 0xefcdab89, 0x98badcfe, 0x10325476, 0xc3d2e1f0)"

definition sha1_pad :: "byte list \<Rightarrow> byte list" where
  "sha1_pad bs = bs @ 0x80 # replicate ((119 - length bs mod 64) mod 64) 0 @
     map (\<lambda>i. word_of_nat (8 * length bs div 256 ^ (7 - i))) [0..<8]"

definition fips_words :: "byte list \<Rightarrow> u32 list" where
  "fips_words bs = map (\<lambda>i. fips_word (bs ! (4 * i)) (bs ! (4 * i + 1)) (bs ! (4 * i + 2)) (bs ! (4 * i + 3))) [0..<16]"

fun schedule :: "u32 list \<Rightarrow> nat \<Rightarrow> u32" where
  "schedule m t =
     (if t < 16 then m ! t
      else word_rotl 1 (schedule m (t - 3) XOR schedule m (t - 8) XOR schedule m (t - 14) XOR schedule m (t - 16)))"

declare schedule.simps [simp del]

definition sha1_func :: "nat \<Rightarrow> u32 \<Rightarrow> u32 \<Rightarrow> u32 \<Rightarrow> u32" where
  "sha1_func t x y z =
     (if t < 20 then (x AND y) XOR (NOT x AND z)
      else if t < 40 then x XOR y XOR z
      else if t < 60 then (x AND y) XOR (x AND z) XOR (y AND z)
      else x XOR y XOR z)"

definition sha1_const :: "nat \<Rightarrow> u32" where
  "sha1_const t = (if t < 20 then 0x5a827999 else if t < 40 then 0x6ed9eba1 else if t < 60 then 0x8f1bbcdc else 0xca62c1d6)"

definition sha1_step :: "u32 list \<Rightarrow> nat \<Rightarrow> regs \<Rightarrow> regs" where
  "sha1_step m t s =
     (case s of (a, b, c, d, e) \<Rightarrow>
        (word_rotl 5 a + sha1_func t b c d + e + sha1_const t + schedule m t, a, word_rotl 30 b, c, d))"

definition compress :: "regs \<Rightarrow> byte list \<Rightarrow> regs" where
  "compress r block =
     (case (r, fold (sha1_step (fips_words block)) [0..<80] r) of
        ((h0, h1, h2, h3, h4), (a, b, c, d, e)) \<Rightarrow> (h0 + a, h1 + b, h2 + c, h3 + d, h4 + e))"

fun chunks64 :: "byte list \<Rightarrow> byte list list" where
  "chunks64 bs = (if length bs < 64 then [] else take 64 bs # chunks64 (drop 64 bs))"

declare chunks64.simps [simp del]

definition sha1 :: "byte list \<Rightarrow> byte list" where
  "sha1 bs =
     (case foldl compress fips_H0 (chunks64 (sha1_pad bs)) of
        (h0, h1, h2, h3, h4) \<Rightarrow> concat (map fips_bytes [h0, h1, h2, h3, h4]))"

subsection \<open>Words and registers of the code\<close>

definition words16 :: "byte list \<Rightarrow> u32 list" where
  "words16 bs = map (\<lambda>i. load_word bs (4 * i)) [0..<16]"

lemma word_bit_high: "32 \<le> n \<Longrightarrow> \<not> bit (w :: u32) n"
  using bit_imp_le_length [of w n] by auto

lemma byte_bit_end: "8 \<le> n \<Longrightarrow> \<not> bit (b :: byte) n"
  using bit_imp_le_length [of b n] by auto

lemma load_word_fips: "load_word bs i = fips_word (bs ! i) (bs ! (i + 1)) (bs ! (i + 2)) (bs ! (i + 3))"
proof -
  have add: "x OR push_bit n (ucast b) = x + push_bit n (ucast b :: u32)" if "\<And>k. n \<le> k \<Longrightarrow> \<not> bit x k" for x :: u32 and n and b :: byte
    using that by (intro disjunctive_add_eq_or [symmetric] bit_eqI) (auto simp: bit_simps)
  let ?b3 = "ucast (bs ! (i + 3)) :: u32" and ?b2 = "ucast (bs ! (i + 2)) :: u32"
    and ?b1 = "ucast (bs ! (i + 1)) :: u32" and ?b0 = "ucast (bs ! i) :: u32"
  have 1: "?b3 OR push_bit 8 ?b2 = ?b3 + push_bit 8 ?b2"
    by (rule add) (simp add: bit_simps byte_bit_end)
  have 2: "(?b3 OR push_bit 8 ?b2) OR push_bit 16 ?b1 = (?b3 OR push_bit 8 ?b2) + push_bit 16 ?b1"
    by (rule add) (simp add: bit_simps byte_bit_end)
  have 3: "((?b3 OR push_bit 8 ?b2) OR push_bit 16 ?b1) OR push_bit 24 ?b0 = ((?b3 OR push_bit 8 ?b2) OR push_bit 16 ?b1) + push_bit 24 ?b0"
    by (rule add) (simp add: bit_simps byte_bit_end)
  have u: "word_of_nat (unat b) = (ucast b :: u32)" for b :: byte by simp
  show ?thesis
    unfolding load_word_def fips_word_def or.assoc [symmetric] 3 unfolding 2 unfolding 1
    by (simp add: push_bit_eq_mult u algebra_simps)
qed

lemma fips_words_eq: "fips_words bs = words16 bs"
  by (simp add: fips_words_def words16_def load_word_fips)

lemma compress_words16: "compress r block = add_regs r (fold (sha1_step (words16 block)) [0..<80] r)"
  by (simp add: compress_def fips_words_eq add_regs_def)

lemma fips_bytes_store:
  "fips_bytes h = map (\<lambda>i. ucast (drop_bit ((3 - i) * 8) h AND 0xff)) [0..<4]"
proof -
  have "(word_of_nat (unat h div 2 ^ n) :: byte) = ucast (drop_bit n h AND 0xff)" for n
  proof (rule bit_word_eqI)
    fix k assume k: "k < LENGTH(8)"
    have m: "(0xff :: u32) = mask 8" by (simp add: mask_eq_exp_minus_1)
    show "bit (word_of_nat (unat h div 2 ^ n) :: byte) k = bit (ucast (drop_bit n h AND 0xff) :: byte) k"
      using k unfolding m by (simp add: bit_simps drop_bit_eq_div [symmetric] bit_unsigned_iff)
  qed
  from this [of 24] this [of 16] this [of 8] this [of 0]
  show ?thesis by (simp add: fips_bytes_def upt_rec [of _ 4])
qed

lemma store_hash_fips: "store_hash (a, b, c, d, e) = concat (map fips_bytes [a, b, c, d, e])"
  by (simp add: store_hash_def fips_bytes_store upt_rec [of _ 20] upt_rec [of _ 4])

lemma init_regs_fips: "init_regs = fips_H0"
  by (simp add: init_regs_def fips_H0_def)

lemma sha1_store: "sha1 bs = store_hash (foldl compress init_regs (chunks64 (sha1_pad bs)))"
  by (simp add: sha1_def init_regs_fips store_hash_fips split: prod.split)

subsection \<open>The rounds\<close>

lemma rol_rotl: "0 < n \<Longrightarrow> n < 32 \<Longrightarrow> rol v n = word_rotl n v"
proof (rule bit_word_eqI)
  fix k assume n: "0 < n" "n < 32" and "k < LENGTH(32)"
  then have k: "k < 32" by simp
  have rotl: "bit (word_rotl n v) k = bit v ((k + (32 - n)) mod 32)"
    using n k by (simp add: bit_word_rotl_iff)
  have rol: "bit (rol v n) k \<longleftrightarrow> n \<le> k \<and> bit v (k - n) \<or> bit v (32 - n + k)"
    using k by (simp add: rol_def bit_or_iff bit_push_bit_iff bit_drop_bit_eq)
  show "bit (rol v n) k = bit (word_rotl n v) k"
  proof (cases "n \<le> k")
    case True
    have "(k + (32 - n)) mod 32 = (k - n + 32) mod 32" using True n by (simp only: Nat.add_diff_assoc Nat.add_diff_assoc2 less_imp_le)
    also have "\<dots> = k - n" using k by (subst mod_add_self2) (simp add: less_imp_diff_less)
    finally have "(k + (32 - n)) mod 32 = k - n" .
    moreover have "\<not> bit v (32 - n + k)" using bit_imp_le_length [of v "32 - n + k"] True n by auto
    ultimately show ?thesis using True rotl rol by simp
  next
    case False
    then have "(k + (32 - n)) mod 32 = 32 - n + k" using n by (subst mod_less) auto
    then show ?thesis using False rotl rol by simp
  qed
qed

lemma func_eqs: "t < 20 \<Longrightarrow> func_choose b c d = sha1_func t b c d"
  "20 \<le> t \<Longrightarrow> t < 40 \<Longrightarrow> func_parity b c d = sha1_func t b c d"
  "40 \<le> t \<Longrightarrow> t < 60 \<Longrightarrow> func_majority b c d = sha1_func t b c d"
  "60 \<le> t \<Longrightarrow> func_parity b c d = sha1_func t b c d"
  by (auto simp: func_choose_def func_parity_def func_majority_def sha1_func_def intro!: bit_eqI)
    (auto simp: bit_simps)

text \<open>The round buffer after round \<open>n\<close> holds the words of the schedule up to it.\<close>

definition scheduled :: "u32 list \<Rightarrow> nat \<Rightarrow> u32 list \<Rightarrow> bool" where
  "scheduled m n w \<longleftrightarrow> length w = 80 \<and> (\<forall>t < max 16 n. w ! t = schedule m t)"

lemma sha1macro_step:
  assumes "\<And>b c d. f b c d = sha1_func n b c d" "val = sha1_const n" "x = schedule m n"
  shows "sha1macro f val x s = sha1_step m n s"
  using assms by (cases s) (simp add: sha1macro_def sha1_step_def rol_rotl)

lemma first_rounds:
  assumes "scheduled m 16 w" "n \<le> 16"
  shows "fold first_round [0..<n] (s, w) = (fold (sha1_step m) [0..<n] s, w)"
  using assms(2)
proof (induction n)
  case (Suc n)
  have "sha1macro func_choose 0x5a827999 (w ! n) s' = sha1_step m n s'" for s'
    using Suc.prems assms(1) by (intro sha1macro_step) (auto simp: func_eqs sha1_const_def scheduled_def)
  then show ?case using Suc by (simp add: first_round_def)
qed simp

lemma next_rounds:
  assumes "scheduled m lo w" "16 \<le> lo" "lo \<le> n" "n \<le> 80"
    and "\<And>t b c d. lo \<le> t \<Longrightarrow> t < n \<Longrightarrow> f b c d = sha1_func t b c d \<and> val = sha1_const t"
  shows "\<exists>w'. fold (next_round f val) [lo..<n] (s, w) = (fold (sha1_step m) [lo..<n] s, w') \<and> scheduled m n w'"
  using assms(3-5)
proof (induction n rule: dec_induct)
  case base
  then show ?case using assms(1) by simp
next
  case (step n)
  obtain w1 where w1: "fold (next_round f val) [lo..<n] (s, w) = (fold (sha1_step m) [lo..<n] s, w1)" "scheduled m n w1"
    using step.IH step.prems by (meson Suc_leD less_SucI)
  have l: "length w1 = 80" "w1 ! t = schedule m t" if "t < n" for t using w1(2) that by (auto simp: scheduled_def)
  define x where "x = rol (w1 ! (n - 3) XOR w1 ! (n - 8) XOR w1 ! (n - 14) XOR w1 ! (n - 16)) 1"
  have "16 \<le> n" using step assms(2) by simp
  then have x: "x = schedule m n" by (simp add: x_def l schedule.simps [of m n] rol_rotl)
  have len: "length w1 = 80" using w1(2) by (simp add: scheduled_def)
  have "sha1macro f val (w1[n := x] ! n) s' = sha1_step m n s'" for s'
    using step x len by (intro sha1macro_step) auto
  then have "next_round f val n (s', w1) = (sha1_step m n s', w1[n := x])" for s' by (simp add: next_round_def x_def Let_def)
  moreover have "scheduled m (Suc n) (w1[n := x])"
    using w1(2) x step \<open>16 \<le> n\<close> by (auto simp: scheduled_def nth_list_update less_Suc_eq max_def)
  ultimately show ?case using w1(1) step(1) by simp
qed

lemma fold_upt_join: "i \<le> j \<Longrightarrow> j \<le> k \<Longrightarrow> fold g [i..<k] s = fold g [j..<k] (fold g [i..<j] s)"
  by (metis comp_apply fold_append le_add_diff_inverse upt_add_eq_append)

lemma innerHash_compress:
  assumes "length w = 80" "take 16 w = words16 block"
  shows "\<exists>w'. innerHash res w = (compress res block, w') \<and> length w' = 80"
proof -
  define m where "m = words16 block"
  have s0: "scheduled m 16 w" using assms
    by (auto simp: scheduled_def schedule.simps m_def simp flip: assms(2))
  have r1: "\<exists>w'. fold (next_round func_choose 0x5a827999) [16..<20] (s, w) = (fold (sha1_step m) [16..<20] s, w') \<and> scheduled m 20 w'"
    if "scheduled m 16 w" for s w
    using that by (rule next_rounds) (simp_all add: func_eqs sha1_const_def)
  have r2: "\<exists>w'. fold (next_round func_parity 0x6ed9eba1) [20..<40] (s, w) = (fold (sha1_step m) [20..<40] s, w') \<and> scheduled m 40 w'"
    if "scheduled m 20 w" for s w
    using that by (rule next_rounds) (simp_all add: func_eqs sha1_const_def)
  have r3: "\<exists>w'. fold (next_round func_majority 0x8f1bbcdc) [40..<60] (s, w) = (fold (sha1_step m) [40..<60] s, w') \<and> scheduled m 60 w'"
    if "scheduled m 40 w" for s w
    using that by (rule next_rounds) (simp_all add: func_eqs sha1_const_def)
  have r4: "\<exists>w'. fold (next_round func_parity 0xca62c1d6) [60..<80] (s, w) = (fold (sha1_step m) [60..<80] s, w') \<and> scheduled m 80 w'"
    if "scheduled m 60 w" for s w
    using that by (rule next_rounds) (simp_all add: func_eqs sha1_const_def)
  have upt: "fold g [0..<80] s = fold g [60..<80] (fold g [40..<60] (fold g [20..<40] (fold g [16..<20] (fold g [0..<16] s))))"
    for g :: "nat \<Rightarrow> regs \<Rightarrow> regs" and s
    using fold_upt_join [of 0 16 80 g s] fold_upt_join [of 16 20 80 g] fold_upt_join [of 20 40 80 g] fold_upt_join [of 40 60 80 g]
    by (simp del: upt_conv_Cons_Cons upt_rec_numeral)
  define s1 s2 s3 s4 where "s1 = fold (sha1_step m) [0..<16] res" and "s2 = fold (sha1_step m) [16..<20] s1"
    and "s3 = fold (sha1_step m) [20..<40] s2" and "s4 = fold (sha1_step m) [40..<60] s3"
  obtain w1 w2 w3 w4 where 1: "fold (next_round func_choose 0x5a827999) [16..<20] (s1, w) = (s2, w1)" "scheduled m 20 w1"
    and 2: "fold (next_round func_parity 0x6ed9eba1) [20..<40] (s2, w1) = (s3, w2)" "scheduled m 40 w2"
    and 3: "fold (next_round func_majority 0x8f1bbcdc) [40..<60] (s3, w2) = (s4, w3)" "scheduled m 60 w3"
    and 4: "fold (next_round func_parity 0xca62c1d6) [60..<80] (s4, w3) = (fold (sha1_step m) [60..<80] s4, w4)" "scheduled m 80 w4"
    using r1 [OF s0] r2 r3 r4 unfolding s2_def s3_def s4_def by blast
  have 0: "fold first_round [0..<16] (res, w) = (s1, w)" unfolding s1_def using first_rounds [OF s0 order_refl] .
  have s: "fold (sha1_step m) [60..<80] s4 = fold (sha1_step m) [0..<80] res"
    unfolding upt s4_def s3_def s2_def s1_def ..
  show ?thesis
    unfolding innerHash_def Let_def 0 1(1) 2(1) 3(1) 4(1) prod.case compress_words16 m_def [symmetric] s
    using 4(2) by (auto simp: scheduled_def simp del: upt_rec_numeral)
qed

subsection \<open>The blocks\<close>

lemma load_word_rd: "load_word bs i = rd_le [bs ! (i + 3), bs ! (i + 2), bs ! (i + 1), bs ! i]"
  by (simp add: load_word_def push_bit_or or.assoc)

lemma length_words16 [simp]: "length (words16 bs) = 16"
  by (simp add: words16_def)

lemma words16_nth: "i < 16 \<Longrightarrow> words16 bs ! i = load_word bs (4 * i)"
  by (simp add: words16_def)

lemma words16_take: "64 \<le> length bs \<Longrightarrow> words16 (take 64 bs) = words16 bs"
  by (simp add: words16_def load_word_def)

lemma fold_update:
  assumes "n \<le> length w"
  shows "length (fold (\<lambda>i w. w[i := f i]) [0..<n] w) = length w \<and>
    (\<forall>i < length w. fold (\<lambda>i w. w[i := f i]) [0..<n] w ! i = (if i < n then f i else w ! i))"
  using assms by (induction n) (auto simp: nth_list_update less_Suc_eq)

lemma load_block_words:
  assumes "length w = 80" "cur + 64 \<le> length src"
  shows "length (load_block src cur w) = 80" "take 16 (load_block src cur w) = words16 (take 64 (drop cur src))"
proof -
  note f = fold_update [of 16 w "\<lambda>i. load_word src (cur + 4 * i)"]
  show "length (load_block src cur w) = 80" using f assms(1) unfolding load_block_def by simp
  have n: "load_block src cur w ! i = load_word src (cur + 4 * i)" if "i < 16" for i
    using f assms(1) that unfolding load_block_def by (simp del: upt_rec_numeral)
  show "take 16 (load_block src cur w) = words16 (take 64 (drop cur src))"
    using n assms \<open>length (load_block src cur w) = 80\<close>
    by (intro nth_equalityI) (simp_all add: words16_nth words16_take load_word_def add.assoc)
qed

lemma clear_words:
  assumes "length w = 80"
  shows "length (clearWBuffert w) = 80" "take 16 (clearWBuffert w) = words16 (replicate 64 0)"
proof -
  have "clearWBuffert w = replicate 16 0 @ drop 16 w" using assms unfolding clearWBuffert_def
    by (intro nth_equalityI) (auto simp: nth_append nth_list_update less_Suc_eq numeral_eq_Suc)
  then show "length (clearWBuffert w) = 80" "take 16 (clearWBuffert w) = words16 (replicate 64 0)"
    using assms by (auto simp: words16_def load_word_def intro!: nth_equalityI)
qed

lemma load_word_update:
  assumes "length bs = 64" "i < 16" "r < 4" "bs ! (4 * i + r) = 0"
  shows "load_word (bs[4 * i + r := b]) (4 * i) = load_word bs (4 * i) OR push_bit ((3 - r) * 8) (ucast b)"
proof -
  have up: "bs[4 * i + r := b] ! (4 * i + j) = (if j = r then b else bs ! (4 * i + j))" for j
    using assms(1-3) by (auto simp: nth_list_update)
  have up0: "bs[4 * i + r := b] ! (4 * i) = (if 0 = r then b else bs ! (4 * i + 0))" using up [of 0] by simp
  consider "r = 0" | "r = 1" | "r = 2" | "r = 3" using assms(3) by linarith
  then show ?thesis using assms(4) unfolding load_word_def up up0
    by cases (simp_all add: or.assoc, simp_all only: or.commute or.left_commute)
qed

lemma or_byte_words:
  assumes "length bs = 64" "k < 64" "bs ! k = 0" "length w = 80" "take 16 w = words16 bs"
  shows "length (or_byte k (ucast b) w) = 80" "take 16 (or_byte k (ucast b) w) = words16 (bs[k := b])"
proof -
  show "length (or_byte k (ucast b) w) = 80" using assms by (simp add: or_byte_def)
  have w: "w ! i = load_word bs (4 * i)" if "i < 16" for i
    using that assms(4,5) words16_nth [of i bs] by (metis nth_take)
  show "take 16 (or_byte k (ucast b) w) = words16 (bs[k := b])"
  proof (rule nth_equalityI)
    fix i assume "i < length (take 16 (or_byte k (ucast b) w))"
    then have i: "i < 16" by simp
    show "take 16 (or_byte k (ucast b) w) ! i = words16 (bs[k := b]) ! i"
    proof (cases "i = k div 4")
      case True
      then have k: "k = 4 * i + k mod 4" "k mod 4 < 4" by simp_all
      have "load_word (bs[k := b]) (4 * i) = load_word bs (4 * i) OR push_bit ((3 - k mod 4) * 8) (ucast b)"
        using load_word_update [OF assms(1) i k(2), of b] assms(3) k(1) by simp
      moreover have "i < length w" using i assms(4) by simp
      ultimately show ?thesis using i w [OF i] True by (simp add: or_byte_def words16_nth)
    next
      case False
      then have "4 * i + j \<noteq> k" if "j < 4" for j using that by auto
      then show ?thesis using i assms w [OF i] False
        by (simp add: or_byte_def words16_nth load_word_def)
    qed
  qed (use assms in \<open>simp add: or_byte_def\<close>)
qed

lemma last_bytes_words:
  assumes "length w = 80" "take 16 w = words16 (replicate 64 0)" "cur \<le> length src" "length (drop cur src) < 64"
    and "e \<le> length (drop cur src)"
  shows "length (last_bytes src cur e w) = 80 \<and>
    take 16 (last_bytes src cur e w) = words16 (take e (drop cur src) @ replicate (64 - e) 0)"
  using assms(5)
proof (induction e)
  case 0
  then show ?case using assms by (simp add: last_bytes_def)
next
  case (Suc e)
  define bs where "bs = take e (drop cur src) @ replicate (64 - e) 0"
  have bs: "length bs = 64" "e < 64" "bs ! e = 0" using Suc.prems assms(4) by (simp_all add: bs_def nth_append)
  have "replicate (64 - e) (0 :: byte) = 0 # replicate (64 - Suc e) 0" using bs(2) by (metis Suc_diff_Suc replicate_Suc)
  moreover have "length (take e (drop cur src)) = e" using Suc.prems by simp
  ultimately have "bs[e := src ! (e + cur)] = take (Suc e) (drop cur src) @ replicate (64 - Suc e) 0"
    using Suc.prems by (simp add: bs_def list_update_append take_Suc_conv_app_nth add.commute)
  then show ?case using or_byte_words [OF bs, of "last_bytes src cur e w" "src ! (e + cur)"] Suc
    by (simp add: bs_def last_bytes_def)
qed

lemma full_blocks_compress:
  assumes "length w = 80" "cur \<le> length src"
  shows "\<exists>w'. full_blocks src cur (res, w) =
      (cur + 64 * (length (drop cur src) div 64), foldl compress res (chunks64 (drop cur src)), w') \<and> length w' = 80"
  using assms
proof (induction "length src - cur" arbitrary: cur res w rule: less_induct)
  case less
  show ?case
  proof (cases "cur + 64 \<le> length src")
    case True
    define w1 where "w1 = load_block src cur w"
    have w1: "length w1 = 80" "take 16 w1 = words16 (take 64 (drop cur src))"
      using load_block_words [OF less.prems(1) True] by (simp_all add: w1_def)
    obtain w2 where w2: "innerHash res w1 = (compress res (take 64 (drop cur src)), w2)" "length w2 = 80"
      using innerHash_compress [OF w1] by blast
    have "64 \<le> length src \<and> cur \<le> length src - 64" using True by linarith
    then have "full_blocks src cur (res, w) = full_blocks src (cur + 64) (innerHash res w1)"
      by (subst full_blocks.simps) (simp add: w1_def)
    moreover have "length (drop cur src) div 64 = Suc (length (drop (cur + 64) src) div 64)"
    proof -
      have "length (drop cur src) = 64 + length (drop (cur + 64) src)" using True by simp
      moreover have "(64 + k) div 64 = Suc (k div 64)" for k :: nat by presburger
      ultimately show ?thesis by metis
    qed
    moreover have "chunks64 (drop cur src) = take 64 (drop cur src) # chunks64 (drop (cur + 64) src)"
      using True by (subst chunks64.simps) (simp add: add.commute)
    ultimately show ?thesis using less.hyps [of "cur + 64" w2 "compress res (take 64 (drop cur src))"] w2 True
      by (simp add: add.assoc)
  next
    case False
    then have "\<not> (64 \<le> length src \<and> cur \<le> length src - 64)" by linarith
    then have "full_blocks src cur (res, w) = (cur, res, w)" by (subst full_blocks.simps) (simp only: if_False)
    moreover have "length (drop cur src) < 64" using False less.prems(2) by simp
    ultimately show ?thesis using less.prems(1) by (simp add: chunks64.simps [of "drop cur src"] div_less del: length_drop)
  qed
qed

lemma chunks64_append: "chunks64 (xs @ ys) = chunks64 xs @ chunks64 (drop (64 * (length xs div 64)) xs @ ys)"
proof (induction xs rule: chunks64.induct)
  case (1 bs)
  show ?case
  proof (cases "length bs < 64")
    case True
    then show ?thesis by (simp add: chunks64.simps [of bs])
  next
    case False
    then have "length bs div 64 = Suc (length (drop 64 bs) div 64)" by (simp add: le_div_geq)
    then have "drop (64 * (length bs div 64)) bs = drop (64 * (length (drop 64 bs) div 64)) (drop 64 bs)"
      by (simp add: add.commute)
    then show ?thesis using 1 [OF False] False
      by (simp add: chunks64.simps [of bs] chunks64.simps [of "bs @ ys"])
  qed
qed

lemma chunks64_one: "length xs = 64 \<Longrightarrow> chunks64 (xs @ ys) = xs # chunks64 ys"
  by (subst chunks64.simps) simp

text \<open>The length in bits, as the last word of the last block.\<close>

definition len_bytes :: "nat \<Rightarrow> byte list" where
  "len_bytes n = map (\<lambda>i. word_of_nat (n div 256 ^ (7 - i))) [0..<8]"

lemma len_bytes_small:
  assumes "n < 2 ^ 32"
  shows "len_bytes n = [0, 0, 0, 0] @ rev (wr_le 4 (word_of_nat n :: u32))"
proof -
  have b: "ucast (drop_bit (8 * i) (word_of_nat n :: u32)) = (word_of_nat (n div 256 ^ i) :: byte)" if "i < 4" for i
  proof (rule bit_word_eqI)
    fix k assume "k < LENGTH(8)"
    then have k: "k < 8" by simp
    have "n div 256 ^ i = drop_bit (8 * i) n" by (simp add: drop_bit_eq_div power_mult)
    then show "bit (ucast (drop_bit (8 * i) (word_of_nat n :: u32)) :: byte) k = bit (word_of_nat (n div 256 ^ i) :: byte) k"
      using k that by (simp add: bit_simps)
  qed
  have "n div 256 ^ (7 - i) = 0" if "i < 4" for i
  proof -
    have "(256 :: nat) ^ 4 \<le> 256 ^ (7 - i)" using that by (intro power_increasing) auto
    then show ?thesis using assms by (intro div_less) simp
  qed
  from this [of 0] this [of 1] this [of 2] this [of 3] b [of 0] b [of 1] b [of 2] b [of 3]
  show ?thesis unfolding len_bytes_def wr_le_def
    by (simp add: upt_rec [of _ 8] upt_rec [of _ 4])
qed

lemma four: "length xs = 4 \<Longrightarrow> \<exists>a b c d. xs = [a, b, c, d]"
  by (auto simp: numeral_eq_Suc length_Suc_conv)

lemma len_words:
  assumes "length bs = 56" "n < 2 ^ 32" "length w = 80" "take 16 w = words16 (bs @ replicate 8 0)"
  shows "length (w[15 := word_of_nat n]) = 80" "take 16 (w[15 := word_of_nat n]) = words16 (bs @ len_bytes n)"
proof -
  show "length (w[15 := word_of_nat n]) = 80" using assms(3) by simp
  have last: "load_word (bs @ len_bytes n) 60 = word_of_nat n"
  proof -
    obtain b0 b1 b2 b3 where b: "wr_le 4 (word_of_nat n :: u32) = [b0, b1, b2, b3]"
      using four [OF length_wr_le] by blast
    have "load_word (bs @ len_bytes n) 60 = rd_le (wr_le 4 (word_of_nat n :: u32))"
      unfolding load_word_rd len_bytes_small [OF assms(2)] b by (simp add: nth_append assms(1))
    also have "\<dots> = word_of_nat n" by (rule rd_le_wr_le) simp
    finally show ?thesis .
  qed
  have rest: "load_word (bs @ len_bytes n) (4 * i) = load_word (bs @ replicate 8 0) (4 * i)" if "i < 15" for i
    using that assms(1) unfolding load_word_def len_bytes_small [OF assms(2)]
    by (cases "i = 14") (auto simp: nth_append)
  have w: "w ! i = load_word (bs @ replicate 8 0) (4 * i)" if "i < 16" for i
    using that assms(4) words16_nth [of i "bs @ replicate 8 0"] by (metis nth_take)
  show "take 16 (w[15 := word_of_nat n]) = words16 (bs @ len_bytes n)"
  proof (rule nth_equalityI)
    fix i assume "i < length (take 16 (w[15 := word_of_nat n]))"
    then have "i < 15 \<or> i = 15" by auto
    then show "take 16 (w[15 := word_of_nat n]) ! i = words16 (bs @ len_bytes n) ! i"
      using assms(3) last rest w [of i] by (auto simp: words16_nth)
  qed (use assms in simp)
qed

lemma sha1_pad_eq: "sha1_pad bs = bs @ 0x80 # replicate ((119 - length bs mod 64) mod 64) 0 @ len_bytes (8 * length bs)"
  by (simp add: sha1_pad_def len_bytes_def)

subsection \<open>Property\<close>

text \<open>
  C34: \<open>calc\<close> is SHA-1: for every message of less than \<open>2 ^ 29\<close> bytes it computes the hash of the standard,
  whatever the round buffer holds at first.  (Beyond, only the low half of the length in bits would be hashed.)
\<close>
theorem sha1_standard:
  assumes "length src < 2 ^ 29" "length junk = 80"
  shows "calc junk src = sha1 src"
proof -
  define e where "e = length src mod 64"
  define rest where "rest = drop (64 * (length src div 64)) src"
  define res where "res = foldl compress init_regs (chunks64 src)"
  have e: "length rest = e" "e < 64" by (simp_all add: rest_def e_def minus_mult_div_eq_mod)
  have cur: "length src - 64 * (length src div 64) = e" "64 * (length src div 64) \<le> length src"
    by (simp_all add: e_def minus_mult_div_eq_mod)
  obtain w0 where w0: "full_blocks src 0 (init_regs, junk) = (64 * (length src div 64), res, w0)" "length w0 = 80"
    using full_blocks_compress [OF assms(2), of 0 src init_regs] by (auto simp: res_def)
  define w1 where "w1 = last_bytes src (64 * (length src div 64)) e (clearWBuffert w0)"
  have w1: "length w1 = 80" "take 16 w1 = words16 (rest @ replicate (64 - e) 0)"
    using last_bytes_words [OF clear_words [OF w0(2)] cur(2), of e] e by (simp_all add: w1_def rest_def)
  define b1 where "b1 = rest @ 0x80 # replicate (63 - e) 0"
  have b1: "(rest @ replicate (64 - e) 0)[e := 0x80] = b1"
  proof -
    have "replicate (64 - e) (0 :: byte) = 0 # replicate (63 - e) 0" using e(2) by (cases "64 - e") auto
    then show ?thesis using e(1) by (simp add: b1_def list_update_append)
  qed
  define w2 where "w2 = or_byte e 0x80 w1"
  have w2: "length w2 = 80" "take 16 w2 = words16 b1"
    using or_byte_words [of "rest @ replicate (64 - e) 0" e w1 "0x80"] w1 e b1 by (simp_all add: w2_def nth_append)
  have n: "8 * length src < 2 ^ 32" using assms(1) by simp
  define fin where "fin = (\<lambda>res3 w3. store_hash (fst (innerHash res3 (w3[15 := word_of_nat (length src * 8)]))))"
  have fin: "fin res3 w3 = store_hash (compress res3 (bs @ len_bytes (8 * length src)))"
    if "length bs = 56" "length w3 = 80" "take 16 w3 = words16 (bs @ replicate 8 0)" for res3 w3 bs
    using innerHash_compress [OF len_words [OF that(1) n that(2,3)], of res3] by (auto simp: fin_def mult.commute)
  have code: "calc junk src = (if 56 \<le> e then (let (res3, w3) = innerHash res w2 in fin res3 (clearWBuffert w3)) else fin res w2)"
    by (simp add: calc_def w0(1) cur(1) w1_def [symmetric] w2_def [symmetric] fin_def Let_def split: prod.split)
  have spec: "sha1 src = store_hash (foldl compress res (chunks64 (rest @ 0x80 # replicate ((119 - e) mod 64) 0 @ len_bytes (8 * length src))))"
    by (simp add: sha1_store sha1_pad_eq chunks64_append [of src] res_def rest_def e_def)
  show ?thesis
  proof (cases "56 \<le> e")
    case True
    obtain w3 where w3: "innerHash res w2 = (compress res b1, w3)" "length w3 = 80" using innerHash_compress [OF w2] by blast
    have z: "(119 - e) mod 64 = (63 - e) + 56" using True e(2) by simp
    have p: "rest @ 0x80 # replicate ((119 - e) mod 64) 0 @ len_bytes (8 * length src) = b1 @ replicate 56 0 @ len_bytes (8 * length src)"
      unfolding z b1_def replicate_add by simp
    have "length b1 = 64" using e by (simp add: b1_def)
    moreover have "chunks64 (replicate 56 0 @ len_bytes (8 * length src)) = [replicate 56 0 @ len_bytes (8 * length src)]"
      using chunks64_one [of "replicate 56 0 @ len_bytes (8 * length src)" "[]"] by (simp add: len_bytes_def chunks64.simps [of "[]"])
    moreover have "fin (compress res b1) (clearWBuffert w3) = store_hash (compress (compress res b1) (replicate 56 0 @ len_bytes (8 * length src)))"
      using clear_words [OF w3(2)] by (intro fin) (simp_all add: replicate_add [symmetric])
    ultimately show ?thesis unfolding spec p using True by (simp add: code w3 chunks64_one)
  next
    case False
    have z: "(119 - e) mod 64 = 55 - e" using False by (simp add: mod_if)
    define bs where "bs = rest @ 0x80 # replicate (55 - e) 0"
    have bs: "length bs = 56" using False e by (simp add: bs_def)
    have "b1 = bs @ replicate 8 0"
    proof -
      have "63 - e = (55 - e) + 8" using False by simp
      show ?thesis unfolding b1_def bs_def \<open>63 - e = 55 - e + 8\<close> replicate_add by simp
    qed
    then have "fin res w2 = store_hash (compress res (bs @ len_bytes (8 * length src)))" using w2 bs by (intro fin) simp_all
    moreover have "chunks64 (bs @ len_bytes (8 * length src)) = [bs @ len_bytes (8 * length src)]"
      using chunks64_one [of "bs @ len_bytes (8 * length src)" "[]"] bs by (simp add: len_bytes_def chunks64.simps [of "[]"])
    moreover have p: "rest @ 0x80 # replicate ((119 - e) mod 64) 0 @ len_bytes (8 * length src) = bs @ len_bytes (8 * length src)"
      unfolding z bs_def by simp
    ultimately show ?thesis unfolding spec p code using False by (simp only: if_False foldl.simps)
  qed
qed

theorem sha1_standard_witness: "calc (replicate 80 7) (replicate 60 0x61) = sha1 (replicate 60 0x61)"
  by (rule sha1_standard) simp_all

end
