(* ===== verification/Ws_Handshake.thy ===== *)
theory Ws_Handshake
  imports Http_Roundtrip Ws_Uri Ws_Sha1 Ws_Hybi13 Base64
begin

section \<open>websocketpp: the opening handshake\<close>

text \<open>
  The functions of \<open>processors/hybi13.hpp\<close> and \<open>processors/processor.hpp\<close> for the opening handshake of RFC 6455,
  the search of \<open>utilities.hpp\<close> and the library's own copy of base64 (\<open>base64/base64.hpp\<close>).  Header names and
  the method are constants that are tokens, so \<open>append_header\<close> and \<open>set_method\<close> do not throw here.
\<close>

subsection \<open>The library's base64\<close>

definition ws_is_base64 :: "char \<Rightarrow> bool" where
  "ws_is_base64 c \<longleftrightarrow> ord c = 43 \<or> 47 \<le> ord c \<and> ord c \<le> 57 \<or> 65 \<le> ord c \<and> ord c \<le> 90 \<or> 97 \<le> ord c \<and> ord c \<le> 122"

text \<open>The encoder has the text of the one in \<open>utils/base64.cpp\<close>, but counts with the \<open>size_t\<close> of the string.\<close>

definition ws_base64_encode :: "byte list \<Rightarrow> string" where
  "ws_base64_encode input = b64_enc_loop [] input []"

text \<open>
  The decoder also looks up the padding, a NUL that is not in the alphabet.  Its length is a \<open>size_t\<close>, its
  index \<open>in_\<close>, here \<open>pos\<close>, still an \<open>int\<close>.
\<close>

definition ws_dec_tail :: "string \<Rightarrow> string" where
  "ws_dec_tail ca =
     (if ca = [] then []
      else let i = length ca; c4 = map b64_index (ca @ replicate (4 - i) (CHR 0x00))
           in map char_of_byte (take (i - 1) (dec_group c4)))"

fun ws_dec_loop :: "int \<Rightarrow> string \<Rightarrow> string \<Rightarrow> string \<Rightarrow> string option" where
  "ws_dec_loop pos ca [] ret = Some (ret @ ws_dec_tail ca)"
| "ws_dec_loop pos ca (c # cs) ret =
     (if c \<noteq> CHR ''='' \<and> ws_is_base64 c then
        if pos = INT_MAX then None
        else let ca' = ca @ [c] in
          if length ca' = 4
          then ws_dec_loop (pos + 1) [] cs (ret @ map char_of_byte (dec_group (map b64_index ca')))
          else ws_dec_loop (pos + 1) ca' cs ret
      else Some (ret @ ws_dec_tail ca))"

definition ws_base64_decode :: "string \<Rightarrow> string option" where
  "ws_base64_decode input = ws_dec_loop 0 [] input []"

subsection \<open>Case-insensitive search\<close>

definition toupper :: "char \<Rightarrow> char" where
  "toupper c = (if 97 \<le> ord c \<and> ord c \<le> 122 then char_of (ord c - 32) else c)"

definition my_equal :: "char \<Rightarrow> char \<Rightarrow> bool" where
  "my_equal ch1 ch2 \<longleftrightarrow> toupper ch1 = toupper ch2"

text \<open>The position of the first occurrence; \<open>None\<close> is \<open>haystack.end()\<close>.\<close>

fun ci_find_substr :: "string \<Rightarrow> string \<Rightarrow> nat option" where
  "ci_find_substr [] needle = None"
| "ci_find_substr (c # cs) needle =
     (if list_all2 my_equal (take (length needle) (c # cs)) needle then Some 0
      else map_option Suc (ci_find_substr cs needle))"

definition upgrade_token :: string where "upgrade_token = ''websocket''"
definition connection_token :: string where "connection_token = ''upgrade''"
definition handshake_guid :: string where "handshake_guid = ''258EAFA5-E914-47DA-95CA-C5AB0DC85B11''"

subsection \<open>Requests that ask for a handshake\<close>

definition is_websocket_handshake :: "request \<Rightarrow> bool" where
  "is_websocket_handshake r \<longleftrightarrow>
     (if ci_find_substr (get_header ''Upgrade'' r) upgrade_token = None then False
      else if ci_find_substr (get_header ''Connection'' r) connection_token = None then False
      else True)"

definition get_websocket_version :: "request \<Rightarrow> int" where
  "get_websocket_version r =
     (if \<not> rq_ready r then - 2
      else if get_header ''Sec-WebSocket-Version'' r = [] then 0
      else case read_int (get_header ''Sec-WebSocket-Version'' r) of None \<Rightarrow> - 1 | Some version \<Rightarrow> version)"

subsection \<open>Extensions and subprotocols\<close>

text \<open>The disabled extension refuses, offers nothing and keeps no state.\<close>

definition enable_extensions :: bool where "enable_extensions \<longleftrightarrow> True"

definition pmd_negotiate :: "attribute_list \<Rightarrow> ws_ec \<times> string" where
  "pmd_negotiate offer = (Some (Extension Ext_disabled), [])"

definition pmd_generate_offer :: string where
  "pmd_generate_offer = []"

definition negotiate_extensions :: "'a http_scheme \<Rightarrow> ws_ec \<times> string" where
  "negotiate_extensions header =
     (if \<not> enable_extensions then (Some (Processor Proc_extensions_disabled), [])
      else case get_header_as_plist ''Sec-WebSocket-Extensions'' header [] of
          (True, p) \<Rightarrow> (Some (Processor Proc_extension_parse_error), [])
        | (False, p) \<Rightarrow>
            if p = [] then (None, [])
            else if pmd_is_implemented then
              (None, fold (\<lambda>(name, attributes) ret.
                 if name = ''permessage-deflate'' \<and> \<not> pmd_is_enabled \<and> fst (pmd_negotiate attributes) = None
                 then ret @ snd (pmd_negotiate attributes) else ret) p [])
            else (None, []))"

text \<open>The list that the names are appended to is an argument.\<close>

definition extract_subprotocols :: "request \<Rightarrow> string list \<Rightarrow> ws_ec \<times> string list" where
  "extract_subprotocols req subprotocol_list =
     (if get_header ''Sec-WebSocket-Protocol'' req \<noteq> [] then
        (case get_header_as_plist ''Sec-WebSocket-Protocol'' req [] of
           (False, p) \<Rightarrow> (None, subprotocol_list @ map fst p)
         | (True, p) \<Rightarrow> (Some (Processor Proc_subprotocol_parse_error), subprotocol_list))
      else (None, subprotocol_list))"

subsection \<open>The server\<close>

text \<open>\<open>calc\<close> takes the contents of its uninitialised array, which do not reach the digest.\<close>

definition process_handshake_key :: "string \<Rightarrow> string" where
  "process_handshake_key key =
     ws_base64_encode (calc (replicate 80 0) (bytes_of (key @ handshake_guid)))"

definition validate_handshake :: "request \<Rightarrow> ws_ec" where
  "validate_handshake r =
     (if rq_method r \<noteq> ''GET'' then Some (Processor Proc_invalid_http_method)
      else if m_version r \<noteq> ''HTTP/1.1'' then Some (Processor Proc_invalid_http_version)
      else if get_header ''Sec-WebSocket-Key'' r = [] then Some (Processor Proc_missing_required_header)
      else None)"

definition process_handshake :: "request \<Rightarrow> string \<Rightarrow> response \<Rightarrow> ws_ec \<times> response" where
  "process_handshake request subprotocol response =
     (let server_key = process_handshake_key (get_header ''Sec-WebSocket-Key'' request);
          s1 = replace_header ''Sec-WebSocket-Accept'' server_key response;
          s2 = snd (append_header ''Upgrade'' upgrade_token s1);
          s3 = snd (append_header ''Connection'' connection_token s2)
      in (None, if subprotocol \<noteq> [] then replace_header ''Sec-WebSocket-Protocol'' subprotocol s3 else s3))"

definition get_uri :: "bool \<Rightarrow> request \<Rightarrow> uri" where
  "get_uri secure request = get_uri_from_host request (if secure then ''wss'' else ''ws'')"

subsection \<open>The client\<close>

text \<open>Four numbers of the random generator, from the \<open>n\<close>-th on, make the key.\<close>

definition raw_key :: "(nat \<Rightarrow> u32) \<Rightarrow> nat \<Rightarrow> byte list" where
  "raw_key rng n = concat (map (\<lambda>i. wr_le 4 (rng (n + i))) [0..<4])"

fun comma_separated :: "string list \<Rightarrow> string" where
  "comma_separated [] = []"
| "comma_separated [s] = s"
| "comma_separated (s # t # ss) = s @ '', '' @ comma_separated (t # ss)"

definition client_handshake_request :: "(nat \<Rightarrow> u32) \<Rightarrow> nat \<Rightarrow> request \<Rightarrow> uri \<Rightarrow> string list \<Rightarrow> ws_ec \<times> request" where
  "client_handshake_request rng n req uri subprotocols =
     (let r1 = snd (set_method ''GET'' req);
          r2 = r1\<lparr>rq_uri := u_resource uri, m_version := ''HTTP/1.1''\<rparr>;
          r3 = snd (append_header ''Upgrade'' ''websocket'' r2);
          r4 = snd (append_header ''Connection'' ''Upgrade'' r3);
          r5 = replace_header ''Sec-WebSocket-Version'' ''13'' r4;
          r6 = replace_header ''Host'' (get_host_port uri) r5;
          r7 = (if subprotocols \<noteq> [] then replace_header ''Sec-WebSocket-Protocol'' (comma_separated subprotocols) r6 else r6);
          r8 = replace_header ''Sec-WebSocket-Key'' (ws_base64_encode (raw_key rng n)) r7;
          r9 = (if pmd_is_implemented \<and> pmd_generate_offer \<noteq> []
                then replace_header ''Sec-WebSocket-Extensions'' pmd_generate_offer r8 else r8)
      in (None, r9))"

definition validate_server_handshake_response :: "request \<Rightarrow> response \<Rightarrow> ws_ec" where
  "validate_server_handshake_response req res =
     (if rs_status_code res \<noteq> 101 then Some (Processor Proc_invalid_http_status)
      else if ci_find_substr (get_header ''Upgrade'' res) upgrade_token = None
        then Some (Processor Proc_missing_required_header)
      else if ci_find_substr (get_header ''Connection'' res) connection_token = None
        then Some (Processor Proc_missing_required_header)
      else if process_handshake_key (get_header ''Sec-WebSocket-Key'' req) \<noteq> get_header ''Sec-WebSocket-Accept'' res
        then Some (Processor Proc_missing_required_header)
      else None)"

subsection \<open>The two copies of base64\<close>

lemma ws_is_base64_eq: "ws_is_base64 c \<longleftrightarrow> is_base64 c"
proof -
  have "(ord c = 43) = (c = CHR ''+'')" "(ord c = 47) = (c = CHR ''/'')"
    using of_char_eq_iff [of c "CHR ''+''", where 'a = nat] of_char_eq_iff [of c "CHR ''/''", where 'a = nat] by simp_all
  moreover have "47 \<le> ord c \<and> ord c \<le> 57 \<longleftrightarrow> ord c = 47 \<or> 48 \<le> ord c \<and> ord c \<le> 57" by auto
  ultimately show ?thesis by (auto simp: ws_is_base64_def is_base64_def is_alnum_def)
qed

lemma ws_dec_tail_eq: "length ca < 4 \<Longrightarrow> ws_dec_tail ca = dec_tail ca"
  by (auto simp: ws_dec_tail_def dec_tail_def dec_group_def nth_append Let_def less_Suc_eq numeral_eq_Suc length_Suc_conv)

lemma ws_dec_loop_eq:
  "length ca < 4 \<Longrightarrow> pos + int (length cs) \<le> INT_MAX \<Longrightarrow> ws_dec_loop pos ca cs ret = Some (b64_dec_text ca cs ret)"
  by (induction pos ca cs ret rule: ws_dec_loop.induct) (auto simp: ws_dec_tail_eq ws_is_base64_eq Let_def)

subsection \<open>Search\<close>

lemma my_equal_refl: "list_all2 my_equal s s"
  by (simp add: list_all2_refl my_equal_def)

lemma ci_find_prefix: "s \<noteq> [] \<Longrightarrow> list_all2 my_equal s needle \<Longrightarrow> ci_find_substr (s @ t) needle \<noteq> None"
proof (cases s)
  case (Cons a l)
  moreover assume "list_all2 my_equal s needle"
  moreover from this have "length needle = length (a # l)" using Cons list_all2_lengthD [of my_equal s needle] by simp
  ultimately have "list_all2 my_equal (take (length needle) (a # l @ t)) needle" by simp
  then show ?thesis using Cons by simp
qed simp

lemma ci_find_later: "ci_find_substr s needle \<noteq> None \<Longrightarrow> ci_find_substr (u @ s) needle \<noteq> None"
  by (induction u) auto

subsection \<open>Header maps\<close>

lemma set_hdr_set: "(k', v') \<in> set (hdr_set k v hs) \<Longrightarrow> (k', v') \<in> set hs \<or> v' = v \<and> (k' = k \<or> k' \<in> fst ` set hs)"
  by (induction k v hs rule: hdr_set.induct) (auto split: if_splits simp: image_iff)

lemma headers_ok_set: "headers_ok hs \<Longrightarrow> token k \<Longrightarrow> trimmed v \<Longrightarrow> headers_ok (hdr_set k v hs)"
  unfolding headers_ok_def using set_hdr_set [of _ _ k v hs] hm.ok_put [of hs k v] by fastforce

lemma get_header_replace:
  "headers_ok (m_headers p) \<Longrightarrow> get_header j (replace_header k v p) = (if ci_eq j k then v else get_header j p)"
  by (simp add: get_header_def replace_header_def headers_ok_def hm.look_put)

lemma headers_ok_replace: "headers_ok (m_headers p) \<Longrightarrow> token k \<Longrightarrow> trimmed v \<Longrightarrow> headers_ok (m_headers (replace_header k v p))"
  by (simp add: replace_header_def headers_ok_set)

definition appended :: "string \<Rightarrow> string \<Rightarrow> 'a http_scheme \<Rightarrow> string" where
  "appended k v p = (if get_header k p = [] then v else get_header k p @ '', '' @ v)"

lemma append_header_replace: "token k \<Longrightarrow> append_header k v p = (None, replace_header k (appended k v p) p)"
  by (simp add: append_header_def replace_header_def appended_def token_def)

lemma get_header_trimmed: "headers_ok (m_headers p) \<Longrightarrow> trimmed (get_header k p)"
proof -
  assume "headers_ok (m_headers p)"
  moreover have "hdr_find k hs = Some v \<Longrightarrow> \<exists>k'. (k', v) \<in> set hs" for hs v by (induction hs) (auto split: if_splits)
  ultimately show ?thesis by (fastforce simp: get_header_def headers_ok_def trimmed_def split: option.splits)
qed

lemma appended_trimmed: "headers_ok (m_headers p) \<Longrightarrow> trimmed v \<Longrightarrow> v \<noteq> [] \<Longrightarrow> trimmed (appended k v p)"
  using get_header_trimmed [of p k] by (auto simp: appended_def trimmed_def CR_def)

lemma ci_find_appended: "ci_find_substr v needle \<noteq> None \<Longrightarrow> ci_find_substr (appended k v p) needle \<noteq> None"
  using ci_find_later [of v needle "get_header k p @ '', ''"] by (simp add: appended_def)

lemma header_names:
  "token ''Upgrade''" "token ''Connection''" "token ''Host''" "token ''Sec-WebSocket-Version''" "token ''Sec-WebSocket-Key''"
  "token ''Sec-WebSocket-Protocol''" "token ''Sec-WebSocket-Accept''" "token ''Server''" "token ''User-Agent''" "token ''GET''"
  by (simp_all add: header_eval)

lemma base64_trimmed: "trimmed (ws_base64_encode bs)"
proof -
  have chars: "c \<in> set (ws_base64_encode bs) \<Longrightarrow> is_base64 c \<or> c = CHR ''=''" for c
    using b64_encoded_chars [of bs] all_base64_chars by (auto simp: ws_base64_encode_def b64_encoded_def)
  have "\<not> is_base64 CR" "\<And>c. is_whitespace_char c \<Longrightarrow> \<not> is_base64 c \<and> c \<noteq> CHR ''=''"
    by (auto simp: is_base64_def is_alnum_def CR_def is_whitespace_char_def)
  then show ?thesis using chars [of CR] chars [of "hd (ws_base64_encode bs)"] chars [of "last (ws_base64_encode bs)"]
    unfolding trimmed_def by (cases "ws_base64_encode bs = []") (auto simp: CR_def)
qed

lemma base64_nonempty: "bs \<noteq> [] \<Longrightarrow> ws_base64_encode bs \<noteq> []"
  using length_b64_encoded [of bs] by (cases bs) (auto simp: ws_base64_encode_def b64_encoded_def)

lemma raw_key_nonempty: "raw_key rng n \<noteq> []"
  by (simp add: raw_key_def upt_rec wr_le_def)

lemma length_raw_key: "length (raw_key rng n) = 16"
  by (simp add: raw_key_def upt_rec)

lemma key_trimmed: "trimmed (process_handshake_key key)"
  by (simp add: process_handshake_key_def base64_trimmed)

subsection \<open>Subprotocols\<close>

lemma comma_separated_tokens:
  assumes "ss \<noteq> []" "\<forall>s \<in> set ss. token s"
  shows "trimmed (comma_separated ss) \<and> comma_separated ss \<noteq> []"
  using assms
proof (induction ss rule: comma_separated.induct)
  case (3 s t ss)
  then have "trimmed (comma_separated (t # ss))" "comma_separated (t # ss) \<noteq> []" "trimmed s" "s \<noteq> []"
    using token_trimmed [of s] by (auto simp: token_def)
  then show ?case by (auto simp: trimmed_def CR_def)
qed (use token_trimmed in \<open>auto simp: token_def\<close>)

lemma extract_token_append:
  assumes "token s" "t = [] \<or> is_not_token_char (hd t)"
  shows "extract_token (s @ t) = (s, t)"
proof -
  have "\<forall>c \<in> set s. \<not> is_not_token_char c" using token_chars [OF assms(1)] by blast
  then show ?thesis using assms(2) by (cases t) (auto simp: extract_token_def)
qed

lemma lws_comma: "is_not_token_char (CHR '','')" "\<not> is_whitespace_char (CHR '','')" "CR \<noteq> CHR '',''"
  by (simp_all add: header_eval)

lemma parameters_tokens:
  assumes "ss \<noteq> []" "\<forall>s \<in> set ss. token s" "w = [] \<or> w = '' ''"
  shows "parameters_loop (w @ comma_separated ss) ps = (Some [], ps @ map (\<lambda>s. (s, [])) ss)"
  using assms
proof (induction ss arbitrary: w ps rule: comma_separated.induct)
  case 1
  then show ?case by simp
next
  case (2 s)
  then have s: "token s" "trimmed s" "s \<noteq> []" using token_trimmed [of s] by (auto simp: token_def)
  have "extract_all_lws (w @ s) = s" using s 2(3)
    by (subst extract_all_lws_no_CR) (auto simp: trimmed_def CR_def is_whitespace_char_def dropWhile_trimmed)
  moreover have "extract_all_lws [] = []" by (simp add: extract_all_lws_no_CR)
  ultimately show ?case using s extract_token_append [OF s(1), of "[]"]
    by (simp add: parameters_loop.simps [of "w @ s"])
next
  case (3 s t ss)
  define r where "r = comma_separated (t # ss)"
  have r: "trimmed r" "r \<noteq> []" using comma_separated_tokens [of "t # ss"] 3(3) by (simp_all add: r_def)
  have s: "token s" "trimmed s" "s \<noteq> []" using 3(3) token_trimmed [of s] by (auto simp: token_def)
  have "extract_all_lws (w @ s @ '', '' @ r) = s @ '', '' @ r" using s r 3(4)
    by (subst extract_all_lws_no_CR) (auto simp: trimmed_def CR_def is_whitespace_char_def dropWhile_trimmed)
  moreover have "extract_all_lws ('', '' @ r) = '', '' @ r" using r lws_comma
    by (subst extract_all_lws_no_CR) (auto simp: trimmed_def CR_def)
  moreover have "extract_token (s @ '', '' @ r) = (s, '', '' @ r)" using s lws_comma by (intro extract_token_append) simp_all
  ultimately have "parameters_loop (w @ comma_separated (s # t # ss)) ps = parameters_loop ('' '' @ r) (ps @ [(s, [])])"
    using s by (simp add: parameters_loop.simps [of "w @ s @ CHR '','' # CHR '' '' # r"] r_def [symmetric])
  then show ?case using "3.IH" [of "'' ''" "ps @ [(s, [])]"] 3(3) by (simp add: r_def)
qed

lemma subprotocols_read_back:
  assumes "ss \<noteq> []" "\<forall>s \<in> set ss. token s"
  shows "parse_parameter_list (comma_separated ss) [] = (False, map (\<lambda>s. (s, [])) ss)"
  using parameters_tokens [OF assms, of "[]" "[]"] comma_separated_tokens [OF assms]
  by (auto simp: parse_parameter_list_def extract_parameters_def)

subsection \<open>The client's request\<close>

lemma set_method_GET: "set_method ''GET'' r = (None, r\<lparr>rq_method := ''GET''\<rparr>)"
  using header_names(10) by (simp add: set_method_def token_def)

lemma get_headers_same [simp]:
  "get_header k (r\<lparr>rq_uri := a\<rparr>) = get_header k r" "get_header k (r\<lparr>rq_method := b\<rparr>) = get_header k r"
  "get_header k (p\<lparr>m_version := v\<rparr>) = get_header k p"
  by (simp_all add: get_header_def)

lemma replace_header_fields [simp]:
  "rq_method (replace_header k v r) = rq_method r" "rq_uri (replace_header k v r) = rq_uri r"
  "m_version (replace_header k v p) = m_version p" "m_body (replace_header k v p) = m_body p"
  "rs_status_code (replace_header k v s) = rs_status_code s" "rs_status_msg (replace_header k v s) = rs_status_msg s"
  by (simp_all add: replace_header_def)

lemma other_names:
  "ci_eq ''Upgrade'' ''Connection'' = False" "ci_eq ''Upgrade'' ''Sec-WebSocket-Version'' = False" "ci_eq ''Upgrade'' ''Host'' = False"
  "ci_eq ''Upgrade'' ''Sec-WebSocket-Protocol'' = False" "ci_eq ''Upgrade'' ''Sec-WebSocket-Key'' = False"
  "ci_eq ''Upgrade'' ''Sec-WebSocket-Accept'' = False" "ci_eq ''Upgrade'' ''User-Agent'' = False" "ci_eq ''Upgrade'' ''Server'' = False"
  "ci_eq ''Connection'' ''Upgrade'' = False" "ci_eq ''Connection'' ''Sec-WebSocket-Version'' = False" "ci_eq ''Connection'' ''Host'' = False"
  "ci_eq ''Connection'' ''Sec-WebSocket-Protocol'' = False" "ci_eq ''Connection'' ''Sec-WebSocket-Key'' = False"
  "ci_eq ''Connection'' ''Sec-WebSocket-Accept'' = False" "ci_eq ''Connection'' ''User-Agent'' = False" "ci_eq ''Connection'' ''Server'' = False"
  "ci_eq ''Sec-WebSocket-Version'' ''Host'' = False" "ci_eq ''Sec-WebSocket-Version'' ''Sec-WebSocket-Protocol'' = False"
  "ci_eq ''Sec-WebSocket-Version'' ''Sec-WebSocket-Key'' = False" "ci_eq ''Sec-WebSocket-Version'' ''User-Agent'' = False"
  "ci_eq ''Host'' ''Sec-WebSocket-Protocol'' = False" "ci_eq ''Host'' ''Sec-WebSocket-Key'' = False" "ci_eq ''Host'' ''User-Agent'' = False"
  "ci_eq ''Sec-WebSocket-Protocol'' ''Sec-WebSocket-Key'' = False" "ci_eq ''Sec-WebSocket-Protocol'' ''User-Agent'' = False"
  "ci_eq ''Sec-WebSocket-Key'' ''User-Agent'' = False"
  "ci_eq ''Sec-WebSocket-Accept'' ''Upgrade'' = False" "ci_eq ''Sec-WebSocket-Accept'' ''Connection'' = False"
  "ci_eq ''Sec-WebSocket-Accept'' ''Sec-WebSocket-Protocol'' = False" "ci_eq ''Sec-WebSocket-Accept'' ''Server'' = False"
  by (simp_all add: ci_eq_def tolower_def)

lemma unused_names:
  "ci_eq k ''Upgrade'' = False" "ci_eq k ''Connection'' = False" "ci_eq k ''Sec-WebSocket-Version'' = False" "ci_eq k ''Host'' = False"
  "ci_eq k ''Sec-WebSocket-Protocol'' = False" "ci_eq k ''Sec-WebSocket-Key'' = False" "ci_eq k ''Sec-WebSocket-Accept'' = False"
  "ci_eq k ''User-Agent'' = False" "ci_eq k ''Server'' = False"
  if "k = ''Content-Length'' \<or> k = ''Sec-WebSocket-Extensions''"
  using that by (auto simp: ci_eq_def tolower_def)

text \<open>What the client sends, when its request had the headers of \<open>r0\<close> set by the application.\<close>

lemma client_request:
  assumes "client_handshake_request rng n r0 u subs = (ec, q)" "headers_ok (m_headers r0)"
    and "trimmed (get_host_port u)" "\<forall>s \<in> set subs. token s"
  shows "ec = None" "rq_method q = ''GET''" "rq_uri q = u_resource u" "m_version q = ''HTTP/1.1''" "m_body q = m_body r0"
    and "headers_ok (m_headers q)"
    and "get_header ''Upgrade'' q = appended ''Upgrade'' ''websocket'' r0"
    and "get_header ''Connection'' q = appended ''Connection'' ''Upgrade'' r0"
    and "get_header ''Sec-WebSocket-Version'' q = ''13''" "get_header ''Host'' q = get_host_port u"
    and "get_header ''Sec-WebSocket-Protocol'' q = (if subs = [] then get_header ''Sec-WebSocket-Protocol'' r0 else comma_separated subs)"
    and "get_header ''Sec-WebSocket-Key'' q = ws_base64_encode (raw_key rng n)"
    and "k = ''Content-Length'' \<or> k = ''Sec-WebSocket-Extensions'' \<Longrightarrow> get_header k q = get_header k r0"
proof -
  have t: "trimmed ''websocket''" "trimmed ''Upgrade''" "trimmed ''13''" by (simp_all add: header_eval)
  define r2 where "r2 = r0\<lparr>rq_method := ''GET'', rq_uri := u_resource u, m_version := ''HTTP/1.1''\<rparr>"
  define r3 where "r3 = replace_header ''Upgrade'' (appended ''Upgrade'' ''websocket'' r2) r2"
  define r4 where "r4 = replace_header ''Connection'' (appended ''Connection'' ''Upgrade'' r3) r3"
  define r5 where "r5 = replace_header ''Sec-WebSocket-Version'' ''13'' r4"
  define r6 where "r6 = replace_header ''Host'' (get_host_port u) r5"
  define r7 where "r7 = (if subs \<noteq> [] then replace_header ''Sec-WebSocket-Protocol'' (comma_separated subs) r6 else r6)"
  have q: "ec = None" "q = replace_header ''Sec-WebSocket-Key'' (ws_base64_encode (raw_key rng n)) r7"
    using assms(1) unfolding client_handshake_request_def Let_def
    by (auto simp: set_method_GET append_header_replace header_names pmd_is_implemented_def
        r2_def r3_def r4_def r5_def r6_def r7_def split: if_splits)
  have h2: "headers_ok (m_headers r2)" using assms(2) by (simp add: r2_def)
  then have h3: "headers_ok (m_headers r3)" unfolding r3_def
    by (intro headers_ok_replace appended_trimmed header_names t) simp_all
  then have h4: "headers_ok (m_headers r4)" unfolding r4_def
    by (intro headers_ok_replace appended_trimmed header_names t) simp_all
  then have h5: "headers_ok (m_headers r5)" unfolding r5_def by (intro headers_ok_replace header_names t)
  then have h6: "headers_ok (m_headers r6)" unfolding r6_def by (intro headers_ok_replace header_names assms(3))
  then have h7: "headers_ok (m_headers r7)" using comma_separated_tokens [of subs] assms(4)
    by (auto simp: r7_def intro: headers_ok_replace header_names)
  show "ec = None" by (rule q(1))
  show "headers_ok (m_headers q)" unfolding q(2) using h7 by (intro headers_ok_replace header_names base64_trimmed)
  show "rq_method q = ''GET''" "rq_uri q = u_resource u" "m_version q = ''HTTP/1.1''" "m_body q = m_body r0"
    by (simp_all add: q(2) r7_def r6_def r5_def r4_def r3_def r2_def)
  note get = get_header_replace [OF h2] get_header_replace [OF h3] get_header_replace [OF h4] get_header_replace [OF h5]
    get_header_replace [OF h6] get_header_replace [OF h7]
  have look: "get_header k q = (if ci_eq k ''Sec-WebSocket-Key'' then ws_base64_encode (raw_key rng n)
      else if subs \<noteq> [] \<and> ci_eq k ''Sec-WebSocket-Protocol'' then comma_separated subs
      else if ci_eq k ''Host'' then get_host_port u else if ci_eq k ''Sec-WebSocket-Version'' then ''13''
      else if ci_eq k ''Connection'' then appended ''Connection'' ''Upgrade'' r3
      else if ci_eq k ''Upgrade'' then appended ''Upgrade'' ''websocket'' r2 else get_header k r0)" for k
  proof -
    have "get_header k r3 = (if ci_eq k ''Upgrade'' then appended ''Upgrade'' ''websocket'' r2 else get_header k r2)"
      unfolding r3_def by (rule get(1))
    moreover have "get_header k r4 = (if ci_eq k ''Connection'' then appended ''Connection'' ''Upgrade'' r3 else get_header k r3)"
      unfolding r4_def by (rule get(2))
    moreover have "get_header k r5 = (if ci_eq k ''Sec-WebSocket-Version'' then ''13'' else get_header k r4)"
      unfolding r5_def by (rule get(3))
    moreover have "get_header k r6 = (if ci_eq k ''Host'' then get_host_port u else get_header k r5)"
      unfolding r6_def by (rule get(4))
    moreover have "get_header k r7 = (if subs \<noteq> [] \<and> ci_eq k ''Sec-WebSocket-Protocol'' then comma_separated subs else get_header k r6)"
      by (simp add: r7_def get(5))
    moreover have "get_header k r2 = get_header k r0" by (simp add: r2_def)
    ultimately show ?thesis unfolding q(2) get(6) by simp
  qed
  have ap: "appended ''Connection'' ''Upgrade'' r3 = appended ''Connection'' ''Upgrade'' r0"
    "appended ''Upgrade'' ''websocket'' r2 = appended ''Upgrade'' ''websocket'' r0"
    unfolding appended_def r3_def get(1) by (simp_all add: other_names r2_def)
  show "get_header ''Upgrade'' q = appended ''Upgrade'' ''websocket'' r0"
    "get_header ''Connection'' q = appended ''Connection'' ''Upgrade'' r0"
    "get_header ''Sec-WebSocket-Version'' q = ''13''" "get_header ''Host'' q = get_host_port u"
    "get_header ''Sec-WebSocket-Key'' q = ws_base64_encode (raw_key rng n)"
    by (simp_all add: look ap other_names)
  show "get_header ''Sec-WebSocket-Protocol'' q = (if subs = [] then get_header ''Sec-WebSocket-Protocol'' r0 else comma_separated subs)"
    using unused_names by (simp add: look other_names ci_eq_def tolower_def)
  show "k = ''Content-Length'' \<or> k = ''Sec-WebSocket-Extensions'' \<Longrightarrow> get_header k q = get_header k r0"
    using unused_names [of k] by (simp add: look)
qed

subsection \<open>The server's response\<close>

lemma server_response:
  assumes "process_handshake q subp s0 = (ec, s)" "headers_ok (m_headers s0)" "trimmed subp"
  shows "ec = None" "headers_ok (m_headers s)" "m_version s = m_version s0" "m_body s = m_body s0"
    and "rs_status_code s = rs_status_code s0" "rs_status_msg s = rs_status_msg s0"
    and "get_header ''Sec-WebSocket-Accept'' s = process_handshake_key (get_header ''Sec-WebSocket-Key'' q)"
    and "get_header ''Upgrade'' s = appended ''Upgrade'' ''websocket'' s0"
    and "get_header ''Connection'' s = appended ''Connection'' ''upgrade'' s0"
    and "k = ''Content-Length'' \<or> k = ''Sec-WebSocket-Extensions'' \<Longrightarrow> get_header k s = get_header k s0"
proof -
  have t: "trimmed ''websocket''" "trimmed ''upgrade''" by (simp_all add: header_eval)
  define key where "key = process_handshake_key (get_header ''Sec-WebSocket-Key'' q)"
  define s1 where "s1 = replace_header ''Sec-WebSocket-Accept'' key s0"
  define s2 where "s2 = replace_header ''Upgrade'' (appended ''Upgrade'' ''websocket'' s1) s1"
  define s3 where "s3 = replace_header ''Connection'' (appended ''Connection'' ''upgrade'' s2) s2"
  have s: "ec = None" "s = (if subp \<noteq> [] then replace_header ''Sec-WebSocket-Protocol'' subp s3 else s3)"
    using assms(1) unfolding process_handshake_def Let_def
    by (auto simp: append_header_replace header_names upgrade_token_def connection_token_def key_def s1_def s2_def s3_def)
  have h1: "headers_ok (m_headers s1)" unfolding s1_def key_def using assms(2) by (intro headers_ok_replace header_names key_trimmed)
  then have h2: "headers_ok (m_headers s2)" unfolding s2_def
    by (intro headers_ok_replace appended_trimmed header_names t) simp_all
  then have h3: "headers_ok (m_headers s3)" unfolding s3_def
    by (intro headers_ok_replace appended_trimmed header_names t) simp_all
  show "ec = None" by (rule s(1))
  show "headers_ok (m_headers s)" unfolding s(2) using h3 headers_ok_replace [OF h3 header_names(6) assms(3)] by simp
  show "m_version s = m_version s0" "m_body s = m_body s0" "rs_status_code s = rs_status_code s0" "rs_status_msg s = rs_status_msg s0"
    by (simp_all add: s(2) s3_def s2_def s1_def)
  note get = get_header_replace [OF assms(2)] get_header_replace [OF h1] get_header_replace [OF h2] get_header_replace [OF h3]
  have look: "get_header k s = (if subp \<noteq> [] \<and> ci_eq k ''Sec-WebSocket-Protocol'' then subp
      else if ci_eq k ''Connection'' then appended ''Connection'' ''upgrade'' s2
      else if ci_eq k ''Upgrade'' then appended ''Upgrade'' ''websocket'' s1
      else if ci_eq k ''Sec-WebSocket-Accept'' then key else get_header k s0)" for k
  proof -
    have "get_header k s1 = (if ci_eq k ''Sec-WebSocket-Accept'' then key else get_header k s0)" unfolding s1_def by (rule get(1))
    moreover have "get_header k s2 = (if ci_eq k ''Upgrade'' then appended ''Upgrade'' ''websocket'' s1 else get_header k s1)"
      unfolding s2_def by (rule get(2))
    moreover have "get_header k s3 = (if ci_eq k ''Connection'' then appended ''Connection'' ''upgrade'' s2 else get_header k s2)"
      unfolding s3_def by (rule get(3))
    ultimately show ?thesis by (simp add: s(2) get(4))
  qed
  have ap: "appended ''Connection'' ''upgrade'' s2 = appended ''Connection'' ''upgrade'' s0"
    "appended ''Upgrade'' ''websocket'' s1 = appended ''Upgrade'' ''websocket'' s0"
    unfolding appended_def s2_def s1_def get(2) get(1) by (simp_all add: other_names get(2) get(1) flip: s1_def)
      (simp_all add: s1_def get(1) other_names)
  show "get_header ''Sec-WebSocket-Accept'' s = process_handshake_key (get_header ''Sec-WebSocket-Key'' q)"
    "get_header ''Upgrade'' s = appended ''Upgrade'' ''websocket'' s0"
    "get_header ''Connection'' s = appended ''Connection'' ''upgrade'' s0"
    by (simp_all add: look ap other_names key_def)
  show "k = ''Content-Length'' \<or> k = ''Sec-WebSocket-Extensions'' \<Longrightarrow> get_header k s = get_header k s0"
    using unused_names [of k] by (simp add: look)
qed

text \<open>The tokens are found in whatever list of the header they were appended to.\<close>

lemma token_spellings: "list_all2 my_equal ''Upgrade'' connection_token"
  by code_simp

lemma tokens_found:
  "(ci_find_substr (appended k ''websocket'' p) upgrade_token = None) = False"
  "(ci_find_substr (appended k ''Upgrade'' p) connection_token = None) = False"
  "(ci_find_substr (appended k ''upgrade'' p) connection_token = None) = False"
proof -
  have "ci_find_substr v needle \<noteq> None \<Longrightarrow> (ci_find_substr (appended k v p) needle = None) = False" for v needle
    using ci_find_appended by blast
  moreover have "ci_find_substr ''websocket'' upgrade_token \<noteq> None" "ci_find_substr ''upgrade'' connection_token \<noteq> None"
    "ci_find_substr ''Upgrade'' connection_token \<noteq> None"
    using ci_find_prefix [of "''websocket''" upgrade_token "[]"] ci_find_prefix [of "''upgrade''" connection_token "[]"]
      ci_find_prefix [of "''Upgrade''" connection_token "[]"] my_equal_refl [of upgrade_token]
      my_equal_refl [of connection_token] token_spellings
    unfolding upgrade_token_def connection_token_def append_Nil2 by blast+
  ultimately show "(ci_find_substr (appended k ''websocket'' p) upgrade_token = None) = False"
    "(ci_find_substr (appended k ''Upgrade'' p) connection_token = None) = False"
    "(ci_find_substr (appended k ''upgrade'' p) connection_token = None) = False" by blast+
qed

lemma handshake_validates:
  assumes "rs_status_code s = 101" "get_header ''Upgrade'' s = appended ''Upgrade'' ''websocket'' s0"
    and "get_header ''Connection'' s = appended ''Connection'' ''upgrade'' s0"
    and "get_header ''Sec-WebSocket-Accept'' s = process_handshake_key (get_header ''Sec-WebSocket-Key'' q)"
  shows "validate_server_handshake_response q s = None"
  unfolding validate_server_handshake_response_def assms tokens_found by simp

lemma request_asks_handshake:
  assumes "client_handshake_request rng n r0 u subs = (ec, q)" "headers_ok (m_headers r0)"
    and "trimmed (get_host_port u)" "\<forall>s \<in> set subs. token s"
    and "m_headers q1 = m_headers q" "rq_method q1 = rq_method q" "m_version q1 = m_version q" "rq_ready q1"
  shows "is_websocket_handshake q1" "get_websocket_version q1 = 13" "validate_handshake q1 = None"
proof -
  note q = client_request [OF assms(1-4)]
  have g: "get_header k q1 = get_header k q" for k by (simp add: get_header_def assms(5))
  show "is_websocket_handshake q1" unfolding is_websocket_handshake_def g q tokens_found by simp
  have "read_int ''13'' = Some 13" by (simp add: read_int_def scan_integer_def is_space_def isdig_def digits_val_def digit_val_def)
  then show "get_websocket_version q1 = 13" by (simp add: get_websocket_version_def g q assms(8))
  show "validate_handshake q1 = None" using base64_nonempty [OF raw_key_nonempty]
    by (simp add: validate_handshake_def g q assms(6,7))
qed

subsection \<open>Properties\<close>

text \<open>
  The library's base64 is that of \<open>utils/base64.cpp\<close>, although its decoder looks the padding up, for texts on
  which the narrower counters of the latter do not wrap around.
\<close>
theorem base64_copies_agree:
  assumes "length bytes < 2 ^ 32" "length s < 2 ^ 31"
  shows "ws_base64_encode bytes = base64_encode bytes (word_of_nat (length bytes)) \<and> ws_base64_decode s = base64_decode s"
  using assms by (simp add: ws_base64_encode_def base64_encode_all b64_encoded_def ws_base64_decode_def
      base64_decode_text ws_dec_loop_eq INT_MAX_def)

theorem base64_copies_agree_witness:
  "ws_base64_encode [0x68, 0x69] = base64_encode [0x68, 0x69] 2 \<and> ws_base64_decode ''aGk='' = base64_decode ''aGk=''"
  using base64_copies_agree [of "[0x68, 0x69]" "''aGk=''"] by simp

text \<open>A URI whose text goes through a request line and a \<open>Host\<close> header.\<close>

definition requestable :: "uri \<Rightarrow> bool" where
  "requestable u \<longleftrightarrow> uri_wf u \<and> u_scheme u = (if u_secure u then ''wss'' else ''ws'') \<and> trimmed (u_host u) \<and> u_host u \<noteq> [] \<and>
     CHR '' '' \<notin> set (u_resource u) \<and> CR \<notin> set (u_resource u)"

lemma host_port_trimmed: "requestable u \<Longrightarrow> trimmed (get_host_port u) \<and> get_host_port u \<noteq> []"
proof -
  assume u: "requestable u"
  have digits: "c \<in> set (dec k) \<Longrightarrow> c \<noteq> CR \<and> \<not> is_whitespace_char c" for c k
    using dec_digits [of k] by (auto simp: list_all_iff isdig_def CR_def is_whitespace_char_def)
  have "trimmed (u_host u @ '':'' @ dec k)" for k
    using u dec_nonempty [of k] digits [of _ k] digits [of "last (dec k)" k]
    by (auto simp: trimmed_def requestable_def CR_def)
  then show ?thesis using u by (auto simp: get_host_port_def requestable_def)
qed

lemma client_request_wf:
  assumes "client_handshake_request rng n r0 u subs = (ec, q)" "headers_ok (m_headers r0)" "get_header ''Content-Length'' r0 = []"
    and "requestable u" "\<forall>s \<in> set subs. token s"
  shows "request_wf q"
proof -
  have hp: "trimmed (get_host_port u)" "get_host_port u \<noteq> []" using host_port_trimmed [OF assms(4)] by simp_all
  note q = client_request [OF assms(1,2) hp(1) assms(5)]
  show ?thesis unfolding request_wf_def using q(1-6,10) q(13) [of "''Content-Length''"] hp(2) assms(3,4) header_names(10)
    by (simp add: requestable_def CR_def)
qed

lemma length_store_hash: "length (store_hash res) = 20"
  unfolding store_hash_def case_prod_beta length_map length_upt by simp

lemma length_calc: "length (calc junk src) = 20"
  unfolding calc_def Let_def case_prod_beta by (rule length_store_hash)

lemma response_headers:
  assumes "process_handshake q subp (set_status 101 (new_response\<lparr>m_version := v\<rparr>)) = (ec, s)"
  defines "key \<equiv> process_handshake_key (get_header ''Sec-WebSocket-Key'' q)"
  shows "length key = 28"
    and "m_headers s = [(''Connection'', ''upgrade''), (''Sec-WebSocket-Accept'', key)] @
      (if subp = [] then [] else [(''Sec-WebSocket-Protocol'', subp)]) @ [(''Upgrade'', ''websocket'')]"
proof -
  show "length key = 28"
    using length_b64_encoded [of "calc (replicate 80 0) (bytes_of (get_header ''Sec-WebSocket-Key'' q @ handshake_guid))"]
    by (simp add: length_calc key_def process_handshake_key_def ws_base64_encode_def b64_encoded_def)
  show "m_headers s = [(''Connection'', ''upgrade''), (''Sec-WebSocket-Accept'', key)] @
      (if subp = [] then [] else [(''Sec-WebSocket-Protocol'', subp)]) @ [(''Upgrade'', ''websocket'')]"
    using assms(1) unfolding process_handshake_def Let_def key_def [symmetric]
    by (auto simp: append_header_replace header_names appended_def get_header_def replace_header_def upgrade_token_def
        connection_token_def set_status_def new_response_def tolower_def other_names)
qed

lemma response_size:
  assumes "process_handshake q subp (set_status 101 (new_response\<lparr>m_version := ''HTTP/1.1''\<rparr>)) = (ec, s)"
  shows "length (response_raw s) + length (m_headers s) + 2 \<le> 300 + length subp"
proof -
  have "m_body s = []" "m_version s = ''HTTP/1.1''" "rs_status_code s = 101" "rs_status_msg s = status_string 101"
    using assms unfolding process_handshake_def Let_def
    by (auto simp: append_header_replace header_names upgrade_token_def connection_token_def set_status_def new_response_def)
  then show ?thesis using response_headers [OF assms]
    by (simp add: response_raw_def raw_headers_def header_delimiter_def status_string.simps dec_int_def dec.simps)
qed

lemma no_parameters: "get_header k p = [] \<Longrightarrow> get_header_as_plist k p out = (False, out)"
  by (auto simp: get_header_as_plist_def get_header_def split: option.splits)

lemma negotiate_nothing: "get_header ''Sec-WebSocket-Extensions'' p = [] \<Longrightarrow> negotiate_extensions p = (None, [])"
  by (simp add: negotiate_extensions_def enable_extensions_def no_parameters)

lemma server_reads_subprotocols:
  assumes "\<forall>s \<in> set subs. token s" "get_header ''Sec-WebSocket-Protocol'' q = comma_separated subs"
  shows "extract_subprotocols q [] = (None, subs)"
proof (cases "subs = []")
  case False
  then have "comma_separated subs \<noteq> []" using comma_separated_tokens [OF False assms(1)] by blast
  then have "get_header_as_plist ''Sec-WebSocket-Protocol'' q [] = (False, map (\<lambda>s. (s, [])) subs)"
    using assms(2) subprotocols_read_back [OF False assms(1)]
    by (auto simp: get_header_as_plist_def get_header_def split: option.splits)
  then show ?thesis using \<open>comma_separated subs \<noteq> []\<close> assms(2) by (simp add: extract_subprotocols_def comp_def)
qed (use assms in \<open>simp add: extract_subprotocols_def\<close>)

text \<open>
  The request that the client of a URI sends is read by the server as a handshake of version 13 for that URI
  and those subprotocols, and the client accepts the server's answer to it, whatever bytes follow them.
\<close>
theorem handshake_succeeds:
  assumes "requestable u" "\<forall>s \<in> set subs. token s" "subp = [] \<or> subp \<in> set subs" "length subp \<le> 15000"
    and "client_handshake_request rng n new_request u subs = (ec, q)"
    and "length (request_raw_head q) + length (m_headers q) + 2 \<le> max_header_size"
    and "q1 = snd (request_consume (request_raw q @ t) new_request)"
    and "process_handshake q1 subp (set_status 101 (new_response\<lparr>m_version := ''HTTP/1.1''\<rparr>)) = (ec', s)"
    and "s1 = snd (response_consume (response_raw s @ t') new_response)"
  shows "ec = None \<and> fst (request_consume (request_raw q @ t) new_request) = Took (length (request_raw q)) \<and>
    is_websocket_handshake q1 \<and> get_websocket_version q1 = 13 \<and> validate_handshake q1 = None \<and>
    get_uri (u_secure u) q1 = u \<and> negotiate_extensions q1 = (None, []) \<and> extract_subprotocols q1 [] = (None, subs) \<and>
    ec' = None \<and> fst (response_consume (response_raw s @ t') new_response) = Took (length (response_raw s)) \<and>
    headers_ready s1 \<and> validate_server_handshake_response q s1 = None \<and> negotiate_extensions s1 = (None, [])"
proof -
  have h0: "headers_ok (m_headers new_request)" "get_header k new_request = []" for k
    by (simp_all add: new_request_def get_header_def headers_ok_def hdr_ok_def)
  have hp: "trimmed (get_host_port u)" using host_port_trimmed [OF assms(1)] by blast
  note q = client_request [OF assms(5) h0(1) hp assms(2)]
  have raw: "request_raw q = request_raw_head q" using q(5) by (simp add: request_raw_def request_raw_head_def new_request_def)
  have wf: "request_wf q" by (rule client_request_wf [OF assms(5) h0 assms(1,2)])
  have read: "request_consume (request_raw q @ t) new_request = (Took (length (request_raw q)), request_read q)"
    unfolding raw by (rule request_reads_back [OF wf assms(6)])
  then have q1: "q1 = request_read q" using assms(7) by simp
  have f: "m_headers q1 = m_headers q" "rq_method q1 = rq_method q" "m_version q1 = m_version q" "rq_ready q1" "rq_uri q1 = rq_uri q"
    by (simp_all add: q1 request_read_def)
  have g: "get_header k q1 = get_header k q" for k by (simp add: get_header_def f(1))
  note server = request_asks_handshake [OF assms(5) h0(1) hp assms(2) f(1-4)]
  have uri: "get_uri (u_secure u) q1 = u"
    using uri_from_host_header [of u q1] assms(1) by (simp add: get_uri_def requestable_def g q(10) f(5) q(3) split: if_splits)
  have sub: "extract_subprotocols q1 [] = (None, subs)"
    by (rule server_reads_subprotocols [OF assms(2)]) (use q(11) h0(2) in \<open>simp add: g\<close>)
  define s0 where "s0 = set_status 101 (new_response\<lparr>m_version := ''HTTP/1.1''\<rparr>)"
  have s0: "headers_ok (m_headers s0)" "get_header k s0 = []" for k
    by (simp_all add: s0_def set_status_def new_response_def get_header_def headers_ok_def hdr_ok_def)
  have tr: "trimmed subp" using assms(2,3) token_trimmed [of subp] by (auto simp: trimmed_def)
  note s = server_response [OF assms(8) [folded s0_def] s0(1) tr]
  have "response_wf s" unfolding response_wf_def using s(2-6) s(10) [of "''Content-Length''"] s0(2)
    by (simp add: s0_def set_status_def new_response_def CR_def status_string.simps)
  moreover have "length (response_raw s) + length (m_headers s) + 2 \<le> max_header_size"
    using response_size [OF assms(8)] assms(4) by (simp add: max_header_size_def)
  ultimately have resp: "response_consume (response_raw s @ t') new_response = (Took (length (response_raw s)), response_read (t' \<noteq> []) s)"
    by (rule response_reads_back)
  then have s1: "s1 = response_read (t' \<noteq> []) s" using assms(9) by simp
  have gs: "get_header k s1 = get_header k s" for k by (simp add: get_header_def s1 response_read_def)
  have "rs_status_code s1 = 101" by (simp add: s1 response_read_def s(5) s0_def set_status_def)
  then have "validate_server_handshake_response q s1 = None"
    by (rule handshake_validates [where ?s0.0 = s0]) (simp_all add: gs s(7-9) g)
  moreover have "negotiate_extensions s1 = (None, [])" "negotiate_extensions q1 = (None, [])"
    using s(10) s0(2) q(13) h0(2) by (auto intro: negotiate_nothing simp: gs g)
  moreover have "headers_ready s1" by (simp add: s1 response_read_def headers_ready_def)
  ultimately show ?thesis using read resp server uri sub q(1) s(1) by simp
qed

lemma request_headers:
  assumes "client_handshake_request rng n new_request u subs = (ec, q)"
  defines "key \<equiv> ws_base64_encode (raw_key rng n)"
  shows "length key = 24"
    and "m_headers q = [(''Connection'', ''Upgrade''), (''Host'', get_host_port u), (''Sec-WebSocket-Key'', key)] @
      (if subs = [] then [] else [(''Sec-WebSocket-Protocol'', comma_separated subs)]) @
      [(''Sec-WebSocket-Version'', ''13''), (''Upgrade'', ''websocket'')]"
proof -
  show "length key = 24"
    using length_b64_encoded [of "raw_key rng n"] by (simp add: length_raw_key key_def ws_base64_encode_def b64_encoded_def)
  show "m_headers q = [(''Connection'', ''Upgrade''), (''Host'', get_host_port u), (''Sec-WebSocket-Key'', key)] @
      (if subs = [] then [] else [(''Sec-WebSocket-Protocol'', comma_separated subs)]) @
      [(''Sec-WebSocket-Version'', ''13''), (''Upgrade'', ''websocket'')]"
    using assms(1) unfolding client_handshake_request_def Let_def key_def [symmetric]
    by (auto simp: append_header_replace header_names appended_def get_header_def replace_header_def set_method_GET
        new_request_def pmd_is_implemented_def tolower_def other_names)
qed

lemma request_size:
  assumes "client_handshake_request rng n new_request u subs = (ec, q)"
  shows "length (request_raw_head q) + length (m_headers q) + 2
    \<le> 300 + length (u_resource u) + length (get_host_port u) + length (comma_separated subs)"
proof -
  have "rq_method q = ''GET''" "rq_uri q = u_resource u" "m_version q = ''HTTP/1.1''"
    using assms unfolding client_handshake_request_def Let_def
    by (auto simp: append_header_replace header_names set_method_GET pmd_is_implemented_def)
  then show ?thesis using request_headers [OF assms] by (simp add: request_raw_head_def raw_headers_def header_delimiter_def)
qed

theorem handshake_succeeds_witness:
  "let q = snd (client_handshake_request (\<lambda>i. 7) 0 new_request sample_uri [''chat'', ''log'']);
       q1 = snd (request_consume (request_raw q @ ''x'') new_request);
       s = snd (process_handshake q1 ''log'' (set_status 101 (new_response\<lparr>m_version := ''HTTP/1.1''\<rparr>)));
       s1 = snd (response_consume (response_raw s @ []) new_response)
   in validate_server_handshake_response q s1 = None \<and> get_uri False q1 = sample_uri \<and> extract_subprotocols q1 [] = (None, [''chat'', ''log''])"
proof -
  define q where "q = snd (client_handshake_request (\<lambda>i. 7) 0 new_request sample_uri [''chat'', ''log''])"
  define q1 where "q1 = snd (request_consume (request_raw q @ ''x'') new_request)"
  define s where "s = snd (process_handshake q1 ''log'' (set_status 101 (new_response\<lparr>m_version := ''HTTP/1.1''\<rparr>)))"
  have req: "requestable sample_uri"
    by (simp add: requestable_def uri_wf_def plain_host_def sample_uri_def trimmed_def is_whitespace_char_def CR_def)
  have tok: "\<forall>s \<in> set [''chat'', ''log'']. token s" by (simp add: header_eval)
  obtain ec where q: "client_handshake_request (\<lambda>i. 7) 0 new_request sample_uri [''chat'', ''log''] = (ec, q)"
    unfolding q_def by (metis prod.collapse)
  obtain ec' where s: "process_handshake q1 ''log'' (set_status 101 (new_response\<lparr>m_version := ''HTTP/1.1''\<rparr>)) = (ec', s)"
    unfolding s_def by (metis prod.collapse)
  have "length (request_raw_head q) + length (m_headers q) + 2 \<le> max_header_size"
    using request_size [OF q] by (simp add: max_header_size_def sample_uri_def get_host_port_def default_port_def uri_default_port_def dec.simps)
  moreover have "''log'' = [] \<or> ''log'' \<in> set [''chat'', ''log'']" "length ''log'' \<le> 15000" by simp_all
  moreover have "u_secure sample_uri = False" by (simp add: sample_uri_def)
  ultimately show ?thesis
    unfolding Let_def q_def [symmetric] q1_def [symmetric] s_def [symmetric]
    using handshake_succeeds [OF req tok _ _ q _ q1_def s refl, of "[]"] by simp
qed

end
