(* ===== verification/Ws_Md5.thy ===== *)
theory Ws_Md5
  imports Ws_Sha1 Ws_Frame
begin

section \<open>websocketpp/common/md5: the hash of the oldest draft\<close>

text \<open>
  \<open>common/md5.hpp\<close> on a little-endian host.  \<open>md5_append\<close> may be called with any pieces of the message: the state
  keeps its length in bits and the bytes of the last block begun.  The hash is proved to be that of RFC 1321,
  written below over the padded message.
\<close>

type_synonym md5_regs = "u32 \<times> u32 \<times> u32 \<times> u32"

record md5_state =
  count0 :: u32
  count1 :: u32
  abcd :: md5_regs
  md5_buf :: "byte list"

subsection \<open>One block\<close>

definition t_mask :: u32 where "t_mask = NOT 0"

definition md5_rotate_left :: "u32 \<Rightarrow> nat \<Rightarrow> u32" where
  "md5_rotate_left x n = push_bit n x OR drop_bit (32 - n) x"

definition md5_F :: "u32 \<Rightarrow> u32 \<Rightarrow> u32 \<Rightarrow> u32" where
  "md5_F x y z = (x AND y) OR (NOT x AND z)"

definition md5_G :: "u32 \<Rightarrow> u32 \<Rightarrow> u32 \<Rightarrow> u32" where
  "md5_G x y z = (x AND z) OR (y AND NOT z)"

definition md5_H :: "u32 \<Rightarrow> u32 \<Rightarrow> u32 \<Rightarrow> u32" where
  "md5_H x y z = x XOR y XOR z"

definition md5_I :: "u32 \<Rightarrow> u32 \<Rightarrow> u32 \<Rightarrow> u32" where
  "md5_I x y z = y XOR (x OR NOT z)"

text \<open>
  The macro \<open>SET\<close> changes its first register; the next use of it names them turned by one.  A round is the
  list of the arguments \<open>k\<close>, \<open>s\<close> and \<open>Ti\<close>.
\<close>

definition md5_set :: "(u32 \<Rightarrow> u32 \<Rightarrow> u32 \<Rightarrow> u32) \<Rightarrow> u32 list \<Rightarrow> nat \<times> nat \<times> u32 \<Rightarrow> md5_regs \<Rightarrow> md5_regs" where
  "md5_set f X op r =
     (case (op, r) of ((k, s, Ti), (a, b, c, d)) \<Rightarrow>
        let t = a + f b c d + X ! k + Ti in (d, md5_rotate_left t s + b, b, c))"

text \<open>The macros \<open>ZSW_MD5_T1\<close> to \<open>ZSW_MD5_T64\<close>.\<close>

definition zsw_Ts :: "u32 list" where
  "zsw_Ts =
     [t_mask XOR 0x28955b87, t_mask XOR 0x173848a9, 0x242070db, t_mask XOR 0x3e423111,
      t_mask XOR 0x0a83f050, 0x4787c62a, t_mask XOR 0x57cfb9ec, t_mask XOR 0x02b96afe,
      0x698098d8, t_mask XOR 0x74bb0850, t_mask XOR 0x0000a44e, t_mask XOR 0x76a32841,
      0x6b901122, t_mask XOR 0x02678e6c, t_mask XOR 0x5986bc71, 0x49b40821,
      t_mask XOR 0x09e1da9d, t_mask XOR 0x3fbf4cbf, 0x265e5a51, t_mask XOR 0x16493855,
      t_mask XOR 0x29d0efa2, 0x02441453, t_mask XOR 0x275e197e, t_mask XOR 0x182c0437,
      0x21e1cde6, t_mask XOR 0x3cc8f829, t_mask XOR 0x0b2af278, 0x455a14ed,
      t_mask XOR 0x561c16fa, t_mask XOR 0x03105c07, 0x676f02d9, t_mask XOR 0x72d5b375,
      t_mask XOR 0x0005c6bd, t_mask XOR 0x788e097e, 0x6d9d6122, t_mask XOR 0x021ac7f3,
      t_mask XOR 0x5b4115bb, 0x4bdecfa9, t_mask XOR 0x0944b49f, t_mask XOR 0x4140438f,
      0x289b7ec6, t_mask XOR 0x155ed805, t_mask XOR 0x2b10cf7a, 0x04881d05,
      t_mask XOR 0x262b2fc6, t_mask XOR 0x1924661a, 0x1fa27cf8, t_mask XOR 0x3b53a99a,
      t_mask XOR 0x0bd6ddbb, 0x432aff97, t_mask XOR 0x546bdc58, t_mask XOR 0x036c5fc6,
      0x655b59c3, t_mask XOR 0x70f3336d, t_mask XOR 0x00100b82, t_mask XOR 0x7a7ba22e,
      0x6fa87e4f, t_mask XOR 0x01d3191f, t_mask XOR 0x5cfebceb, 0x4e0811a1,
      t_mask XOR 0x08ac817d, t_mask XOR 0x42c50dca, 0x2ad7d2bb, t_mask XOR 0x14792c6e]"

definition zsw_T :: "nat \<Rightarrow> u32" where
  "zsw_T i = zsw_Ts ! (i - 1)"

definition round1_ops :: "(nat \<times> nat \<times> u32) list" where
  "round1_ops =
     [(0, 7, zsw_T 1), (1, 12, zsw_T 2), (2, 17, zsw_T 3), (3, 22, zsw_T 4),
      (4, 7, zsw_T 5), (5, 12, zsw_T 6), (6, 17, zsw_T 7), (7, 22, zsw_T 8),
      (8, 7, zsw_T 9), (9, 12, zsw_T 10), (10, 17, zsw_T 11), (11, 22, zsw_T 12),
      (12, 7, zsw_T 13), (13, 12, zsw_T 14), (14, 17, zsw_T 15), (15, 22, zsw_T 16)]"

definition round2_ops :: "(nat \<times> nat \<times> u32) list" where
  "round2_ops =
     [(1, 5, zsw_T 17), (6, 9, zsw_T 18), (11, 14, zsw_T 19), (0, 20, zsw_T 20),
      (5, 5, zsw_T 21), (10, 9, zsw_T 22), (15, 14, zsw_T 23), (4, 20, zsw_T 24),
      (9, 5, zsw_T 25), (14, 9, zsw_T 26), (3, 14, zsw_T 27), (8, 20, zsw_T 28),
      (13, 5, zsw_T 29), (2, 9, zsw_T 30), (7, 14, zsw_T 31), (12, 20, zsw_T 32)]"

definition round3_ops :: "(nat \<times> nat \<times> u32) list" where
  "round3_ops =
     [(5, 4, zsw_T 33), (8, 11, zsw_T 34), (11, 16, zsw_T 35), (14, 23, zsw_T 36),
      (1, 4, zsw_T 37), (4, 11, zsw_T 38), (7, 16, zsw_T 39), (10, 23, zsw_T 40),
      (13, 4, zsw_T 41), (0, 11, zsw_T 42), (3, 16, zsw_T 43), (6, 23, zsw_T 44),
      (9, 4, zsw_T 45), (12, 11, zsw_T 46), (15, 16, zsw_T 47), (2, 23, zsw_T 48)]"

definition round4_ops :: "(nat \<times> nat \<times> u32) list" where
  "round4_ops =
     [(0, 6, zsw_T 49), (7, 10, zsw_T 50), (14, 15, zsw_T 51), (5, 21, zsw_T 52),
      (12, 6, zsw_T 53), (3, 10, zsw_T 54), (10, 15, zsw_T 55), (1, 21, zsw_T 56),
      (8, 6, zsw_T 57), (15, 10, zsw_T 58), (6, 15, zsw_T 59), (13, 21, zsw_T 60),
      (4, 6, zsw_T 61), (11, 10, zsw_T 62), (2, 15, zsw_T 63), (9, 21, zsw_T 64)]"

text \<open>The sixteen words of the block, which the code reads in place.\<close>

definition md5_words :: "byte list \<Rightarrow> u32 list" where
  "md5_words data = map (\<lambda>i. rd_le (take 4 (drop (4 * i) data))) [0..<16]"

definition md5_process :: "byte list \<Rightarrow> md5_state \<Rightarrow> md5_state" where
  "md5_process data pms =
     (let X = md5_words data; (aa, bb, cc, dd) = abcd pms;
          r1 = fold (md5_set md5_F X) round1_ops (aa, bb, cc, dd);
          r2 = fold (md5_set md5_G X) round2_ops r1;
          r3 = fold (md5_set md5_H X) round3_ops r2;
          (a, b, c, d) = fold (md5_set md5_I X) round4_ops r3
      in pms\<lparr>abcd := (aa + a, bb + b, cc + c, dd + d)\<rparr>)"

subsection \<open>The message\<close>

text \<open>The buffer has no value at first: it is an argument.\<close>

definition md5_init :: "byte list \<Rightarrow> md5_state" where
  "md5_init junk =
     \<lparr>count0 = 0, count1 = 0, abcd = (0x67452301, t_mask XOR 0x10325476, t_mask XOR 0x67452301, 0x10325476), md5_buf = junk\<rparr>"

fun md5_blocks :: "byte list \<Rightarrow> md5_state \<Rightarrow> md5_state" where
  "md5_blocks p pms =
     (if 64 \<le> length p then md5_blocks (drop 64 p) (md5_process (take 64 p) pms)
      else if p \<noteq> [] then pms\<lparr>md5_buf := store_at 0 p (md5_buf pms)\<rparr> else pms)"

declare md5_blocks.simps [simp del]

definition md5_append :: "byte list \<Rightarrow> md5_state \<Rightarrow> md5_state" where
  "md5_append data pms =
     (let nbytes = length data;
          offset = unat (drop_bit 3 (count0 pms) AND 63);
          nbits = (word_of_nat (nbytes * 8) :: u32)
      in if nbytes = 0 then pms
         else
           let c1 = count1 pms + word_of_nat (nbytes div 2 ^ 29);
               c0 = count0 pms + nbits;
               p1 = pms\<lparr>count0 := c0, count1 := (if c0 < nbits then c1 + 1 else c1)\<rparr>
           in if offset \<noteq> 0 then
                let copy = (if 64 < offset + nbytes then 64 - offset else nbytes);
                    p2 = p1\<lparr>md5_buf := store_at offset (take copy data) (md5_buf p1)\<rparr>
                in if offset + copy < 64 then p2
                   else md5_blocks (drop copy data) (md5_process (md5_buf p2) p2)
              else md5_blocks data p1)"

definition md5_pad :: "byte list" where
  "md5_pad = 0x80 # replicate 63 0"

definition md5_finish :: "md5_state \<Rightarrow> byte list" where
  "md5_finish pms =
     (let data = map (\<lambda>i. ucast (drop_bit (i mod 4 * 8) ([count0 pms, count1 pms] ! (i div 4)))) [0..<8];
          p1 = md5_append (take (unat ((55 - drop_bit 3 (count0 pms)) AND 63) + 1) md5_pad) pms;
          p2 = md5_append data p1
      in case abcd p2 of (a, b, c, d) \<Rightarrow>
           map (\<lambda>i. ucast (drop_bit (i mod 4 * 8) ([a, b, c, d] ! (i div 4)))) [0..<16])"

definition md5_hash_string :: "string \<Rightarrow> string" where
  "md5_hash_string s = string_of (md5_finish (md5_append (bytes_of s) (md5_init (replicate 64 0))))"

definition hexval :: string where "hexval = ''0123456789abcdef''"

definition md5_hash_hex :: "string \<Rightarrow> string" where
  "md5_hash_hex input =
     concat (map (\<lambda>c. [hexval ! unat (drop_bit 4 (byte_of c) AND 0xF), hexval ! unat (byte_of c AND 0x0F)]) (md5_hash_string input))"

subsection \<open>The standard\<close>

text \<open>
  RFC 1321, written on its own: nothing below is a function of the code.  A word is the number that four bytes
  make, the first one the lowest; the message is padded to whole blocks by a 1 bit, zeros and its length in
  bits, low byte first; operation \<open>i\<close> of the 64 of a block takes the function, the constant \<open>T[i]\<close>, the word and
  the shift below; the four registers, low byte first, are the digest.
\<close>

definition rfc_word :: "byte \<Rightarrow> byte \<Rightarrow> byte \<Rightarrow> byte \<Rightarrow> u32" where
  "rfc_word p q r s = word_of_nat (unat p + unat q * 2 ^ 8 + unat r * 2 ^ 16 + unat s * 2 ^ 24)"

definition rfc_bytes :: "u32 \<Rightarrow> byte list" where
  "rfc_bytes h = [word_of_nat (unat h), word_of_nat (unat h div 2 ^ 8), word_of_nat (unat h div 2 ^ 16), word_of_nat (unat h div 2 ^ 24)]"

definition rfc_words :: "byte list \<Rightarrow> u32 list" where
  "rfc_words bs = map (\<lambda>i. rfc_word (bs ! (4 * i)) (bs ! (4 * i + 1)) (bs ! (4 * i + 2)) (bs ! (4 * i + 3))) [0..<16]"

definition md5_T :: "u32 list" where
  "md5_T =
     [0xd76aa478, 0xe8c7b756, 0x242070db, 0xc1bdceee, 0xf57c0faf, 0x4787c62a, 0xa8304613, 0xfd469501,
      0x698098d8, 0x8b44f7af, 0xffff5bb1, 0x895cd7be, 0x6b901122, 0xfd987193, 0xa679438e, 0x49b40821,
      0xf61e2562, 0xc040b340, 0x265e5a51, 0xe9b6c7aa, 0xd62f105d, 0x02441453, 0xd8a1e681, 0xe7d3fbc8,
      0x21e1cde6, 0xc33707d6, 0xf4d50d87, 0x455a14ed, 0xa9e3e905, 0xfcefa3f8, 0x676f02d9, 0x8d2a4c8a,
      0xfffa3942, 0x8771f681, 0x6d9d6122, 0xfde5380c, 0xa4beea44, 0x4bdecfa9, 0xf6bb4b60, 0xbebfbc70,
      0x289b7ec6, 0xeaa127fa, 0xd4ef3085, 0x04881d05, 0xd9d4d039, 0xe6db99e5, 0x1fa27cf8, 0xc4ac5665,
      0xf4292244, 0x432aff97, 0xab9423a7, 0xfc93a039, 0x655b59c3, 0x8f0ccc92, 0xffeff47d, 0x85845dd1,
      0x6fa87e4f, 0xfe2ce6e0, 0xa3014314, 0x4e0811a1, 0xf7537e82, 0xbd3af235, 0x2ad7d2bb, 0xeb86d391]"

definition md5_func :: "nat \<Rightarrow> u32 \<Rightarrow> u32 \<Rightarrow> u32 \<Rightarrow> u32" where
  "md5_func i x y z =
     (if i < 16 then (x AND y) OR (NOT x AND z)
      else if i < 32 then (x AND z) OR (y AND NOT z)
      else if i < 48 then x XOR y XOR z
      else y XOR (x OR NOT z))"

definition md5_index :: "nat \<Rightarrow> nat" where
  "md5_index i = [i, 5 * i + 1, 3 * i + 5, 7 * i] ! (i div 16) mod 16"

definition md5_shift :: "nat \<Rightarrow> nat" where
  "md5_shift i = [[7, 12, 17, 22], [5, 9, 14, 20], [4, 11, 16, 23], [6, 10, 15, 21]] ! (i div 16) ! (i mod 4)"

definition md5_step :: "u32 list \<Rightarrow> nat \<Rightarrow> md5_regs \<Rightarrow> md5_regs" where
  "md5_step X i r =
     (case r of (a, b, c, d) \<Rightarrow>
        (d, b + word_rotl (md5_shift i) (a + md5_func i b c d + X ! md5_index i + md5_T ! i), b, c))"

definition md5_compress :: "md5_regs \<Rightarrow> byte list \<Rightarrow> md5_regs" where
  "md5_compress r block =
     (case (r, fold (md5_step (rfc_words block)) [0..<64] r) of
        ((aa, bb, cc, dd), (a, b, c, d)) \<Rightarrow> (aa + a, bb + b, cc + c, dd + d))"

definition md5_padded :: "byte list \<Rightarrow> byte list" where
  "md5_padded bs = bs @ 0x80 # replicate ((119 - length bs mod 64) mod 64) 0 @
     map (\<lambda>i. word_of_nat (8 * length bs div 256 ^ i)) [0..<8]"

definition md5_start :: md5_regs where
  "md5_start = (0x67452301, 0xefcdab89, 0x98badcfe, 0x10325476)"

definition md5_rfc :: "byte list \<Rightarrow> byte list" where
  "md5_rfc bs =
     (case foldl md5_compress md5_start (chunks64 (md5_padded bs)) of
        (a, b, c, d) \<Rightarrow> concat (map rfc_bytes [a, b, c, d]))"

subsection \<open>One block is that of the standard\<close>

lemma rounds_table:
  "round1_ops = map (\<lambda>i. (md5_index i, md5_shift i, md5_T ! i)) [0..<16]"
  "round2_ops = map (\<lambda>i. (md5_index i, md5_shift i, md5_T ! i)) [16..<32]"
  "round3_ops = map (\<lambda>i. (md5_index i, md5_shift i, md5_T ! i)) [32..<48]"
  "round4_ops = map (\<lambda>i. (md5_index i, md5_shift i, md5_T ! i)) [48..<64]"
  by code_simp+

lemma md5_shift_bounds: "i < 64 \<Longrightarrow> 0 < md5_shift i \<and> md5_shift i < 32"
proof -
  have "\<forall>i \<in> set [0..<64]. 0 < md5_shift i \<and> md5_shift i < 32" by code_simp
  then show "i < 64 \<Longrightarrow> ?thesis" by simp
qed

lemma md5_set_step:
  assumes "i < 64" "f = md5_func i"
  shows "md5_set f X (md5_index i, md5_shift i, md5_T ! i) r = md5_step X i r"
proof -
  have "md5_rotate_left t (md5_shift i) = word_rotl (md5_shift i) t" for t
    using rol_rotl [of "md5_shift i" t] md5_shift_bounds [OF assms(1)] by (simp add: rol_def md5_rotate_left_def)
  then show ?thesis using assms(2) by (cases r) (simp add: md5_set_def md5_step_def Let_def add.commute)
qed

lemma md5_round:
  assumes "\<And>i. m \<le> i \<Longrightarrow> i < n \<Longrightarrow> f = md5_func i" "n \<le> 64"
  shows "fold (md5_set f X) (map (\<lambda>i. (md5_index i, md5_shift i, md5_T ! i)) [m..<n]) r = fold (md5_step X) [m..<n] r"
  unfolding fold_map comp_def using assms by (intro fold_cong refl) (auto simp: md5_set_step)

lemma rd_le_rfc: "rd_le [p, q, r, s] = rfc_word p q r s"
proof -
  have add: "ucast b OR push_bit 8 w = ucast b + push_bit 8 w" for b :: byte and w :: u32
    by (intro disjunctive_add_eq_or [symmetric] bit_eqI) (auto simp: bit_simps byte_bit_end)
  have z: "x OR 0 = x" for x :: u32 by simp
  have "word_of_nat (unat b) = (ucast b :: u32)" for b :: byte by simp
  moreover have "rd_le [p, q, r, s] = ucast p + push_bit 8 (ucast q + push_bit 8 (ucast r + push_bit 8 (ucast s :: u32)))"
    by (simp only: rd_le.simps add push_bit_of_0 z)
  ultimately show ?thesis by (simp add: rfc_word_def push_bit_eq_mult algebra_simps)
qed

lemma rfc_words_eq: "64 \<le> length bs \<Longrightarrow> rfc_words bs = md5_words bs"
proof -
  assume len: "64 \<le> length bs"
  have "rd_le (take 4 (drop (4 * i) bs)) = rfc_word (bs ! (4 * i)) (bs ! (4 * i + 1)) (bs ! (4 * i + 2)) (bs ! (4 * i + 3))"
    if "i < 16" for i
  proof -
    have "take 4 (drop (4 * i) bs) = [bs ! (4 * i), bs ! (4 * i + 1), bs ! (4 * i + 2), bs ! (4 * i + 3)]"
      using that len by (intro nth_equalityI) (auto simp: less_Suc_eq numeral_eq_Suc)
    then show ?thesis by (simp only: rd_le_rfc)
  qed
  then show ?thesis unfolding rfc_words_def md5_words_def by (intro map_cong refl) simp
qed

lemma rfc_bytes_eq: "rfc_bytes h = wr_le 4 h"
proof -
  have "(word_of_nat (unat h div 2 ^ n) :: byte) = ucast (drop_bit n h)" for n
    by (rule bit_word_eqI) (simp add: bit_simps drop_bit_eq_div [symmetric])
  from this [of 0] this [of 8] this [of 16] this [of 24]
  show ?thesis by (simp add: rfc_bytes_def wr_le_def upt_rec [of _ 4])
qed

lemma md5_process_compress:
  assumes "length data = 64"
  shows "md5_process data pms = pms\<lparr>abcd := md5_compress (abcd pms) data\<rparr>"
proof -
  have f: "i < 16 \<Longrightarrow> md5_F = md5_func i" "16 \<le> i \<Longrightarrow> i < 32 \<Longrightarrow> md5_G = md5_func i"
    "32 \<le> i \<Longrightarrow> i < 48 \<Longrightarrow> md5_H = md5_func i" "48 \<le> i \<Longrightarrow> i < 64 \<Longrightarrow> md5_I = md5_func i" for i
    by (simp_all add: md5_func_def md5_F_def md5_G_def md5_H_def md5_I_def fun_eq_iff)
  define X where "X = md5_words data"
  have "fold (md5_set md5_I X) round4_ops (fold (md5_set md5_H X) round3_ops (fold (md5_set md5_G X) round2_ops
      (fold (md5_set md5_F X) round1_ops r))) = fold (md5_step X) [0..<64] r" for r
  proof -
    have le: "(48::nat) \<le> 64" "(32::nat) \<le> 48" "(16::nat) \<le> 32" by simp_all
    have "fold (md5_set md5_F X) round1_ops = fold (md5_step X) [0..<16]" "fold (md5_set md5_G X) round2_ops = fold (md5_step X) [16..<32]"
      "fold (md5_set md5_H X) round3_ops = fold (md5_step X) [32..<48]" "fold (md5_set md5_I X) round4_ops = fold (md5_step X) [48..<64]"
      unfolding rounds_table by (rule ext, rule md5_round; use f in simp; fail)+
    then show ?thesis
      by (simp only: fold_upt_join [OF le0 le(1)] fold_upt_join [OF le0 le(2)] fold_upt_join [OF le0 le(3)])
  qed
  then show ?thesis by (simp add: md5_process_def md5_compress_def X_def Let_def rfc_words_eq assms split: prod.splits)
qed

subsection \<open>The state after any part of the message\<close>

definition absorbed :: "byte list \<Rightarrow> md5_state \<Rightarrow> bool" where
  "absorbed data pms \<longleftrightarrow>
     count0 pms = word_of_nat (8 * length data) \<and> count1 pms = word_of_nat (8 * length data div 2 ^ 32) \<and>
     abcd pms = foldl md5_compress md5_start (chunks64 data) \<and> length (md5_buf pms) = 64 \<and>
     take (length data mod 64) (md5_buf pms) = drop (64 * (length data div 64)) data"

lemma absorbed_init: "length junk = 64 \<Longrightarrow> absorbed [] (md5_init junk)"
  by (simp add: absorbed_def md5_init_def md5_start_def t_mask_def chunks64.simps)

lemma offset_length: "unat (drop_bit 3 (word_of_nat (8 * n) :: u32) AND 63) = n mod 64"
proof -
  have m: "(63 :: nat) = mask 6" by (simp add: mask_eq_exp_minus_1)
  have "unat (drop_bit 3 (word_of_nat (8 * n) :: u32) AND 63) = unat (drop_bit 3 (word_of_nat (8 * n) :: u32)) AND 63"
    by (simp add: unsigned_and_eq)
  then have "unat (drop_bit 3 (word_of_nat (8 * n) :: u32) AND 63) = unat (drop_bit 3 (word_of_nat (8 * n) :: u32)) mod 64"
    by (simp only: m take_bit_eq_mask [symmetric] take_bit_eq_mod) simp
  also have "\<dots> = (8 * n) mod 2 ^ 32 div 8 mod 64"
  proof -
    have "unat (drop_bit 3 w) = unat w div 8" for w :: u32
    proof -
      have "take_bit 32 (unat w) = unat w" using unsigned_less [of w, where 'a = nat] by (intro take_bit_nat_eq_self) simp
      then show ?thesis unfolding unsigned_drop_bit_eq by (simp add: drop_bit_eq_div)
    qed
    moreover have "unat (word_of_nat (8 * n) :: u32) = 8 * n mod 2 ^ 32" unfolding unat_of_nat by simp
    ultimately show ?thesis by (simp only:)
  qed
  also have "\<dots> = n mod 64"
  proof -
    have "8 * n mod 2 ^ 32 = 8 * (n mod 2 ^ 29)" using mult_mod_right [of 8 n "2 ^ 29"] by simp
    then show ?thesis by (simp add: mod_mod_cancel)
  qed
  finally show ?thesis .
qed

lemma md5_blocks_chunks:
  assumes "length (md5_buf pms) = 64"
  shows "count0 (md5_blocks p pms) = count0 pms \<and> count1 (md5_blocks p pms) = count1 pms \<and>
    abcd (md5_blocks p pms) = foldl md5_compress (abcd pms) (chunks64 p) \<and> length (md5_buf (md5_blocks p pms)) = 64 \<and>
    take (length p mod 64) (md5_buf (md5_blocks p pms)) = drop (64 * (length p div 64)) p"
  using assms
proof (induction p pms rule: md5_blocks.induct)
  case (1 p pms)
  show ?case
  proof (cases "64 \<le> length p")
    case True
    have "length p mod 64 = length (drop 64 p) mod 64" "length p div 64 = Suc (length (drop 64 p) div 64)"
      using True by (simp_all add: le_mod_geq le_div_geq)
    then show ?thesis using 1 True
      by (simp add: md5_blocks.simps [of p] chunks64.simps [of p] md5_process_compress add.commute)
  next
    case False
    then show ?thesis using 1(2) by (auto simp: md5_blocks.simps [of p] chunks64.simps [of p] store_at_def)
  qed
qed

lemma carry:
  fixes a b :: nat
  assumes "(word_of_nat (8 * a) :: u32) = x"
  shows "(if x + word_of_nat (8 * b) < (word_of_nat (8 * b) :: u32)
      then word_of_nat (8 * a div 2 ^ 32) + word_of_nat (b div 2 ^ 29) + 1
      else word_of_nat (8 * a div 2 ^ 32) + word_of_nat (b div 2 ^ 29)) = (word_of_nat (8 * (a + b) div 2 ^ 32) :: u32)"
proof -
  define m n where "m = 8 * a mod 2 ^ 32" and "n = 8 * b mod 2 ^ 32"
  have "x + word_of_nat (8 * b) < (word_of_nat (8 * b) :: u32) \<longleftrightarrow> (m + n) mod 2 ^ 32 < n"
    unfolding assms [symmetric] word_less_nat_alt unat_word_ariths(1) unat_of_nat by (simp add: m_def n_def)
  also have "\<dots> \<longleftrightarrow> 2 ^ 32 \<le> m + n"
  proof -
    have "m < 2 ^ 32" "n < 2 ^ 32" by (simp_all add: m_def n_def)
    then show ?thesis by (cases "m + n < 2 ^ 32") (simp_all add: le_mod_geq)
  qed
  finally have c: "x + word_of_nat (8 * b) < (word_of_nat (8 * b) :: u32) \<longleftrightarrow> 2 ^ 32 \<le> m + n" .
  have "8 * (a + b) div 2 ^ 32 = 8 * a div 2 ^ 32 + b div 2 ^ 29 + (if 2 ^ 32 \<le> m + n then 1 else 0)"
  proof -
    have "8 * b div 2 ^ 32 = b div 2 ^ 29" using div_mult_mult1 [of 8 b "2 ^ 29"] by simp
    moreover have "(m + n) div 2 ^ 32 = (if 2 ^ 32 \<le> m + n then 1 else 0)"
    proof -
      have "m < 2 ^ 32" "n < 2 ^ 32" by (simp_all add: m_def n_def)
      then show ?thesis by (cases "m + n < 2 ^ 32") (simp_all add: div_nat_eqI)
    qed
    ultimately show ?thesis unfolding distrib_left div_add1_eq [of "8 * a"] m_def n_def by simp
  qed
  then show ?thesis unfolding c by simp
qed

lemma absorbed_append:
  assumes "absorbed data pms"
  shows "absorbed (data @ d) (md5_append d pms)"
proof (cases "d = []")
  case True
  then show ?thesis using assms by (simp add: md5_append_def)
next
  case False
  note ab = assms [unfolded absorbed_def]
  define offset where "offset = length data mod 64"
  define rest where "rest = drop (64 * (length data div 64)) data"
  have rest: "length rest = offset" by (simp add: rest_def offset_def minus_mult_div_eq_mod)
  have off: "unat (drop_bit 3 (count0 pms) AND 63) = offset" using ab offset_length [of "length data"] by (simp add: offset_def)
  define p1 where "p1 = pms\<lparr>count0 := word_of_nat (8 * length (data @ d)), count1 := word_of_nat (8 * length (data @ d) div 2 ^ 32)\<rparr>"
  have c0: "count0 pms + word_of_nat (length d * 8) = word_of_nat (8 * length (data @ d))"
    using ab by (simp add: algebra_simps)
  have c1: "(if count0 pms + word_of_nat (length d * 8) < word_of_nat (length d * 8) then count1 pms + word_of_nat (length d div 2 ^ 29) + 1
      else count1 pms + word_of_nat (length d div 2 ^ 29)) = word_of_nat (8 * length (data @ d) div 2 ^ 32)"
    unfolding length_append carry [of "length data" "count0 pms" "length d", symmetric, OF conjunct1 [OF ab, symmetric]]
    using ab by (simp only: mult.commute [of "length d" 8])
  have app: "md5_append d pms =
      (if offset \<noteq> 0 then
         let copy = (if 64 < offset + length d then 64 - offset else length d);
             p2 = p1\<lparr>md5_buf := store_at offset (take copy d) (md5_buf p1)\<rparr>
         in if offset + copy < 64 then p2 else md5_blocks (drop copy d) (md5_process (md5_buf p2) p2)
       else md5_blocks d p1)"
    unfolding md5_append_def Let_def off c0 c1 [unfolded c0] p1_def [symmetric] using False by simp
  have p1: "abcd p1 = foldl md5_compress md5_start (chunks64 data)" "length (md5_buf p1) = 64" "take offset (md5_buf p1) = rest"
    using ab by (simp_all add: p1_def offset_def rest_def)
  have ch: "chunks64 (data @ d) = chunks64 data @ chunks64 (rest @ d)" unfolding rest_def by (rule chunks64_append)
  have dec: "drop (64 * (length (data @ d) div 64)) (data @ d) = drop (64 * (length (rest @ d) div 64)) (rest @ d)"
    "length (data @ d) mod 64 = length (rest @ d) mod 64"
  proof -
    have l: "length (data @ d) = 64 * (length data div 64) + length (rest @ d)"
      by (simp add: rest offset_def)
    define A where "A = take (64 * (length data div 64)) data"
    have "data @ d = A @ rest @ d" "length A = 64 * (length data div 64)" by (simp_all add: rest_def A_def)
    moreover have "length (data @ d) div 64 = length data div 64 + length (rest @ d) div 64" unfolding l by simp
    ultimately show "drop (64 * (length (data @ d) div 64)) (data @ d) = drop (64 * (length (rest @ d) div 64)) (rest @ d)"
      by (simp only: distrib_left drop_append) simp
    show "length (data @ d) mod 64 = length (rest @ d) mod 64" unfolding l by simp
  qed
  show ?thesis
  proof (cases "offset = 0")
    case True
    then have "rest = []" using rest by simp
    then show ?thesis using md5_blocks_chunks [OF p1(2), of d] p1 True ch dec
      unfolding absorbed_def app by (simp add: p1_def)
  next
    case off: False
    show ?thesis
    proof (cases "offset + length d < 64")
      case True
      then have "md5_append d pms = p1\<lparr>md5_buf := store_at offset d (md5_buf p1)\<rparr>"
        using off unfolding app by (simp add: Let_def)
      then show ?thesis using p1 True ch dec rest
        by (auto simp: absorbed_def p1_def store_at_def chunks64.simps [of "rest @ d"])
    next
      case long: False
      define copy where "copy = 64 - offset"
      have c: "(if 64 < offset + length d then 64 - offset else length d) = copy" "offset + copy = 64"
        using long rest by (auto simp: copy_def offset_def)
      define p2 where "p2 = p1\<lparr>md5_buf := store_at offset (take copy d) (md5_buf p1)\<rparr>"
      have buf: "md5_buf p2 = rest @ take copy d" "length (rest @ take copy d) = 64"
        using p1 c(2) rest long by (simp_all add: p2_def store_at_def)
      have "md5_append d pms = md5_blocks (drop copy d) (md5_process (md5_buf p2) p2)"
        using off c unfolding app Let_def p2_def by simp
      moreover have "rest @ d = (rest @ take copy d) @ drop copy d" by simp
      moreover from this have "chunks64 (rest @ d) = (rest @ take copy d) # chunks64 (drop copy d)" using chunks64_one [OF buf(2)] by metis
      moreover have "length (rest @ d) = 64 + length (drop copy d)" using c(2) rest long by simp
      moreover have "drop (64 * (length (rest @ d) div 64)) (rest @ d) = drop (64 * (length (drop copy d) div 64)) (drop copy d)"
      proof -
        have "length (rest @ d) div 64 = Suc (length (drop copy d) div 64)" using c(2) rest long by (simp add: le_div_geq)
        moreover have "64 + k - offset = k + copy" for k using c(2) by simp
        ultimately show ?thesis using buf(2) c(2) rest by simp
      qed
      ultimately show ?thesis using md5_blocks_chunks [of "md5_process (md5_buf p2) p2" "drop copy d"] p1 ch dec buf
        unfolding absorbed_def by (simp add: md5_process_compress p2_def p1_def)
    qed
  qed
qed

subsection \<open>The end of the message\<close>

lemma byte_of_count:
  assumes "i < 4"
  shows "ucast (drop_bit (i * 8) (word_of_nat n :: u32)) = (word_of_nat (n div 256 ^ i) :: byte)"
proof (rule bit_word_eqI)
  fix k assume "k < LENGTH(8)"
  then have k: "k < 8" by simp
  have "n div 256 ^ i = drop_bit (8 * i) n" by (simp add: drop_bit_eq_div power_mult)
  then show "bit (ucast (drop_bit (i * 8) (word_of_nat n :: u32)) :: byte) k = bit (word_of_nat (n div 256 ^ i) :: byte) k"
    using k assms by (simp add: bit_simps mult.commute)
qed

lemma length_bytes:
  "map (\<lambda>i. ucast (drop_bit (i mod 4 * 8) ([word_of_nat n, word_of_nat (n div 2 ^ 32) :: u32] ! (i div 4)))) [0..<8] =
    map (\<lambda>i. word_of_nat (n div 256 ^ i) :: byte) [0..<8]"
proof (rule map_cong [OF refl])
  fix i assume "i \<in> set [0..<8]"
  then consider "i < 4" | j where "i = 4 + j" "j < 4" by (cases "i < 4") (auto dest: le_Suc_ex simp: not_less)
  then show "ucast (drop_bit (i mod 4 * 8) ([word_of_nat n, word_of_nat (n div 2 ^ 32) :: u32] ! (i div 4))) =
      (word_of_nat (n div 256 ^ i) :: byte)"
  proof cases
    case 1
    then show ?thesis using byte_of_count [of i n] by simp
  next
    case 2
    have "n div 2 ^ 32 div 256 ^ j = n div 256 ^ i" unfolding 2 power_add div_mult2_eq by simp
    then show ?thesis using 2 byte_of_count [of j "n div 2 ^ 32"] by simp
  qed
qed

lemma pad_length: "unat ((55 - drop_bit 3 (word_of_nat (8 * n) :: u32)) AND 63) = (119 - n mod 64) mod 64"
proof -
  define w where "w = drop_bit 3 (word_of_nat (8 * n) :: u32)"
  have and63: "uint (x AND 63) = uint x mod 64" for x :: u32
  proof -
    have m: "(63 :: int) = mask 6" by (simp add: mask_eq_exp_minus_1)
    have "uint (x AND 63) = uint x AND 63" by (simp add: unsigned_and_eq)
    then show ?thesis by (simp only: m take_bit_eq_mask [symmetric] take_bit_eq_mod) simp
  qed
  have "int (unat (w AND 63)) = uint w mod 64" using and63 [of w] by (simp only: uint_nat)
  then have "int (n mod 64) = uint w mod 64" by (simp only: offset_length [of n, folded w_def])
  then have n: "uint w mod 64 = int n mod 64" by (simp only: zmod_int of_nat_numeral)
  have "uint ((55 - w) AND 63) = (55 - uint w) mod 2 ^ 32 mod 64" unfolding and63 uint_word_ariths(2) by simp
  also have "\<dots> = (55 - uint w) mod 64" by (simp add: mod_mod_cancel)
  also have "\<dots> = (119 - int n mod 64) mod 64"
    using n mod_diff_cong [of 55 64 119 "uint w" "int n mod 64"] by simp
  finally have "int (unat ((55 - w) AND 63)) = (119 - int n mod 64) mod 64" by (simp only: uint_nat)
  also have "\<dots> = int ((119 - n mod 64) mod 64)"
  proof -
    have "n mod 64 \<le> 119" using mod_less_divisor [of 64 n] by linarith
    then show ?thesis by (simp add: zmod_int of_nat_diff)
  qed
  finally show ?thesis by (simp only: w_def of_nat_eq_iff)
qed

lemma take_pad: "k \<le> 63 \<Longrightarrow> take (k + 1) md5_pad = 0x80 # replicate k 0"
  by (simp add: md5_pad_def)

lemma wr_le_regs: "map (\<lambda>i. ucast (drop_bit (i mod 4 * 8) ([a, b, c, d :: u32] ! (i div 4)))) [0..<16] = concat (map (wr_le 4) [a, b, c, d])"
  by (simp add: wr_le_def upt_rec [of _ 16] upt_rec [of _ 4] mult.commute)

lemma absorbed_finish: "absorbed data pms \<Longrightarrow> md5_finish pms = md5_rfc data"
proof -
  assume ab: "absorbed data pms"
  define k where "k = (119 - length data mod 64) mod 64"
  define bytes where "bytes = map (\<lambda>i. word_of_nat (8 * length data div 256 ^ i) :: byte) [0..<8]"
  have c: "count0 pms = word_of_nat (8 * length data)" "count1 pms = word_of_nat (8 * length data div 2 ^ 32)"
    using ab by (simp_all add: absorbed_def)
  have k: "unat ((55 - drop_bit 3 (count0 pms)) AND 63) = k" unfolding c pad_length k_def ..
  have "take (unat ((55 - drop_bit 3 (count0 pms)) AND 63) + 1) md5_pad = 0x80 # replicate k 0"
    unfolding k by (rule take_pad) (simp add: k_def less_Suc_eq_le [symmetric])
  moreover have "map (\<lambda>i. ucast (drop_bit (i mod 4 * 8) ([count0 pms, count1 pms] ! (i div 4)))) [0..<8] = bytes"
    unfolding c bytes_def by (rule length_bytes)
  moreover define p where "p = md5_append bytes (md5_append (0x80 # replicate k 0) pms)"
  ultimately have f: "md5_finish pms = (case abcd p of (a, b, c, d) \<Rightarrow> concat (map (wr_le 4) [a, b, c, d]))"
    unfolding md5_finish_def Let_def wr_le_regs by simp
  have "absorbed ((data @ 0x80 # replicate k 0) @ bytes) p"
    unfolding p_def by (intro absorbed_append ab)
  then have "abcd p = foldl md5_compress md5_start (chunks64 (md5_padded data))"
    by (simp add: absorbed_def md5_padded_def k_def bytes_def)
  then show ?thesis unfolding f md5_rfc_def by (simp add: rfc_bytes_eq)
qed

lemma absorbed_pieces: "absorbed data pms \<Longrightarrow> absorbed (data @ concat pieces) (fold md5_append pieces pms)"
proof (induction pieces arbitrary: data pms)
  case (Cons d ds)
  then show ?case using Cons.IH [OF absorbed_append [OF Cons.prems, of d]] by simp
qed simp

subsection \<open>Property\<close>

text \<open>
  C39: However the message is cut into the pieces given to \<open>md5_append\<close>, and whatever the buffer holds at first,
  \<open>md5_finish\<close> returns the MD5 of RFC 1321 of the whole message.
\<close>
theorem md5_standard:
  assumes "length junk = 64"
  shows "md5_finish (fold md5_append pieces (md5_init junk)) = md5_rfc (concat pieces)"
  using absorbed_finish [OF absorbed_pieces [OF absorbed_init [OF assms]]] by simp

theorem md5_standard_witness:
  "md5_hash_string ''abc'' = string_of (md5_rfc (bytes_of ''a'' @ bytes_of ''bc''))"
  using md5_standard [of "replicate 64 0" "[bytes_of ''abc'']"] by (simp add: md5_hash_string_def bytes_of_def)

end
