(* ===== verification/Ws_Hybi00.thy ===== *)
theory Ws_Hybi00
  imports Ws_Handshake Ws_Md5
begin

section \<open>websocketpp: the oldest draft\<close>

text \<open>
  \<open>processors/hybi00.hpp\<close>, the processor of the draft that knows no version header: its server handshake, and its
  frames, a text between the bytes \<open>0x00\<close> and \<open>0xFF\<close>.  Names that other processors have as well end in \<open>00\<close> here.
\<close>

subsection \<open>The handshake\<close>

definition validate_handshake00 :: "request \<Rightarrow> ws_ec" where
  "validate_handshake00 r =
     (if rq_method r \<noteq> ''GET'' then Some (Processor Proc_invalid_http_method)
      else if m_version r \<noteq> ''HTTP/1.1'' then Some (Processor Proc_invalid_http_version)
      else if get_header ''Sec-WebSocket-Key1'' r = [] \<or> get_header ''Sec-WebSocket-Key2'' r = [] \<or>
        get_header ''Sec-WebSocket-Key3'' r = [] then Some (Processor Proc_missing_required_header)
      else None)"

text \<open>The four bytes that \<open>result\<close> gets; \<open>htonl\<close> on a little-endian host.\<close>

definition decode_client_key :: "string \<Rightarrow> byte list" where
  "decode_client_key key =
     (let spaces = length (filter (\<lambda>c. c = CHR '' '') key);
          digits = filter isdig key;
          num = (word_of_nat (strtoul10 digits) :: u32)
      in if 0 < spaces \<and> 0 < num then rev (wr_le 4 (num div word_of_nat spaces)) else [0, 0, 0, 0])"

definition get_uri00 :: "bool \<Rightarrow> request \<Rightarrow> uri" where
  "get_uri00 secure r =
     (let h = get_header ''Host'' r; scheme = (if secure then ''wss'' else ''ws'') in
      case (rfind_char (CHR '':'') h, rfind_char (CHR '']'') h) of
        (None, _) \<Rightarrow> uri_of_host scheme h (rq_uri r)
      | (Some last_colon, Some last_sbrace) \<Rightarrow>
          if last_colon < last_sbrace then uri_of_host scheme h (rq_uri r)
          else uri_of_host_port scheme (take last_colon h) (drop (last_colon + 1) h) (rq_uri r)
      | (Some last_colon, None) \<Rightarrow>
          uri_of_host_port scheme (take last_colon h) (drop (last_colon + 1) h) (rq_uri r))"

text \<open>\<open>junk\<close> are the bytes of \<open>key_final\<close> before they are set: a short third key leaves some of them.\<close>

definition key_final00 :: "byte list \<Rightarrow> request \<Rightarrow> byte list" where
  "key_final00 junk req =
     (let key3 = bytes_of (get_header ''Sec-WebSocket-Key3'' req);
          k1 = store_at 0 (decode_client_key (get_header ''Sec-WebSocket-Key1'' req)) junk;
          k2 = store_at 4 (decode_client_key (get_header ''Sec-WebSocket-Key2'' req)) k1
      in store_at 8 (take (min 8 (length key3)) key3) k2)"

definition process_handshake00 :: "byte list \<Rightarrow> bool \<Rightarrow> request \<Rightarrow> string \<Rightarrow> response \<Rightarrow> ws_ec \<times> response" where
  "process_handshake00 junk secure req subprotocol res =
     (let s1 = snd (append_header ''Sec-WebSocket-Key3'' (md5_hash_string (string_of (key_final00 junk req))) res);
          s2 = snd (append_header ''Upgrade'' ''WebSocket'' s1);
          s3 = snd (append_header ''Connection'' ''Upgrade'' s2);
          s4 = (if get_header ''Sec-WebSocket-Origin'' s3 = []
                then snd (append_header ''Sec-WebSocket-Origin'' (get_header ''Origin'' req) s3) else s3);
          s5 = (if get_header ''Sec-WebSocket-Location'' s4 = []
                then snd (append_header ''Sec-WebSocket-Location'' (uri_str (get_uri00 secure req)) s4) else s4)
      in (None, if subprotocol \<noteq> [] then replace_header ''Sec-WebSocket-Protocol'' subprotocol s5 else s5))"

definition no_protocol_support :: ws_ec where
  "no_protocol_support = Some (Processor Proc_no_protocol_support)"

definition get_raw00 :: "response \<Rightarrow> string" where
  "get_raw00 res = response_raw (remove_header ''Sec-WebSocket-Key3'' res) @ get_header ''Sec-WebSocket-Key3'' res"

definition extract_subprotocols00 :: "request \<Rightarrow> string list \<Rightarrow> ws_ec \<times> string list" where
  "extract_subprotocols00 req subprotocol_list =
     (if get_header ''Sec-WebSocket-Protocol'' req \<noteq> [] then
        (case get_header_as_plist ''Sec-WebSocket-Protocol'' req [] of
           (False, p) \<Rightarrow> (None, subprotocol_list @ map fst p)
         | (True, p) \<Rightarrow> (Some (Processor Proc_subprotocol_parse_error), subprotocol_list))
      else (None, subprotocol_list))"

subsection \<open>Reading frames\<close>

datatype state00 = HEADER00 | PAYLOAD00 | READY00 | FATAL_ERROR00

record hybi00 =
  state00 :: state00
  msg00 :: "ws_msg option"

definition new_hybi00 :: hybi00 where
  "new_hybi00 = \<lparr>state00 = HEADER00, msg00 = None\<rparr>"

definition msg_hdr :: byte where "msg_hdr = 0x00"
definition msg_ftr :: byte where "msg_ftr = 0xff"

text \<open>
  The loop, on the bytes that are left: the new state, how many bytes were used, and the error code.  After a wrong
  first byte the next turn ends the loop.
\<close>

function consume00 :: "hybi00 \<Rightarrow> byte list \<Rightarrow> hybi00 \<times> nat \<times> ws_ec" where
  "consume00 h buf =
     (if buf = [] then (h, 0, None)
      else case state00 h of
        HEADER00 \<Rightarrow>
          if hd buf = msg_hdr then
            (case consume00 (h\<lparr>msg00 := Some (new_message op_text), state00 := PAYLOAD00\<rparr>) (tl buf) of
               (h1, p, ec) \<Rightarrow> (h1, p + 1, ec))
          else (h\<lparr>state00 := FATAL_ERROR00\<rparr>, 0, Some (Processor Proc_protocol_violation))
      | PAYLOAD00 \<Rightarrow>
          (case msg00 h of
             None \<Rightarrow> (h, 0, Some (Undefined Null_pointer))
           | Some m \<Rightarrow>
               (let chunk = takeWhile (\<lambda>b. b \<noteq> msg_ftr) buf;
                    h1 = h\<lparr>msg00 := Some (append_payload chunk m)\<rparr>
                in if length chunk < length buf then (h1\<lparr>state00 := READY00\<rparr>, length chunk + 1, None)
                   else (h1, length chunk, None)))
      | _ \<Rightarrow> (h, 0, None))"
  by pat_completeness auto
termination by (relation "measure (\<lambda>(h, buf). length buf)") auto

declare consume00.simps [simp del]

definition ready00 :: "hybi00 \<Rightarrow> bool" where
  "ready00 h \<longleftrightarrow> state00 h = READY00"

definition get_message00 :: "hybi00 \<Rightarrow> hybi00 \<times> ws_msg option" where
  "get_message00 h = (h\<lparr>msg00 := None, state00 := HEADER00\<rparr>, msg00 h)"

subsection \<open>Preparing frames\<close>

definition prepare_data_frame00 :: "ws_msg option \<Rightarrow> ws_msg option \<Rightarrow> ws_msg option \<times> ws_ec" where
  "prepare_data_frame00 inp outp =
     (case (inp, outp) of
        (Some i, Some out) \<Rightarrow>
          if m_opcode i \<noteq> op_text then (outp, Some (Processor Proc_invalid_opcode))
          else if \<not> validate (m_payload i) then (outp, Some (Processor Proc_invalid_payload))
          else (Some (out\<lparr>m_header := [msg_hdr], m_payload := m_payload i @ [msg_ftr], m_prepared := True\<rparr>), None)
      | _ \<Rightarrow> (outp, Some (Processor Proc_invalid_arguments)))"

definition prepare_ping00 :: "byte list \<Rightarrow> ws_msg option \<Rightarrow> ws_msg option \<times> ws_ec" where
  "prepare_ping00 inp outp = (outp, no_protocol_support)"

definition prepare_pong00 :: "byte list \<Rightarrow> ws_msg option \<Rightarrow> ws_msg option \<times> ws_ec" where
  "prepare_pong00 inp outp = (outp, no_protocol_support)"

definition prepare_close00 :: "close_code \<Rightarrow> byte list \<Rightarrow> ws_msg option \<Rightarrow> ws_msg option \<times> ws_ec" where
  "prepare_close00 code reason outp =
     (case outp of
        None \<Rightarrow> (outp, Some (Processor Proc_invalid_arguments))
      | Some out \<Rightarrow> (Some (out\<lparr>m_payload := [0xff, 0x00], m_prepared := True\<rparr>), None))"

subsection \<open>The loop of the connection\<close>

text \<open>
  \<open>handle_read_frame\<close> calls the processor until a buffer is used up; here with the messages it dispatches and the
  error.  A processor that uses nothing makes it run for ever.
\<close>

definition with_msg00 :: "ws_msg option \<Rightarrow> hybi00 \<times> ws_msg list \<times> ws_ec \<Rightarrow> hybi00 \<times> ws_msg list \<times> ws_ec" where
  "with_msg00 m r = (case r of (h, ms, ec) \<Rightarrow> (h, (case m of None \<Rightarrow> ms | Some x \<Rightarrow> x # ms), ec))"

partial_function (option) receive00 :: "hybi00 \<Rightarrow> byte list \<Rightarrow> (hybi00 \<times> ws_msg list \<times> ws_ec) option" where
  "receive00 h buf =
     (if buf = [] then Some (h, [], None)
      else case consume00 h buf of (h1, n, ec) \<Rightarrow>
        (case ec of
           Some e \<Rightarrow> Some (h1, [], Some e)
         | None \<Rightarrow>
           if ready00 h1 then
             (case get_message00 h1 of (h2, m) \<Rightarrow>
                Option.bind (receive00 h2 (drop n buf)) (\<lambda>r. Some (with_msg00 m r)))
           else receive00 h1 (drop n buf)))"

fun feed00 :: "hybi00 \<Rightarrow> byte list list \<Rightarrow> (hybi00 \<times> ws_msg list \<times> ws_ec) option" where
  "feed00 h [] = Some (h, [], None)"
| "feed00 h (c # cs) =
     (case receive00 h c of
        None \<Rightarrow> None
      | Some (h1, ms, Some e) \<Rightarrow> Some (h1, ms, Some e)
      | Some (h1, ms, None) \<Rightarrow>
          (case feed00 h1 cs of None \<Rightarrow> None | Some (h2, ms2, ec) \<Rightarrow> Some (h2, ms @ ms2, ec)))"

subsection \<open>What a stream means\<close>

text \<open>One byte after the other: the messages, the state and the error code.\<close>

fun rx00 :: "hybi00 \<Rightarrow> byte list \<Rightarrow> hybi00 \<times> ws_msg list \<times> ws_ec" where
  "rx00 h [] = (h, [], None)"
| "rx00 h (b # bs) =
     (case (state00 h, msg00 h) of
        (HEADER00, _) \<Rightarrow>
          if b = msg_hdr then rx00 (h\<lparr>msg00 := Some (new_message op_text), state00 := PAYLOAD00\<rparr>) bs
          else (h\<lparr>state00 := FATAL_ERROR00\<rparr>, [], Some (Processor Proc_protocol_violation))
      | (PAYLOAD00, Some m) \<Rightarrow>
          if b = msg_ftr then with_msg00 (Some m) (rx00 (h\<lparr>msg00 := None, state00 := HEADER00\<rparr>) bs)
          else rx00 (h\<lparr>msg00 := Some (append_payload [b] m)\<rparr>) bs
      | _ \<Rightarrow> (h, [], None))"

definition between00 :: "hybi00 \<Rightarrow> bool" where
  "between00 h \<longleftrightarrow> state00 h = HEADER00 \<or> state00 h = PAYLOAD00 \<and> msg00 h \<noteq> None"

lemma append_payload_nil [simp]: "append_payload [] m = m"
  by (simp add: append_payload_def)

lemma append_payload_twice [simp]: "append_payload b (append_payload a m) = append_payload (a @ b) m"
  by (simp add: append_payload_def)

lemma rx00_chunk:
  assumes "state00 h = PAYLOAD00" "msg_ftr \<notin> set chunk"
  shows "rx00 (h\<lparr>msg00 := Some m\<rparr>) (chunk @ bs) = rx00 (h\<lparr>msg00 := Some (append_payload chunk m)\<rparr>) bs"
  using assms by (induction chunk arbitrary: m) auto

lemma consume00_payload:
  assumes "state00 h = PAYLOAD00" "msg00 h = Some m"
  shows "consume00 h buf =
    (let chunk = takeWhile (\<lambda>b. b \<noteq> msg_ftr) buf; h1 = h\<lparr>msg00 := Some (append_payload chunk m)\<rparr>
     in if length chunk < length buf then (h1\<lparr>state00 := READY00\<rparr>, length chunk + 1, None) else (h1, length chunk, None))"
proof -
  have "h\<lparr>msg00 := Some m\<rparr> = h" using assms(2) by simp
  then show ?thesis using assms by (cases "buf = []") (auto simp: consume00.simps [of h])
qed

lemma split_at_ftr:
  obtains "takeWhile (\<lambda>b. b \<noteq> msg_ftr) buf = buf" "msg_ftr \<notin> set buf"
  | chunk rest where "buf = chunk @ msg_ftr # rest" "takeWhile (\<lambda>b. b \<noteq> msg_ftr) buf = chunk" "msg_ftr \<notin> set chunk"
proof (cases "msg_ftr \<in> set buf")
  case True
  then obtain chunk rest where "buf = chunk @ msg_ftr # rest" "msg_ftr \<notin> set chunk" by (meson split_list_first)
  moreover from this have "takeWhile (\<lambda>b. b \<noteq> msg_ftr) buf = chunk" by (auto simp: takeWhile_tail takeWhile_eq_all_conv)
  ultimately show ?thesis using that(2) by blast
next
  case False
  then show ?thesis by (intro that(1)) (auto simp: takeWhile_eq_all_conv)
qed

text \<open>One call, from a header or inside a payload, is a step of \<open>rx00\<close>; \<open>k\<close> bytes of the header came before.\<close>

lemma receive00_payload:
  assumes "state00 h = PAYLOAD00" "msg00 h = Some m"
    and IH: "\<And>h' rest. length rest < length buf \<Longrightarrow> between00 h' \<Longrightarrow> receive00 h' rest = Some (rx00 h' rest)"
  shows "(case consume00 h buf of (h1, n, ec) \<Rightarrow>
       (case ec of Some e \<Rightarrow> Some (h1, [], Some e)
        | None \<Rightarrow> if ready00 h1 then (case get_message00 h1 of (h2, msg) \<Rightarrow>
              Option.bind (receive00 h2 (drop n buf)) (\<lambda>r. Some (with_msg00 msg r)))
            else receive00 h1 (drop n buf))) = Some (rx00 h buf)"
proof (cases rule: split_at_ftr [of buf])
  case 1
  have "h\<lparr>msg00 := Some m\<rparr> = h" using assms(2) by simp
  then have "rx00 h buf = (h\<lparr>msg00 := Some (append_payload buf m)\<rparr>, [], None)"
    using rx00_chunk [OF assms(1) 1(2), of m "[]"] by simp
  then show ?thesis using assms(1)
    by (simp add: consume00_payload [OF assms(1,2)] 1(1) ready00_def receive00.simps [of _ "[]"] Let_def del: takeWhile_eq_all_conv)
next
  case (2 chunk rest)
  have "h\<lparr>msg00 := Some m\<rparr> = h" using assms(2) by simp
  then have "rx00 h buf = rx00 (h\<lparr>msg00 := Some (append_payload chunk m)\<rparr>) (msg_ftr # rest)"
    using rx00_chunk [OF assms(1) 2(3), of m "msg_ftr # rest"] 2(1) by simp
  also have "\<dots> = with_msg00 (Some (append_payload chunk m)) (rx00 (h\<lparr>msg00 := None, state00 := HEADER00\<rparr>) rest)"
    using assms(1) by simp
  finally have rx: "rx00 h buf = \<dots>" .
  have "receive00 (h\<lparr>msg00 := None, state00 := HEADER00\<rparr>) rest = Some (rx00 (h\<lparr>msg00 := None, state00 := HEADER00\<rparr>) rest)"
    by (rule IH) (simp_all add: 2(1) between00_def)
  then show ?thesis unfolding rx using 2(1,2) assms(1)
    by (simp add: consume00_payload [OF assms(1,2)] ready00_def get_message00_def Let_def)
qed

lemma receive00_rx: "between00 h \<Longrightarrow> receive00 h buf = Some (rx00 h buf)"
proof (induction "length buf" arbitrary: h buf rule: less_induct)
  case less
  have IH: "length rest < length buf \<Longrightarrow> between00 h' \<Longrightarrow> receive00 h' rest = Some (rx00 h' rest)" for h' rest
    using less.hyps by blast
  show ?case
  proof (cases "buf = []")
    case True
    then show ?thesis by (simp add: receive00.simps [of h])
  next
    case False
    then have unf: "receive00 h buf = (case consume00 h buf of (h1, n, ec) \<Rightarrow>
       (case ec of Some e \<Rightarrow> Some (h1, [], Some e)
        | None \<Rightarrow> if ready00 h1 then (case get_message00 h1 of (h2, msg) \<Rightarrow>
              Option.bind (receive00 h2 (drop n buf)) (\<lambda>r. Some (with_msg00 msg r)))
            else receive00 h1 (drop n buf)))" by (subst receive00.simps) simp
    obtain b bs where buf: "buf = b # bs" using False by (cases buf) auto
    show ?thesis
    proof (cases "state00 h = HEADER00")
      case True
      define h0 where "h0 = h\<lparr>msg00 := Some (new_message op_text), state00 := PAYLOAD00\<rparr>"
      show ?thesis
      proof (cases "b = msg_hdr")
        case hdr: True
        have "consume00 h buf = (case consume00 h0 bs of (h1, p, ec) \<Rightarrow> (h1, p + 1, ec))"
          unfolding buf using True hdr by (subst consume00.simps) (simp add: h0_def)
        moreover have rx: "rx00 h buf = rx00 h0 bs" using True hdr by (simp add: buf h0_def)
        moreover obtain h1 p ec where c: "consume00 h0 bs = (h1, p, ec)" by (metis prod_cases3)
        moreover have "state00 h0 = PAYLOAD00" "msg00 h0 = Some (new_message op_text)" by (simp_all add: h0_def)
        note F = receive00_payload [OF this, of bs, OF IH]
        have "drop (p + 1) buf = drop p bs" by (simp add: buf)
        ultimately show ?thesis using F unfolding unf rx
          by (cases ec; cases "get_message00 h1"; cases "ready00 h1") (simp_all add: buf)
      next
        case False
        then show ?thesis using True unfolding unf by (simp add: consume00.simps [of h "b # bs"] buf)
      qed
    next
      case False
      then obtain m where "state00 h = PAYLOAD00" "msg00 h = Some m" using less.prems by (auto simp: between00_def)
      from receive00_payload [OF this, of buf] IH show ?thesis unfolding unf by blast
    qed
  qed
qed


subsection \<open>Messages arrive\<close>

lemma with_msg00_simps [simp]: "with_msg00 None r = r" "with_msg00 (Some m) (h, ms, ec) = (h, m # ms, ec)"
  by (simp_all add: with_msg00_def split: prod.splits)

lemma rx00_between:
  "between00 h \<Longrightarrow> rx00 h bs = (h1, ms, None) \<Longrightarrow> between00 h1"
proof (induction h bs arbitrary: ms rule: rx00.induct)
  case (2 h b bs)
  have w: "with_msg00 m r = (h1, ms, None) \<Longrightarrow> \<exists>ms'. r = (h1, ms', None)" for m r
    by (cases r) (auto simp: with_msg00_def)
  show ?case using 2 by (auto simp: between00_def split: if_splits state00.splits option.splits dest!: w)
qed simp

lemma rx00_append:
  assumes "rx00 h a = (h1, ms, None)" "rx00 h1 b = (h2, ms2, ec)" "between00 h"
  shows "rx00 h (a @ b) = (h2, ms @ ms2, ec)"
  using assms
proof (induction h a arbitrary: ms rule: rx00.induct)
  case (2 h c a)
  have w: "with_msg00 m r = (h1, ms, None) \<Longrightarrow> \<exists>ms'. r = (h1, ms', None) \<and> ms = (case m of None \<Rightarrow> ms' | Some x \<Rightarrow> x # ms')" for m r
    by (cases r) (auto simp: with_msg00_def)
  show ?case using 2 by (auto simp: between00_def split: if_splits state00.splits option.splits dest!: w)
qed simp

lemma rx00_error_append:
  assumes "rx00 h a = (h1, ms, Some e)"
  shows "rx00 h (a @ b) = (h1, ms, Some e)"
  using assms
proof (induction h a arbitrary: ms rule: rx00.induct)
  case (2 h c a)
  have w: "with_msg00 m r = (h1, ms, Some e) \<Longrightarrow> \<exists>ms'. r = (h1, ms', Some e) \<and> ms = (case m of None \<Rightarrow> ms' | Some x \<Rightarrow> x # ms')" for m r
    by (cases r) (auto simp: with_msg00_def)
  show ?case using 2 by (auto split: if_splits state00.splits option.splits dest!: w)
qed simp

lemma feed00_rx: "between00 h \<Longrightarrow> feed00 h bufs = Some (rx00 h (concat bufs))"
proof (induction bufs arbitrary: h)
  case (Cons c cs)
  obtain h1 ms ec where c: "rx00 h c = (h1, ms, ec)" by (metis prod_cases3)
  show ?case
  proof (cases ec)
    case None
    obtain h2 ms2 ec2 where cs: "rx00 h1 (concat cs) = (h2, ms2, ec2)" by (metis prod_cases3)
    have "between00 h1" using rx00_between [OF Cons.prems] c None by simp
    then show ?thesis using Cons rx00_append [OF _ cs Cons.prems] c cs None by (simp add: receive00_rx)
  next
    case (Some e)
    then show ?thesis using Cons.prems rx00_error_append [of h c h1 ms e] c by (simp add: receive00_rx)
  qed
qed simp

lemma validate_no_ftr: "validate t \<Longrightarrow> msg_ftr \<notin> set t"
proof
  assume v: "validate t" and "msg_ftr \<in> set t"
  then obtain xs ys where "t = xs @ msg_ftr # ys" by (meson split_list)
  then have "urun 0 (map unat t) = urun (ustep (urun 0 (map unat xs)) 255) (map unat ys)" by (simp add: msg_ftr_def)
  moreover have "urun 0 zs < 9" for zs by (cases zs rule: rev_cases) simp_all
  then have "ustep (urun 0 (map unat xs)) 255 = 1"
  proof -
    have "list_all (\<lambda>s. ustep s 255 = 1) [0..<9]" by code_simp
    then show ?thesis using \<open>\<And>zs. urun 0 zs < 9\<close> [of "map unat xs"] by (simp only: list_all_iff) simp
  qed
  ultimately show False using v by (simp add: validate_run)
qed

text \<open>What the peer sends for a text.\<close>

definition wire00 :: "byte list \<Rightarrow> byte list" where
  "wire00 t = (case prepare_data_frame00 (Some (append_payload t (new_message op_text))) (Some blank_message) of
     (Some out, None) \<Rightarrow> m_header out @ m_payload out | _ \<Rightarrow> [])"

lemma wire00_bytes: "validate t \<Longrightarrow> wire00 t = msg_hdr # t @ [msg_ftr]"
  by (simp add: wire00_def prepare_data_frame00_def append_payload_def new_message_def)

lemma rx00_text:
  assumes "validate t" "state00 h = HEADER00"
  shows "rx00 h (wire00 t @ rest) = with_msg00 (Some (append_payload t (new_message op_text))) (rx00 (h\<lparr>msg00 := None\<rparr>) rest)"
proof -
  define h0 where "h0 = h\<lparr>msg00 := Some (new_message op_text), state00 := PAYLOAD00\<rparr>"
  have swap: "h\<lparr>state00 := PAYLOAD00, msg00 := Some (new_message op_text)\<rparr> = h0" by (cases h) (simp add: h0_def)
  have "rx00 h (wire00 t @ rest) = rx00 (h0\<lparr>msg00 := Some (new_message op_text)\<rparr>) (t @ msg_ftr # rest)"
  proof -
    have "h0\<lparr>msg00 := Some (new_message op_text)\<rparr> = h0" by (simp add: h0_def)
    then show ?thesis using assms by (simp add: wire00_bytes swap) (simp add: h0_def)
  qed
  also have "\<dots> = rx00 (h0\<lparr>msg00 := Some (append_payload t (new_message op_text))\<rparr>) (msg_ftr # rest)"
    by (rule rx00_chunk) (simp_all add: h0_def validate_no_ftr [OF assms(1)])
  finally have "rx00 h (wire00 t @ rest) = \<dots>" .
  moreover have "h\<lparr>msg00 := None, state00 := HEADER00\<rparr> = h\<lparr>msg00 := None\<rparr>" using assms(2) by (cases h) simp
  ultimately show ?thesis by (simp add: h0_def)
qed

lemma rx00_texts:
  assumes "\<forall>t \<in> set ts. validate t"
  shows "rx00 new_hybi00 (concat (map wire00 ts) @ rest) =
    (case rx00 new_hybi00 rest of (h, ms, ec) \<Rightarrow> (h, map (\<lambda>t. append_payload t (new_message op_text)) ts @ ms, ec))"
  using assms
proof (induction ts)
  case (Cons t ts)
  have "new_hybi00\<lparr>msg00 := None\<rparr> = new_hybi00" "state00 new_hybi00 = HEADER00" by (simp_all add: new_hybi00_def)
  then show ?case using Cons rx00_text [of t new_hybi00 "concat (map wire00 ts) @ rest"]
    by (auto split: prod.splits)
qed (simp split: prod.splits)

subsection \<open>Property\<close>

text \<open>
  C40: Texts that a peer of the oldest draft sends arrive in order, however their bytes are cut into buffers; but
  the close frame that the same draft prepares is answered as a breach of the protocol.
\<close>
theorem hybi00_texts_arrive:
  assumes "\<forall>t \<in> set ts. validate t" "concat bufs = concat (map wire00 ts)"
    and "prepare_close00 code reason (Some blank_message) = (Some out, None)"
  shows "(\<exists>ms. feed00 new_hybi00 bufs = Some (new_hybi00, ms, None) \<and> map m_payload ms = ts \<and> (\<forall>m \<in> set ms. m_opcode m = op_text)) \<and>
    (\<exists>h ms. feed00 new_hybi00 (bufs @ [m_header out @ m_payload out]) = Some (h, ms, Some (Processor Proc_protocol_violation)) \<and>
      map m_payload ms = ts)"
proof -
  define ms where "ms = map (\<lambda>t. append_payload t (new_message op_text)) ts"
  have b: "between00 new_hybi00" by (simp add: between00_def new_hybi00_def)
  have m: "map m_payload ms = ts" "\<forall>m \<in> set ms. m_opcode m = op_text"
    by (simp_all add: ms_def append_payload_def new_message_def comp_def)
  have "feed00 new_hybi00 bufs = Some (new_hybi00, ms, None)"
    using rx00_texts [OF assms(1), of "[]"] by (simp add: feed00_rx [OF b] assms(2) ms_def)
  moreover have "m_header out @ m_payload out = [0xff, 0x00]"
    using assms(3) by (auto simp: prepare_close00_def blank_message_def new_message_def)
  then have "feed00 new_hybi00 (bufs @ [m_header out @ m_payload out]) =
      Some (new_hybi00\<lparr>state00 := FATAL_ERROR00\<rparr>, ms, Some (Processor Proc_protocol_violation))"
    using rx00_texts [OF assms(1), of "[0xff, 0x00]"]
    by (simp add: feed00_rx [OF b] assms(2) ms_def) (simp add: new_hybi00_def msg_hdr_def)
  ultimately show ?thesis using m by blast
qed

theorem hybi00_texts_arrive_witness:
  "\<exists>ms. feed00 new_hybi00 [[0x00, 0x68], [0x69, 0xff, 0x00], [0xff]] = Some (new_hybi00, ms, None) \<and> map m_payload ms = [[0x68, 0x69], []]"
proof -
  have v: "\<forall>t \<in> set [[0x68, 0x69 :: byte], []]. validate t" by code_simp
  have "concat [[0x00, 0x68], [0x69, 0xff, 0x00], [0xff]] = concat (map wire00 [[0x68, 0x69 :: byte], []])"
    using v by (simp add: wire00_bytes msg_hdr_def msg_ftr_def)
  from hybi00_texts_arrive [OF v this, of 1000 "[]"] show ?thesis by (auto simp: prepare_close00_def)
qed

end
