(* ===== verification/Ws_Opening.thy ===== *)
theory Ws_Opening
  imports Ws_Delivery Ws_Hybi00
begin

section \<open>websocketpp: the connection during the opening handshake\<close>

text \<open>
  The part of \<open>impl/connection_impl.hpp\<close> that runs before the connection is open: the application prepares the
  connection, the transport is initialised, the handshake is read, judged and answered.  \<open>open_state\<close> holds the members
  that only this part uses, and the \<open>connection\<close> of \<open>Ws_Connection\<close>.  A function returns the new state and what it
  asks for (\<open>open_effect\<close>).  The functions end with a call of \<open>handle_read_frame\<close> on the bytes behind the handshake;
  it is the last effect, \<open>Handle_read_frame\<close>.  \<open>o_processor\<close> is the pointer \<open>m_processor\<close>: null, or the version of its
  object; the state of the processors that read frames of RFC 6455 is \<open>m_processor (o_con o)\<close>, and \<open>hybi00\<close> has none
  before the first frame.  The transport answers \<open>is_secure\<close> with \<open>o_secure\<close>.
\<close>

subsection \<open>State and effects\<close>

datatype http_state = http_init | http_deferred | http_headers_written | http_body_written | http_closed

record open_state =
  o_con :: connection
  o_secure :: bool
  o_user_agent :: string
  o_timeout_dur :: int
  o_processor :: "int option"
  o_request :: request
  o_response :: response
  o_uri :: "uri option"
  o_subprotocol :: string
  o_requested :: "string list"
  o_handshake_buffer :: string
  o_buf :: "byte list"                \<comment> \<open>the first \<open>m_buf_cursor\<close> bytes of \<open>m_buf\<close>\<close>
  o_is_http :: bool
  o_http_state :: http_state

datatype open_effect =
    Con con_effect
  | Init_transport
  | Async_read_handshake
  | Async_read_response
  | Async_write_response string
  | Async_write_request string
  | Set_open_timer int
  | Call_http_handler
  | Call_validate_handler
  | Call_open_handler
  | Handle_read_frame "byte list"
  | Null_dereference

type_synonym open_result = "open_state \<times> open_effect list"

text \<open>\<open>f\<close> runs after the effects of \<open>r\<close>.\<close>

definition followed_by :: "open_result \<Rightarrow> (open_state \<Rightarrow> open_result) \<Rightarrow> open_result" where
  "followed_by r f = (case r of (o1, effs1) \<Rightarrow> (case f o1 of (o2, effs2) \<Rightarrow> (o2, effs1 @ effs2)))"

definition connection_read_buffer_size :: nat where "connection_read_buffer_size = 16384"
definition client_version :: int where "client_version = 13"
definition timeout_open_handshake :: int where "timeout_open_handshake = 5000"
definition versions_supported :: "int list" where "versions_supported = [0, 7, 8, 13]"

text \<open>The members that the constructor sets; the application has set its handlers.\<close>

definition new_opening :: "bool \<Rightarrow> bool \<Rightarrow> string \<Rightarrow> open_state" where
  "new_opening server secure ua =
     \<lparr>o_con = (open_connection server)\<lparr>con_state := Connecting, m_internal_state := USER_INIT\<rparr>,
      o_secure = secure, o_user_agent = ua, o_timeout_dur = timeout_open_handshake, o_processor = None,
      o_request = new_request, o_response = new_response, o_uri = None, o_subprotocol = [], o_requested = [],
      o_handshake_buffer = [], o_buf = [], o_is_http = False, o_http_state = http_init\<rparr>"

definition lift_con :: "(connection \<Rightarrow> connection \<times> con_effect list) \<Rightarrow> open_state \<Rightarrow> open_result" where
  "lift_con f s = (case f (o_con s) of (c, effs) \<Rightarrow> (s\<lparr>o_con := c\<rparr>, map Con effs))"

definition set_istate :: "istate \<Rightarrow> open_state \<Rightarrow> open_state" where
  "set_istate i s = s\<lparr>o_con := (o_con s)\<lparr>m_internal_state := i\<rparr>\<rparr>"

definition upd_response :: "(response \<Rightarrow> response) \<Rightarrow> open_state \<Rightarrow> open_state" where
  "upd_response f s = s\<lparr>o_response := f (o_response s)\<rparr>"

text \<open>\<open>terminate\<close>, with the lines for HTTP connections.\<close>

definition terminate_opening :: "ws_ec \<Rightarrow> open_state \<Rightarrow> open_result" where
  "terminate_opening ec s =
     lift_con (terminate ec) (if o_is_http s then s\<lparr>o_http_state := http_closed\<rparr> else s)"

definition cancel_open_timer :: "open_state \<Rightarrow> open_result" where
  "cancel_open_timer s =
     (if m_handshake_timer (o_con s)
      then (s\<lparr>o_con := (o_con s)\<lparr>m_handshake_timer := False\<rparr>\<rparr>, [Con Cancel_handshake_timer]) else (s, []))"

definition set_open_timer :: "open_state \<Rightarrow> open_result" where
  "set_open_timer s =
     (if 0 < o_timeout_dur s
      then (s\<lparr>o_con := (o_con s)\<lparr>m_handshake_timer := True\<rparr>\<rparr>, [Set_open_timer (o_timeout_dur s)]) else (s, []))"

subsection \<open>The processor\<close>

text \<open>\<open>get_processor\<close>, and the virtual functions: \<open>hybi07\<close> and \<open>hybi08\<close> inherit those of \<open>hybi13\<close> but one.\<close>

definition get_processor :: "int \<Rightarrow> open_state \<Rightarrow> open_state" where
  "get_processor version s =
     (if version = 0 then s\<lparr>o_processor := Some 0\<rparr>
      else if version = 7 \<or> version = 8 \<or> version = 13 then
        s\<lparr>o_processor := Some version,
          o_con := (o_con s)\<lparr>m_processor := new_hybi13 (m_is_server (o_con s)) max_message_size\<rparr>\<rparr>
      else s\<lparr>o_processor := None\<rparr>)"

definition processor_validate :: "int \<Rightarrow> request \<Rightarrow> ws_ec" where
  "processor_validate v r = (if v = 0 then validate_handshake00 r else validate_handshake r)"

definition processor_extensions :: "int \<Rightarrow> 'a http_scheme \<Rightarrow> ws_ec \<times> string" where
  "processor_extensions v header = (if v = 0 then (None, []) else negotiate_extensions header)"

definition processor_uri :: "int \<Rightarrow> bool \<Rightarrow> request \<Rightarrow> uri" where
  "processor_uri v secure r = (if v = 0 then get_uri00 secure r else get_uri secure r)"

definition processor_subprotocols :: "int \<Rightarrow> request \<Rightarrow> string list \<Rightarrow> ws_ec \<times> string list" where
  "processor_subprotocols v r l = (if v = 0 then extract_subprotocols00 r l else extract_subprotocols r l)"

text \<open>The third key has eight bytes here, which leave nothing of the array as it was (\<open>key_final00_junk\<close>).\<close>

definition processor_handshake :: "int \<Rightarrow> bool \<Rightarrow> request \<Rightarrow> string \<Rightarrow> response \<Rightarrow> ws_ec \<times> response" where
  "processor_handshake v secure r subprotocol res =
     (if v = 0 then process_handshake00 (replicate 16 0) secure r subprotocol res
      else process_handshake r subprotocol res)"

definition processor_raw :: "int \<Rightarrow> response \<Rightarrow> string" where
  "processor_raw v res = (if v = 0 then get_raw00 res else response_raw res)"

definition processor_request :: "int \<Rightarrow> (nat \<Rightarrow> u32) \<Rightarrow> nat \<Rightarrow> request \<Rightarrow> uri \<Rightarrow> string list \<Rightarrow> ws_ec \<times> request" where
  "processor_request v rng n r u subprotocols =
     (if v = 13 then client_handshake_request rng n r u subprotocols else (no_protocol_support, r))"

definition processor_validate_response :: "int \<Rightarrow> request \<Rightarrow> response \<Rightarrow> ws_ec" where
  "processor_validate_response v r res =
     (if v = 0 then no_protocol_support else validate_server_handshake_response r res)"

subsection \<open>The answer\<close>

definition write_http_response :: "ws_ec \<Rightarrow> open_state \<Rightarrow> open_result" where
  "write_http_response ec s =
     (if ec = Some (Library Lib_http_connection_ended) then (s, [])
      else let
        s1 = (if rs_status_code (o_response s) = 0
              then (upd_response (set_status 500) s)\<lparr>o_con := (o_con s)\<lparr>m_ec := Some (Library Lib_general)\<rparr>\<rparr>
              else s\<lparr>o_con := (o_con s)\<lparr>m_ec := ec\<rparr>\<rparr>);
        s2 = upd_response (\<lambda>r. r\<lparr>m_version := ''HTTP/1.1''\<rparr>) s1;
        s3 = (if get_header ''Server'' (o_response s2) = [] then
                (if o_user_agent s2 \<noteq> [] then upd_response (replace_header ''Server'' (o_user_agent s2)) s2
                 else upd_response (remove_header ''Server'') s2)
              else s2);
        raw = (case o_processor s3 of Some v \<Rightarrow> processor_raw v (o_response s3) | None \<Rightarrow> response_raw (o_response s3))
      in (s3\<lparr>o_handshake_buffer := raw\<rparr>, [Async_write_response raw]))"

definition write_http_response_error :: "ws_ec \<Rightarrow> open_state \<Rightarrow> open_result" where
  "write_http_response_error ec s =
     (if m_internal_state (o_con s) \<noteq> READ_HTTP_REQUEST then terminate_opening invalid_state s
      else write_http_response ec (set_istate PROCESS_HTTP_REQUEST s))"

subsection \<open>Calls of the application\<close>

text \<open>
  What an application can change before the connection is open.  A call returns an error code, or throws and changes
  nothing; here the application goes on in both cases.
\<close>

datatype setup_call =
    Set_status status_code
  | Set_status_msg status_code string
  | Set_body string
  | Append_header string string
  | Replace_header string string
  | Remove_header string
  | Add_subprotocol string
  | Select_subprotocol string
  | Set_uri uri
  | Defer_http_response
  | Send_http_response

definition con_set_status :: "status_code \<Rightarrow> open_state \<Rightarrow> open_state" where
  "con_set_status code s =
     (if m_internal_state (o_con s) \<noteq> PROCESS_HTTP_REQUEST then s else upd_response (set_status code) s)"

definition con_set_status_msg :: "status_code \<Rightarrow> string \<Rightarrow> open_state \<Rightarrow> open_state" where
  "con_set_status_msg code msg s =
     (if m_internal_state (o_con s) \<noteq> PROCESS_HTTP_REQUEST then s else upd_response (set_status_msg code msg) s)"

definition con_set_body :: "string \<Rightarrow> open_state \<Rightarrow> open_state" where
  "con_set_body value s =
     (if m_internal_state (o_con s) \<noteq> PROCESS_HTTP_REQUEST then s
      else upd_response (set_body value) s)"

definition con_append_header :: "string \<Rightarrow> string \<Rightarrow> open_state \<Rightarrow> open_state" where
  "con_append_header key val s =
     (if m_is_server (o_con s) then
        (if m_internal_state (o_con s) = PROCESS_HTTP_REQUEST then upd_response (\<lambda>r. snd (append_header key val r)) s else s)
      else if m_internal_state (o_con s) = USER_INIT then s\<lparr>o_request := snd (append_header key val (o_request s))\<rparr> else s)"

definition con_replace_header :: "string \<Rightarrow> string \<Rightarrow> open_state \<Rightarrow> open_state" where
  "con_replace_header key val s =
     (if m_is_server (o_con s) then
        (if m_internal_state (o_con s) = PROCESS_HTTP_REQUEST then upd_response (replace_header key val) s else s)
      else if m_internal_state (o_con s) = USER_INIT then s\<lparr>o_request := replace_header key val (o_request s)\<rparr> else s)"

definition con_remove_header :: "string \<Rightarrow> open_state \<Rightarrow> open_state" where
  "con_remove_header key s =
     (if m_is_server (o_con s) then
        (if m_internal_state (o_con s) = PROCESS_HTTP_REQUEST then upd_response (remove_header key) s else s)
      else if m_internal_state (o_con s) = USER_INIT then s\<lparr>o_request := remove_header key (o_request s)\<rparr> else s)"

definition add_subprotocol :: "string \<Rightarrow> open_state \<Rightarrow> open_state \<times> ws_ec" where
  "add_subprotocol value s =
     (if m_is_server (o_con s) then (s, Some (Library Lib_client_only))
      else if value = [] \<or> list_ex is_not_token_char value then (s, Some (Library Lib_invalid_subprotocol))
      else (s\<lparr>o_requested := o_requested s @ [value]\<rparr>, None))"

definition select_subprotocol :: "string \<Rightarrow> open_state \<Rightarrow> open_state \<times> ws_ec" where
  "select_subprotocol value s =
     (if \<not> m_is_server (o_con s) then (s, Some (Library Lib_server_only))
      else if value = [] then (s, None)
      else if value \<notin> set (o_requested s) then (s, Some (Library Lib_unrequested_subprotocol))
      else (s\<lparr>o_subprotocol := value\<rparr>, None))"

definition defer_http_response :: "open_state \<Rightarrow> open_result" where
  "defer_http_response s = (case cancel_open_timer s of (s1, effs) \<Rightarrow> (s1\<lparr>o_http_state := http_deferred\<rparr>, effs))"

definition send_http_response :: "open_state \<Rightarrow> open_result \<times> ws_ec" where
  "send_http_response s =
     (if o_http_state s \<noteq> http_deferred then ((s, []), invalid_state)
      else (write_http_response None (s\<lparr>o_http_state := http_body_written\<rparr>), None))"

definition run_setup :: "setup_call \<Rightarrow> open_state \<Rightarrow> open_result" where
  "run_setup call s =
     (case call of
        Set_status code \<Rightarrow> (con_set_status code s, [])
      | Set_status_msg code msg \<Rightarrow> (con_set_status_msg code msg s, [])
      | Set_body value \<Rightarrow> (con_set_body value s, [])
      | Append_header k v \<Rightarrow> (con_append_header k v s, [])
      | Replace_header k v \<Rightarrow> (con_replace_header k v s, [])
      | Remove_header k \<Rightarrow> (con_remove_header k s, [])
      | Add_subprotocol v \<Rightarrow> (fst (add_subprotocol v s), [])
      | Select_subprotocol v \<Rightarrow> (fst (select_subprotocol v s), [])
      | Set_uri u \<Rightarrow> (s\<lparr>o_uri := Some u\<rparr>, [])
      | Defer_http_response \<Rightarrow> defer_http_response s
      | Send_http_response \<Rightarrow> fst (send_http_response s))"

fun run_setups :: "setup_call list \<Rightarrow> open_state \<Rightarrow> open_result" where
  "run_setups [] s = (s, [])"
| "run_setups (c # cs) s = followed_by (run_setup c s) (run_setups cs)"

text \<open>The handlers that the application has set: what they call, and the verdict of the validate handler.\<close>

record open_app =
  validate_handler :: "(open_state \<Rightarrow> bool \<times> setup_call list) option"
  http_handler :: "(open_state \<Rightarrow> setup_call list) option"
  open_handler :: "api_call list option"

subsection \<open>The server\<close>

definition initialize_processor :: "open_state \<Rightarrow> open_state \<times> ws_ec" where
  "initialize_processor s =
     (if \<not> is_websocket_handshake (o_request s) then (s, None)
      else let version = get_websocket_version (o_request s) in
        if version < 0 then (upd_response (set_status 400) s, Some (Library Lib_invalid_version))
        else let s1 = get_processor version s in
          if o_processor s1 \<noteq> None then (s1, None)
          else (upd_response (\<lambda>r. replace_header ''Sec-WebSocket-Version''
                  (concat (map (\<lambda>(i, v). (if i = 0 then [] else '','') @ dec_int v) (enumerate 0 versions_supported)))
                  (set_status 400 r)) s1,
                Some (Library Lib_unsupported_version)))"

definition process_http :: "open_app \<Rightarrow> open_state \<Rightarrow> open_result \<times> ws_ec" where
  "process_http app s =
     (let u = get_uri_from_host (o_request s) (if o_secure s then ''https'' else ''http'');
          s1 = s\<lparr>o_uri := Some u\<rparr>
      in if \<not> u_valid u then ((upd_response (set_status 400) s1, []), Some (Library Lib_invalid_uri))
         else case http_handler app of
           Some h \<Rightarrow>
             (let s2 = s1\<lparr>o_is_http := True\<rparr>;
                  (s3, effs) = run_setups (h s2) s2
              in ((s3, Call_http_handler # effs),
                  if con_state (o_con s3) = Closed then Some (Library Lib_http_connection_ended) else None))
         | None \<Rightarrow> ((con_set_status 426 s1, []), Some (Library Lib_upgrade_required)))"

definition accept_or_reject :: "open_app \<Rightarrow> int \<Rightarrow> open_state \<Rightarrow> open_result \<times> ws_ec" where
  "accept_or_reject app v s =
     (let (accepted, s1, effs) =
        (case validate_handler app of
           None \<Rightarrow> (True, s, [])
         | Some h \<Rightarrow> (case run_setups (snd (h s)) s of (s1, effs) \<Rightarrow> (fst (h s), s1, Call_validate_handler # effs)))
      in if accepted then
           (case processor_handshake v (o_secure s1) (o_request s1) (o_subprotocol s1) (set_status 101 (o_response s1)) of
              (None, res) \<Rightarrow> ((s1\<lparr>o_response := res\<rparr>, effs), None)
            | (Some e, res) \<Rightarrow> ((s1\<lparr>o_response := set_status 500 res\<rparr>, effs), Some e))
         else ((if rs_status_code (o_response s1) = 0 then upd_response (set_status 400) s1 else s1, effs),
               Some (Library Lib_rejected)))"

definition process_handshake_request :: "open_app \<Rightarrow> open_state \<Rightarrow> open_result \<times> ws_ec" where
  "process_handshake_request app s =
     (if \<not> is_websocket_handshake (o_request s) then process_http app s
      else case o_processor s of
        None \<Rightarrow> ((s, [Null_dereference]), None)
      | Some v \<Rightarrow>
          (case processor_validate v (o_request s) of
             Some e \<Rightarrow> ((upd_response (set_status 400) s, []), Some e)
           | None \<Rightarrow>
             (case processor_extensions v (o_request s) of
                (Some e, _) \<Rightarrow> ((upd_response (set_status 400) s, []), Some e)
              | (None, exts) \<Rightarrow>
                (let s1 = (if exts \<noteq> [] then upd_response (replace_header ''Sec-WebSocket-Extensions'' exts) s else s);
                     u = processor_uri v (o_secure s1) (o_request s1);
                     s2 = s1\<lparr>o_uri := Some u\<rparr>
                 in if \<not> u_valid u then ((upd_response (set_status 400) s2, []), Some (Library Lib_invalid_uri))
                    else accept_or_reject app v
                      (s2\<lparr>o_requested := snd (processor_subprotocols v (o_request s2) (o_requested s2))\<rparr>)))))"

text \<open>The head that the four handlers share, with the internal state that each expects.\<close>

datatype io_check = Io_go | Io_ignore | Io_fail ws_error

definition check_io :: "istate \<Rightarrow> ws_ec \<Rightarrow> connection \<Rightarrow> io_check" where
  "check_io expected ec c =
     (if ec = None \<and> con_state c = Closed then Io_ignore
      else case (if ec = None \<and> \<not> (con_state c = Connecting \<and> m_internal_state c = expected) then invalid_state else ec) of
          None \<Rightarrow> Io_go
        | Some e \<Rightarrow> if e = Transport Tr_eof \<and> con_state c = Closed then Io_ignore else Io_fail e)"

definition read_handshake :: "open_state \<Rightarrow> open_result" where
  "read_handshake s = followed_by (set_open_timer s) (\<lambda>s1. (s1, [Async_read_handshake]))"

definition process_request :: "open_app \<Rightarrow> byte list \<Rightarrow> open_state \<Rightarrow> open_result" where
  "process_request app rest s =
     (case process_handshake_request app (set_istate PROCESS_HTTP_REQUEST (s\<lparr>o_buf := rest\<rparr>)) of
        (r, ec) \<Rightarrow> followed_by r (\<lambda>s1.
           if \<not> o_is_http s1 \<or> o_http_state s1 = http_init then write_http_response ec s1 else (s1, [])))"

definition request_complete :: "open_app \<Rightarrow> byte list \<Rightarrow> open_state \<Rightarrow> open_result" where
  "request_complete app rest s =
     (case initialize_processor s of
        (s1, Some e) \<Rightarrow> write_http_response_error (Some e) s1
      | (s1, None) \<Rightarrow>
          if o_processor s1 = Some 0 then
            (if 8 \<le> length rest then
               process_request app (drop 8 rest)
                 (s1\<lparr>o_request := replace_header ''Sec-WebSocket-Key3'' (string_of (take 8 rest)) (o_request s1)\<rparr>)
             else write_http_response_error (Some (Processor Proc_short_key3)) (upd_response (set_status 500) s1))
          else process_request app rest s1)"

definition handle_read_handshake :: "open_app \<Rightarrow> ws_ec \<Rightarrow> byte list \<Rightarrow> open_state \<Rightarrow> open_result" where
  "handle_read_handshake app ec buf s =
     (case check_io READ_HTTP_REQUEST ec (o_con s) of
        Io_ignore \<Rightarrow> (s, [])
      | Io_fail e \<Rightarrow> terminate_opening (Some e) s
      | Io_go \<Rightarrow>
          if connection_read_buffer_size < length buf then terminate_opening (Some (Library Lib_general)) s
          else (case request_consume (string_of buf) (o_request s) of
              (Null_deref, r) \<Rightarrow> (s\<lparr>o_request := r\<rparr>, [Null_dereference])
            | (Throw (_, code), r) \<Rightarrow>
                write_http_response_error (Some (Library Lib_http_parse_error))
                  (upd_response (set_status_msg code []) (s\<lparr>o_request := r\<rparr>))
            | (Took n, r) \<Rightarrow>
                if length buf < n then terminate_opening (Some (Library Lib_general)) (s\<lparr>o_request := r\<rparr>)
                else if rq_ready r then request_complete app (drop n buf) (s\<lparr>o_request := r\<rparr>)
                else (s\<lparr>o_request := r\<rparr>, [Async_read_handshake])))"

text \<open>The connection is open: the open handler runs, then the bytes behind the handshake are read.\<close>

definition call_open_handler :: "open_app \<Rightarrow> (nat \<Rightarrow> u32) \<Rightarrow> open_state \<Rightarrow> open_result" where
  "call_open_handler app rng s =
     (case open_handler app of
        None \<Rightarrow> (s, [])
      | Some calls \<Rightarrow> (case lift_con (run_calls rng calls) s of (s1, effs) \<Rightarrow> (s1, Call_open_handler # effs)))"

definition set_open :: "open_state \<Rightarrow> open_state" where
  "set_open s = s\<lparr>o_con := (o_con s)\<lparr>m_internal_state := PROCESS_CONNECTION, con_state := Open\<rparr>\<rparr>"

definition handle_write_http_response :: "open_app \<Rightarrow> (nat \<Rightarrow> u32) \<Rightarrow> ws_ec \<Rightarrow> open_state \<Rightarrow> open_result" where
  "handle_write_http_response app rng ec s =
     (case check_io PROCESS_HTTP_REQUEST ec (o_con s) of
        Io_ignore \<Rightarrow> (s, [])
      | Io_fail e \<Rightarrow> terminate_opening (Some e) s
      | Io_go \<Rightarrow> followed_by (cancel_open_timer s) (\<lambda>s1.
          if rs_status_code (o_response s1) \<noteq> 101 then
            (let s2 = (if o_is_http s1
                       then s1\<lparr>o_con := (o_con s1)\<lparr>m_ec := Some (Library Lib_http_connection_ended)\<rparr>\<rparr> else s1)
             in terminate_opening (m_ec (o_con s2)) s2)
          else followed_by (call_open_handler app rng (set_open s1)) (\<lambda>s2. (s2, [Handle_read_frame (o_buf s2)]))))"

subsection \<open>The client\<close>

definition send_http_request :: "(nat \<Rightarrow> u32) \<Rightarrow> open_state \<Rightarrow> open_result" where
  "send_http_request rng s =
     (case o_processor s of
        None \<Rightarrow> (s, [])
      | Some v \<Rightarrow>
          (case o_uri s of
             None \<Rightarrow> (s, [Null_dereference])
           | Some u \<Rightarrow>
             (case processor_request v rng (m_draws (o_con s)) (o_request s) u (o_requested s) of
                (Some e, r) \<Rightarrow> (s\<lparr>o_request := r\<rparr>, [])
              | (None, r) \<Rightarrow>
                (let r1 = (if get_header ''User-Agent'' r = [] then
                             (if o_user_agent s \<noteq> [] then replace_header ''User-Agent'' (o_user_agent s) r
                              else remove_header ''User-Agent'' r)
                           else r);
                     raw = request_raw r1
                 in followed_by
                      (set_open_timer (s\<lparr>o_request := r1, o_handshake_buffer := raw,
                         o_con := (o_con s)\<lparr>m_draws := m_draws (o_con s) + 4\<rparr>\<rparr>))
                      (\<lambda>s1. (s1, [Async_write_request raw]))))))"

definition handle_send_http_request :: "ws_ec \<Rightarrow> open_state \<Rightarrow> open_result" where
  "handle_send_http_request ec s =
     (case check_io WRITE_HTTP_REQUEST ec (o_con s) of
        Io_ignore \<Rightarrow> (s, [])
      | Io_fail e \<Rightarrow> terminate_opening (Some e) s
      | Io_go \<Rightarrow> (set_istate READ_HTTP_RESPONSE s, [Async_read_response]))"

definition response_complete :: "open_app \<Rightarrow> (nat \<Rightarrow> u32) \<Rightarrow> byte list \<Rightarrow> open_state \<Rightarrow> open_result" where
  "response_complete app rng rest s =
     (case o_processor s of
        None \<Rightarrow> (s, [Null_dereference])
      | Some v \<Rightarrow>
          (case processor_validate_response v (o_request s) (o_response s) of
             Some e \<Rightarrow> terminate_opening (Some e) s
           | None \<Rightarrow>
               followed_by
                 (if fst (processor_extensions v (o_response s)) \<noteq> None
                  then terminate_opening (Some (Library Lib_extension_neg_failed)) s else (s, []))
                 (\<lambda>s1. followed_by (call_open_handler app rng (set_open s1))
                   (\<lambda>s2. (s2\<lparr>o_buf := rest\<rparr>, [Handle_read_frame rest])))))"

definition handle_read_http_response :: "open_app \<Rightarrow> (nat \<Rightarrow> u32) \<Rightarrow> ws_ec \<Rightarrow> byte list \<Rightarrow> open_state \<Rightarrow> open_result" where
  "handle_read_http_response app rng ec buf s =
     (case check_io READ_HTTP_RESPONSE ec (o_con s) of
        Io_ignore \<Rightarrow> (s, [])
      | Io_fail e \<Rightarrow> terminate_opening (Some e) s
      | Io_go \<Rightarrow>
          (case response_consume (string_of buf) (o_response s) of
             (Null_deref, r) \<Rightarrow> (s\<lparr>o_response := r\<rparr>, [Null_dereference])
           | (Throw _, r) \<Rightarrow> terminate_opening (Some (Library Lib_general)) (s\<lparr>o_response := r\<rparr>)
           | (Took n, r) \<Rightarrow>
               if headers_ready r
               then followed_by (cancel_open_timer (s\<lparr>o_response := r\<rparr>)) (response_complete app rng (drop n buf))
               else (s\<lparr>o_response := r\<rparr>, [Async_read_response])))"

subsection \<open>Both\<close>

definition start_connection :: "open_state \<Rightarrow> open_result" where
  "start_connection s =
     (if m_internal_state (o_con s) \<noteq> USER_INIT then terminate_opening invalid_state s
      else (set_istate TRANSPORT_INIT s, [Init_transport]))"

definition handle_transport_init :: "(nat \<Rightarrow> u32) \<Rightarrow> ws_ec \<Rightarrow> open_state \<Rightarrow> open_result" where
  "handle_transport_init rng ec s =
     (let ecm = (if m_internal_state (o_con s) \<noteq> TRANSPORT_INIT then invalid_state else ec) in
      if ecm \<noteq> None then terminate_opening ecm s
      else if m_is_server (o_con s) then read_handshake (set_istate READ_HTTP_REQUEST s)
      else send_http_request rng (get_processor client_version (set_istate WRITE_HTTP_REQUEST s)))"

definition handle_open_handshake_timeout :: "ws_ec \<Rightarrow> open_state \<Rightarrow> open_result" where
  "handle_open_handshake_timeout ec s =
     (if ec = Some (Transport Tr_operation_aborted) then (s, [])
      else if ec \<noteq> None then (s, [])
      else terminate_opening (Some (Library Lib_open_handshake_timeout)) s)"

subsection \<open>Events\<close>

datatype open_event =
    Setup setup_call
  | Start
  | Transport_ready ws_ec
  | Read_handshake ws_ec "byte list"
  | Response_written ws_ec
  | Request_written ws_ec
  | Read_response ws_ec "byte list"
  | Open_timeout ws_ec

definition open_step :: "open_app \<Rightarrow> (nat \<Rightarrow> u32) \<Rightarrow> open_event \<Rightarrow> open_state \<Rightarrow> open_result" where
  "open_step app rng ev s =
     (case ev of
        Setup call \<Rightarrow> run_setup call s
      | Start \<Rightarrow> start_connection s
      | Transport_ready ec \<Rightarrow> handle_transport_init rng ec s
      | Read_handshake ec buf \<Rightarrow> handle_read_handshake app ec buf s
      | Response_written ec \<Rightarrow> handle_write_http_response app rng ec s
      | Request_written ec \<Rightarrow> handle_send_http_request ec s
      | Read_response ec buf \<Rightarrow> handle_read_http_response app rng ec buf s
      | Open_timeout ec \<Rightarrow> handle_open_handshake_timeout ec s)"

fun open_steps :: "open_app \<Rightarrow> (nat \<Rightarrow> u32) \<Rightarrow> open_event list \<Rightarrow> open_state \<Rightarrow> open_result" where
  "open_steps app rng [] s = (s, [])"
| "open_steps app rng (ev # evs) s = followed_by (open_step app rng ev s) (open_steps app rng evs)"

lemma length_decode_client_key: "length (decode_client_key key) = 4"
  by (simp add: decode_client_key_def Let_def)

lemma key_final00_junk:
  assumes "length (get_header ''Sec-WebSocket-Key3'' req) = 8" "length junk = 16" "length junk' = 16"
  shows "key_final00 junk req = key_final00 junk' req"
  using assms by (simp add: key_final00_def store_at_def length_decode_client_key Let_def)

end
