(* ===== verification/Ws_Opening_States.thy ===== *)
theory Ws_Opening_States
  imports Ws_Opening
begin

section \<open>websocketpp: the states of the opening handshake\<close>

text \<open>
  What holds in every state of \<open>Ws_Opening\<close>: \<open>core\<close> relates the states of the connection, its role and what was read;
  \<open>live\<close> says that a message which is being read has its buffer; \<open>shuts\<close> counts the shutdowns.  Each operation keeps
  them (\<open>good\<close>, \<open>shuts\<close>), so that they hold after any events (\<open>open_steps_sound\<close>).
\<close>

subsection \<open>Reading never meets a null pointer\<close>

lemma lines_loop_rule:
  assumes "I r" "\<And>r n. I r \<Longrightarrow> I (r\<lparr>m_header_bytes := n\<rparr>)"
    and "\<And>l r r'. I r \<Longrightarrow> on_line l r = (None, r') \<Longrightarrow> I r'"
    and "\<And>l r e r'. I r \<Longrightarrow> on_line l r = (Some e, r') \<Longrightarrow> Q (Throw e, r')"
    and "\<And>s r. I r \<Longrightarrow> Q (on_blank s r)" "\<And>s r. I r \<Longrightarrow> Q (on_end s r)" "\<And>r. I r \<Longrightarrow> Q (Throw size_exceeded, r)"
  shows "Q (lines_loop on_line on_blank on_end s r)"
  using assms
proof (induction on_line on_blank on_end s r rule: lines_loop.induct)
  case (1 on_line on_blank on_end s r)
  show ?case
  proof (cases "str_find header_delimiter s")
    case None
    have "I (r\<lparr>m_header_bytes := k\<rparr>)" "I (r\<lparr>m_header_bytes := k, m_header_bytes := j\<rparr>)" for k j
      using "1.prems"(1,2) by blast+
    then show ?thesis using None "1.prems"(6,7) by (simp add: lines_loop.simps [of _ _ _ s] Let_def)
  next
    case (Some n)
    define r1 where "r1 = r\<lparr>m_header_bytes := m_header_bytes r + (n + 3)\<rparr>"
    have r1: "I r1" using "1.prems"(1,2) by (simp add: r1_def)
    obtain e r2 where l: "on_line (take n s) r1 = (e, r2)" by fastforce
    have unf: "lines_loop on_line on_blank on_end s r =
      (if max_header_size < m_header_bytes r1 then (Throw size_exceeded, r1)
       else if n = 0 then on_blank s r1
       else case e of Some x \<Rightarrow> (Throw x, r2) | None \<Rightarrow> lines_loop on_line on_blank on_end (drop (n + 2) s) r2)"
      unfolding lines_loop.simps [of _ _ _ s] Some option.case r1_def [symmetric] Let_def l prod.case by (cases e) simp_all
    consider "max_header_size < m_header_bytes r1 \<or> n = 0" | x where "e = Some x" "\<not> max_header_size < m_header_bytes r1" "n \<noteq> 0"
      | "e = None" "\<not> max_header_size < m_header_bytes r1" "n \<noteq> 0" by (cases e) auto
    then show ?thesis
    proof cases
      case 1
      then show ?thesis unfolding unf using "1.prems"(5) [OF r1, of s] "1.prems"(7) [OF r1] by (cases "n = 0") auto
    next
      case (2 x)
      then show ?thesis unfolding unf using "1.prems"(4) [OF r1 l [unfolded 2(1)]] by simp
    next
      case 3
      have "I r2" by (rule "1.prems"(3) [OF r1 l [unfolded 3(1)]])
      from "1.IH" [OF Some r1_def 3(2,3) _ 3(1) this "1.prems"(2-7)] show ?thesis unfolding unf using 3 l by simp
    qed
  qed
qed

text \<open>A message that can go on: its buffer is there as long as the header is not complete.\<close>

definition req_live :: "request \<Rightarrow> bool" where
  "req_live r \<longleftrightarrow> rq_ready r \<or> 0 < m_body_bytes_needed r \<or> rq_buf r \<noteq> None"

definition resp_live :: "response \<Rightarrow> bool" where
  "resp_live r \<longleftrightarrow> headers_ready r \<or> rs_buf r \<noteq> None"

definition consumed_ok :: "('a \<Rightarrow> bool) \<Rightarrow> consumed \<times> 'a \<Rightarrow> bool" where
  "consumed_ok live res \<longleftrightarrow> (case res of (Took _, r) \<Rightarrow> live r | (Throw (_, code), _) \<Rightarrow> code \<noteq> 101 | (Null_deref, _) \<Rightarrow> False)"

lemma append_header_code: "append_header k v p = (Some (m, code), p') \<Longrightarrow> code \<noteq> 101"
  by (auto simp: append_header_def Let_def split: if_splits)

lemma process_header_code: "process_header l p = (Some (m, code), p') \<Longrightarrow> code \<noteq> 101"
  by (auto simp: process_header_def append_header_code split: option.splits)

lemma process_body_code: "process_body b p = (Throw (m, code), p') \<Longrightarrow> code \<noteq> 101"
  "fst (process_body b p) \<noteq> Null_deref"
  by (auto simp: process_body_def Let_def split: body_encoding.splits if_splits)

lemma request_line_code: "request_line l r = (Some (m, code), r') \<Longrightarrow> code \<noteq> 101"
  by (auto simp: request_line_def request_process_def set_method_def process_header_code Let_def
      split: if_splits option.splits prod.splits)

lemma response_line_code: "response_line l r = (Some (m, code), r') \<Longrightarrow> code \<noteq> 101"
  by (auto simp: response_line_def response_process_def process_header_code Let_def
      split: if_splits option.splits prod.splits)

lemma prepare_body_code: "prepare_body p = (Some (m, code), b, p') \<Longrightarrow> code \<noteq> 101"
  by (auto simp: prepare_body_def Let_def split: if_splits)

lemma body_end_live:
  "process_body b r = (Took k, r1) \<Longrightarrow> req_live (if body_ready r1 then r1\<lparr>rq_ready := True\<rparr> else r1)"
  by (simp add: req_live_def body_ready_def)

lemma request_blank_ok: "consumed_ok req_live (request_blank buf s r)"
proof -
  obtain e b r3 where p: "prepare_body (r\<lparr>rq_buf := None\<rparr>) = (e, b, r3)" by (metis prod_cases3)
  obtain out r4 where q: "process_body (drop (length buf + 2 - length s) buf) r3 = (out, r4)" by fastforce
  have c: "code \<noteq> 101" if "e = Some (m, code)" for m code using prepare_body_code that p by blast
  have d: "out \<noteq> Null_deref" "\<And>m code. out = Throw (m, code) \<Longrightarrow> code \<noteq> 101"
    using process_body_code q by (metis fst_conv, blast)
  show ?thesis
  proof (cases e)
    case (Some x)
    then show ?thesis using p c by (cases x) (simp add: request_blank_def consumed_ok_def Let_def)
  next
    case None
    then show ?thesis using p q d body_end_live [of _ r3]
      by (cases b; cases out) (auto simp: request_blank_def consumed_ok_def Let_def req_live_def)
  qed
qed

lemma request_consume_ok: "req_live r \<Longrightarrow> consumed_ok req_live (request_consume buf r)"
proof -
  assume live: "req_live r"
  have loop: "consumed_ok req_live (lines_loop request_line (request_blank buf) (request_end buf) s r')" for s r'
  proof (rule lines_loop_rule [where I = "\<lambda>_. True"])
    show "consumed_ok req_live (request_blank buf s r)" for s r by (rule request_blank_ok)
    show "consumed_ok req_live (Throw e, r')" if "request_line l r = (Some e, r')" for l r e r'
      using request_line_code [of l r "fst e" "snd e" r'] that by (cases e) (simp add: consumed_ok_def)
  qed (simp_all add: request_end_def consumed_ok_def req_live_def size_exceeded_def)
  obtain out r4 where q: "process_body buf r = (out, r4)" by fastforce
  show ?thesis
  proof (cases "rq_ready r \<or> 0 < m_body_bytes_needed r")
    case True
    then show ?thesis using q body_end_live [of buf r] process_body_code [of buf r] live
      by (cases out) (auto simp: request_consume_def consumed_ok_def)
  next
    case False
    then show ?thesis using live loop by (auto simp: request_consume_def req_live_def)
  qed
qed

lemma response_body_live: "headers_ready r \<Longrightarrow> headers_ready (snd (response_process_body b r))"
  by (auto simp: response_process_body_def headers_ready_def Let_def)

lemma response_consume_ok: "resp_live r \<Longrightarrow> consumed_ok resp_live (response_consume buf r)"
proof -
  assume live: "resp_live r"
  have blank: "consumed_ok resp_live (response_blank buf s r')" for s r'
    by (auto simp: response_blank_def consumed_ok_def resp_live_def headers_ready_def response_process_body_def Let_def
        split: option.splits prod.splits)
  have loop: "consumed_ok resp_live (lines_loop response_line (response_blank buf) (response_end buf) s r')" for s r'
  proof (rule lines_loop_rule [where I = "\<lambda>_. True"])
    show "consumed_ok resp_live (response_blank buf s r)" for s r by (rule blank)
    show "consumed_ok resp_live (Throw e, r')" if "response_line l r = (Some e, r')" for l r e r'
      using response_line_code [of l r "fst e" "snd e" r'] that by (cases e) (simp add: consumed_ok_def)
  qed (simp_all add: response_end_def consumed_ok_def resp_live_def size_exceeded_def)
  obtain n r1 where b: "response_process_body buf r = (n, r1)" by fastforce
  show ?thesis using live loop b response_body_live [of r buf]
    by (cases "rs_state r") (auto simp: response_consume_def resp_live_def headers_ready_def consumed_ok_def split: option.splits)
qed

subsection \<open>What holds in every state\<close>

text \<open>The request that a server has accepted, and the response that a client has.\<close>

definition agreed :: "open_state \<Rightarrow> bool" where
  "agreed s \<longleftrightarrow> is_websocket_handshake (o_request s) \<and>
     (\<exists>v \<in> set versions_supported. o_processor s = Some v \<and> processor_validate v (o_request s) = None)"

definition answered :: "open_state \<Rightarrow> bool" where
  "answered s \<longleftrightarrow> headers_ready (o_response s) \<and> validate_server_handshake_response (o_request s) (o_response s) = None"

definition server_ok :: "open_state \<Rightarrow> istate \<Rightarrow> bool" where
  "server_ok s i \<longleftrightarrow> i \<in> {USER_INIT, TRANSPORT_INIT, READ_HTTP_REQUEST, PROCESS_HTTP_REQUEST, PROCESS_CONNECTION} \<and>
     (rs_status_code (o_response s) = 101 \<longrightarrow> i = PROCESS_HTTP_REQUEST \<or> i = PROCESS_CONNECTION) \<and>
     (rs_status_code (o_response s) = 101 \<or> i = PROCESS_CONNECTION \<longrightarrow> agreed s)"

definition client_ok :: "open_state \<Rightarrow> istate \<Rightarrow> bool" where
  "client_ok s i \<longleftrightarrow> i \<in> {USER_INIT, TRANSPORT_INIT, WRITE_HTTP_REQUEST, READ_HTTP_RESPONSE, PROCESS_CONNECTION} \<and>
     o_uri s \<noteq> None \<and> o_http_state s \<noteq> http_deferred \<and>
     (i \<noteq> USER_INIT \<and> i \<noteq> TRANSPORT_INIT \<longrightarrow> o_processor s = Some client_version) \<and>
     (i = PROCESS_CONNECTION \<longrightarrow> answered s)"

text \<open>\<open>con_state\<close> and the internal state agree, and the states are those of the role.\<close>

definition core :: "open_state \<Rightarrow> bool" where
  "core s \<longleftrightarrow>
     (con_state (o_con s) = Connecting \<longrightarrow> m_internal_state (o_con s) \<noteq> PROCESS_CONNECTION) \<and>
     (con_state (o_con s) = Open \<or> con_state (o_con s) = Closing \<longrightarrow> m_internal_state (o_con s) = PROCESS_CONNECTION) \<and>
     (if m_is_server (o_con s) then server_ok s (m_internal_state (o_con s)) else client_ok s (m_internal_state (o_con s)))"

definition live :: "open_state \<Rightarrow> bool" where
  "live s \<longleftrightarrow> (con_state (o_con s) = Connecting \<longrightarrow>
     (if m_is_server (o_con s) then m_internal_state (o_con s) \<noteq> PROCESS_HTTP_REQUEST \<longrightarrow> req_live (o_request s)
      else resp_live (o_response s)))"

definition good :: "open_result \<Rightarrow> bool" where
  "good r \<longleftrightarrow> core (fst r) \<and> live (fst r) \<and> Null_dereference \<notin> set (snd r)"

lemma followed_by_simps [simp]:
  "fst (followed_by r f) = fst (f (fst r))" "snd (followed_by r f) = snd r @ snd (f (fst r))"
  by (simp_all add: followed_by_def split: prod.splits)

lemma good_followed: "good r \<Longrightarrow> (core (fst r) \<Longrightarrow> live (fst r) \<Longrightarrow> good (f (fst r))) \<Longrightarrow> good (followed_by r f)"
  by (simp add: good_def)

lemma lift_con_simps [simp]:
  "fst (lift_con f s) = s\<lparr>o_con := fst (f (o_con s))\<rparr>" "snd (lift_con f s) = map Con (snd (f (o_con s)))"
  by (simp_all add: lift_con_def split: prod.splits)

lemma core_con:
  assumes "core s" "m_is_server c = m_is_server (o_con s)" "m_internal_state c = m_internal_state (o_con s)"
    and "con_state c = con_state (o_con s) \<or> con_state c = Closed \<or> con_state (o_con s) \<noteq> Connecting \<and> con_state c \<noteq> Connecting \<and> con_state (o_con s) \<noteq> Closed"
  shows "core (s\<lparr>o_con := c\<rparr>)"
proof -
  have "server_ok (s\<lparr>o_con := c\<rparr>) i = server_ok s i" "client_ok (s\<lparr>o_con := c\<rparr>) i = client_ok s i" for i
    by (simp_all add: server_ok_def client_ok_def agreed_def answered_def)
  then show ?thesis using assms by (cases "con_state (o_con s)") (auto simp: core_def split: if_splits)
qed

lemma core_irrelevant [simp]:
  "core (s\<lparr>o_handshake_buffer := a\<rparr>) = core s" "live (s\<lparr>o_handshake_buffer := a\<rparr>) = live s"
  "core (s\<lparr>o_buf := b\<rparr>) = core s" "live (s\<lparr>o_buf := b\<rparr>) = live s"
  "core (s\<lparr>o_requested := d\<rparr>) = core s" "live (s\<lparr>o_requested := d\<rparr>) = live s"
  "core (s\<lparr>o_subprotocol := e\<rparr>) = core s" "live (s\<lparr>o_subprotocol := e\<rparr>) = live s"
  "core (s\<lparr>o_is_http := f\<rparr>) = core s" "live (s\<lparr>o_is_http := f\<rparr>) = live s"
  "live (s\<lparr>o_uri := u\<rparr>) = live s" "live (s\<lparr>o_http_state := st\<rparr>) = live s"
  by (simp_all add: core_def live_def server_ok_def client_ok_def agreed_def answered_def)

lemma core_uri: "core s \<Longrightarrow> core (s\<lparr>o_uri := Some u\<rparr>)"
  by (simp add: core_def server_ok_def client_ok_def agreed_def answered_def split: if_splits)

lemma core_http:
  assumes "core s" "st \<noteq> http_deferred \<or> m_is_server (o_con s)"
  shows "core (s\<lparr>o_http_state := st\<rparr>)"
proof (cases "m_is_server (o_con s)")
  case True
  then show ?thesis using assms(1) by (simp add: core_def server_ok_def agreed_def)
next
  case False
  then show ?thesis using assms by (simp add: core_def client_ok_def answered_def)
qed

lemma terminate_good: "core s \<Longrightarrow> good (terminate_opening ec s)"
proof -
  assume s: "core s"
  define s1 where "s1 = (if o_is_http s then s\<lparr>o_http_state := http_closed\<rparr> else s)"
  have "core s1" using s core_http [of s http_closed] by (simp add: s1_def)
  then have "core (s1\<lparr>o_con := fst (terminate ec (o_con s1))\<rparr>)" by (rule core_con) simp_all
  then show ?thesis by (auto simp: good_def terminate_opening_def s1_def live_def)
qed

lemma timer_good:
  assumes "core s" "live s"
  shows "good (cancel_open_timer s)" "good (set_open_timer s)"
  using assms by (simp_all add: good_def cancel_open_timer_def set_open_timer_def live_def core_con)

text \<open>The response changes, but its status stays or is not 101.\<close>

lemma upd_response_fields [simp]:
  "o_con (upd_response f s) = o_con s" "o_request (upd_response f s) = o_request s"
  "o_processor (upd_response f s) = o_processor s" "o_response (upd_response f s) = f (o_response s)"
  "o_uri (upd_response f s) = o_uri s" "o_http_state (upd_response f s) = o_http_state s" "o_is_http (upd_response f s) = o_is_http s"
  "o_user_agent (upd_response f s) = o_user_agent s" "o_secure (upd_response f s) = o_secure s"
  "o_subprotocol (upd_response f s) = o_subprotocol s"
  by (simp_all add: upd_response_def)

lemma status_simps [simp]:
  "rs_status_code (set_status code r) = code" "rs_status_code (set_status_msg code m r) = code"
  "rs_status_code (remove_header k r) = rs_status_code r" "rs_status_code (set_body v r) = rs_status_code r"
  "rs_status_code (snd (append_header k v r)) = rs_status_code r"
  by (simp_all add: set_status_def set_status_msg_def remove_header_def set_body_def append_header_def Let_def replace_header_def)

lemma core_response:
  assumes "core s" "m_is_server (o_con s)" "rs_status_code (f (o_response s)) \<in> {rs_status_code (o_response s)} \<union> - {101}"
  shows "core (upd_response f s)"
  using assms by (auto simp: core_def server_ok_def agreed_def)

lemma live_response: "m_is_server (o_con s) \<Longrightarrow> live (upd_response f s) = live s"
  by (simp add: live_def)

lemma write_http_response_good:
  assumes "core s" "live s" "m_is_server (o_con s)"
  shows "good (write_http_response ec s)"
proof (cases "ec = Some (Library Lib_http_connection_ended)")
  case False
  define s1 where "s1 = (if rs_status_code (o_response s) = 0
      then (upd_response (set_status 500) s)\<lparr>o_con := (o_con s)\<lparr>m_ec := Some (Library Lib_general)\<rparr>\<rparr>
      else s\<lparr>o_con := (o_con s)\<lparr>m_ec := ec\<rparr>\<rparr>)"
  have 1: "core s1 \<and> live s1 \<and> m_is_server (o_con s1)"
    using assms core_response [OF assms(1,3), of "set_status 500"] live_response [OF assms(3), of "set_status 500"]
    by (auto simp: s1_def live_def intro!: core_con)
  define s2 where "s2 = upd_response (\<lambda>r. r\<lparr>m_version := ''HTTP/1.1''\<rparr>) s1"
  have 2: "core s2 \<and> live s2 \<and> m_is_server (o_con s2)"
    using 1 core_response [of s1] live_response [of s1] by (simp add: s2_def)
  define s3 where "s3 = (if get_header ''Server'' (o_response s2) = [] then
      (if o_user_agent s2 \<noteq> [] then upd_response (replace_header ''Server'' (o_user_agent s2)) s2
       else upd_response (remove_header ''Server'') s2) else s2)"
  have "core s3 \<and> live s3" using 2 core_response [of s2] live_response [of s2] by (simp add: s3_def)
  then show ?thesis using False
    unfolding good_def write_http_response_def Let_def s1_def [symmetric] s2_def [symmetric] s3_def [symmetric] by simp
qed (use assms in \<open>simp add: good_def write_http_response_def\<close>)

lemma write_http_response_error_good:
  assumes "core s" "m_is_server (o_con s)"
  shows "good (write_http_response_error ec s)"
proof (cases "m_internal_state (o_con s) = READ_HTTP_REQUEST")
  case True
  then have "core (set_istate PROCESS_HTTP_REQUEST s)" "live (set_istate PROCESS_HTTP_REQUEST s)"
    using assms by (auto simp: set_istate_def core_def live_def server_ok_def)
  then show ?thesis using True assms(2) write_http_response_good
    by (simp add: write_http_response_error_def) (simp add: set_istate_def)
qed (use assms terminate_good in \<open>simp add: write_http_response_error_def\<close>)

subsection \<open>The calls of the application\<close>

text \<open>The application leaves the status 101 to the library, and defers a response only on a server.\<close>

definition plain_call :: "bool \<Rightarrow> setup_call \<Rightarrow> bool" where
  "plain_call server call \<longleftrightarrow> (case call of
       Set_status code \<Rightarrow> code \<noteq> 101 | Set_status_msg code _ \<Rightarrow> code \<noteq> 101 | Defer_http_response \<Rightarrow> server | _ \<Rightarrow> True)"

definition same_role :: "open_state \<Rightarrow> open_state \<Rightarrow> bool" where
  "same_role s s' \<longleftrightarrow> m_is_server (o_con s') = m_is_server (o_con s) \<and> con_state (o_con s') = con_state (o_con s) \<and>
     m_internal_state (o_con s') = m_internal_state (o_con s) \<and>
     (m_is_server (o_con s) \<longrightarrow> o_request s' = o_request s \<and> o_processor s' = o_processor s)"

lemma write_http_response_role: "same_role s (fst (write_http_response ec s))"
  by (simp add: write_http_response_def same_role_def Let_def)

lemma run_setup_role: "same_role s (fst (run_setup call s))"
  using write_http_response_role [of "s\<lparr>o_http_state := http_body_written\<rparr>" None]
  by (cases call)
    (auto simp: run_setup_def con_set_status_def con_set_status_msg_def con_set_body_def con_append_header_def
      con_replace_header_def con_remove_header_def add_subprotocol_def select_subprotocol_def defer_http_response_def
      cancel_open_timer_def send_http_response_def same_role_def)

lemma run_setup_good:
  assumes "core s" "live s" "plain_call (m_is_server (o_con s)) call"
  shows "good (run_setup call s)"
proof (cases "m_is_server (o_con s)")
  case True
  note upd = core_response [OF assms(1) True] live_response [OF True]
  have http: "core (s\<lparr>o_http_state := st\<rparr>)" "live (s\<lparr>o_http_state := st\<rparr>)" for st
    using assms(2) core_http [OF assms(1)] True by (simp_all add: live_def)
  show ?thesis
  proof (cases call)
    case Send_http_response
    then show ?thesis using http assms(1,2) write_http_response_good [OF http(1,2), of http_body_written None] True
      by (simp add: run_setup_def send_http_response_def good_def)
  next
    case Defer_http_response
    then show ?thesis using timer_good(1) [OF assms(1,2)] True assms(1,2) http
      by (auto simp: run_setup_def defer_http_response_def cancel_open_timer_def good_def core_def live_def server_ok_def agreed_def)
  qed (use assms True in \<open>auto simp: run_setup_def con_set_status_def con_set_status_msg_def con_set_body_def con_append_header_def
      con_replace_header_def con_remove_header_def add_subprotocol_def select_subprotocol_def plain_call_def good_def upd core_uri\<close>)
next
  case False
  then have "m_internal_state (o_con s) \<noteq> PROCESS_HTTP_REQUEST" "o_http_state s \<noteq> http_deferred"
    using assms(1) by (auto simp: core_def client_ok_def)
  moreover have "core (s\<lparr>o_request := r\<rparr>)" if "m_internal_state (o_con s) = USER_INIT" for r
    using that assms(1) False by (simp add: core_def client_ok_def)
  moreover have "live (s\<lparr>o_request := r\<rparr>)" for r using assms(2) False by (simp add: live_def)
  ultimately show ?thesis using assms False
    by (cases call)
      (auto simp: run_setup_def con_set_status_def con_set_status_msg_def con_set_body_def con_append_header_def
        con_replace_header_def con_remove_header_def add_subprotocol_def select_subprotocol_def plain_call_def good_def send_http_response_def core_uri)
qed

lemma same_role_trans: "same_role a b \<Longrightarrow> same_role b c \<Longrightarrow> same_role a c"
  by (auto simp: same_role_def)

lemma run_setups_good:
  assumes "core s" "live s" "\<forall>c \<in> set cs. plain_call (m_is_server (o_con s)) c"
  shows "good (run_setups cs s) \<and> same_role s (fst (run_setups cs s))"
  using assms
proof (induction cs arbitrary: s)
  case Nil
  then show ?case by (simp add: good_def same_role_def)
next
  case (Cons c cs)
  have g: "good (run_setup c s)" using Cons.prems by (intro run_setup_good) simp_all
  note r = run_setup_role [of s c]
  have "good (run_setups cs (fst (run_setup c s))) \<and> same_role (fst (run_setup c s)) (fst (run_setups cs (fst (run_setup c s))))"
    using g r Cons.prems(3) by (intro Cons.IH) (auto simp: good_def same_role_def)
  then show ?case using g same_role_trans [OF r] by (simp add: good_def)
qed

subsection \<open>The handlers of the server\<close>

definition plain_app :: "open_app \<Rightarrow> bool" where
  "plain_app app \<longleftrightarrow>
     (\<forall>h s. validate_handler app = Some h \<longrightarrow> list_all (plain_call True) (snd (h s))) \<and>
     (\<forall>h s. http_handler app = Some h \<longrightarrow> list_all (plain_call True) (h s))"

text \<open>A step of the server that keeps the role; \<open>r\<close> comes from \<open>s\<close>.\<close>

definition kept :: "open_state \<Rightarrow> open_result \<Rightarrow> bool" where
  "kept s r \<longleftrightarrow> good r \<and> same_role s (fst r)"

lemma kept_response:
  assumes "core s" "live s" "m_is_server (o_con s)" "rs_status_code (f (o_response s)) \<in> {rs_status_code (o_response s)} \<union> - {101}"
    and "Null_dereference \<notin> set effs"
  shows "kept s (upd_response f s, effs)"
  using assms core_response [where f = f, OF assms(1,3,4)] live_response [OF assms(3)]
  by (simp add: kept_def good_def same_role_def)

lemma kept_after: "same_role s s1 \<Longrightarrow> kept s1 r \<Longrightarrow> kept s r"
  using same_role_trans by (auto simp: kept_def)

lemma process_http_kept:
  assumes "core s" "live s" "m_is_server (o_con s)" "m_internal_state (o_con s) = PROCESS_HTTP_REQUEST" "plain_app app"
  shows "kept s (fst (process_http app s))"
proof -
  define u where "u = get_uri_from_host (o_request s) (if o_secure s then ''https'' else ''http'')"
  define s1 where "s1 = s\<lparr>o_uri := Some u\<rparr>"
  have 1: "core s1" "live s1" "m_is_server (o_con s1)" "same_role s s1" "m_internal_state (o_con s1) = PROCESS_HTTP_REQUEST"
    using assms core_uri by (simp_all add: s1_def same_role_def)
  show ?thesis
  proof (cases "u_valid u")
    case False
    then show ?thesis using kept_after [OF 1(4) kept_response [OF 1(1-3), of "set_status 400" "[]"]]
      by (simp add: process_http_def u_def [symmetric] s1_def [symmetric])
  next
    case True
    show ?thesis
    proof (cases "http_handler app")
      case None
      then show ?thesis using True kept_after [OF 1(4) kept_response [OF 1(1-3), of "set_status 426" "[]"]] 1(5)
        by (simp add: process_http_def u_def [symmetric] s1_def [symmetric] con_set_status_def)
    next
      case (Some h)
      define s2 where "s2 = s1\<lparr>o_is_http := True\<rparr>"
      have 2: "core s2" "live s2" "same_role s s2" "m_is_server (o_con s2)" using 1 by (simp_all add: s2_def same_role_def)
      have "good (run_setups (h s2) s2) \<and> same_role s2 (fst (run_setups (h s2) s2))"
        using assms(5) Some 2(4) by (intro run_setups_good 2) (auto simp: plain_app_def list_all_iff)
      moreover obtain s3 effs where "run_setups (h s2) s2 = (s3, effs)" by fastforce
      ultimately show ?thesis using True Some same_role_trans [OF 2(3), of s3]
        by (simp add: process_http_def u_def [symmetric] s1_def [symmetric] s2_def [symmetric] kept_def good_def)
    qed
  qed
qed

lemma processor_handshake_status: "rs_status_code (snd (processor_handshake v secure r subp res)) = rs_status_code res"
  by (simp add: processor_handshake_def process_handshake_def process_handshake00_def Let_def)

lemma processor_handshake_accepts: "fst (processor_handshake v secure r subp res) = None"
  by (simp add: processor_handshake_def process_handshake_def process_handshake00_def Let_def)

lemma accept_or_reject_kept:
  assumes "core s" "live s" "m_is_server (o_con s)" "m_internal_state (o_con s) = PROCESS_HTTP_REQUEST" "plain_app app"
    and "is_websocket_handshake (o_request s)" "o_processor s = Some v" "v \<in> set versions_supported"
    and "processor_validate v (o_request s) = None"
  shows "kept s (fst (accept_or_reject app v s))"
proof -
  obtain accepted s1 effs where
    r: "(case validate_handler app of None \<Rightarrow> (True, s, [])
         | Some h \<Rightarrow> (case run_setups (snd (h s)) s of (s1, effs) \<Rightarrow> (fst (h s), s1, Call_validate_handler # effs)))
       = (accepted, s1, effs)" by (rule prod_cases3)
  have 1: "core s1 \<and> live s1 \<and> same_role s s1 \<and> Null_dereference \<notin> set effs"
  proof (cases "validate_handler app")
    case None
    then show ?thesis using r assms(1,2) by (auto simp: same_role_def)
  next
    case (Some h)
    have "good (run_setups (snd (h s)) s) \<and> same_role s (fst (run_setups (snd (h s)) s))"
      using assms(3,5) Some by (intro run_setups_good assms(1,2)) (auto simp: plain_app_def list_all_iff)
    then show ?thesis using r Some by (auto simp: good_def split: prod.splits)
  qed
  then have f: "m_is_server (o_con s1)" "o_request s1 = o_request s" "o_processor s1 = Some v"
    "m_internal_state (o_con s1) = PROCESS_HTTP_REQUEST"
    using assms(3,4,7) by (auto simp: same_role_def)
  show ?thesis
  proof (cases accepted)
    case True
    define res where "res = snd (processor_handshake v (o_secure s1) (o_request s1) (o_subprotocol s1) (set_status 101 (o_response s1)))"
    have "processor_handshake v (o_secure s1) (o_request s1) (o_subprotocol s1) (set_status 101 (o_response s1)) = (None, res)"
      by (simp add: res_def processor_handshake_accepts prod_eq_iff)
    then have "fst (accept_or_reject app v s) = (s1\<lparr>o_response := res\<rparr>, effs)"
      unfolding accept_or_reject_def r using True by simp
    moreover have "rs_status_code res = 101" by (simp add: res_def processor_handshake_status)
    moreover have "agreed (s1\<lparr>o_response := res\<rparr>)" using assms(6,8,9) f by (simp add: agreed_def)
    then have "core (s1\<lparr>o_response := res\<rparr>)" using 1 f by (simp add: core_def server_ok_def)
    moreover have "live (s1\<lparr>o_response := res\<rparr>)" using f by (simp add: live_def)
    moreover have "same_role s (s1\<lparr>o_response := res\<rparr>)" using 1 by (simp add: same_role_def)
    ultimately show ?thesis using 1 by (simp add: kept_def good_def)
  next
    case False
    then have "fst (accept_or_reject app v s) =
        (if rs_status_code (o_response s1) = 0 then upd_response (set_status 400) s1 else s1, effs)"
      unfolding accept_or_reject_def r by simp
    moreover have "kept s1 (upd_response (set_status 400) s1, effs)" "kept s1 (s1, effs)"
      using 1 f kept_response [of s1 "set_status 400" effs] by (auto simp: kept_def good_def same_role_def)
    ultimately show ?thesis using kept_after [of s s1] 1 by simp
  qed
qed

lemma process_handshake_request_kept:
  assumes "core s" "live s" "m_is_server (o_con s)" "m_internal_state (o_con s) = PROCESS_HTTP_REQUEST" "plain_app app"
    and "is_websocket_handshake (o_request s) \<Longrightarrow> \<exists>v \<in> set versions_supported. o_processor s = Some v"
  shows "kept s (fst (process_handshake_request app s))"
proof (cases "is_websocket_handshake (o_request s)")
  case False
  then show ?thesis using process_http_kept [OF assms(1-5)] by (simp add: process_handshake_request_def)
next
  case ws: True
  then obtain v where v: "v \<in> set versions_supported" "o_processor s = Some v" using assms(6) by blast
  have bad: "kept s (upd_response (set_status 400) s, [])" by (rule kept_response [OF assms(1-3)]) simp_all
  show ?thesis
  proof (cases "processor_validate v (o_request s)")
    case (Some e)
    then show ?thesis using ws v bad by (simp add: process_handshake_request_def)
  next
    case ok: None
    obtain e exts where x: "processor_extensions v (o_request s) = (e, exts)" by fastforce
    show ?thesis
    proof (cases e)
      case (Some e)
      then show ?thesis using ws v bad ok x by (simp add: process_handshake_request_def)
    next
      case None
      define s1 where "s1 = (if exts \<noteq> [] then upd_response (replace_header ''Sec-WebSocket-Extensions'' exts) s else s)"
      define s2 where "s2 = s1\<lparr>o_uri := Some (processor_uri v (o_secure s1) (o_request s1))\<rparr>"
      define s3 where "s3 = s2\<lparr>o_requested := snd (processor_subprotocols v (o_request s2) (o_requested s2))\<rparr>"
      have "core s1 \<and> live s1" "same_role s s1"
        using assms(1-3) core_response [OF assms(1,3), of "replace_header ''Sec-WebSocket-Extensions'' exts"]
          live_response [OF assms(3), of "replace_header ''Sec-WebSocket-Extensions'' exts"]
        by (simp_all add: s1_def same_role_def)
      then have 2: "core s2" "live s2" "same_role s s2" using core_uri by (auto simp: s2_def same_role_def)
      then have 3: "core s3" "live s3" "same_role s s3" by (auto simp: s3_def same_role_def)
      have f: "m_is_server (o_con s2)" "m_is_server (o_con s3)" "m_internal_state (o_con s3) = PROCESS_HTTP_REQUEST"
        "o_request s3 = o_request s" "o_processor s3 = Some v"
        using 2(3) 3(3) assms(3,4) v(2) by (auto simp: same_role_def)
      have "kept s (fst (accept_or_reject app v s3))"
        by (rule kept_after [OF 3(3) accept_or_reject_kept]) (use 3 f ws v ok assms(5) in simp_all)
      moreover have "kept s (upd_response (set_status 400) s2, [])"
        by (rule kept_after [OF 2(3) kept_response]) (use 2 f in simp_all)
      ultimately show ?thesis using ws v ok x None
        unfolding process_handshake_request_def
        by (simp add: Let_def s1_def [symmetric] s2_def [symmetric] s3_def [symmetric])
    qed
  qed
qed

lemma process_request_good:
  assumes "core s" "m_is_server (o_con s)" "m_internal_state (o_con s) = READ_HTTP_REQUEST" "plain_app app"
    and "is_websocket_handshake (o_request s) \<Longrightarrow> \<exists>v \<in> set versions_supported. o_processor s = Some v"
  shows "good (process_request app rest s)"
proof -
  define s1 where "s1 = set_istate PROCESS_HTTP_REQUEST (s\<lparr>o_buf := rest\<rparr>)"
  have 1: "core s1" "live s1" "m_is_server (o_con s1)" "m_internal_state (o_con s1) = PROCESS_HTTP_REQUEST"
    "o_request s1 = o_request s" "o_processor s1 = o_processor s"
    using assms(1-3) by (auto simp: s1_def set_istate_def core_def live_def server_ok_def agreed_def)
  have k: "kept s1 (fst (process_handshake_request app s1))"
    using process_handshake_request_kept [OF 1(1-4) assms(4)] assms(5) 1(5,6) by simp
  then have "m_is_server (o_con (fst (fst (process_handshake_request app s1))))" using 1(3) by (simp add: kept_def same_role_def)
  then show ?thesis using k write_http_response_good
    by (auto simp: process_request_def s1_def [symmetric] kept_def good_def split: prod.splits)
qed

lemma initialize_processor_cases:
  assumes "initialize_processor s = (s1, ec)" "core s" "m_is_server (o_con s)" "m_internal_state (o_con s) = READ_HTTP_REQUEST"
  shows "core s1 \<and> m_is_server (o_con s1) \<and> m_internal_state (o_con s1) = READ_HTTP_REQUEST \<and> o_request s1 = o_request s \<and>
    (ec = None \<longrightarrow> is_websocket_handshake (o_request s1) \<longrightarrow> (\<exists>v \<in> set versions_supported. o_processor s1 = Some v))"
proof -
  have g: "core (get_processor v s)" "m_is_server (o_con (get_processor v s))" "m_internal_state (o_con (get_processor v s)) = READ_HTTP_REQUEST"
    "o_request (get_processor v s) = o_request s"
    "o_processor (get_processor v s) = Some w \<Longrightarrow> w \<in> set versions_supported" for v w
    using assms(2-4) by (auto simp: get_processor_def versions_supported_def core_def server_ok_def split: if_splits)
  show ?thesis using assms(1-4) g core_response [OF assms(2,3), of "set_status 400"] core_response [OF g(1,2)]
    by (auto simp: initialize_processor_def Let_def split: if_splits)
qed

lemma request_complete_good:
  assumes "core s" "m_is_server (o_con s)" "m_internal_state (o_con s) = READ_HTTP_REQUEST" "plain_app app"
  shows "good (request_complete app rest s)"
proof -
  obtain s1 ec where i: "initialize_processor s = (s1, ec)" by fastforce
  note p = initialize_processor_cases [OF i assms(1-3)]
  show ?thesis
  proof (cases "ec = None \<and> o_processor s1 = Some 0 \<and> 8 \<le> length rest")
    case True
    define s2 where "s2 = s1\<lparr>o_request := replace_header ''Sec-WebSocket-Key3'' (string_of (take 8 rest)) (o_request s1)\<rparr>"
    have "core s2" using p by (auto simp: s2_def core_def server_ok_def)
    then have "good (process_request app (drop 8 rest) s2)"
      using p True assms(4) by (intro process_request_good) (auto simp: s2_def versions_supported_def)
    then show ?thesis using True i by (simp add: request_complete_def s2_def)
  next
    case False
    have "core (upd_response (set_status 500) s1)" using p by (intro core_response) simp_all
    then show ?thesis using False i p assms(4) write_http_response_error_good [of s1] process_request_good [of s1 app rest]
        write_http_response_error_good [of "upd_response (set_status 500) s1"]
      by (cases ec) (auto simp: request_complete_def)
  qed
qed

lemma check_io_go: "check_io i ec c = Io_go \<Longrightarrow> con_state c = Connecting \<and> m_internal_state c = i"
  by (auto simp: check_io_def invalid_state_def split: if_splits option.splits)

lemma handle_read_handshake_good:
  assumes "core s" "live s" "plain_app app"
  shows "good (handle_read_handshake app ec buf s)"
proof (cases "check_io READ_HTTP_REQUEST ec (o_con s)")
  case Io_go
  note go = check_io_go [OF Io_go]
  then have server: "m_is_server (o_con s)" using assms(1) by (auto simp: core_def client_ok_def split: if_splits)
  then have "req_live (o_request s)" using assms(2) go by (simp add: live_def)
  note c = request_consume_ok [OF this, of "string_of buf"]
  obtain out r where q: "request_consume (string_of buf) (o_request s) = (out, r)" by fastforce
  have s1: "core (s\<lparr>o_request := r\<rparr>)" using assms(1) go server by (auto simp: core_def server_ok_def)
  show ?thesis
  proof (cases out)
    case (Took n)
    then have "live (s\<lparr>o_request := r\<rparr>)" using c q server by (simp add: live_def consumed_ok_def)
    then show ?thesis using Io_go q Took s1 terminate_good [OF assms(1)] terminate_good [OF s1] request_complete_good [OF s1 _ _ assms(3)] server go
      by (simp add: handle_read_handshake_def good_def)
  next
    case (Throw e)
    obtain m code where e: "e = (m, code)" by fastforce
    have "code \<noteq> 101" using c q Throw e by (simp add: consumed_ok_def)
    then have "core (upd_response (set_status_msg code []) (s\<lparr>o_request := r\<rparr>))"
      using s1 server by (intro core_response) simp_all
    then show ?thesis using Io_go q Throw e terminate_good [OF assms(1)] server write_http_response_error_good
      by (simp add: handle_read_handshake_def)
  next
    case Null_deref
    then show ?thesis using c q by (simp add: consumed_ok_def)
  qed
qed (use assms terminate_good in \<open>auto simp: handle_read_handshake_def good_def\<close>)

lemma core_set_open:
  assumes "if m_is_server (o_con s) then agreed s
    else o_uri s \<noteq> None \<and> o_http_state s \<noteq> http_deferred \<and> o_processor s = Some client_version \<and> answered s"
  shows "core (set_open s)"
  using assms by (auto simp: core_def set_open_def server_ok_def client_ok_def agreed_def answered_def split: if_splits)

lemma open_tail_good:
  assumes "core (set_open s)"
  shows "good (followed_by (call_open_handler app rng (set_open s)) (\<lambda>s2. (s2, [Handle_read_frame (o_buf s2)])))"
    and "good (followed_by (call_open_handler app rng (set_open s)) (\<lambda>s2. (s2\<lparr>o_buf := rest\<rparr>, [Handle_read_frame rest])))"
proof -
  define c where "c = o_con (set_open s)"
  have o: "con_state c = Open" "live (set_open s)" by (simp_all add: c_def set_open_def live_def)
  have r: "keeps_role c (run_calls rng calls c)" for calls by (rule role.run_calls)
  have "core ((set_open s)\<lparr>o_con := fst (run_calls rng calls c)\<rparr>)" "live ((set_open s)\<lparr>o_con := fst (run_calls rng calls c)\<rparr>)" for calls
    using core_con [OF assms, of "fst (run_calls rng calls c)"] r [of calls] o(1) by (auto simp: keeps_role_def c_def live_def)
  then have "good (call_open_handler app rng (set_open s))"
    using assms o(2) by (cases "open_handler app") (auto simp: call_open_handler_def good_def c_def split_def)
  then show "good (followed_by (call_open_handler app rng (set_open s)) (\<lambda>s2. (s2, [Handle_read_frame (o_buf s2)])))"
    "good (followed_by (call_open_handler app rng (set_open s)) (\<lambda>s2. (s2\<lparr>o_buf := rest\<rparr>, [Handle_read_frame rest])))"
    by (simp_all add: good_def)
qed

lemma handle_write_http_response_good:
  assumes "core s" "live s"
  shows "good (handle_write_http_response app rng ec s)"
proof (cases "check_io PROCESS_HTTP_REQUEST ec (o_con s)")
  case Io_go
  note go = check_io_go [OF Io_go]
  then have server: "m_is_server (o_con s)" using assms(1) by (auto simp: core_def client_ok_def split: if_splits)
  define s1 where "s1 = fst (cancel_open_timer s)"
  have 1: "core s1" "m_is_server (o_con s1)"
    using timer_good(1) [OF assms] server by (simp_all add: good_def s1_def cancel_open_timer_def)
  have "rs_status_code (o_response s1) = 101 \<Longrightarrow> agreed s1" using 1 by (simp add: core_def server_ok_def)
  then have "rs_status_code (o_response s1) = 101 \<Longrightarrow> core (set_open s1)" using core_set_open [of s1] 1(2) by simp
  moreover have "core (s1\<lparr>o_con := (o_con s1)\<lparr>m_ec := e\<rparr>\<rparr>)" for e by (rule core_con [OF 1(1)]) simp_all
  ultimately show ?thesis using Io_go open_tail_good(1) terminate_good 1(1) timer_good(1) [OF assms]
    by (auto simp: handle_write_http_response_def s1_def Let_def intro!: good_followed)
qed (use assms terminate_good in \<open>auto simp: handle_write_http_response_def good_def\<close>)

subsection \<open>The handlers of the client\<close>

lemma client_fields: "core s \<Longrightarrow> \<not> m_is_server (o_con s) \<Longrightarrow> client_ok s (m_internal_state (o_con s))"
  by (simp add: core_def)

lemma handle_transport_init_good:
  assumes "core s" "live s"
  shows "good (handle_transport_init rng ec s)"
proof (cases "m_internal_state (o_con s) = TRANSPORT_INIT \<and> ec = None")
  case True
  show ?thesis
  proof (cases "m_is_server (o_con s)")
    case server: True
    define s1 where "s1 = set_istate READ_HTTP_REQUEST s"
    have "core s1" "live s1"
      using assms True server by (auto simp: s1_def set_istate_def core_def live_def server_ok_def agreed_def)
    then have "good (read_handshake s1)"
      using timer_good(2) by (auto simp: read_handshake_def good_def)
    then show ?thesis using True server by (simp add: handle_transport_init_def s1_def)
  next
    case client: False
    define s1 where "s1 = get_processor client_version (set_istate WRITE_HTTP_REQUEST s)"
    note ok = client_fields [OF assms(1) client]
    then obtain u where u: "o_uri s1 = Some u" by (auto simp: client_ok_def s1_def get_processor_def set_istate_def client_version_def)
    have p: "o_processor s1 = Some 13" by (simp add: s1_def get_processor_def client_version_def set_istate_def)
    obtain r where r: "processor_request 13 rng (m_draws (o_con s1)) (o_request s1) u (o_requested s1) = (None, r)"
      by (simp add: processor_request_def client_handshake_request_def Let_def)
    define r1 where "r1 = (if get_header ''User-Agent'' r = [] then
        (if o_user_agent s1 \<noteq> [] then replace_header ''User-Agent'' (o_user_agent s1) r else remove_header ''User-Agent'' r) else r)"
    define s2 where "s2 = s1\<lparr>o_request := r1, o_handshake_buffer := request_raw r1, o_con := (o_con s1)\<lparr>m_draws := m_draws (o_con s1) + 4\<rparr>\<rparr>"
    have s2: "core s2" "live s2" using assms ok client True
      by (auto simp: s2_def s1_def get_processor_def client_version_def set_istate_def core_def live_def client_ok_def)
    have "good (followed_by (set_open_timer s2) (\<lambda>s3. (s3, [Async_write_request (request_raw r1)])))"
      using timer_good(2) [OF s2] by (auto simp: good_def)
    then have "good (send_http_request rng s1)"
      using p u r by (simp add: send_http_request_def Let_def r1_def [symmetric] s2_def [symmetric])
    then show ?thesis using True client by (simp add: handle_transport_init_def s1_def)
  qed
next
  case False
  then show ?thesis using terminate_good [OF assms(1)] by (auto simp: handle_transport_init_def Let_def invalid_state_def)
qed

lemma handle_send_http_request_good:
  assumes "core s" "live s"
  shows "good (handle_send_http_request ec s)"
proof (cases "check_io WRITE_HTTP_REQUEST ec (o_con s)")
  case Io_go
  note go = check_io_go [OF Io_go]
  then have "\<not> m_is_server (o_con s)" using assms(1) by (auto simp: core_def server_ok_def split: if_splits)
  then show ?thesis using assms go Io_go
    by (auto simp: handle_send_http_request_def good_def set_istate_def core_def live_def client_ok_def)
qed (use assms terminate_good in \<open>auto simp: handle_send_http_request_def good_def\<close>)

lemma response_complete_good:
  assumes "client_ok s i" "\<not> m_is_server (o_con s)" "o_processor s = Some client_version" "core s" "headers_ready (o_response s)"
  shows "good (response_complete app rng rest s)"
proof (cases "processor_validate_response 13 (o_request s) (o_response s)")
  case None
  define s1 where "s1 = fst (if fst (processor_extensions 13 (o_response s)) \<noteq> None
      then terminate_opening (Some (Library Lib_extension_neg_failed)) s else (s, []))"
  have "m_is_server (o_con s1) = m_is_server (o_con s) \<and> o_uri s1 = o_uri s \<and>
      (o_http_state s1 = o_http_state s \<or> o_http_state s1 = http_closed) \<and>
      o_processor s1 = o_processor s \<and> o_request s1 = o_request s \<and> o_response s1 = o_response s"
    by (auto simp: s1_def terminate_opening_def)
  then have "core (set_open s1)" using assms None
    by (intro core_set_open) (auto simp: client_ok_def answered_def processor_validate_response_def)
  moreover have "Null_dereference \<notin> set (snd (terminate_opening ec s))" for ec by (auto simp: terminate_opening_def)
  ultimately show ?thesis using None assms(3) open_tail_good(2) [of s1 app rng rest]
    by (auto simp: response_complete_def client_version_def good_def s1_def)
next
  case (Some e)
  then show ?thesis using assms(3) terminate_good [OF assms(4)] by (simp add: response_complete_def client_version_def)
qed

lemma handle_read_http_response_good:
  assumes "core s" "live s"
  shows "good (handle_read_http_response app rng ec buf s)"
proof (cases "check_io READ_HTTP_RESPONSE ec (o_con s)")
  case Io_go
  note go = check_io_go [OF Io_go]
  then have client: "\<not> m_is_server (o_con s)" using assms(1) by (auto simp: core_def server_ok_def split: if_splits)
  note ok = client_fields [OF assms(1) client]
  then have p: "o_processor s = Some client_version" using go by (simp add: client_ok_def)
  have "resp_live (o_response s)" using assms(2) go client by (simp add: live_def)
  note c = response_consume_ok [OF this, of "string_of buf"]
  obtain out r where q: "response_consume (string_of buf) (o_response s) = (out, r)" by fastforce
  define s1 where "s1 = s\<lparr>o_response := r\<rparr>"
  have s1: "core s1" "client_ok s1 READ_HTTP_RESPONSE" "\<not> m_is_server (o_con s1)" "o_processor s1 = Some client_version"
    using assms(1) go client ok p by (auto simp: s1_def core_def client_ok_def)
  show ?thesis
  proof (cases out)
    case (Took n)
    then have l: "live s1" using c q client by (simp add: live_def consumed_ok_def s1_def)
    have "good (followed_by (cancel_open_timer s1) (response_complete app rng (drop n buf)))" if "headers_ready r"
    proof (rule good_followed [OF timer_good(1) [OF s1(1) l]])
      assume "core (fst (cancel_open_timer s1))"
      then show "good (response_complete app rng (drop n buf) (fst (cancel_open_timer s1)))"
        using s1 that by (intro response_complete_good [where i = READ_HTTP_RESPONSE])
          (simp_all add: cancel_open_timer_def client_ok_def answered_def, simp_all add: s1_def)
    qed
    then show ?thesis using Io_go q Took s1(1) l
      by (simp add: handle_read_http_response_def s1_def good_def)
  next
    case (Throw e)
    then show ?thesis using Io_go q terminate_good [OF s1(1)] by (simp add: handle_read_http_response_def s1_def)
  next
    case Null_deref
    then show ?thesis using c q by (simp add: consumed_ok_def)
  qed
qed (use assms terminate_good in \<open>auto simp: handle_read_http_response_def good_def\<close>)

subsection \<open>Every event\<close>

definition plain_event :: "bool \<Rightarrow> open_event \<Rightarrow> bool" where
  "plain_event server ev \<longleftrightarrow> (case ev of Setup call \<Rightarrow> plain_call server call | _ \<Rightarrow> True)"

lemma open_step_good:
  assumes "core s" "live s" "plain_app app" "plain_event (m_is_server (o_con s)) ev"
  shows "good (open_step app rng ev s)"
proof (cases ev)
  case Start
  have "good (set_istate TRANSPORT_INIT s, [Init_transport])" if "m_internal_state (o_con s) = USER_INIT"
  proof (cases "m_is_server (o_con s)")
    case True
    then show ?thesis using assms(1,2) that by (auto simp: good_def set_istate_def core_def live_def server_ok_def)
  next
    case False
    then show ?thesis using assms(1,2) that by (auto simp: good_def set_istate_def core_def live_def client_ok_def)
  qed
  then show ?thesis using Start terminate_good [OF assms(1)] by (simp add: open_step_def start_connection_def)
next
  case (Open_timeout ec)
  then show ?thesis using assms(1,2) terminate_good [OF assms(1)]
    by (simp add: open_step_def handle_open_handshake_timeout_def good_def)
qed (use assms run_setup_good handle_transport_init_good handle_read_handshake_good handle_write_http_response_good
    handle_send_http_request_good handle_read_http_response_good in \<open>simp_all add: open_step_def plain_event_def\<close>)

subsection \<open>The role and the shutdown\<close>

definition open_shutdowns :: "open_effect list \<Rightarrow> nat" where
  "open_shutdowns effs = shutdowns (concat (map (\<lambda>e. case e of Con c \<Rightarrow> [c] | _ \<Rightarrow> []) effs))"

lemma open_shutdowns_simps [simp]:
  "open_shutdowns [] = 0" "open_shutdowns (effs @ effs') = open_shutdowns effs + open_shutdowns effs'"
  "open_shutdowns (map Con ceffs) = shutdowns ceffs"
  "open_shutdowns (Con (Async_shutdown t) # effs) = Suc (open_shutdowns effs)"
  by (simp_all add: open_shutdowns_def comp_def)

lemma open_shutdowns_Cons [simp]:
  "(\<And>t. e \<noteq> Con (Async_shutdown t)) \<Longrightarrow> open_shutdowns (e # effs) = open_shutdowns effs"
  by (cases e) (auto simp: open_shutdowns_def)

definition closed_now :: "open_state \<Rightarrow> nat" where
  "closed_now s = (if con_state (o_con s) = Closed then 1 else 0)"

text \<open>A step keeps the role; a server asks for a shutdown when it becomes closed and stays closed.\<close>

definition shuts :: "open_state \<Rightarrow> open_result \<Rightarrow> bool" where
  "shuts s r \<longleftrightarrow> m_is_server (o_con (fst r)) = m_is_server (o_con s) \<and>
     (m_is_server (o_con s) \<longrightarrow> open_shutdowns (snd r) + closed_now s = closed_now (fst r))"

lemma shuts_followed: "shuts s r \<Longrightarrow> shuts (fst r) (f (fst r)) \<Longrightarrow> shuts s (followed_by r f)"
  by (auto simp: shuts_def)

lemma shuts_same:
  "m_is_server (o_con s') = m_is_server (o_con s) \<Longrightarrow> con_state (o_con s') = con_state (o_con s) \<Longrightarrow>
     open_shutdowns effs = 0 \<Longrightarrow> shuts s (s', effs)"
  by (simp add: shuts_def closed_now_def)

lemma shuts_from:
  "m_is_server (o_con s') = m_is_server (o_con s) \<Longrightarrow> con_state (o_con s') = con_state (o_con s) \<Longrightarrow> shuts s' r \<Longrightarrow> shuts s r"
  by (simp add: shuts_def closed_now_def)

lemma shuts_terminate: "shuts s (terminate_opening ec s)"
  by (simp add: shuts_def closed_now_def terminate_opening_def)

lemma shuts_timers: "shuts s (cancel_open_timer s)" "shuts s (set_open_timer s)"
  by (simp_all add: cancel_open_timer_def set_open_timer_def shuts_same)

lemma shuts_write_response: "shuts s (write_http_response ec s)"
  by (simp add: write_http_response_def shuts_same Let_def)

lemma shuts_write_error: "shuts s (write_http_response_error ec s)"
proof (cases "m_internal_state (o_con s) = READ_HTTP_REQUEST")
  case True
  then show ?thesis using shuts_from [OF _ _ shuts_write_response, of "set_istate PROCESS_HTTP_REQUEST s"]
    by (simp add: write_http_response_error_def) (simp add: set_istate_def)
qed (simp add: write_http_response_error_def shuts_terminate)

lemma shuts_setup: "shuts s (run_setup call s)"
proof -
  have "open_shutdowns (snd (run_setup call s)) = 0"
    by (cases call) (simp_all add: run_setup_def defer_http_response_def cancel_open_timer_def send_http_response_def
        write_http_response_def Let_def)
  then show ?thesis using run_setup_role [of s call] shuts_same [of "fst (run_setup call s)" s "snd (run_setup call s)"]
    by (simp add: same_role_def)
qed

lemma shuts_setups: "shuts s (run_setups cs s)"
  by (induction cs arbitrary: s) (auto intro: shuts_followed shuts_setup shuts_same)

lemma shuts_effect: "shuts s r \<Longrightarrow> (\<And>t. e \<noteq> Con (Async_shutdown t)) \<Longrightarrow> shuts s (fst r, e # snd r)"
  by (simp add: shuts_def)

lemma shuts_response: "shuts s (s1, effs) \<Longrightarrow> shuts s (upd_response f s1, effs)" "shuts s (s1, effs) \<Longrightarrow> shuts s (s1\<lparr>o_response := q\<rparr>, effs)"
  by (simp_all add: shuts_def closed_now_def)

lemma shuts_http: "shuts s (fst (process_http app s))"
proof -
  define s1 where "s1 = s\<lparr>o_uri := Some (get_uri_from_host (o_request s) (if o_secure s then ''https'' else ''http''))\<rparr>"
  have "shuts s (fst r, Call_http_handler # snd r)" if "r = run_setups (h (s1\<lparr>o_is_http := True\<rparr>)) (s1\<lparr>o_is_http := True\<rparr>)" for h r
    using that shuts_from [OF _ _ shuts_setups, of "s1\<lparr>o_is_http := True\<rparr>" s] by (intro shuts_effect) (simp_all add: s1_def)
  then have h: "shuts s (fst (run_setups (h (s1\<lparr>o_is_http := True\<rparr>)) (s1\<lparr>o_is_http := True\<rparr>)),
      Call_http_handler # snd (run_setups (h (s1\<lparr>o_is_http := True\<rparr>)) (s1\<lparr>o_is_http := True\<rparr>)))" for h by blast
  have u: "shuts s (upd_response f s1, [])" "shuts s (s1, [])" for f by (simp_all add: s1_def shuts_same)
  show ?thesis unfolding process_http_def Let_def s1_def [symmetric]
    using h u by (auto simp: con_set_status_def split_def split: option.splits)
qed

lemma shuts_accept: "shuts s (fst (accept_or_reject app v s))"
proof -
  have "shuts s (s1, effs)" if "(case validate_handler app of None \<Rightarrow> (True, s, [])
       | Some h \<Rightarrow> (case run_setups (snd (h s)) s of (s1, effs) \<Rightarrow> (fst (h s), s1, Call_validate_handler # effs))) = (accepted, s1, effs)"
    for accepted s1 effs
  proof (cases "validate_handler app")
    case (Some h)
    then show ?thesis using that shuts_effect [OF shuts_setups [of s "snd (h s)"], of Call_validate_handler] by (auto split: prod.splits)
  qed (use that in \<open>simp add: shuts_same\<close>)
  then show ?thesis by (auto simp: accept_or_reject_def Let_def shuts_response split: option.splits prod.splits)
qed

lemma shuts_request: "shuts s (fst (process_handshake_request app s))"
proof (cases "\<not> is_websocket_handshake (o_request s) \<or> o_processor s = None")
  case True
  then show ?thesis by (auto simp: process_handshake_request_def shuts_http intro: shuts_same)
next
  case False
  then obtain v where v: "is_websocket_handshake (o_request s)" "o_processor s = Some v" by auto
  have "shuts s (fst (accept_or_reject app v s'))" if "o_con s' = o_con s" for s'
    using shuts_from [OF _ _ shuts_accept, of s' s] that by simp
  then show ?thesis using v
    by (auto simp: process_handshake_request_def Let_def split: option.splits prod.splits intro!: shuts_same)
qed

lemma shuts_process_request: "shuts s (process_request app rest s)"
proof -
  define s1 where "s1 = set_istate PROCESS_HTTP_REQUEST (s\<lparr>o_buf := rest\<rparr>)"
  obtain r ec where p: "process_handshake_request app s1 = (r, ec)" by fastforce
  have "shuts s r" using shuts_from [OF _ _ shuts_request, of s1 s app] p by (simp add: s1_def set_istate_def)
  moreover have "shuts s' (if b s' then write_http_response ec s' else (s', []))" for s' b
    by (simp add: shuts_write_response shuts_same)
  ultimately show ?thesis unfolding process_request_def s1_def [symmetric] p prod.case by (rule shuts_followed)
qed

lemma shuts_request_complete: "shuts s (request_complete app rest s)"
proof -
  obtain s1 ec where i: "initialize_processor s = (s1, ec)" by fastforce
  then have "m_is_server (o_con s1) = m_is_server (o_con s)" "con_state (o_con s1) = con_state (o_con s)"
    by (auto simp: initialize_processor_def get_processor_def Let_def split: if_splits)
  note lift = shuts_from [OF this]
  have "shuts s1 (write_http_response_error e (upd_response f s1))" for e f
    using shuts_from [OF _ _ shuts_write_error, of "upd_response f s1" s1] by simp
  moreover have "shuts s1 (process_request app bs (s1\<lparr>o_request := r\<rparr>))" for bs r
    using shuts_from [OF _ _ shuts_process_request, of "s1\<lparr>o_request := r\<rparr>" s1] by simp
  ultimately have "shuts s1 (request_complete app rest s)"
    by (cases ec) (simp_all add: request_complete_def i shuts_write_error shuts_process_request)
  then show ?thesis by (rule lift)
qed

lemma shuts_read_handshake: "shuts s (handle_read_handshake app ec buf s)"
proof (cases "check_io READ_HTTP_REQUEST ec (o_con s)")
  case Io_go
  obtain out r where q: "request_consume (string_of buf) (o_request s) = (out, r)" by fastforce
  define s1 where "s1 = s\<lparr>o_request := r\<rparr>"
  have lift: "shuts s1 x \<Longrightarrow> shuts s x" for x by (rule shuts_from) (simp_all add: s1_def)
  have "shuts s1 (write_http_response_error e (upd_response f s1))" for e f
    using shuts_from [OF _ _ shuts_write_error, of "upd_response f s1" s1] by simp
  then show ?thesis using Io_go q
    by (cases out) (auto simp: handle_read_handshake_def s1_def [symmetric] shuts_terminate
        intro!: lift shuts_same shuts_terminate shuts_request_complete)
qed (simp_all add: handle_read_handshake_def shuts_terminate shuts_same)

lemma shuts_open_handler: "con_state (o_con s) = Open \<Longrightarrow> shuts s (call_open_handler app rng s)"
proof (cases "open_handler app")
  case (Some calls)
  have "follows (o_con s) (run_calls rng calls (o_con s))" "keeps_role (o_con s) (run_calls rng calls (o_con s))"
    by (rule fo.run_calls, rule role.run_calls)
  then show ?thesis using Some
    by (auto simp: call_open_handler_def shuts_def closed_now_def follows_def keeps_role_def split_def)
qed (simp add: call_open_handler_def shuts_same)

lemma shuts_opened:
  assumes "con_state (o_con s) = Connecting \<or> \<not> m_is_server (o_con s)" and that: "\<And>s. o_con (f s) = o_con s"
  shows "shuts s (followed_by (call_open_handler app rng (set_open s)) (\<lambda>s2. (f s2, [Handle_read_frame (g s2)])))"
proof -
  have "shuts (set_open s) (followed_by (call_open_handler app rng (set_open s)) (\<lambda>s2. (f s2, [Handle_read_frame (g s2)])))"
    by (rule shuts_followed [OF shuts_open_handler shuts_same]) (simp_all add: that, simp add: set_open_def)
  then show ?thesis using assms(1) by (auto simp: shuts_def closed_now_def set_open_def)
qed

lemma shuts_write_done: "shuts s (handle_write_http_response app rng ec s)"
proof (cases "check_io PROCESS_HTTP_REQUEST ec (o_con s)")
  case Io_go
  define s1 where "s1 = fst (cancel_open_timer s)"
  have c: "con_state (o_con s1) = Connecting" using check_io_go [OF Io_go] by (simp add: s1_def cancel_open_timer_def)
  have "shuts s1 (terminate_opening e (s1\<lparr>o_con := (o_con s1)\<lparr>m_ec := d\<rparr>\<rparr>))" for d e
    by (rule shuts_from [OF _ _ shuts_terminate]) simp_all
  then show ?thesis using Io_go shuts_opened [of s1 "\<lambda>s. s" app rng o_buf] c
    by (auto simp: handle_write_http_response_def s1_def [symmetric] shuts_terminate Let_def intro!: shuts_followed shuts_timers)
qed (simp_all add: handle_write_http_response_def shuts_terminate shuts_same)

lemma shuts_response_done: "\<not> m_is_server (o_con s) \<Longrightarrow> shuts s (response_complete app rng rest s)"
proof (cases "o_processor s")
  case (Some v)
  assume c: "\<not> m_is_server (o_con s)"
  have op: "shuts s' (followed_by (call_open_handler app rng (set_open s')) (\<lambda>s2. (s2\<lparr>o_buf := rest\<rparr>, [Handle_read_frame rest])))"
    if "\<not> m_is_server (o_con s')" for s'
    using shuts_opened [of s' "\<lambda>s. s\<lparr>o_buf := rest\<rparr>" app rng "\<lambda>_. rest"] that by simp
  have t: "\<not> m_is_server (o_con (fst (terminate_opening ec s)))" for ec using c by (simp add: terminate_opening_def)
  have step: "shuts s (followed_by r (\<lambda>s1. followed_by (call_open_handler app rng (set_open s1))
      (\<lambda>s2. (s2\<lparr>o_buf := rest\<rparr>, [Handle_read_frame rest]))))" if "r = terminate_opening ec s \<or> r = (s, [])" for r ec
  proof (rule shuts_followed)
    show "shuts s r" using that by (auto intro: shuts_terminate shuts_same)
    show "shuts (fst r) (followed_by (call_open_handler app rng (set_open (fst r))) (\<lambda>s2. (s2\<lparr>o_buf := rest\<rparr>, [Handle_read_frame rest])))"
      by (rule op) (use that c t in auto)
  qed
  show ?thesis using Some step [of "(s, [])"] step [of "terminate_opening (Some (Library Lib_extension_neg_failed)) s"]
    by (cases "fst (processor_extensions v (o_response s))")
      (auto simp: response_complete_def shuts_terminate simp del: followed_by_simps split: option.splits)
qed (simp add: response_complete_def shuts_same)

lemma shuts_response_read:
  assumes "m_is_server (o_con s) \<Longrightarrow> m_internal_state (o_con s) \<noteq> READ_HTTP_RESPONSE"
  shows "shuts s (handle_read_http_response app rng ec buf s)"
proof (cases "check_io READ_HTTP_RESPONSE ec (o_con s)")
  case Io_go
  then have c: "\<not> m_is_server (o_con s)" using assms check_io_go by blast
  obtain out r where q: "response_consume (string_of buf) (o_response s) = (out, r)" by fastforce
  define s1 where "s1 = s\<lparr>o_response := r\<rparr>"
  have lift: "shuts s1 x \<Longrightarrow> shuts s x" for x by (rule shuts_from) (simp_all add: s1_def)
  have "\<not> m_is_server (o_con (fst (cancel_open_timer s1)))" using c by (simp add: cancel_open_timer_def s1_def)
  then show ?thesis using Io_go q
    by (cases out) (auto simp: handle_read_http_response_def s1_def [symmetric]
        intro!: lift shuts_same shuts_terminate shuts_followed shuts_timers shuts_response_done)
qed (simp_all add: handle_read_http_response_def shuts_terminate shuts_same)

lemma shuts_transport_init: "shuts s (handle_transport_init rng ec s)"
proof -
  have "shuts s (read_handshake (set_istate READ_HTTP_REQUEST s))"
    by (rule shuts_from [of "set_istate READ_HTTP_REQUEST s"])
      (auto simp: read_handshake_def intro!: shuts_followed shuts_timers shuts_same, simp_all add: set_istate_def)
  moreover have "shuts s' (send_http_request rng s')" for s'
  proof -
    have "shuts s' (followed_by (set_open_timer (s'\<lparr>o_request := a, o_handshake_buffer := b,
        o_con := (o_con s')\<lparr>m_draws := d\<rparr>\<rparr>)) (\<lambda>s1. (s1, [Async_write_request b])))" for a b d
      by (rule shuts_from [of "s'\<lparr>o_request := a, o_handshake_buffer := b, o_con := (o_con s')\<lparr>m_draws := d\<rparr>\<rparr>"])
        (auto intro!: shuts_followed shuts_timers shuts_same)
    then show ?thesis by (auto simp: send_http_request_def Let_def shuts_same split: option.splits prod.splits)
  qed
  then have "shuts s (send_http_request rng (get_processor client_version (set_istate WRITE_HTTP_REQUEST s)))"
    by (rule shuts_from [rotated 2]) (simp_all add: get_processor_def set_istate_def)
  ultimately show ?thesis by (auto simp: handle_transport_init_def Let_def shuts_terminate)
qed

lemma open_step_shuts:
  assumes "core s"
  shows "shuts s (open_step app rng ev s)"
proof (cases ev)
  case Start
  then show ?thesis by (auto simp: open_step_def start_connection_def shuts_terminate set_istate_def intro: shuts_same)
next
  case (Read_response ec buf)
  then show ?thesis using assms by (auto simp: open_step_def core_def server_ok_def intro!: shuts_response_read)
qed (auto simp: open_step_def shuts_setup shuts_transport_init shuts_read_handshake shuts_write_done handle_send_http_request_def
    handle_open_handshake_timeout_def shuts_terminate set_istate_def split: io_check.splits intro: shuts_same)

lemma open_steps_sound:
  assumes "core s" "live s" "plain_app app" "\<forall>ev \<in> set evs. plain_event (m_is_server (o_con s)) ev"
  shows "good (open_steps app rng evs s) \<and> shuts s (open_steps app rng evs s)"
  using assms
proof (induction evs arbitrary: s)
  case (Cons ev evs)
  define r where "r = open_step app rng ev s"
  have r: "good r" "shuts s r" unfolding r_def
    using open_step_good [OF Cons.prems(1-3)] open_step_shuts [OF Cons.prems(1)] Cons.prems(4) by simp_all
  have "good (open_steps app rng evs (fst r)) \<and> shuts (fst r) (open_steps app rng evs (fst r))"
    using r Cons.prems by (intro Cons.IH) (auto simp: good_def shuts_def)
  then show ?case using r unfolding open_steps.simps r_def [symmetric] by (auto intro: shuts_followed simp: good_def)
qed (simp add: good_def shuts_same)

lemma new_opening_sound:
  assumes "server \<or> u \<noteq> None"
  shows "core ((new_opening server secure ua)\<lparr>o_uri := u\<rparr>)" "live ((new_opening server secure ua)\<lparr>o_uri := u\<rparr>)"
  using assms by (auto simp: new_opening_def core_def live_def server_ok_def client_ok_def new_response_def req_live_def
      resp_live_def new_request_def)

text \<open>An application that has only message handlers, as that of the program.\<close>

definition no_handlers :: open_app where
  "no_handlers = \<lparr>validate_handler = None, http_handler = None, open_handler = None\<rparr>"

subsection \<open>Properties\<close>

text \<open>
  C30: The states of the opening handshake are those of the role, and no null pointer is followed: whatever events come in
  whatever order, a server is open only when its request is a handshake of a version that it supports and that the
  processor of this version finds valid, and a client only when the server's response answers its request.
\<close>
theorem opening_states:
  assumes "plain_app app" "\<forall>ev \<in> set evs. plain_event server ev" "server \<or> u \<noteq> None"
    and "open_steps app rng evs ((new_opening server secure ua)\<lparr>o_uri := u\<rparr>) = (s, effs)"
  shows "Null_dereference \<notin> set effs \<and> m_is_server (o_con s) = server \<and>
    (con_state (o_con s) = Open \<longrightarrow> m_internal_state (o_con s) = PROCESS_CONNECTION) \<and>
    (con_state (o_con s) = Connecting \<longrightarrow> m_internal_state (o_con s) \<noteq> PROCESS_CONNECTION) \<and>
    (m_internal_state (o_con s) = PROCESS_CONNECTION \<longrightarrow>
      (if server then is_websocket_handshake (o_request s) \<and>
         (\<exists>v \<in> set versions_supported. o_processor s = Some v \<and> processor_validate v (o_request s) = None)
       else headers_ready (o_response s) \<and> validate_server_handshake_response (o_request s) (o_response s) = None)) \<and>
    m_internal_state (o_con s) \<in> {USER_INIT, TRANSPORT_INIT, PROCESS_CONNECTION} \<union>
      (if server then {READ_HTTP_REQUEST, PROCESS_HTTP_REQUEST} else {WRITE_HTTP_REQUEST, READ_HTTP_RESPONSE})"
proof -
  define s0 where "s0 = (new_opening server secure ua)\<lparr>o_uri := u\<rparr>"
  have role: "m_is_server (o_con s0) = server" by (simp add: s0_def new_opening_def)
  have "good (s, effs) \<and> shuts s0 (s, effs)"
    using open_steps_sound [of s0 app evs rng] new_opening_sound [OF assms(3)] assms(1,2,4) role by (simp add: s0_def)
  then have "core s" "Null_dereference \<notin> set effs" "m_is_server (o_con s) = server"
    using role by (simp_all add: good_def shuts_def)
  then show ?thesis by (cases server) (auto simp: core_def server_ok_def client_ok_def agreed_def answered_def)
qed

text \<open>
  C32: A server asks for exactly one shutdown of the transport when the connection ends during the opening handshake or in
  the open handler, and for none before, whatever events come in whatever order.
\<close>
theorem server_shuts_down_once:
  assumes "plain_app app" "\<forall>ev \<in> set evs. plain_event True ev"
    and "open_steps app rng evs (new_opening True secure ua) = (s, effs)"
  shows "open_shutdowns effs = (if con_state (o_con s) = Closed then 1 else 0)"
proof -
  have e: "(new_opening True secure ua)\<lparr>o_uri := None\<rparr> = new_opening True secure ua" by (simp add: new_opening_def)
  have "shuts (new_opening True secure ua) (s, effs)"
    using open_steps_sound [of "new_opening True secure ua" app evs rng] new_opening_sound [of True None secure ua] assms
    by (simp add: e) (simp add: new_opening_def)
  then show ?thesis by (simp add: shuts_def closed_now_def) (simp add: new_opening_def)
qed

lemma no_handlers_plain: "plain_app no_handlers"
  by (simp add: plain_app_def no_handlers_def)

theorem opening_states_witness:
  "\<exists>s effs. open_steps no_handlers (\<lambda>_. 0) [Setup (Set_body ''x''), Start, Transport_ready None, Open_timeout None]
      ((new_opening True False ''ws'')\<lparr>o_uri := None\<rparr>) = (s, effs) \<and> Null_dereference \<notin> set effs \<and>
      m_internal_state (o_con s) \<noteq> WRITE_HTTP_REQUEST"
proof -
  obtain s effs where "open_steps no_handlers (\<lambda>_. 0) [Setup (Set_body ''x''), Start, Transport_ready None, Open_timeout None]
      ((new_opening True False ''ws'')\<lparr>o_uri := None\<rparr>) = (s, effs)" by fastforce
  moreover from opening_states [OF no_handlers_plain _ _ this] have "Null_dereference \<notin> set effs \<and> m_internal_state (o_con s) \<noteq> WRITE_HTTP_REQUEST"
    by (auto simp: plain_event_def plain_call_def)
  ultimately show ?thesis by blast
qed

theorem server_shuts_down_once_witness:
  "\<exists>s effs. open_steps no_handlers (\<lambda>_. 0) [Start, Open_timeout None, Open_timeout None] (new_opening True False ''ws'')
      = (s, effs) \<and> con_state (o_con s) = Closed \<and> open_shutdowns effs = 1"
proof -
  obtain s effs where r: "open_steps no_handlers (\<lambda>_. 0) [Start, Open_timeout None, Open_timeout None]
      (new_opening True False ''ws'') = (s, effs)" by fastforce
  have "con_state (o_con (fst (open_steps no_handlers (\<lambda>_. 0) [Start, Open_timeout None, Open_timeout None] (new_opening True False ''ws'')))) = Closed"
    by (simp add: open_step_def handle_open_handshake_timeout_def terminate_opening_def)
  then have "con_state (o_con s) = Closed" unfolding r by simp
  then show ?thesis using server_shuts_down_once [OF no_handlers_plain _ r] r by (simp add: plain_event_def)
qed

end
