(* ===== verification/Ws_Opening_Runs.thy ===== *)
theory Ws_Opening_Runs
  imports Ws_Opening_States
begin

section \<open>websocketpp: runs of the opening handshake\<close>

text \<open>
  What a server makes of a request (\<open>refusal\<close>, \<open>server_run\<close>), and a client and a server that open a connection with
  each other.
\<close>

subsection \<open>How a server answers\<close>

text \<open>The response with the version and the name of the server.\<close>

definition finished :: "string \<Rightarrow> response \<Rightarrow> response" where
  "finished ua res =
     (let r = res\<lparr>m_version := ''HTTP/1.1''\<rparr> in
      if get_header ''Server'' r = [] then (if ua \<noteq> [] then replace_header ''Server'' ua r else remove_header ''Server'' r) else r)"

lemma write_http_response_result:
  assumes "rs_status_code (o_response s) \<noteq> 0" "ec \<noteq> Some (Library Lib_http_connection_ended)"
  defines "res \<equiv> finished (o_user_agent s) (o_response s)"
    and "raw \<equiv> (if o_processor s = Some 0 then get_raw00 else response_raw) (finished (o_user_agent s) (o_response s))"
  shows "write_http_response ec s = (s\<lparr>o_con := (o_con s)\<lparr>m_ec := ec\<rparr>, o_response := res, o_handshake_buffer := raw\<rparr>,
    [Async_write_response raw])"
  unfolding raw_def using assms(1,2) by (cases s) (auto simp: res_def write_http_response_def finished_def Let_def upd_response_def processor_raw_def
      split: option.splits)

lemma finished_status [simp]: "rs_status_code (finished ua res) = rs_status_code res"
  by (simp add: finished_def Let_def)

text \<open>The response is written: the end of a handshake that was refused, or the start of the connection.\<close>

lemma response_written:
  assumes "con_state (o_con s) = Connecting" "m_internal_state (o_con s) = PROCESS_HTTP_REQUEST" "m_handshake_timer (o_con s)"
    and "\<not> o_is_http s" "open_handler app = None"
  shows "rs_status_code (o_response s) \<noteq> 101 \<Longrightarrow> handle_write_http_response app rng None s =
      (s\<lparr>o_con := fst (terminate (m_ec (o_con s)) ((o_con s)\<lparr>m_handshake_timer := False\<rparr>))\<rparr>,
       [Con Cancel_handshake_timer, Con (Async_shutdown T_failed)])"
    and "rs_status_code (o_response s) = 101 \<Longrightarrow> handle_write_http_response app rng None s =
      (s\<lparr>o_con := (o_con s)\<lparr>m_handshake_timer := False, m_internal_state := PROCESS_CONNECTION, con_state := Open\<rparr>\<rparr>,
       [Con Cancel_handshake_timer, Handle_read_frame (o_buf s)])"
  using assms
  by (simp_all add: handle_write_http_response_def check_io_def cancel_open_timer_def followed_by_def terminate_opening_def
      lift_con_def terminate_def call_open_handler_def set_open_def Let_def split: option.splits)

text \<open>The server after the transport is ready, and the state in which it judges the request \<open>r\<close>.\<close>

definition reading :: "bool \<Rightarrow> string \<Rightarrow> request \<Rightarrow> open_state" where
  "reading secure ua r = (new_opening True secure ua)\<lparr>o_con := (open_connection True)\<lparr>con_state := Connecting,
     m_internal_state := READ_HTTP_REQUEST, m_handshake_timer := True\<rparr>, o_request := r\<rparr>"

lemma server_starts:
  "open_steps app rng (Start # Transport_ready None # evs) (new_opening True secure ua) =
     (case open_steps app rng evs (reading secure ua new_request) of
        (s, effs) \<Rightarrow> (s, Init_transport # Set_open_timer timeout_open_handshake # Async_read_handshake # effs))"
  by (simp add: open_step_def start_connection_def set_istate_def new_opening_def reading_def followed_by_def
      handle_transport_init_def read_handshake_def set_open_timer_def timeout_open_handshake_def split: prod.splits)

lemma server_reads:
  assumes "request_consume (string_of buf) new_request = (Took n, r)" "rq_ready r" "n \<le> length buf"
    and "length buf \<le> connection_read_buffer_size"
  shows "handle_read_handshake app None buf (reading secure ua new_request) = request_complete app (drop n buf) (reading secure ua r)"
  using assms by (simp add: handle_read_handshake_def check_io_def reading_def new_opening_def)

text \<open>
  What a server that has only message handlers makes of a request \<open>r\<close> with the bytes \<open>rest\<close> behind it.  A handshake
  without a version header is one of version 0: its third key is the eight bytes behind the request, which the
  code stores as a header, and its response is written by \<open>get_raw00\<close>.
\<close>

definition version0 :: "request \<Rightarrow> bool" where
  "version0 r \<longleftrightarrow> is_websocket_handshake r \<and> get_websocket_version r = 0"

definition judged :: "byte list \<Rightarrow> request \<Rightarrow> request" where
  "judged rest r = (if version0 r then replace_header ''Sec-WebSocket-Key3'' (string_of (take 8 rest)) r else r)"

definition behind :: "byte list \<Rightarrow> request \<Rightarrow> byte list" where
  "behind rest r = (if version0 r then drop 8 rest else rest)"

definition written :: "request \<Rightarrow> response \<Rightarrow> string" where
  "written r res = (if version0 r then get_raw00 res else response_raw res)"

text \<open>The status and error code of a refusal.\<close>

definition refusal :: "bool \<Rightarrow> byte list \<Rightarrow> request \<Rightarrow> (status_code \<times> ws_error) option" where
  "refusal secure rest r =
     (if \<not> is_websocket_handshake r then
        (if u_valid (get_uri_from_host r (if secure then ''https'' else ''http''))
         then Some (426, Library Lib_upgrade_required) else Some (400, Library Lib_invalid_uri))
      else let v = get_websocket_version r; q = judged rest r in
        if v < 0 then Some (400, Library Lib_invalid_version)
        else if v \<notin> {0, 7, 8, 13} then Some (400, Library Lib_unsupported_version)
        else if v = 0 \<and> length rest < 8 then Some (500, Processor Proc_short_key3)
        else case (if v = 0 then validate_handshake00 q else validate_handshake q) of
            Some e \<Rightarrow> Some (400, e)
          | None \<Rightarrow> (case (if v = 0 then None else fst (negotiate_extensions q)) of
              Some e \<Rightarrow> Some (400, e)
            | None \<Rightarrow> if u_valid (if v = 0 then get_uri00 secure q else get_uri secure q) then None
                       else Some (400, Library Lib_invalid_uri)))"

text \<open>
  A state in which the server has decided on the request \<open>r\<close>, with the bytes \<open>rest\<close> behind it, and asked for the
  response to be written.
\<close>

definition accepted :: "bool \<Rightarrow> string \<Rightarrow> request \<Rightarrow> byte list \<Rightarrow> open_state \<Rightarrow> bool" where
  "accepted secure ua r rest s \<longleftrightarrow>
     (let v = get_websocket_version r; q = judged rest r in
        o_buf s = behind rest r \<and> o_processor s = Some v \<and> o_uri s = Some (processor_uri v secure q) \<and>
        o_requested s = snd (processor_subprotocols v q []) \<and>
        o_response s = finished ua (snd (processor_handshake v secure q [] (set_status 101 new_response))))"

definition decided :: "bool \<Rightarrow> string \<Rightarrow> request \<Rightarrow> byte list \<Rightarrow> (status_code \<times> ws_error) option \<Rightarrow> open_result \<Rightarrow> bool" where
  "decided secure ua r rest verdict res \<longleftrightarrow> (case res of (s, effs) \<Rightarrow>
     effs = [Async_write_response (written r (o_response s))] \<and> \<not> o_is_http s \<and>
     o_con s = (o_con (reading secure ua r))\<lparr>m_internal_state := PROCESS_HTTP_REQUEST, m_ec := map_option snd verdict\<rparr> \<and>
     rs_status_code (o_response s) = (case verdict of None \<Rightarrow> 101 | Some (code, _) \<Rightarrow> code) \<and>
     (verdict = None \<longrightarrow> accepted secure ua r rest s))"

text \<open>The third key is a header that nothing but \<open>validate_handshake00\<close> and \<open>key_final00\<close> read.\<close>

lemma hdr_find_set_other: "\<not> ci_eq j key \<Longrightarrow> hdr_find j (hdr_set key v hs) = hdr_find j hs"
proof (induction key v hs rule: hdr_set.induct)
  case (2 key val k v hs)
  have "\<not> ci_less key k \<Longrightarrow> \<not> ci_less k key \<Longrightarrow> ci_eq j k = ci_eq j key" using ci_eq_def [of key k] by (simp add: ci_eq_key)
  with 2 show ?case by auto
qed simp

lemma is_handshake_judged [simp]: "is_websocket_handshake (judged rest r) = is_websocket_handshake r"
proof -
  have "\<not> ci_eq ''Upgrade'' ''Sec-WebSocket-Key3''" "\<not> ci_eq ''Connection'' ''Sec-WebSocket-Key3''" by code_simp+
  then show ?thesis
    by (auto simp: judged_def is_websocket_handshake_def get_header_def replace_header_def hdr_find_set_other)
qed

lemma negotiated_nothing: "fst (negotiate_extensions p) = None \<Longrightarrow> negotiate_extensions p = (None, [])"
proof -
  assume "fst (negotiate_extensions p) = None"
  moreover have "fold (\<lambda>(name, attributes) ret. if name = ''permessage-deflate'' \<and> \<not> pmd_is_enabled \<and> fst (pmd_negotiate attributes) = None
      then ret @ snd (pmd_negotiate attributes) else ret) ps ret = ret" for ps ret
    by (induction ps arbitrary: ret) (auto simp: pmd_negotiate_def)
  ultimately show ?thesis by (auto simp: negotiate_extensions_def split: if_splits prod.splits bool.splits)
qed

lemma decided_write:
  assumes "rs_status_code (o_response s) = (case verdict of None \<Rightarrow> 101 | Some (code, _) \<Rightarrow> code)" "rs_status_code (o_response s) \<noteq> 0"
    and "map_option snd verdict \<noteq> Some (Library Lib_http_connection_ended)" "\<not> o_is_http s" "o_processor s = Some 0 \<longleftrightarrow> version0 r"
    and "o_con s = (o_con (reading secure ua r))\<lparr>m_internal_state := PROCESS_HTTP_REQUEST\<rparr>"
    and "verdict = None \<Longrightarrow> o_user_agent s = ua \<and> accepted secure ua r rest (s\<lparr>o_response := finished ua (o_response s)\<rparr>)"
  shows "decided secure ua r rest verdict (write_http_response (map_option snd verdict) s)"
  using assms by (auto simp: decided_def write_http_response_result [OF assms(2,3)] accepted_def written_def Let_def)

lemmas decided_refused = decided_write [where verdict = "Some (code, e)" for code e, simplified]
lemmas decided_accepted = decided_write [where verdict = None, simplified]

lemma process_request_decided:
  assumes "process_handshake_request app (set_istate PROCESS_HTTP_REQUEST (s\<lparr>o_buf := rest\<rparr>)) = ((s1, []), ec)" "\<not> o_is_http s1"
  shows "process_request app rest s = write_http_response ec s1"
  using assms by (simp add: process_request_def followed_by_def split: prod.splits)

lemma processor_fields [simp]:
  "o_request (get_processor v s) = o_request s" "o_response (get_processor v s) = o_response s" "o_secure (get_processor v s) = o_secure s"
  "o_is_http (get_processor v s) = o_is_http s" "o_requested (get_processor v s) = o_requested s" "o_buf (get_processor v s) = o_buf s"
  "o_subprotocol (get_processor v s) = o_subprotocol s" "o_user_agent (get_processor v s) = o_user_agent s"
  by (simp_all add: get_processor_def)

text \<open>The request is judged by the processor of its version.\<close>

lemma processor_decided:
  assumes "validate_handler app = None" "is_websocket_handshake r" "get_websocket_version r = v" "v \<in> {0, 7, 8, 13}"
    and "v = 0 \<Longrightarrow> 8 \<le> length rest"
    and "o_request s1 = judged rest r" "o_secure s1 = secure" "rs_status_code (o_response s1) = 0" "\<not> o_is_http s1" "o_processor s1 = Some v"
      "o_con s1 = o_con (reading secure ua r)" "o_requested s1 = []" "o_subprotocol s1 = []" "o_user_agent s1 = ua" "o_response s1 = new_response"
  shows "decided secure ua r rest (refusal secure rest r) (process_request app (behind rest r) s1)"
proof -
  note s1 = assms(6-15)
  define q where "q = judged rest r"
  have v0: "version0 r \<longleftrightarrow> v = 0" using assms(2,3) by (simp add: version0_def)
  have ws: "is_websocket_handshake q" using assms(2) by (simp add: q_def)
  define s2 where "s2 = set_istate PROCESS_HTTP_REQUEST (s1\<lparr>o_buf := behind rest r\<rparr>)"
  have s2: "o_request s2 = q" "o_secure s2 = secure" "rs_status_code (o_response s2) = 0" "\<not> o_is_http s2" "o_processor s2 = Some v"
    "o_con s2 = (o_con (reading secure ua r))\<lparr>m_internal_state := PROCESS_HTTP_REQUEST\<rparr>"
    "o_requested s2 = []" "o_subprotocol s2 = []" "o_buf s2 = behind rest r" "o_user_agent s2 = ua" "o_response s2 = new_response"
    using s1 by (simp_all add: s2_def set_istate_def q_def)
  have ref: "refusal secure rest r = (case processor_validate v q of Some e \<Rightarrow> Some (400, e)
      | None \<Rightarrow> (case fst (processor_extensions v q) of Some e \<Rightarrow> Some (400, e)
        | None \<Rightarrow> if u_valid (processor_uri v secure q) then None else Some (400, Library Lib_invalid_uri)))"
    using assms(2-5) by (auto simp: refusal_def Let_def q_def processor_validate_def processor_extensions_def processor_uri_def
        split: option.splits)
  have refuse: "decided secure ua r rest (Some (400, e)) (process_request app (behind rest r) s1)"
    if "process_handshake_request app s2 = ((upd_response (set_status 400) s3, []), Some e)" "e \<noteq> Library Lib_http_connection_ended"
      "o_con s3 = o_con s2" "\<not> o_is_http s3" "o_processor s3 = Some v" for e s3
    using that process_request_decided [of app "behind rest r" s1, folded s2_def, OF that(1)] s2(6) v0
    by (auto intro!: decided_refused)
  note phr = process_handshake_request_def [of app s2] s2(1-5,7-9) ws
  show ?thesis
  proof (cases "processor_validate v q")
    case (Some e)
    have "e \<noteq> Library Lib_http_connection_ended"
      using Some by (auto simp: processor_validate_def validate_handshake_def validate_handshake00_def split: if_splits)
    then show ?thesis using refuse [of s2 e] Some s2(4,5) by (simp add: phr ref)
  next
    case ok: None
    show ?thesis
    proof (cases "fst (processor_extensions v q)")
      case (Some e)
      have "e \<noteq> Library Lib_http_connection_ended"
        using Some by (auto simp: processor_extensions_def negotiate_extensions_def split: if_splits prod.splits bool.splits)
      then show ?thesis using refuse [of s2 e] Some s2(4,5) ok
        by (cases "processor_extensions v q") (simp add: phr ref)
    next
      case None
      have neg: "processor_extensions v q = (None, [])"
        using None negotiated_nothing [of q] by (auto simp: processor_extensions_def split: if_splits)
      define s3 where "s3 = s2\<lparr>o_uri := Some (processor_uri v secure q)\<rparr>"
      show ?thesis
      proof (cases "u_valid (processor_uri v secure q)")
        case False
        then show ?thesis using refuse [of s3 "Library Lib_invalid_uri"] s2(4,5) ok neg
          by (simp add: phr ref Let_def s3_def)
      next
        case valid: True
        define s4 where "s4 = s3\<lparr>o_requested := snd (processor_subprotocols v q [])\<rparr>"
        define s5 where "s5 = s4\<lparr>o_response := snd (processor_handshake v secure q [] (set_status 101 (o_response s4)))\<rparr>"
        have "process_handshake_request app s2 = accept_or_reject app v s4"
          using neg ok valid by (simp add: phr Let_def s3_def s4_def)
        also have "\<dots> = ((s5, []), None)"
        proof -
          have f: "o_secure s4 = secure" "o_request s4 = q" "o_subprotocol s4 = []"
            using s2(1,2,8) by (simp_all add: s4_def s3_def)
          obtain res where h: "processor_handshake v secure q [] (set_status 101 (o_response s4)) = (None, res)"
            using processor_handshake_accepts [of v secure q "[]" "set_status 101 (o_response s4)"] by (metis prod.collapse)
          then have "s5 = s4\<lparr>o_response := res\<rparr>" by (simp add: s5_def)
          then show ?thesis by (simp add: accept_or_reject_def assms(1) f h)
        qed
        finally have p: "process_request app (behind rest r) s1 = write_http_response None s5"
          using process_request_decided [of app "behind rest r" s1, folded s2_def] s2(4) by (simp add: s5_def s4_def s3_def)
        have none: "refusal secure rest r = None" using ok neg valid by (simp add: ref)
        have res: "o_response s5 = snd (processor_handshake v secure q [] (set_status 101 new_response))"
          using s2(11) by (simp add: s5_def s4_def s3_def)
        have status: "rs_status_code (o_response s5) = 101" unfolding res
          by (simp add: processor_handshake_def process_handshake_def process_handshake00_def Let_def)
        show ?thesis unfolding p none
          using s2(1-10) v0 assms(3) status res
          by (intro decided_accepted) (simp_all add: accepted_def q_def [symmetric] Let_def, simp_all add: s5_def s4_def s3_def)
      qed
    qed
  qed
qed

lemma request_decided:
  assumes "http_handler app = None" "validate_handler app = None"
  shows "decided secure ua r rest (refusal secure rest r) (request_complete app rest (reading secure ua r))"
proof -
  define s0 where "s0 = reading secure ua r"
  have s0: "o_request s0 = r" "o_secure s0 = secure" "rs_status_code (o_response s0) = 0" "\<not> o_is_http s0" "o_processor s0 = None"
    "m_internal_state (o_con s0) = READ_HTTP_REQUEST" "o_requested s0 = []" "o_subprotocol s0 = []"
    "o_user_agent s0 = ua" "o_response s0 = new_response"
    by (simp_all add: s0_def reading_def new_opening_def new_response_def)
  have same: "(o_con s0)\<lparr>m_processor := new_hybi13 (m_is_server (o_con s0)) max_message_size\<rparr> = o_con s0"
    by (simp add: s0_def reading_def open_connection_def)
  have con [simp]: "o_con (reading a b d) = o_con s0" for a b d by (simp add: s0_def reading_def)
  show ?thesis
  proof (cases "is_websocket_handshake r")
    case False
    have i: "initialize_processor s0 = (s0, None)" using False s0 by (simp add: initialize_processor_def)
    have v: "\<not> version0 r" using False by (simp add: version0_def)
    show ?thesis
    proof (cases "u_valid (get_uri_from_host r (if secure then ''https'' else ''http''))")
      case True
      then show ?thesis unfolding s0_def [symmetric] using False s0 i assms(1) v
        by (auto simp: request_complete_def process_request_decided [of app rest s0] process_handshake_request_def process_http_def
            set_istate_def con_set_status_def refusal_def upd_response_def Let_def intro!: decided_refused)
    next
      case nv: False
      then show ?thesis unfolding s0_def [symmetric] using False s0 i assms(1) v
        by (auto simp: request_complete_def process_request_decided [of app rest s0] process_handshake_request_def process_http_def
            set_istate_def con_set_status_def refusal_def upd_response_def Let_def intro!: decided_refused)
    qed
  next
    case ws: True
    define v where "v = get_websocket_version r"
    have v0: "version0 r \<longleftrightarrow> v = 0" using ws by (simp add: version0_def v_def)
    define s1 where "s1 = get_processor v s0"
    show ?thesis
    proof (cases "v \<in> {0, 7, 8, 13}")
      case False
      then have "refusal secure rest r = Some (400, Library (if v < 0 then Lib_invalid_version else Lib_unsupported_version))"
        using ws by (simp add: refusal_def v_def [symmetric] Let_def)
      moreover have "request_complete app rest s0 = write_http_response
          (Some (Library (if v < 0 then Lib_invalid_version else Lib_unsupported_version)))
          (set_istate PROCESS_HTTP_REQUEST (fst (initialize_processor s0)))"
        using ws False s0 by (auto simp: request_complete_def initialize_processor_def v_def [symmetric] Let_def
            get_processor_def write_http_response_error_def)
      moreover have "rs_status_code (o_response (fst (initialize_processor s0))) = 400" "o_con (fst (initialize_processor s0)) = o_con s0"
        "\<not> o_is_http (fst (initialize_processor s0))" "o_processor (fst (initialize_processor s0)) \<noteq> Some 0"
        using ws False s0 by (auto simp: initialize_processor_def v_def [symmetric] Let_def get_processor_def)
      moreover have "\<not> version0 r" using False v0 by simp
      ultimately show ?thesis unfolding s0_def [symmetric]
        by (auto intro!: decided_refused simp: set_istate_def)
    next
      case True
      have s1: "o_request s1 = r" "o_secure s1 = secure" "rs_status_code (o_response s1) = 0" "\<not> o_is_http s1" "o_processor s1 = Some v"
        "o_con s1 = o_con s0" "o_requested s1 = []" "o_subprotocol s1 = []" "o_user_agent s1 = ua" "o_response s1 = new_response"
        using True s0 by (auto simp: s1_def get_processor_def same)
      have i: "initialize_processor s0 = (s1, None)"
        using ws True s0 by (auto simp: initialize_processor_def v_def [symmetric] Let_def s1_def get_processor_def)
      note dec = processor_decided [OF assms(2) ws v_def [symmetric] True]
      show ?thesis
      proof (cases "v = 0")
        case False
        then have "judged rest r = r" "behind rest r = rest" using v0 by (simp_all add: judged_def behind_def)
        moreover have "request_complete app rest s0 = process_request app rest s1"
          using i s1 False by (simp add: request_complete_def)
        ultimately show ?thesis unfolding s0_def [symmetric] using dec [of rest s1 secure ua] s1 False by simp
      next
        case v: True
        show ?thesis
        proof (cases "8 \<le> length rest")
          case True
          define s where "s = s1\<lparr>o_request := replace_header ''Sec-WebSocket-Key3'' (string_of (take 8 rest)) r\<rparr>"
          have "judged rest r = replace_header ''Sec-WebSocket-Key3'' (string_of (take 8 rest)) r" "behind rest r = drop 8 rest"
            using v v0 by (simp_all add: judged_def behind_def)
          moreover have "request_complete app rest s0 = process_request app (drop 8 rest) s"
            using i s1 v True by (simp add: request_complete_def s_def)
          ultimately show ?thesis unfolding s0_def [symmetric] using dec [of rest s secure ua] s1 True by (simp add: s_def)
        next
          case False
          then have "refusal secure rest r = Some (500, Processor Proc_short_key3)"
            using ws v by (simp add: refusal_def v_def [symmetric] Let_def)
          moreover have "request_complete app rest s0 = write_http_response (Some (Processor Proc_short_key3))
              (set_istate PROCESS_HTTP_REQUEST (upd_response (set_status 500) s1))"
            using i s1 v False s0(6) by (simp add: request_complete_def write_http_response_error_def upd_response_def)
          ultimately show ?thesis unfolding s0_def [symmetric] using s1 v v0
            by (auto intro!: decided_refused simp: set_istate_def upd_response_def)
        qed
      qed
    qed
  qed
qed

text \<open>The whole run of a server: its effects, and the connection at the end.\<close>

lemma server_run:
  assumes "request_consume (string_of buf) new_request = (Took n, r)" "rq_ready r" "n \<le> length buf"
    and "length buf \<le> connection_read_buffer_size"
    and "http_handler app = None" "validate_handler app = None" "open_handler app = None"
  obtains s s1 where
    "open_steps app rng [Start, Transport_ready None, Read_handshake None buf, Response_written None] (new_opening True secure ua) =
      (s, [Init_transport, Set_open_timer timeout_open_handshake, Async_read_handshake, Async_write_response (written r (o_response s)),
         Con Cancel_handshake_timer] @
         (if refusal secure (drop n buf) r = None then [Handle_read_frame (behind (drop n buf) r)] else [Con (Async_shutdown T_failed)]))"
    "rs_status_code (o_response s) = (case refusal secure (drop n buf) r of None \<Rightarrow> 101 | Some (code, _) \<Rightarrow> code)"
    "refusal secure (drop n buf) r = None \<Longrightarrow> o_con s = open_connection True \<and> accepted secure ua r (drop n buf) s"
    "\<And>code e. refusal secure (drop n buf) r = Some (code, e) \<Longrightarrow> con_state (o_con s) = Closed \<and> m_ec (o_con s) = Some e"
proof -
  obtain s1 effs where rc: "request_complete app (drop n buf) (reading secure ua r) = (s1, effs)" by fastforce
  have d: "effs = [Async_write_response (written r (o_response s1))]" "\<not> o_is_http s1"
    "o_con s1 = (o_con (reading secure ua r))\<lparr>m_internal_state := PROCESS_HTTP_REQUEST, m_ec := map_option snd (refusal secure (drop n buf) r)\<rparr>"
    "rs_status_code (o_response s1) = (case refusal secure (drop n buf) r of None \<Rightarrow> 101 | Some (code, _) \<Rightarrow> code)"
    "refusal secure (drop n buf) r = None \<Longrightarrow> accepted secure ua r (drop n buf) s1"
    using request_decided [OF assms(5,6), where secure = secure and ua = ua and rest = "drop n buf" and r = r] by (simp_all add: decided_def rc)
  have c: "con_state (o_con s1) = Connecting" "m_internal_state (o_con s1) = PROCESS_HTTP_REQUEST" "m_handshake_timer (o_con s1)"
    by (simp_all add: d(3) reading_def)
  define res where "res = handle_write_http_response app rng None s1"
  have steps: "open_steps app rng [Start, Transport_ready None, Read_handshake None buf, Response_written None] (new_opening True secure ua) =
      (fst res, [Init_transport, Set_open_timer timeout_open_handshake, Async_read_handshake, Async_write_response (written r (o_response s1))] @ snd res)"
    unfolding server_starts
    by (simp add: open_step_def server_reads [OF assms(1-4)] rc d(1) followed_by_def res_def split_def del: followed_by_simps)
  show ?thesis
  proof (cases "refusal secure (drop n buf) r")
    case None
    have w: "res = (s1\<lparr>o_con := (o_con s1)\<lparr>m_handshake_timer := False, m_internal_state := PROCESS_CONNECTION, con_state := Open\<rparr>\<rparr>,
        [Con Cancel_handshake_timer, Handle_read_frame (o_buf s1)])"
      unfolding res_def by (rule response_written(2) [OF c d(2) assms(7)]) (simp add: d(4) None)
    have con: "(o_con s1)\<lparr>m_handshake_timer := False, m_internal_state := PROCESS_CONNECTION, con_state := Open\<rparr> = open_connection True"
      unfolding d(3) by (simp add: reading_def None open_connection_def)
    show ?thesis
      by (rule that [of "fst res"]) (use steps w con d(4,5) None in \<open>simp_all add: accepted_def Let_def\<close>)
  next
    case (Some x)
    obtain code e where x: "x = (code, e)" by fastforce
    have "code \<noteq> 101" using Some x by (auto simp: refusal_def Let_def split: if_splits option.splits)
    then have w: "res = (s1\<lparr>o_con := fst (terminate (m_ec (o_con s1)) ((o_con s1)\<lparr>m_handshake_timer := False\<rparr>))\<rparr>,
        [Con Cancel_handshake_timer, Con (Async_shutdown T_failed)])"
      unfolding res_def by (intro response_written(1) [OF c d(2) assms(7)]) (simp add: d(4) Some x)
    have "m_ec (fst (terminate (m_ec (o_con s1)) ((o_con s1)\<lparr>m_handshake_timer := False\<rparr>))) = Some e"
      using c(1) by (simp add: terminate_def Let_def d(3) Some x)
    then show ?thesis
      by (intro that [of "fst res"]) (use steps w d(4) Some x in simp_all)
  qed
qed

subsection \<open>The size of a message\<close>

definition raw_size :: "'a http_scheme \<Rightarrow> nat" where
  "raw_size p = length (raw_headers p) + length (m_headers p)"

lemma raw_size_replace: "raw_size (replace_header k v p) \<le> raw_size p + length k + length v + 5"
proof -
  have "length (concat (map (\<lambda>(k, v). k @ '': '' @ v @ header_delimiter) (hdr_set k v hs))) + length (hdr_set k v hs)
      \<le> length (concat (map (\<lambda>(k, v). k @ '': '' @ v @ header_delimiter) hs)) + length hs + length k + length v + 5" for hs
    by (induction k v hs rule: hdr_set.induct) (auto simp: header_delimiter_def)
  then show ?thesis by (simp add: raw_size_def raw_headers_def replace_header_def)
qed

lemma sent_response_headers:
  assumes "process_handshake q [] (set_status 101 new_response) = (ec, s)"
  defines "key \<equiv> process_handshake_key (get_header ''Sec-WebSocket-Key'' q)"
  shows "length key = 28" "m_headers s = [(''Connection'', ''upgrade''), (''Sec-WebSocket-Accept'', key), (''Upgrade'', ''websocket'')]"
proof -
  have "new_response = new_response\<lparr>m_version := []\<rparr>" by (simp add: new_response_def)
  then have "process_handshake q [] (set_status 101 (new_response\<lparr>m_version := []\<rparr>)) = (ec, s)" using assms(1) by simp
  from response_headers [OF this]
  show "length key = 28" "m_headers s = [(''Connection'', ''upgrade''), (''Sec-WebSocket-Accept'', key), (''Upgrade'', ''websocket'')]"
    by (simp_all add: key_def)
qed

subsection \<open>A client and a server\<close>

text \<open>The request that a client with the user agent \<open>ua\<close> sends, and the response of a server.\<close>

definition sent_request :: "(nat \<Rightarrow> u32) \<Rightarrow> string \<Rightarrow> uri \<Rightarrow> string list \<Rightarrow> request" where
  "sent_request rng ua u subs = replace_header ''User-Agent'' ua (snd (client_handshake_request rng 0 new_request u subs))"

definition sent_response :: "string \<Rightarrow> request \<Rightarrow> response" where
  "sent_response ua r = finished ua (snd (process_handshake r [] (set_status 101 new_response)))"

lemma no_headers: "headers_ok (m_headers new_request)" "get_header k new_request = []" "headers_ok (m_headers new_response)"
  "get_header k (set_status code new_response) = []" "headers_ok (m_headers (set_status code new_response))"
  by (simp_all add: new_request_def new_response_def set_status_def get_header_def headers_ok_def hdr_ok_def)

lemma sent_request_facts:
  fixes rng :: "nat \<Rightarrow> u32" and t :: string
  assumes "requestable u" "\<forall>s \<in> set subs. token s" "trimmed ua" "ua \<noteq> []"
    and "length (u_resource u) + length (get_host_port u) + length (comma_separated subs) + length ua \<le> 15000"
  defines "q \<equiv> sent_request rng ua u subs"
  shows "request_consume (request_raw q @ t) new_request = (Took (length (request_raw q)), request_read q)"
    and "is_websocket_handshake (request_read q)" "get_websocket_version (request_read q) = 13"
    and "refusal (u_secure u) rest (request_read q) = None" "get_uri (u_secure u) (request_read q) = u"
    and "extract_subprotocols (request_read q) [] = (None, subs)" "length (request_raw q) \<le> 15400"
proof -
  obtain ec q0 where q0: "client_handshake_request rng 0 new_request u subs = (ec, q0)" by fastforce
  have q: "q = replace_header ''User-Agent'' ua q0" by (simp add: q_def sent_request_def q0)
  have hp: "trimmed (get_host_port u)" "get_host_port u \<noteq> []" using host_port_trimmed [OF assms(1)] by simp_all
  note f = client_request [OF q0 no_headers(1) hp(1) assms(2)]
  note wf0 = client_request_wf [OF q0 no_headers(1,2) assms(1,2)]
  have g: "get_header k q = (if ci_eq k ''User-Agent'' then ua else get_header k q0)" for k
    unfolding q by (rule get_header_replace [OF f(6)])
  have hd: "headers_ok (m_headers q)" unfolding q by (rule headers_ok_replace [OF f(6) _ assms(3)]) (simp add: header_names)
  have same: "get_header k q = get_header k q0"
    if "k \<in> {''Upgrade'', ''Connection'', ''Sec-WebSocket-Version'', ''Host'', ''Sec-WebSocket-Protocol'', ''Sec-WebSocket-Key'',
      ''Content-Length'', ''Sec-WebSocket-Extensions''}" for k
    using that by (auto simp: g other_names unused_names)
  have wf: "request_wf q" using wf0 hd same [of "''Host''"] same [of "''Content-Length''"] by (simp add: request_wf_def q)
  have raw: "request_raw q = request_raw_head q"
    using f(5) by (simp add: q request_raw_def request_raw_head_def new_request_def)
  have "raw_size q0 \<le> 240 + length (get_host_port u) + length (comma_separated subs)"
    using request_headers [OF q0] by (simp add: raw_size_def raw_headers_def header_delimiter_def)
  then have size: "length (request_raw_head q) + length (m_headers q) + 2 \<le> 15400"
    using raw_size_replace [of "''User-Agent''" ua q0] assms(5) f(2-4) by (simp add: request_raw_head_def header_delimiter_def raw_size_def q)
  then show "length (request_raw q) \<le> 15400" by (simp add: raw)
  show "request_consume (request_raw q @ t) new_request = (Took (length (request_raw q)), request_read q)"
    unfolding raw by (rule request_reads_back [OF wf]) (use size in \<open>simp add: max_header_size_def\<close>)
  have r: "get_header k (request_read q) = get_header k q" for k by (simp add: get_header_def request_read_def)
  show ws: "is_websocket_handshake (request_read q)"
    unfolding is_websocket_handshake_def r by (simp add: same f(7,8) tokens_found)
  have "read_int ''13'' = Some 13" by (simp add: read_int_def scan_integer_def is_space_def isdig_def digits_val_def digit_val_def)
  then show v: "get_websocket_version (request_read q) = 13"
    unfolding get_websocket_version_def r by (simp add: same f(9)) (simp add: request_read_def)
  have "validate_handshake (request_read q) = None"
    using base64_nonempty [OF raw_key_nonempty] unfolding validate_handshake_def r
    by (simp add: same f(12)) (simp add: request_read_def q f(2,4))
  moreover have "negotiate_extensions (request_read q) = (None, [])"
    by (rule negotiate_nothing) (simp add: r same f(13) no_headers)
  moreover show uri: "get_uri (u_secure u) (request_read q) = u"
    using uri_from_host_header [of u "request_read q"] assms(1)
    by (simp add: get_uri_def requestable_def r same f(10)) (simp add: request_read_def q f(3) split: if_splits)
  moreover have "u_valid u" using assms(1) by (simp add: requestable_def uri_wf_def)
  moreover have "judged rest (request_read q) = request_read q" using v by (simp add: judged_def version0_def)
  ultimately show "refusal (u_secure u) rest (request_read q) = None" using ws v by (simp add: refusal_def Let_def)
  show "extract_subprotocols (request_read q) [] = (None, subs)"
    by (rule server_reads_subprotocols [OF assms(2)]) (simp add: r same f(11) no_headers)
qed

lemma sent_response_facts:
  fixes r q :: request and t :: string
  assumes "trimmed ua" "ua \<noteq> []" "length ua \<le> 15000"
  defines "s \<equiv> sent_response ua r"
  shows "response_consume (response_raw s @ t) new_response = (Took (length (response_raw s)), response_read (t \<noteq> []) s)"
    and "get_header ''Sec-WebSocket-Key'' q = get_header ''Sec-WebSocket-Key'' r \<Longrightarrow>
      validate_server_handshake_response q (response_read (t \<noteq> []) s) = None"
    and "negotiate_extensions (response_read (t \<noteq> []) s) = (None, [])" "headers_ready (response_read (t \<noteq> []) s)"
proof -
  obtain ec s0 where s0: "process_handshake r [] (set_status 101 new_response) = (ec, s0)" by fastforce
  note f = server_response [OF s0 no_headers(5)]
  have tr: "trimmed []" by (simp add: trimmed_def)
  note f = f [OF tr]
  define s1 where "s1 = s0\<lparr>m_version := ''HTTP/1.1''\<rparr>"
  have "get_header ''Server'' s1 = []" using sent_response_headers(2) [OF s0] by (simp add: s1_def get_header_def ci_eq_def tolower_def)
  then have s: "s = replace_header ''Server'' ua s1"
    using assms(2) by (simp add: s_def sent_response_def s0 finished_def Let_def s1_def [symmetric])
  have h1: "headers_ok (m_headers s1)" using f(2) by (simp add: s1_def)
  have g: "get_header k s = (if ci_eq k ''Server'' then ua else get_header k s0)" for k
    unfolding s get_header_replace [OF h1] by (simp add: s1_def)
  have hd: "headers_ok (m_headers s)" unfolding s by (rule headers_ok_replace [OF h1 _ assms(1)]) (simp add: header_names)
  have same: "get_header k s = get_header k s0"
    if "k \<in> {''Upgrade'', ''Connection'', ''Sec-WebSocket-Accept'', ''Content-Length'', ''Sec-WebSocket-Extensions''}" for k
    using that by (auto simp: g other_names unused_names)
  have st: "m_version s = ''HTTP/1.1''" "rs_status_code s = 101" "rs_status_msg s = status_string 101" "m_body s = []"
    using f(4-6) by (simp_all add: s s1_def set_status_def new_response_def)
  have "raw_size s1 \<le> 130" using sent_response_headers [OF s0] by (simp add: s1_def raw_size_def raw_headers_def header_delimiter_def)
  then have "length (response_raw s) + length (m_headers s) + 2 \<le> max_header_size"
    using raw_size_replace [of "''Server''" ua s1] assms(3) st
    by (simp add: response_raw_def header_delimiter_def raw_size_def s [symmetric] max_header_size_def status_string.simps dec_int_def dec.simps)
  moreover have "response_wf s" unfolding response_wf_def st using hd same [of "''Content-Length''"] f(10) [of "''Content-Length''"]
    by (simp add: no_headers CR_def status_string.simps)
  ultimately show "response_consume (response_raw s @ t) new_response = (Took (length (response_raw s)), response_read (t \<noteq> []) s)"
    by (intro response_reads_back)
  have r: "get_header k (response_read b s) = get_header k s" "rs_status_code (response_read b s) = rs_status_code s" for k b
    by (simp_all add: get_header_def response_read_def)
  show "validate_server_handshake_response q (response_read (t \<noteq> []) s) = None"
    if "get_header ''Sec-WebSocket-Key'' q = get_header ''Sec-WebSocket-Key'' r"
    by (rule handshake_validates [where ?s0.0 = "set_status 101 new_response"]) (simp_all add: r st same f(7-9) that)
  show "negotiate_extensions (response_read (t \<noteq> []) s) = (None, [])"
    by (rule negotiate_nothing) (simp add: r same f(10) no_headers)
  show "headers_ready (response_read (t \<noteq> []) s)" by (simp add: response_read_def headers_ready_def)
qed

lemma open_steps_append:
  "open_steps app rng (evs @ evs') s = followed_by (open_steps app rng evs s) (open_steps app rng evs')"
  by (induction evs arbitrary: s) (simp_all add: prod_eq_iff)

lemma subprotocols_added:
  assumes "\<forall>s \<in> set subs. token s" "\<not> m_is_server (o_con c)"
  shows "open_steps app rng (map (Setup \<circ> Add_subprotocol) subs) c = (c\<lparr>o_requested := o_requested c @ subs\<rparr>, [])"
  using assms
proof (induction subs arbitrary: c)
  case (Cons s subs)
  have "s \<noteq> []" "\<not> list_ex is_not_token_char s" using Cons.prems(1) token_chars [of s] by (auto simp: token_def list_ex_iff)
  then have "open_step app rng (Setup (Add_subprotocol s)) c = (c\<lparr>o_requested := o_requested c @ [s]\<rparr>, [])"
    using Cons.prems(2) by (simp add: open_step_def run_setup_def add_subprotocol_def)
  then show ?case using Cons by (simp add: followed_by_def)
qed simp

text \<open>What the application of a client does, and the state in which the client waits for its request to be written.\<close>

definition prepare_client :: "uri \<Rightarrow> string list \<Rightarrow> open_event list" where
  "prepare_client u subs = Setup (Set_uri u) # map (Setup \<circ> Add_subprotocol) subs @ [Start, Transport_ready None]"

definition waiting :: "istate \<Rightarrow> bool \<Rightarrow> string \<Rightarrow> uri \<Rightarrow> string list \<Rightarrow> request \<Rightarrow> open_state" where
  "waiting i secure ua u subs q = (new_opening False secure ua)\<lparr>o_con := (open_connection False)\<lparr>con_state := Connecting,
       m_internal_state := i, m_handshake_timer := True, m_draws := 4\<rparr>,
     o_processor := Some 13, o_uri := Some u, o_requested := subs, o_request := q, o_handshake_buffer := request_raw q\<rparr>"

lemma client_starts:
  fixes rng :: "nat \<Rightarrow> u32" and u :: uri
  assumes "\<forall>s \<in> set subs. token s" "ua \<noteq> []"
  defines "q \<equiv> sent_request rng ua u subs"
  shows "open_steps app rng (prepare_client u subs) (new_opening False secure ua) =
    (waiting WRITE_HTTP_REQUEST secure ua u subs q, [Init_transport, Set_open_timer timeout_open_handshake, Async_write_request (request_raw q)])"
proof -
  define c where "c = (new_opening False secure ua)\<lparr>o_uri := Some u, o_requested := subs\<rparr>"
  obtain q0 where q0: "client_handshake_request rng 0 new_request u subs = (None, q0)"
    by (simp add: client_handshake_request_def Let_def)
  have "get_header ''User-Agent'' q0 = []"
    using request_headers(2) [OF q0] by (simp add: get_header_def ci_eq_def tolower_def)
  then have q: "(if get_header ''User-Agent'' q0 = [] then (if ua \<noteq> [] then replace_header ''User-Agent'' ua q0
      else remove_header ''User-Agent'' q0) else q0) = q"
    using assms(2) by (simp add: q_def sent_request_def q0)
  have "open_steps app rng (Setup (Set_uri u) # map (Setup \<circ> Add_subprotocol) subs) (new_opening False secure ua) = (c, [])"
    using subprotocols_added [OF assms(1), of "(new_opening False secure ua)\<lparr>o_uri := Some u\<rparr>" app rng]
    by (simp add: open_step_def run_setup_def followed_by_def c_def new_opening_def)
  moreover have "open_steps app rng [Start, Transport_ready None] c =
    (waiting WRITE_HTTP_REQUEST secure ua u subs q, [Init_transport, Set_open_timer timeout_open_handshake, Async_write_request (request_raw q)])"
  proof -
    define c1 where "c1 = get_processor client_version (set_istate WRITE_HTTP_REQUEST (set_istate TRANSPORT_INIT c))"
    have c1: "o_processor c1 = Some 13" "o_uri c1 = Some u" "m_draws (o_con c1) = 0" "o_request c1 = new_request"
      "o_requested c1 = subs" "o_user_agent c1 = ua" "o_timeout_dur c1 = timeout_open_handshake"
      by (simp_all add: c1_def get_processor_def client_version_def set_istate_def c_def new_opening_def open_connection_def)
    have "send_http_request rng c1 = (waiting WRITE_HTTP_REQUEST secure ua u subs q,
        [Set_open_timer timeout_open_handshake, Async_write_request (request_raw q)])"
      unfolding send_http_request_def c1 option.case processor_request_def q0 Let_def
      by (simp add: q0 q set_open_timer_def c1 timeout_open_handshake_def followed_by_def)
        (simp add: c1_def get_processor_def client_version_def set_istate_def c_def waiting_def new_opening_def open_connection_def
          timeout_open_handshake_def)
    then show ?thesis
      by (simp add: open_step_def start_connection_def handle_transport_init_def followed_by_def c1_def c_def new_opening_def set_istate_def)
  qed
  ultimately show ?thesis
    unfolding prepare_client_def append_Cons [symmetric] open_steps_append by (simp add: followed_by_def)
qed

lemma client_reads:
  assumes "response_consume (string_of buf) new_response = (Took n, r)" "headers_ready r"
    and "validate_server_handshake_response q r = None" "fst (negotiate_extensions r) = None" "open_handler app = None"
  obtains c where "open_steps app rng [Request_written None, Read_response None buf] (waiting WRITE_HTTP_REQUEST secure ua u subs q) =
      (c, [Async_read_response, Con Cancel_handshake_timer, Handle_read_frame (drop n buf)])"
    "o_con c = (open_connection False)\<lparr>m_draws := 4\<rparr>"
proof -
  define w where "w = waiting READ_HTTP_RESPONSE secure ua u subs q"
  have 1: "open_step app rng (Request_written None) (waiting WRITE_HTTP_REQUEST secure ua u subs q) = (w, [Async_read_response])"
    by (simp add: open_step_def handle_send_http_request_def check_io_def waiting_def w_def set_istate_def new_opening_def)
  define w1 where "w1 = w\<lparr>o_response := r, o_con := (o_con w)\<lparr>m_handshake_timer := False\<rparr>\<rparr>"
  have w: "check_io READ_HTTP_RESPONSE None (o_con w) = Io_go" "o_response w = new_response" "m_handshake_timer (o_con w)"
    "o_request w1 = q" "o_processor w1 = Some 13" "o_response w1 = r"
    by (simp_all add: w_def w1_def waiting_def check_io_def new_opening_def)
  have "response_complete app rng (drop n buf) w1 = ((set_open w1)\<lparr>o_buf := drop n buf\<rparr>, [Handle_read_frame (drop n buf)])"
    using w(4-6) assms(3-5) by (simp add: response_complete_def processor_validate_response_def processor_extensions_def
        call_open_handler_def followed_by_def)
  then have "open_step app rng (Read_response None buf) w =
      ((set_open w1)\<lparr>o_buf := drop n buf\<rparr>, [Con Cancel_handshake_timer, Handle_read_frame (drop n buf)])"
    using assms(1,2) w(1-3) by (simp add: open_step_def handle_read_http_response_def cancel_open_timer_def followed_by_def w1_def)
  then have "open_steps app rng [Request_written None, Read_response None buf] (waiting WRITE_HTTP_REQUEST secure ua u subs q) =
      ((set_open w1)\<lparr>o_buf := drop n buf\<rparr>, [Async_read_response, Con Cancel_handshake_timer, Handle_read_frame (drop n buf)])"
    using 1 by (simp add: followed_by_def)
  moreover have "o_con ((set_open w1)\<lparr>o_buf := drop n buf\<rparr>) = (open_connection False)\<lparr>m_draws := 4\<rparr>"
    by (simp add: set_open_def w1_def w_def waiting_def open_connection_def)
  ultimately show ?thesis by (rule that)
qed

subsection \<open>Properties\<close>

text \<open>
  C31: A server without handlers for validation and plain HTTP refuses exactly the requests that \<open>refusal\<close> names, those
  of version 0 included: it answers with the status, keeps the error code, and asks for one shutdown of a failed
  connection.  Every other request that it has read opens the connection in the state \<open>open_connection\<close>, with the
  processor of its version, and the bytes behind it, less the third key in version 0, are read as frames.
\<close>
theorem server_answers:
  assumes "request_consume (string_of buf) new_request = (Took n, r)" "rq_ready r" "n \<le> length buf"
    and "length buf \<le> connection_read_buffer_size"
    and "http_handler app = None" "validate_handler app = None" "open_handler app = None"
    and "open_steps app rng [Start, Transport_ready None, Read_handshake None buf, Response_written None] (new_opening True secure ua) = (s, effs)"
  shows "case refusal secure (drop n buf) r of
      Some (code, e) \<Rightarrow> effs = [Init_transport, Set_open_timer timeout_open_handshake, Async_read_handshake,
          Async_write_response (written r (o_response s)), Con Cancel_handshake_timer, Con (Async_shutdown T_failed)] \<and>
        rs_status_code (o_response s) = code \<and> con_state (o_con s) = Closed \<and> m_ec (o_con s) = Some e
    | None \<Rightarrow> effs = [Init_transport, Set_open_timer timeout_open_handshake, Async_read_handshake,
          Async_write_response (written r (o_response s)), Con Cancel_handshake_timer, Handle_read_frame (behind (drop n buf) r)] \<and>
        rs_status_code (o_response s) = 101 \<and> o_con s = open_connection True \<and> o_processor s = Some (get_websocket_version r)"
proof -
  define verdict where "verdict = refusal secure (drop n buf) r"
  obtain s1 where s1:
    "open_steps app rng [Start, Transport_ready None, Read_handshake None buf, Response_written None] (new_opening True secure ua) =
      (s1, [Init_transport, Set_open_timer timeout_open_handshake, Async_read_handshake, Async_write_response (written r (o_response s1)),
         Con Cancel_handshake_timer] @
         (if verdict = None then [Handle_read_frame (behind (drop n buf) r)] else [Con (Async_shutdown T_failed)]))"
    "rs_status_code (o_response s1) = (case verdict of None \<Rightarrow> 101 | Some (code, _) \<Rightarrow> code)"
    "verdict = None \<Longrightarrow> o_con s1 = open_connection True \<and> accepted secure ua r (drop n buf) s1"
    "\<And>code e. verdict = Some (code, e) \<Longrightarrow> con_state (o_con s1) = Closed \<and> m_ec (o_con s1) = Some e"
    using server_run [OF assms(1-7), of rng secure ua] unfolding verdict_def by metis
  then have "s = s1" using assms(8) by simp
  then show ?thesis unfolding verdict_def [symmetric] using s1 assms(8)
    by (cases verdict) (auto simp: accepted_def Let_def split: prod.splits)
qed

lemma plain_request_read:
  "request_consume (request_raw_head sample_request) new_request = (Took (length (request_raw_head sample_request)), request_read sample_request)"
proof -
  have "request_wf sample_request" by (simp add: request_wf_def sample_request_def new_request_def header_eval)
  moreover have "length (request_raw_head sample_request) + length (m_headers sample_request) + 2 \<le> max_header_size"
    by (simp add: request_raw_head_def raw_headers_def header_delimiter_def sample_request_def new_request_def max_header_size_def)
  ultimately show ?thesis using request_reads_back [of sample_request "[]"] by simp
qed

theorem server_answers_witness:
  "\<exists>s effs. open_steps no_handlers (\<lambda>_. 0) [Start, Transport_ready None, Read_handshake None (bytes_of (request_raw_head sample_request)),
      Response_written None] (new_opening True False ''ws'') = (s, effs) \<and> rs_status_code (o_response s) = 426 \<and> con_state (o_con s) = Closed"
proof -
  define buf where "buf = bytes_of (request_raw_head sample_request)"
  obtain s effs where r: "open_steps no_handlers (\<lambda>_. 0) [Start, Transport_ready None, Read_handshake None buf, Response_written None]
      (new_opening True False ''ws'') = (s, effs)" by fastforce
  have read: "request_consume (string_of buf) new_request = (Took (length buf), request_read sample_request)"
    using plain_request_read by (simp add: buf_def)
  have ws: "\<not> is_websocket_handshake (request_read sample_request)"
    by (simp add: is_websocket_handshake_def get_header_def request_read_def sample_request_def new_request_def ci_eq_def tolower_def)
  have "refusal False [] (request_read sample_request) = Some (426, Library Lib_upgrade_required)"
    using ws by (simp add: refusal_def get_uri_from_host_def get_header_def request_read_def sample_request_def new_request_def
        rfind_char_def uri_of_host_def ci_eq_def tolower_def)
  moreover have "length buf \<le> connection_read_buffer_size" 
    by (simp add: buf_def request_raw_head_def raw_headers_def header_delimiter_def sample_request_def new_request_def connection_read_buffer_size_def)
  ultimately show ?thesis
    using server_answers [OF read _ _ _ _ _ _ r] r
    by (auto simp: request_read_def no_handlers_def buf_def)
qed

text \<open>
  C29: A client and a server that have only message handlers open a connection: the client writes a request; the server that
  reads it, with any bytes behind it, writes a response; the client reads this, with any bytes behind it; both ends are then in
  the state \<open>open_connection\<close>, with the client's URI and subprotocols at the server, and read the bytes behind as frames.
\<close>
theorem both_ends_open:
  assumes "requestable u" "\<forall>s \<in> set subs. token s" "trimmed ua" "ua \<noteq> []" "trimmed ua'" "ua' \<noteq> []"
    and "length (u_resource u) + length (get_host_port u) + length (comma_separated subs) + length ua \<le> 15000"
    and "length ua' \<le> 15000" "length t \<le> 900"
  shows "\<exists>q r c s c'.
    open_steps no_handlers rng (prepare_client u subs) (new_opening False secure ua) =
      (c, [Init_transport, Set_open_timer timeout_open_handshake, Async_write_request q]) \<and>
    open_steps no_handlers rng' [Start, Transport_ready None, Read_handshake None (bytes_of q @ t), Response_written None]
        (new_opening True (u_secure u) ua') =
      (s, [Init_transport, Set_open_timer timeout_open_handshake, Async_read_handshake, Async_write_response r,
         Con Cancel_handshake_timer, Handle_read_frame t]) \<and>
    open_steps no_handlers rng [Request_written None, Read_response None (bytes_of r @ t')] c =
      (c', [Async_read_response, Con Cancel_handshake_timer, Handle_read_frame t']) \<and>
    o_con s = open_connection True \<and> o_con c' = (open_connection False)\<lparr>m_draws := 4\<rparr> \<and>
    o_uri s = Some u \<and> o_requested s = subs"
proof -
  define q where "q = sent_request rng ua u subs"
  note q = sent_request_facts [OF assms(1-4,7), where rng = rng, folded q_def]
  have n: "http_handler no_handlers = None" "validate_handler no_handlers = None" "open_handler no_handlers = None"
    by (simp_all add: no_handlers_def)
  have str: "string_of (bytes_of x @ y) = x @ string_of y" for x y
    using string_of_bytes_of [of x] by (simp add: string_of_def)
  have read: "request_consume (string_of (bytes_of (request_raw q) @ t)) new_request = (Took (length (request_raw q)), request_read q)"
    using q(1) [of "string_of t"] by (simp add: str)
  have "length (request_raw q) \<le> length (bytes_of (request_raw q) @ t)"
    "length (bytes_of (request_raw q) @ t) \<le> connection_read_buffer_size" "rq_ready (request_read q)"
    using q(7) assms(9) by (simp_all add: connection_read_buffer_size_def request_read_def)
  note len = this
  have v0: "\<not> version0 (request_read q)" using q(3) by (simp add: version0_def)
  have verdict: "refusal (u_secure u) t (request_read q) = None" "drop (length (request_raw q)) (bytes_of (request_raw q) @ t) = t"
    using q(4) [of t] by simp_all
  have v: "behind t (request_read q) = t" "\<And>res. written (request_read q) res = response_raw res"
    using v0 by (simp_all add: behind_def written_def)
  obtain s where "open_steps no_handlers rng' [Start, Transport_ready None, Read_handshake None (bytes_of (request_raw q) @ t), Response_written None]
       (new_opening True (u_secure u) ua') =
      (s, [Init_transport, Set_open_timer timeout_open_handshake, Async_read_handshake, Async_write_response (response_raw (o_response s)),
         Con Cancel_handshake_timer] @ [Handle_read_frame t])"
    "o_con s = open_connection True \<and> accepted (u_secure u) ua' (request_read q) t s"
    by (rule server_run [OF read len(3,1,2) n(1,2,3), of rng' "u_secure u" ua', unfolded verdict(2) verdict(1) v if_P [OF refl]])
      simp_all
  then have s:
    "open_steps no_handlers rng' [Start, Transport_ready None, Read_handshake None (bytes_of (request_raw q) @ t), Response_written None]
       (new_opening True (u_secure u) ua') =
      (s, [Init_transport, Set_open_timer timeout_open_handshake, Async_read_handshake, Async_write_response (response_raw (o_response s)),
         Con Cancel_handshake_timer, Handle_read_frame t])"
    "o_con s = open_connection True" "accepted (u_secure u) ua' (request_read q) t s"
    by simp_all
  have res: "o_response s = sent_response ua' (request_read q)" "o_uri s = Some u" "o_requested s = subs"
    using s(3) q(3,5,6) v0 by (simp_all add: accepted_def sent_response_def judged_def processor_uri_def processor_subprotocols_def
        processor_handshake_def Let_def)
  note r = sent_response_facts [where r = "request_read q", OF assms(5,6,8), folded res(1)]
  define buf where "buf = bytes_of (response_raw (o_response s)) @ t'"
  define rr where "rr = response_read (string_of t' \<noteq> []) (o_response s)"
  have "get_header ''Sec-WebSocket-Key'' q = get_header ''Sec-WebSocket-Key'' (request_read q)"
    by (simp add: get_header_def request_read_def)
  then have valid: "validate_server_handshake_response q rr = None" unfolding rr_def by (rule r(2))
  have resp: "response_consume (string_of buf) new_response = (Took (length (response_raw (o_response s))), rr)"
    unfolding buf_def str rr_def by (rule r(1))
  have "headers_ready rr" "fst (negotiate_extensions rr) = None" unfolding rr_def by (simp_all only: r(3,4) fst_conv)
  then obtain c' where "open_steps no_handlers rng [Request_written None, Read_response None buf]
        (waiting WRITE_HTTP_REQUEST secure ua u subs q) =
      (c', [Async_read_response, Con Cancel_handshake_timer, Handle_read_frame (drop (length (response_raw (o_response s))) buf)])"
    "o_con c' = (open_connection False)\<lparr>m_draws := 4\<rparr>"
    using client_reads [OF resp _ valid _ n(3)] by metis
  moreover have "drop (length (response_raw (o_response s))) buf = t'" by (simp add: buf_def)
  ultimately have c': "open_steps no_handlers rng [Request_written None, Read_response None (bytes_of (response_raw (o_response s)) @ t')]
        (waiting WRITE_HTTP_REQUEST secure ua u subs q) =
      (c', [Async_read_response, Con Cancel_handshake_timer, Handle_read_frame t'])"
    "o_con c' = (open_connection False)\<lparr>m_draws := 4\<rparr>" by (simp_all only: buf_def)
  show ?thesis
    using client_starts [OF assms(2,4), of no_handlers rng u secure, folded q_def] s(1,2) res(2,3) c' by blast
qed

theorem both_ends_open_witness:
  "\<exists>q s r effs. open_steps no_handlers (\<lambda>_. 0) [Start, Transport_ready None, Read_handshake None (bytes_of q @ [0x81]), Response_written None]
      (new_opening True False ''a'') = (s, effs @ [Handle_read_frame [0x81]]) \<and> Async_write_response r \<in> set effs \<and>
      o_con s = open_connection True \<and> o_uri s = Some sample_uri \<and> o_requested s = [''chat'']"
proof -
  have req: "requestable sample_uri"
    by (simp add: requestable_def uri_wf_def plain_host_def sample_uri_def trimmed_def is_whitespace_char_def CR_def)
  have tok: "\<forall>s \<in> set [''chat'']. token s" "trimmed ''a''" by (simp_all add: header_eval)
  have sec: "u_secure sample_uri = False" by (simp add: sample_uri_def)
  have "length (u_resource sample_uri) + length (get_host_port sample_uri) + length (comma_separated [''chat'']) + length ''a'' \<le> 15000"
    by (simp add: sample_uri_def get_host_port_def default_port_def uri_default_port_def dec.simps)
  from both_ends_open [OF req tok(1,2) _ tok(2) _ this, of "[0x81]" "\<lambda>_. 0" False "\<lambda>_. 0" "[]", unfolded sec]
  obtain q r s where "open_steps no_handlers (\<lambda>_. 0) [Start, Transport_ready None, Read_handshake None (bytes_of q @ [0x81]), Response_written None]
      (new_opening True False ''a'') = (s, [Init_transport, Set_open_timer timeout_open_handshake, Async_read_handshake, Async_write_response r,
         Con Cancel_handshake_timer, Handle_read_frame [0x81]])"
    "o_con s = open_connection True" "o_uri s = Some sample_uri" "o_requested s = [''chat'']" by auto
  then show ?thesis
    by (intro exI [of _ q] exI [of _ s] exI [of _ r] exI [of _ "[Init_transport, Set_open_timer timeout_open_handshake, Async_read_handshake,
      Async_write_response r, Con Cancel_handshake_timer]"]) simp
qed

text \<open>
  C33: A client whose server answers with extensions that it cannot read asks for the shutdown of the failed connection,
  and then opens it all the same: the open handler's turn comes, the state is open, frames are read, and when the connection
  ends it is shut down a second time.
\<close>
theorem client_opens_after_refusal:
  assumes "con_state (o_con s) = Connecting" "m_internal_state (o_con s) = READ_HTTP_RESPONSE" "o_processor s = Some client_version"
    and "\<not> o_is_http s"
    and "response_consume (string_of buf) (o_response s) = (Took n, r)" "headers_ready r"
    and "validate_server_handshake_response (o_request s) r = None" "fst (negotiate_extensions r) \<noteq> None"
    and "open_handler app = None" "handle_read_http_response app rng None buf s = (s1, effs)"
  shows "con_state (o_con s1) = Open \<and> m_ec (o_con s1) = Some (Library Lib_extension_neg_failed) \<and>
    Con (Async_shutdown T_failed) \<in> set effs \<and> last effs = Handle_read_frame (drop n buf) \<and>
    open_shutdowns (effs @ snd (terminate_opening ec s1)) = 2"
proof -
  define w where "w = fst (cancel_open_timer (s\<lparr>o_response := r\<rparr>))"
  have w: "o_request w = o_request s" "o_response w = r" "o_processor w = Some 13" "con_state (o_con w) = Connecting"
    "\<not> m_handshake_timer (o_con w)" "\<not> o_is_http w"
    using assms(1,3,4) by (simp_all add: w_def cancel_open_timer_def client_version_def)
  define x where "x = w\<lparr>o_con := fst (terminate (Some (Library Lib_extension_neg_failed)) (o_con w))\<rparr>"
  have t: "terminate_opening (Some (Library Lib_extension_neg_failed)) w = (x, [Con (Async_shutdown T_failed)])"
    using w(4-6) by (simp add: terminate_opening_def x_def prod_eq_iff) (simp add: terminate_def Let_def)
  obtain e where e: "fst (negotiate_extensions r) = Some e" using assms(8) by blast
  have "response_complete app rng (drop n buf) w =
      ((set_open x)\<lparr>o_buf := drop n buf\<rparr>, [Con (Async_shutdown T_failed), Handle_read_frame (drop n buf)])"
    using w(1-3) assms(7,9) e t by (simp add: response_complete_def processor_validate_response_def processor_extensions_def
        call_open_handler_def followed_by_def)
  moreover have "check_io READ_HTTP_RESPONSE None (o_con s) = Io_go" using assms(1,2) by (simp add: check_io_def)
  then have "(s1, effs) = followed_by (cancel_open_timer (s\<lparr>o_response := r\<rparr>)) (response_complete app rng (drop n buf))"
    using assms(5,6,10) by (simp add: handle_read_http_response_def)
  then have "s1 = fst (response_complete app rng (drop n buf) w)"
    "effs = snd (cancel_open_timer (s\<lparr>o_response := r\<rparr>)) @ snd (response_complete app rng (drop n buf) w)"
    by (simp_all add: w_def prod_eq_iff)
  ultimately have "s1 = (set_open x)\<lparr>o_buf := drop n buf\<rparr>"
    "effs = snd (cancel_open_timer (s\<lparr>o_response := r\<rparr>)) @ [Con (Async_shutdown T_failed), Handle_read_frame (drop n buf)]"
    by simp_all
  moreover have "m_ec (o_con x) = Some (Library Lib_extension_neg_failed)"
    using w(4) by (simp add: x_def terminate_def Let_def)
  moreover have "open_shutdowns (snd (cancel_open_timer (s\<lparr>o_response := r\<rparr>))) = 0" by (simp add: cancel_open_timer_def)
  ultimately show ?thesis by (simp add: set_open_def terminate_opening_def)
qed

text \<open>A response that accepts the handshake, with an extension header that is not a list.\<close>

definition bad_response :: response where
  "bad_response = snd (process_handshake new_request []
     (replace_header ''Sec-WebSocket-Extensions'' ''='' (set_status 101 (new_response\<lparr>m_version := ''HTTP/1.1''\<rparr>))))"

lemma bad_response_read:
  "response_consume (response_raw bad_response @ []) new_response = (Took (length (response_raw bad_response)), response_read False bad_response)"
  "validate_server_handshake_response new_request (response_read False bad_response) = None"
  "fst (negotiate_extensions (response_read False bad_response)) \<noteq> None"
proof -
  define s0 where "s0 = replace_header ''Sec-WebSocket-Extensions'' ''='' (set_status 101 (new_response\<lparr>m_version := ''HTTP/1.1''\<rparr>))"
  define key where "key = process_handshake_key (get_header ''Sec-WebSocket-Key'' new_request)"
  obtain ec where b: "process_handshake new_request [] s0 = (ec, bad_response)"
    unfolding bad_response_def s0_def by (metis prod.collapse)
  have h0: "headers_ok (m_headers s0)"
    by (simp add: s0_def replace_header_def set_status_def new_response_def header_eval)
  note f = server_response [OF b h0]
  have tr: "trimmed []" by (simp add: trimmed_def)
  note f = f [OF tr]
  have "length key = 28"
    using length_b64_encoded [of "calc (replicate 80 0) (bytes_of (get_header ''Sec-WebSocket-Key'' new_request @ handshake_guid))"]
    by (simp add: length_calc key_def process_handshake_key_def ws_base64_encode_def b64_encoded_def)
  moreover have "m_headers bad_response = [(''Connection'', ''upgrade''), (''Sec-WebSocket-Accept'', key),
      (''Sec-WebSocket-Extensions'', ''=''), (''Upgrade'', ''websocket'')]"
    unfolding bad_response_def process_handshake_def Let_def key_def [symmetric]
    by (simp add: append_header_replace header_names appended_def get_header_def replace_header_def upgrade_token_def
        connection_token_def set_status_def new_response_def tolower_def ci_eq_def)
  moreover have st: "m_version bad_response = ''HTTP/1.1''" "rs_status_code bad_response = 101" "rs_status_msg bad_response = status_string 101"
    "m_body bad_response = []"
    using f(3-6) by (simp_all add: s0_def set_status_def new_response_def)
  ultimately have "length (response_raw bad_response) + length (m_headers bad_response) + 2 \<le> max_header_size"
    by (simp add: response_raw_def raw_headers_def header_delimiter_def status_string.simps dec_int_def dec.simps max_header_size_def)
  moreover have g0: "get_header ''Content-Length'' s0 = []" "get_header ''Sec-WebSocket-Extensions'' s0 = ''=''"
    by (simp_all add: s0_def replace_header_def set_status_def new_response_def get_header_def ci_eq_def tolower_def)
  have "response_wf bad_response" unfolding response_wf_def st using f(2) f(10) [of "''Content-Length''"] g0(1)
    by (simp add: CR_def status_string.simps)
  ultimately show "response_consume (response_raw bad_response @ []) new_response =
      (Took (length (response_raw bad_response)), response_read False bad_response)"
    using response_reads_back [of bad_response "[]"] by simp
  have r: "get_header k (response_read b s) = get_header k s" "rs_status_code (response_read b s) = rs_status_code s" for k b s
    by (simp_all add: get_header_def response_read_def)
  show "validate_server_handshake_response new_request (response_read False bad_response) = None"
    by (rule handshake_validates [where ?s0.0 = s0]) (simp_all add: r st f(7-9))
  have "fst (parse_parameter_list ''='' [])" by code_simp
  moreover have "get_header ''Sec-WebSocket-Extensions'' (response_read False bad_response) = ''=''"
    by (simp add: r f(10) g0(2))
  ultimately show "fst (negotiate_extensions (response_read False bad_response)) \<noteq> None"
    by (auto simp: negotiate_extensions_def enable_extensions_def get_header_as_plist_def get_header_def split: option.splits prod.splits bool.splits)
qed

theorem client_opens_after_refusal_witness:
  "\<exists>s1 effs. handle_read_http_response no_handlers (\<lambda>_. 0) None (bytes_of (response_raw bad_response))
      (waiting READ_HTTP_RESPONSE False ''ws'' sample_uri [] new_request) = (s1, effs) \<and> con_state (o_con s1) = Open \<and>
      Con (Async_shutdown T_failed) \<in> set effs"
proof -
  define s where "s = waiting READ_HTTP_RESPONSE False ''ws'' sample_uri [] new_request"
  have w: "con_state (o_con s) = Connecting" "m_internal_state (o_con s) = READ_HTTP_RESPONSE" "o_processor s = Some client_version"
    "\<not> o_is_http s" "o_response s = new_response" "o_request s = new_request"
    by (simp_all add: s_def waiting_def new_opening_def client_version_def)
  obtain s1 effs where r: "handle_read_http_response no_handlers (\<lambda>_. 0) None (bytes_of (response_raw bad_response)) s = (s1, effs)" by fastforce
  have "con_state (o_con s1) = Open \<and> Con (Async_shutdown T_failed) \<in> set effs"
    using client_opens_after_refusal [OF w(1-4) _ _ _ _ _ r] bad_response_read
    by (simp add: w(5,6) no_handlers_def headers_ready_def response_read_def)
  then show ?thesis using r unfolding s_def by blast
qed

end
