(* ===== verification/Spec2Isabelle.thy ===== *)
theory Spec2Isabelle
  imports Server_Spec Broadcast Ws_Opening_Runs
begin

text \<open>
  DMProxy is a proxy for the chat ("danmu") of live-streaming sites.  A client opens a websocket
  to the proxy and sends a room string \<open>platform_roomid\<close>; the proxy joins the room on that
  platform, keeps one platform object per room, and forwards every chat message of the room, as
  JSON, to all the connections that listen to it.  This library models the program's own code
  and proves what makes it correct; it also proves where it is not.

  \<^bold>\<open>Parts and theories.\<close>
    \<^item> \<open>Prelude\<close>: bytes, strings, little- and big-endian stores, \<open>std::map\<close> as an ascending
      association list, the collections of simplification rules.
    \<^item> \<open>Others\<close>, \<open>Base64\<close>, \<open>Crypto\<close>, \<open>Gzip\<close>: \<open>src/utils\<close>.  Base64, with the widths of its lengths
      and counters, is proved to round-trip while the encoding has less than \<open>2 ^ 31\<close> characters; \<open>ungzip\<close> to return the inflated data, the second \<open>ungzip_n\<close> to do so exactly when the data stay
      below its buffer.  MD5, RC4 and \<open>inflate\<close> are arguments.
    \<^item> \<open>Double\<close>, \<open>Json_Value\<close>, \<open>Json_Dump\<close>, \<open>Json_Parser\<close>, \<open>Json_Total\<close>, \<open>Json_Roundtrip\<close>:
      \<open>src/json11\<close>.  The binary64 numbers with \<open>strtod\<close>; values, accessors, comparison; the printer; the
      recursive-descent parser with explicit fuel, proved to be enough for every input in
      \<open>Json_Total\<close>; printing and parsing back in \<open>Json_Roundtrip\<close>.
    \<^item> \<open>Effects\<close>: what a handler asks of Boost.Asio and websocketpp, the macros of
      \<open>src/network/dmp_cs.hpp\<close>, the locale \<open>read_chain\<close> of a client with one outstanding operation, and
      \<open>drive\<close>, which feeds a client from a stream of bytes until it waits, fails or has closed its socket.
    \<^item> \<open>Platform_Base\<close>, \<open>Platforms\<close>: \<open>src/platforms/platform_base.cpp\<close> (listeners, publishing) and the
      registry \<open>platforms.cpp\<close> with the virtual dispatch.
    \<^item> \<open>Stt\<close>, \<open>Douyu\<close>, \<open>Bilibili\<close>, \<open>YY\<close>, \<open>Huajiao_Config\<close>, \<open>Huajiao\<close>: the four platform classes, one
      definition per member function, and their packet formats.
    \<^item> \<open>Server\<close>, \<open>Server_Spec\<close>: the room map and the handlers of \<open>src/main.cpp\<close>; the invariant of
      every reachable state; the abstract set of subscriptions that the handlers refine.
    \<^item> \<open>Ws_Bytes\<close>, \<open>Ws_Frame\<close>, \<open>Ws_Utf8\<close>, \<open>Ws_Error\<close>: the parts of the websocket library under
      \<open>src/include/websocketpp\<close> that have no state: byte order (\<open>common/network.hpp\<close>), frame headers and masking
      (\<open>frame.hpp\<close>), the UTF-8 automaton (\<open>utf8_validator.hpp\<close>), error codes and close codes.
    \<^item> \<open>Ws_Hybi13\<close>, \<open>Ws_Stream\<close>, \<open>Ws_Roundtrip\<close>: \<open>processors/hybi13.hpp\<close>, which reads frames from buffers of
      any size and prepares frames.  \<open>rx\<close> is its meaning on a whole stream; \<open>Ws_Roundtrip\<close> shows that the loop
      around \<open>consume\<close> computes \<open>rx\<close> and follows messages from one end to the other.
    \<^item> \<open>Ws_Connection\<close>, \<open>Ws_Session\<close>, \<open>Ws_Delivery\<close>: an open connection (\<open>impl/connection_impl.hpp\<close>): sending,
      the write queue, reading, control frames, the closing handshake, termination.  The locale
      \<open>connection_steps\<close> is the contract of the steps its functions are made of; \<open>con_run\<close> are the runs of a
      connection, with its completed operations in any order that the transport allows.
    \<^item> \<open>Ws_Sha1\<close>, \<open>Http_Text\<close>, \<open>Http_Message\<close>, \<open>Http_Stream\<close>, \<open>Http_Roundtrip\<close>, \<open>Ws_Uri\<close>, \<open>Ws_Handshake\<close>:
      what the opening handshake is made of.  \<open>sha1/sha1.hpp\<close>, proved to be the hash of the standard, which is written without the code's functions; the
      reader and printer of HTTP messages (\<open>http\<close>), which may get a message in pieces and reads back what it
      printed; URIs (\<open>uri.hpp\<close>); and the functions of \<open>processors/hybi13.hpp\<close> and \<open>processor.hpp\<close> by which a
      client and a server agree.
    \<^item> \<open>Ws_Md5\<close>, \<open>Ws_Hybi00\<close>: \<open>common/md5.hpp\<close>, proved to be the MD5 of the RFC, written without the code's functions, however
      the message is cut, and the processor
      of the oldest draft (\<open>processors/hybi00.hpp\<close>) that uses it: its server handshake and its text frames.
    \<^item> \<open>Ws_Opening\<close>, \<open>Ws_Opening_States\<close>, \<open>Ws_Opening_Runs\<close>: the connection during the opening handshake
      (\<open>impl/connection_impl.hpp\<close>), with the calls by which an application prepares it and the plain HTTP answers.
      \<open>open_steps\<close> performs events in any order; \<open>Ws_Opening_States\<close> shows what holds in every state, and
      \<open>Ws_Opening_Runs\<close> what a server answers to requests of every version and that a client and a server end in the state \<open>open_connection\<close>
      from which the theories of the open connection start.
    \<^item> \<open>Broadcast\<close>: \<open>platform_base::publish\<close> over these connections; the published text is UTF-8 exactly when
      the user id in it is.

  \<^bold>\<open>State and steps.\<close>  A handler is a function from the state of its object, the environment \<open>env\<close>
  (the outcomes of synchronous library calls) and what its operation completed with, to the new
  state and the list of requests (\<open>effect\<close>) it makes.  A \<open>world\<close> holds the room map, the objects and
  what is bound to each connection; \<open>proxy_step\<close> performs one event, a handler run with all its
  effects, and \<open>proxy_run\<close> is reachability.  The mutex \<open>rp_rw_mtx\<close> makes the handlers of
  \<open>main.cpp\<close> atomic, and a handler that locks it twice halts with \<open>Deadlock\<close>.  The platform objects'
  own handlers are atomic because each object's operations are chained.  Undefined behaviour and
  exceptions that leave a handler are the values of \<open>fault\<close>.

  \<^bold>\<open>Properties.\<close>  The properties that span components stand here, the others at the end of the theory
  of their component; each is preceded by its number and followed by a witness.

  \<^bold>\<open>Fuel.\<close>  The JSON parser takes fuel, two units per character and a constant; \<open>json_parser_returns\<close>
  shows that it suffices.  \<open>drive\<close> and \<open>drain\<close> take as fuel the number of reads that may complete; the properties of
  the platforms name one that suffices for the stream they are about.  The loops of \<open>gzip.cpp\<close> are partial functions, since an \<open>inflate\<close> that
  always fills its buffer makes them run for ever.  The loops of the connection that read a buffer
  (\<open>receive\<close>, \<open>read_loop\<close>, \<open>receive00\<close>) are partial functions as well, and are proved to return
  (\<open>receive_rx\<close>, \<open>read_loop_rx\<close>, \<open>receive00_rx\<close>).

  \<^bold>\<open>Not modelled.\<close>  The start-up in \<open>main\<close> (command line, sockets, threads), logging, the messages
  generated by protoc (a record of codecs stands for them), and the library headers under
  \<open>src/include/google\<close>; Boost, zlib and OpenSSL are not under \<open>src\<close> and are arguments.  Of websocketpp, the endpoints
  (they forward calls to connections), the Asio transport (its completions are the events), accessors, log output,
  interrupt handlers, the transports and configurations that the program does not select, and the compression
  extension, which the configuration disables, are not modelled.
\<close>

section \<open>Properties of the proxy\<close>

text \<open>A platform whose objects answer with the codec \<open>plain_codec\<close>, in the environment \<open>calm\<close>.\<close>

definition sample_world :: "(hdl \<times> string) list \<Rightarrow> world" where
  "sample_world joins =
     foldl (\<lambda>w (h, roomstr). proxy_step calm plain_codec (Client_message h TEXT roomstr) w) init_world joins"

lemma sample_run_snoc:
  "proxy_run plain_codec init_world (sample_world joins) \<Longrightarrow> halted (sample_world joins) = None \<Longrightarrow>
     proxy_run plain_codec init_world (sample_world (joins @ [(h, r)]))"
  unfolding sample_world_def foldl_append foldl.simps prod.case by (rule run_step)

lemma sample_run_Nil: "proxy_run plain_codec init_world (sample_world [])"
  by (simp add: sample_world_def run_begin)

lemma sample_halted:
  "halted (sample_world [(1, ''douyu_12'')]) = None"
  "halted (sample_world [(1, ''douyu_12''), (2, ''douyu_12'')]) = None"
  "halted (sample_world [(1, ''YY_34'')]) = None"
  "halted (sample_world [(1, ''huajiao_123456789'')]) = None"
  "halted init_world = None"
  by code_simp+

lemma sample_runs:
  "proxy_run plain_codec init_world (sample_world [(1, r)])"
  "proxy_run plain_codec init_world (sample_world [(1, ''douyu_12''), (2, s)])"
proof -
  show one: "proxy_run plain_codec init_world (sample_world [(1, r)])" for r
    using sample_run_snoc [OF sample_run_Nil, of 1 r] by (simp add: sample_world_def init_world_def)
  show "proxy_run plain_codec init_world (sample_world [(1, ''douyu_12''), (2, s)])"
    using sample_run_snoc [OF one [of "''douyu_12''"] sample_halted(1), of 2 s] by simp
qed

lemma calm_upstream_ok: "upstream_ok calm"
  by (simp add: upstream_ok_def calm_def)

text \<open>
  C1: In every reachable state of the proxy that has not halted, a connection listens to at most one
  room of the room map, and that is the room its message handler is bound to.
\<close>
theorem one_room_per_connection:
  assumes "proxy_run cd init_world w" "halted w = None" "listens w h r" "listens w h s"
  shows "r = s \<and> msg_room w h = r"
proof -
  have "rooms_ok {} w" using proxy_run_inv [OF assms(1,2)] by (simp add: proxy_inv_def)
  then have "msg_room w h = r" "msg_room w h = s"
    using listens_only [OF _ _ assms(3)] listens_only [OF _ _ assms(4)] by blast+
  then show ?thesis by blast
qed

theorem one_room_per_connection_witness:
  "''douyu_12'' = ''douyu_12'' \<and> msg_room (sample_world [(1, ''douyu_12'')]) 1 = ''douyu_12''"
proof -
  have "listens (sample_world [(1, ''douyu_12'')]) 1 ''douyu_12''" by code_simp
  then show ?thesis
    using one_room_per_connection [OF sample_runs(1) sample_halted(1)] by blast
qed

text \<open>
  C4: In every reachable state, each entry of the room map points to a live object whose platform name
  and room id make up its key, with a close callback; two rooms never share an object.
\<close>
theorem room_map_is_keyed:
  assumes "proxy_run cd init_world w" "halted w = None" "rp_map w r = Some i"
  shows "\<exists>p. objects w i = Some p \<and> roomstr_of (m_platform_name (base_of p)) (m_roomid (base_of p)) = r \<and>
      base.m_close_callback (base_of p) \<and> (\<forall>s. rp_map w s = Some i \<longrightarrow> s = r)"
proof -
  have ok: "rooms_ok {} w" using proxy_run_inv [OF assms(1,2)] by (simp add: proxy_inv_def)
  obtain p where "objects w i = Some p" "room_key p = r" "obj_ok w i p"
    using rooms_ok_mapped [OF ok assms(3)] by metis
  then show ?thesis
    using rooms_ok_one_room [OF ok _ assms(3)] by (auto simp: room_key_def obj_ok_def)
qed

theorem room_map_is_keyed_witness:
  "\<exists>p. objects (sample_world [(1, ''douyu_12'')]) 0 = Some p \<and>
      roomstr_of (m_platform_name (base_of p)) (m_roomid (base_of p)) = ''douyu_12'' \<and>
      base.m_close_callback (base_of p) \<and>
      (\<forall>s. rp_map (sample_world [(1, ''douyu_12'')]) s = Some 0 \<longrightarrow> s = ''douyu_12'')"
proof -
  have "rp_map (sample_world [(1, ''douyu_12'')]) ''douyu_12'' = Some 0" by code_simp
  then show ?thesis by (rule room_map_is_keyed [OF sample_runs(1) sample_halted(1)])
qed

text \<open>
  C2: A text message with a well-formed room string refines the abstract operation on the set of
  subscriptions: nothing when the client is in that room, a move to the room when it exists or can
  be opened, and otherwise only the departure from the old room; no other connection is affected.
\<close>
theorem message_refines_subscribe:
  assumes "proxy_run cd init_world w" "halted w = None" "upstream_ok e"
    and "split_roomstr (trim e payload) = Some (tag, roomid)"
    and "halted (proxy_step e cd (Client_message h TEXT payload) w) = None"
  shows "subs (proxy_step e cd (Client_message h TEXT payload) w) =
    (if msg_room w h = trim e payload \<and> rp_map w (msg_room w h) \<noteq> None then subs w
     else if joinable e w (trim e payload) tag roomid then subscribe h (trim e payload) (subs w)
     else unsubscribe h (subs w))"
  using message_subs [OF proxy_run_inv [OF assms(1,2)] assms(2-4)] assms(5)
  by (simp add: proxy_step_def)

theorem message_refines_subscribe_witness:
  "subs (sample_world [(1, ''douyu_12''), (2, ''douyu_12'')]) =
    (if msg_room (sample_world [(1, ''douyu_12'')]) 2 = ''douyu_12'' \<and>
        rp_map (sample_world [(1, ''douyu_12'')]) (msg_room (sample_world [(1, ''douyu_12'')]) 2) \<noteq> None
     then subs (sample_world [(1, ''douyu_12'')])
     else if joinable calm (sample_world [(1, ''douyu_12'')]) ''douyu_12'' ''douyu'' ''12''
     then subscribe 2 ''douyu_12'' (subs (sample_world [(1, ''douyu_12'')]))
     else unsubscribe 2 (subs (sample_world [(1, ''douyu_12'')])))"
proof -
  have t: "trim calm ''douyu_12'' = ''douyu_12''" by code_simp
  have s: "split_roomstr (trim calm ''douyu_12'') = Some (''douyu'', ''12'')" by code_simp
  have w: "sample_world [(1, ''douyu_12''), (2, ''douyu_12'')] =
      proxy_step calm plain_codec (Client_message 2 TEXT ''douyu_12'') (sample_world [(1, ''douyu_12'')])"
    by (simp add: sample_world_def)
  show ?thesis
    unfolding w
    by (rule message_refines_subscribe [OF sample_runs(1) sample_halted(1) calm_upstream_ok s, unfolded t])
      (use sample_halted(2) in \<open>simp only: w\<close>)
qed

text \<open>
  C3: The close handler of a connection removes it from the room the handler is bound to and changes
  no other subscription.
\<close>
theorem close_refines_unsubscribe:
  assumes "proxy_run cd init_world w" "halted w = None" "upstream_ok e" "close_room w h = Some r"
    and "halted (proxy_step e cd (Client_closed h) w) = None"
  shows "subs (proxy_step e cd (Client_closed h) w) = subs w - {(h, r)}"
  using close_subs [OF proxy_run_inv [OF assms(1,2)] assms(2,3)] assms(4,5)
  by (simp add: proxy_step_def client_closed_def)

theorem close_refines_unsubscribe_witness:
  "subs (proxy_step calm plain_codec (Client_closed 1) (sample_world [(1, ''douyu_12'')])) =
     subs (sample_world [(1, ''douyu_12'')]) - {(1, ''douyu_12'')}"
proof -
  have "close_room (sample_world [(1, ''douyu_12'')]) 1 = Some ''douyu_12''" by code_simp
  moreover have "halted (proxy_step calm plain_codec (Client_closed 1) (sample_world [(1, ''douyu_12'')])) = None"
    by code_simp
  ultimately show ?thesis
    by (rule close_refines_unsubscribe [OF sample_runs(1) sample_halted(1) calm_upstream_ok])
qed

text \<open>
  C5: Publishing in a mapped room goes through the connections that listen to it, in order, up to the
  first that cannot be reached: those before it get the text, in one frame each, and go on listening.
  That one and every one after it gets nothing, is closed and stops listening, reachable or not: the
  error code of the failed send is handed to the sends that follow.
\<close>
theorem publish_fan_out:
  assumes "proxy_run cd init_world w" "halted w = None" "rp_map w r = Some i"
  shows "\<exists>evs. out (exec_effect e i (Publish m) w) = out w @ evs \<and>
    (\<forall>h x. Sent h x \<in> set evs \<longleftrightarrow> x = m \<and> listens w h r \<and> (\<forall>k \<le> h. listens w k r \<longrightarrow> reachable e m k)) \<and>
    (\<forall>h. listens (exec_effect e i (Publish m) w) h r \<longleftrightarrow>
       listens w h r \<and> (\<forall>k \<le> h. listens w k r \<longrightarrow> reachable e m k)) \<and>
    (\<forall>h. h \<in> closes evs \<longleftrightarrow> listens w h r \<and> \<not> listens (exec_effect e i (Publish m) w) h r)"
proof -
  have ok: "rooms_ok {} w" using proxy_run_inv [OF assms(1,2)] by (simp add: proxy_inv_def)
  obtain p where p: "objects w i = Some p" "obj_ok w i p"
    using rooms_ok_mapped [OF ok assms(3)] by metis
  obtain b evs where b: "publish e m (base_of p) = (b, evs)" by (cases "publish e m (base_of p)")
  have base: "base_ok (base_of p)" using p(2) by (simp add: obj_ok_def)
  note f = publish_base [OF base b]
  have eq: "exec_effect e i (Publish m) w = emit evs (set_object i (with_base b p) w)"
    by (simp add: exec_effect_def exec_publish_def p(1) b)
  have l: "listens w h r \<longleftrightarrow> h \<in> listeners (base_of p)" for h
    using assms(3) p(1) by (simp add: listens_iff listeners_of_def)
  have "listens (exec_effect e i (Publish m) w) h r \<longleftrightarrow> h \<in> listeners b" for h
    using assms(3) base_of_with_base [OF f(3,4)] by (simp add: eq listens_iff set_object_def listeners_of_def)
  moreover have "out (exec_effect e i (Publish m) w) = out w @ evs" by (simp add: eq emit_def set_object_def)
  moreover have "h \<in> reached e m (base_of p) \<longleftrightarrow> listens w h r \<and> (\<forall>k \<le> h. listens w k r \<longrightarrow> reachable e m k)" for h
    by (auto simp: reached_def l)
  ultimately show ?thesis using publish_events [OF base b] f(2) l by auto
qed

definition one_gone :: env where
  "one_gone = calm\<lparr>expired := (\<lambda>h. h = 1)\<rparr>"

theorem publish_fan_out_witness:
  "\<not> listens (exec_effect one_gone 0 (Publish ''hi'') (sample_world [(1, ''douyu_12''), (2, ''douyu_12'')])) 2 ''douyu_12'' \<and>
   reachable one_gone ''hi'' 2 \<and> listens (sample_world [(1, ''douyu_12''), (2, ''douyu_12'')]) 2 ''douyu_12''"
proof -
  have "rp_map (sample_world [(1, ''douyu_12''), (2, ''douyu_12'')]) ''douyu_12'' = Some 0"
    "listens (sample_world [(1, ''douyu_12''), (2, ''douyu_12'')]) 1 ''douyu_12''"
    "listens (sample_world [(1, ''douyu_12''), (2, ''douyu_12'')]) 2 ''douyu_12''" by code_simp+
  moreover have "\<not> reachable one_gone ''hi'' 1" "reachable one_gone ''hi'' 2" "(1 :: hdl) \<le> 2"
    by (simp_all add: reachable_def one_gone_def calm_def)
  ultimately show ?thesis using publish_fan_out [OF sample_runs(2) sample_halted(2), of "''douyu_12''" 0 one_gone "''hi''"] by blast
qed

text \<open>
  An object only ever asks to close its own room: whatever event it handles, and when it is started
  or closed, every close callback it calls has its own platform name and room id.
\<close>
theorem callbacks_name_own_room:
  "set (filter is_callback
      (snd (platform_step e cd p ev) @ snd (platform_start e p) @ platform_close e p)) \<subseteq>
    {Close_callback (room_key p)}"
proof
  fix f
  assume f: "f \<in> set (filter is_callback
      (snd (platform_step e cd p ev) @ snd (platform_start e p) @ platform_close e p))"
  then have "is_callback f" by (simp only: set_filter mem_Collect_eq)
  then obtain r where "f = Close_callback r" by (cases f) (auto simp: is_callback_def)
  with f show "f \<in> {Close_callback (room_key p)}"
    using step_callbacks start_callbacks close_callbacks by auto
qed

text \<open>
  C21: A client that joins a room which exists already gets no close handler: when its connection ends
  nothing happens, and it stays a listener of the room.
\<close>
theorem joining_existing_room_leaks:
  assumes "proxy_run cd init_world w" "halted w = None" "upstream_ok e"
    and "split_roomstr (trim e payload) = Some (tag, roomid)"
    and "rp_map w (trim e payload) \<noteq> None" "msg_room w h \<noteq> trim e payload" "close_room w h = None"
    and "halted (proxy_step e cd (Client_message h TEXT payload) w) = None"
  shows "(h, trim e payload) \<in>
    subs (proxy_step e cd (Client_closed h) (proxy_step e cd (Client_message h TEXT payload) w))"
proof -
  let ?w1 = "on_server_message e (msg_room w h) h TEXT payload w"
  have step: "proxy_step e cd (Client_message h TEXT payload) w = ?w1" by (simp add: proxy_step_def)
  note inv = proxy_run_inv [OF assms(1,2)]
  have fin: "halted ?w1 = None" using assms(8) step by simp
  have "close_room ?w1 h = None"
    using join_existing_close_room [OF inv assms(2,4,3,5,6) fin] assms(7) by simp
  then have "proxy_step e cd (Client_closed h) ?w1 = ?w1"
    by (simp add: proxy_step_def client_closed_def)
  moreover have "(h, trim e payload) \<in> subs ?w1"
    using message_subs [OF inv assms(2,3,4) fin] assms(5,6) by (auto simp: joinable_def subscribe_def)
  ultimately show ?thesis by (simp add: step)
qed

theorem joining_existing_room_leaks_witness:
  "(2, ''douyu_12'') \<in>
    subs (proxy_step calm plain_codec (Client_closed 2) (sample_world [(1, ''douyu_12''), (2, ''douyu_12'')]))"
proof -
  have t: "trim calm ''douyu_12'' = ''douyu_12''" by code_simp
  have s: "split_roomstr (trim calm ''douyu_12'') = Some (''douyu'', ''12'')" by code_simp
  have m: "rp_map (sample_world [(1, ''douyu_12'')]) (trim calm ''douyu_12'') \<noteq> None"
    "msg_room (sample_world [(1, ''douyu_12'')]) 2 \<noteq> trim calm ''douyu_12''"
    "close_room (sample_world [(1, ''douyu_12'')]) 2 = None" by code_simp+
  have w: "sample_world [(1, ''douyu_12''), (2, ''douyu_12'')] =
      proxy_step calm plain_codec (Client_message 2 TEXT ''douyu_12'') (sample_world [(1, ''douyu_12'')])"
    by (simp add: sample_world_def)
  show ?thesis
    unfolding w
    by (rule joining_existing_room_leaks [OF sample_runs(1) sample_halted(1) calm_upstream_ok s m, unfolded t])
      (use sample_halted(2) in \<open>simp only: w\<close>)
qed

text \<open>
  C22: When the upstream of a new YY or huajiao room cannot be created, \<open>start\<close> calls the close callback
  while \<open>on_server_message\<close> holds \<open>rp_rw_mtx\<close>, and the server thread locks the mutex it holds.
\<close>
theorem failing_start_deadlocks:
  assumes "proxy_run cd init_world w" "halted w = None"
    and "split_roomstr (trim e payload) = Some (tag, roomid)" "tag \<in> {''YY'', ''huajiao''}"
    and "joinable e w (trim e payload) tag roomid" "rp_map w (trim e payload) = None"
    and "rp_map w (msg_room w h) = None" "get_connection_ec e = Some m"
  shows "halted (proxy_step e cd (Client_message h TEXT payload) w) = Some Deadlock"
proof -
  let ?r = "trim e payload" and ?old = "msg_room w h"
  let ?w1 = "w\<lparr>rp_locked := True, msg_room := (msg_room w)(h := trim e payload)\<rparr>"
  obtain p where p: "platform_get_instance e tag roomid = Some p" "is_room_valid p"
    using assms(5,6) by (auto simp: joinable_def split: option.splits)
  have unlocked: "\<not> rp_locked w" using proxy_run_inv [OF assms(1,2)] by (simp add: proxy_inv_def)
  have "proxy_step e cd (Client_message h TEXT payload) w =
      andthen (join_room e h ?r tag roomid ?w1) unlock"
    using assms(2,3,7) unlocked
    by (simp add: proxy_step_def on_server_message_def Let_def lock_unlocked andthen_def leave_room_def)
  moreover have "halted (join_room e h ?r tag roomid ?w1) = Some Deadlock"
    using assms(6) p open_room_error [OF _ _ assms(8) p(1) assms(4)] assms(2)
    by (simp add: join_room_def)
  ultimately show ?thesis by (simp add: andthen_halted_eq)
qed

theorem failing_start_deadlocks_witness:
  "halted (proxy_step (calm\<lparr>get_connection_ec := Some ''x''\<rparr>) plain_codec (Client_message 1 TEXT ''YY_34'') init_world) =
     Some Deadlock"
proof (rule failing_start_deadlocks [OF run_begin])
  show "halted init_world = None" by (rule sample_halted)
  show "split_roomstr (trim (calm\<lparr>get_connection_ec := Some ''x''\<rparr>) ''YY_34'') = Some (''YY'', ''34'')" by code_simp
  show "joinable (calm\<lparr>get_connection_ec := Some ''x''\<rparr>) init_world
      (trim (calm\<lparr>get_connection_ec := Some ''x''\<rparr>) ''YY_34'') ''YY'' ''34''" by code_simp
  show "rp_map init_world (trim (calm\<lparr>get_connection_ec := Some ''x''\<rparr>) ''YY_34'') = None"
    "rp_map init_world (msg_room init_world 1) = None" by code_simp+
qed (simp_all add: calm_def)

text \<open>
  A client that leaves a YY room as its last listener before the upstream has asked for a login makes
  \<open>close\<close> dereference the null timer.
\<close>
theorem early_leave_of_YY_crashes:
  assumes "proxy_run cd init_world w" "halted w = None" "close_room w h = Some r"
    and "last_listener w h r (Platform_YY y)" "\<not> m_hb_timer y"
  shows "halted (proxy_step e cd (Client_closed h) w) = Some Null_pointer"
  using last_leaves_yy [OF proxy_run_inv [OF assms(1,2)] assms(2,4,5)] assms(3)
  by (simp add: proxy_step_def client_closed_def)

definition sample_yy :: yy where
  "sample_yy = (case objects (sample_world [(1, ''YY_34'')]) 0 of Some (Platform_YY y) \<Rightarrow> y | _ \<Rightarrow> new_yy [])"

theorem early_leave_of_YY_crashes_witness:
  "halted (proxy_step calm plain_codec (Client_closed 1) (sample_world [(1, ''YY_34'')])) = Some Null_pointer"
proof (rule early_leave_of_YY_crashes [OF sample_runs(1) sample_halted(3)])
  show "close_room (sample_world [(1, ''YY_34'')]) 1 = Some ''YY_34''" by code_simp
  show "last_listener (sample_world [(1, ''YY_34'')]) 1 ''YY_34'' (Platform_YY sample_yy)" by code_simp
  show "\<not> m_hb_timer sample_yy" by code_simp
qed

text \<open>
  An object that was replaced in the map still erases the entry of its room: when a second object
  serves the room, the end of the first one's connection takes the room away from all its listeners.
\<close>
theorem stale_object_erases_room:
  assumes "proxy_run cd init_world w" "halted w = None" "objects w i = Some (Platform_huajiao y)"
  shows "rp_map (proxy_step e cd (Object_event i (Huajiao_event Hj_closed)) w)
      (roomstr_of (base.m_platform_name y) (base.m_roomid y)) = None"
proof -
  have inv: "proxy_inv w" using proxy_run_inv [OF assms(1,2)] .
  then have "base.m_close_callback y" using assms(3)
    by (fastforce simp: proxy_inv_def rooms_ok_def obj_ok_def base.defs)
  then show ?thesis
    using stale_close [OF assms(3) _ _ assms(2)] inv by (simp add: proxy_step_def proxy_inv_def)
qed

definition sample_hj :: huajiao where
  "sample_hj = (case objects (sample_world [(1, ''huajiao_123456789'')]) 0 of
     Some (Platform_huajiao y) \<Rightarrow> y | _ \<Rightarrow> new_huajiao calm [])"

theorem stale_object_erases_room_witness:
  "rp_map (proxy_step calm plain_codec (Object_event 0 (Huajiao_event Hj_closed))
      (sample_world [(1, ''huajiao_123456789'')]))
    (roomstr_of (base.m_platform_name sample_hj) (base.m_roomid sample_hj)) = None"
proof -
  have "objects (sample_world [(1, ''huajiao_123456789'')]) 0 = Some (Platform_huajiao sample_hj)" by code_simp
  then show ?thesis by (rule stale_object_erases_room [OF sample_runs(1) sample_halted(4)])
qed

end
